(* ===== verification/PgPrelude.thy ===== *)
theory PgPrelude
  imports Main "HOL-Library.Word" "HOL-Library.Product_Lexorder"
    "HOL-Library.List_Lexorder" "HOL-Library.Char_ord"
begin

text \<open>
  Shared vocabulary of the development: the Rust types the model uses, the pieces of the Rust
  standard library the sources call (integer parsing and printing, string trimming and splitting,
  \<open>Iterator::max_by_key\<close>, \<open>saturating_sub\<close>), and the generic lemmas on lists, options and words
  the component theories share.

  \<^item> \<open>i32\<close> node ids and timelines are mathematical integers: the sources compare and print them and
    never compute with them. Parsing one applies the range check of \<open>str::parse\<close>.
  \<^item> \<open>u64\<close>, \<open>u32\<close> and \<open>u16\<close> are words: addition wraps, as it does in the release profile.
  \<^item> A monotonic \<open>Instant\<close> and a \<open>Duration\<close> are natural numbers of nanoseconds. Subtraction on
    \<open>nat\<close> stops at zero, which is what \<open>Instant::duration_since\<close> does.
  \<^item> A wall-clock \<open>DateTime<Utc>\<close> and a signed \<open>chrono::Duration\<close> are integers of nanoseconds.
  \<^item> A \<open>String\<close> is the list of its bytes. White space is the ASCII white space of Rust's
    \<open>char::is_whitespace\<close>.
  \<^item> \<open>anyhow::Result<T>\<close> is a sum with the error on the left.
\<close>

section \<open>Types\<close>

type_synonym i32 = int
type_synonym u64 = "64 word"
type_synonym u32 = "32 word"
type_synonym u16 = "16 word"
type_synonym instant = nat
type_synonym duration = nat
type_synonym datetime = int

type_synonym ('e, 'a) result = "'e + 'a"

definition secs :: "nat \<Rightarrow> duration" where
  "secs n = n * 1000000000"

definition millis :: "nat \<Rightarrow> duration" where
  "millis n = n * 1000000"

text \<open>\<open>Duration::as_millis\<close> rounds down.\<close>

definition as_millis :: "duration \<Rightarrow> nat" where
  "as_millis d = d div 1000000"

definition csecs :: "int \<Rightarrow> int" where
  "csecs n = n * 1000000000"

definition is_ok :: "('e, 'a) result \<Rightarrow> bool" where
  "is_ok r = (case r of Inl _ \<Rightarrow> False | Inr _ \<Rightarrow> True)"

text \<open>\<open>Result::ok\<close>.\<close>

definition ok_opt :: "('e, 'a) result \<Rightarrow> 'a option" where
  "ok_opt r = (case r of Inl _ \<Rightarrow> None | Inr a \<Rightarrow> Some a)"

text \<open>\<open>Option::filter\<close>.\<close>

definition opt_filter :: "('a \<Rightarrow> bool) \<Rightarrow> 'a option \<Rightarrow> 'a option" where
  "opt_filter P x = (case x of None \<Rightarrow> None | Some a \<Rightarrow> if P a then Some a else None)"

text \<open>\<open>Option::unwrap_or\<close>.\<close>

definition unwrap_or :: "'a option \<Rightarrow> 'a \<Rightarrow> 'a" where
  "unwrap_or x d = (case x of None \<Rightarrow> d | Some a \<Rightarrow> a)"

text \<open>\<open>u64::saturating_sub\<close>.\<close>

definition saturating_sub :: "'a::len word \<Rightarrow> 'a word \<Rightarrow> 'a word" where
  "saturating_sub a b = (if a < b then 0 else a - b)"

text \<open>\<open>Iterator::max_by_key\<close>: of several maximal elements, the last one.\<close>

fun max_by_key_from :: "('a \<Rightarrow> 'k::linorder) \<Rightarrow> 'a \<Rightarrow> 'a list \<Rightarrow> 'a" where
  "max_by_key_from f best [] = best"
| "max_by_key_from f best (x # xs) =
     max_by_key_from f (if f best \<le> f x then x else best) xs"

fun max_by_key :: "('a \<Rightarrow> 'k::linorder) \<Rightarrow> 'a list \<Rightarrow> 'a option" where
  "max_by_key f [] = None"
| "max_by_key f (x # xs) = Some (max_by_key_from f x xs)"

section \<open>Strings\<close>

text \<open>\<open><[String]>::join\<close>.\<close>

fun join :: "string \<Rightarrow> string list \<Rightarrow> string" where
  "join sep [] = []"
| "join sep [x] = x"
| "join sep (x # y # xs) = x @ sep @ join sep (y # xs)"

definition is_ws :: "char \<Rightarrow> bool" where
  "is_ws c = (of_char c = (32::nat) \<or> (9 \<le> (of_char c :: nat) \<and> (of_char c :: nat) \<le> 13))"

definition trim_start :: "string \<Rightarrow> string" where
  "trim_start s = dropWhile is_ws s"

definition trim :: "string \<Rightarrow> string" where
  "trim s = rev (dropWhile is_ws (rev (dropWhile is_ws s)))"

text \<open>\<open>str::strip_prefix\<close>, \<open>str::ends_with\<close>, \<open>str::split_once\<close> with a character.\<close>

fun strip_prefix :: "string \<Rightarrow> string \<Rightarrow> string option" where
  "strip_prefix [] s = Some s"
| "strip_prefix (p # ps) [] = None"
| "strip_prefix (p # ps) (c # s) = (if p = c then strip_prefix ps s else None)"

definition starts_with :: "string \<Rightarrow> string \<Rightarrow> bool" where
  "starts_with s p = (strip_prefix p s \<noteq> None)"

definition ends_with :: "string \<Rightarrow> string \<Rightarrow> bool" where
  "ends_with s p = (strip_prefix (rev p) (rev s) \<noteq> None)"

fun split_once :: "char \<Rightarrow> string \<Rightarrow> (string \<times> string) option" where
  "split_once d [] = None"
| "split_once d (c # s) =
     (if c = d then Some ([], s)
      else map_option (\<lambda>(a, b). (c # a, b)) (split_once d s))"

text \<open>\<open>str::split_whitespace\<close>: the maximal runs of non-white-space characters.\<close>

fun split_ws_from :: "string \<Rightarrow> string \<Rightarrow> string list" where
  "split_ws_from acc [] = (if acc = [] then [] else [rev acc])"
| "split_ws_from acc (c # s) =
     (if is_ws c then (if acc = [] then split_ws_from [] s else rev acc # split_ws_from [] s)
      else split_ws_from (c # acc) s)"

definition split_whitespace :: "string \<Rightarrow> string list" where
  "split_whitespace s = split_ws_from [] s"

text \<open>\<open>str::lines\<close>: split at \<open>\n\<close>, drop one \<open>\r\<close> before it, no empty last line.\<close>

definition strip_cr :: "string \<Rightarrow> string" where
  "strip_cr s = (if s \<noteq> [] \<and> last s = CHR 0x0D then butlast s else s)"

fun lines_from :: "string \<Rightarrow> string \<Rightarrow> string list" where
  "lines_from acc [] = (if acc = [] then [] else [rev acc])"
| "lines_from acc (c # s) =
     (if c = CHR 0x0A then strip_cr (rev acc) # lines_from [] s
      else lines_from (c # acc) s)"

definition lines :: "string \<Rightarrow> string list" where
  "lines s = lines_from [] s"

section \<open>Numbers as text\<close>

text \<open>
  \<open>digit_char\<close> prints one digit (upper-case, as \<open>{:X}\<close> does); \<open>digit_val\<close> is
  \<open>char::to_digit\<close>, which takes hexadecimal digits of either case.
\<close>

definition digit_char :: "nat \<Rightarrow> char" where
  "digit_char d = (if d < 10 then char_of (48 + d) else char_of (55 + d))"

definition digit_val :: "nat \<Rightarrow> char \<Rightarrow> nat option" where
  "digit_val radix c =
     (let n = of_char c;
          d = (if 48 \<le> n \<and> n \<le> 57 then Some (n - 48)
               else if 65 \<le> n \<and> n \<le> 90 then Some (n - 55)
               else if 97 \<le> n \<and> n \<le> 122 then Some (n - 87)
               else None)
      in opt_filter (\<lambda>v. v < radix) d)"

fun show_radix :: "nat \<Rightarrow> nat \<Rightarrow> string" where
  "show_radix radix n =
     (if radix < 2 \<or> n < radix then [digit_char n]
      else show_radix radix (n div radix) @ [digit_char (n mod radix)])"

declare show_radix.simps [simp del]

definition show_nat :: "nat \<Rightarrow> string" where
  "show_nat n = show_radix 10 n"

definition show_int :: "int \<Rightarrow> string" where
  "show_int i = (if i < 0 then CHR ''-'' # show_nat (nat (- i)) else show_nat (nat i))"

definition show_hex :: "nat \<Rightarrow> string" where
  "show_hex n = show_radix 16 n"

fun digits_val_from :: "nat \<Rightarrow> nat \<Rightarrow> string \<Rightarrow> nat option" where
  "digits_val_from radix acc [] = Some acc"
| "digits_val_from radix acc (c # s) =
     (case digit_val radix c of
        None \<Rightarrow> None
      | Some d \<Rightarrow> digits_val_from radix (acc * radix + d) s)"

definition digits_val :: "nat \<Rightarrow> string \<Rightarrow> nat option" where
  "digits_val radix s = (if s = [] then None else digits_val_from radix 0 s)"

text \<open>
  \<open>u32::from_str_radix\<close> and its kin: an optional \<open>+\<close>, at least one digit, no overflow. The
  unsigned parsers treat \<open>-\<close> as an invalid digit; the signed one takes it.
\<close>

definition parse_unsigned :: "nat \<Rightarrow> nat \<Rightarrow> string \<Rightarrow> nat option" where
  "parse_unsigned radix bits s =
     (let body = (case s of c # r \<Rightarrow> if c = CHR ''+'' then r else s | [] \<Rightarrow> [])
      in opt_filter (\<lambda>v. v < 2 ^ bits) (digits_val radix body))"

definition parse_i32_radix :: "nat \<Rightarrow> string \<Rightarrow> i32 option" where
  "parse_i32_radix radix s =
     (case s of
        [] \<Rightarrow> None
      | c # r \<Rightarrow>
          if c = CHR ''-'' then
            map_option (\<lambda>v. - int v) (opt_filter (\<lambda>v. v \<le> 2 ^ 31) (digits_val radix r))
          else
            map_option int (opt_filter (\<lambda>v. v < 2 ^ 31)
              (digits_val radix (if c = CHR ''+'' then r else s))))"

definition parse_i32 :: "string \<Rightarrow> i32 option" where
  "parse_i32 s = parse_i32_radix 10 s"

text \<open>\<open>{:?}\<close> of a string: quoted, with the escapes of \<open>char::escape_debug\<close> (ASCII).\<close>

definition debug_char :: "char \<Rightarrow> string" where
  "debug_char c =
     (if c = CHR 0x22 \<or> c = CHR 0x5C then [CHR 0x5C, c]
      else if c = CHR 0x0A then CHR 0x5C # ''n''
      else if c = CHR 0x0D then CHR 0x5C # ''r''
      else if c = CHR 0x09 then CHR 0x5C # ''t''
      else if c = CHR 0x00 then CHR 0x5C # ''0''
      else if of_char c < (32 :: nat) \<or> of_char c = (127 :: nat)
      then CHR 0x5C # ''u{'' @ map (\<lambda>d. if (of_char d :: nat) < 65 then d else char_of (of_char d + 32 :: nat))
        (show_radix 16 (of_char c)) @ ''}''
      else [c])"

definition debug_str :: "string \<Rightarrow> string" where
  "debug_str s = [CHR 0x22] @ concat (map debug_char s) @ [CHR 0x22]"

definition i32_range :: "int \<Rightarrow> bool" where
  "i32_range i = (- (2 ^ 31) \<le> i \<and> i < 2 ^ 31)"

section \<open>Lemmas on results and options\<close>

lemma is_ok_simps [simp]: "is_ok (Inl e) = False" "is_ok (Inr a) = True"
  by (simp_all add: is_ok_def)

lemma ok_opt_simps [simp]: "ok_opt (Inl e) = None" "ok_opt (Inr a) = Some a"
  by (simp_all add: ok_opt_def)

lemma ok_opt_eq_Some [simp]: "ok_opt r = Some a \<longleftrightarrow> r = Inr a"
  by (cases r) simp_all

lemma opt_filter_simps [simp]:
  "opt_filter P None = None"
  "opt_filter P (Some a) = (if P a then Some a else None)"
  by (simp_all add: opt_filter_def)

lemma opt_filter_eq_Some [simp]: "opt_filter P x = Some a \<longleftrightarrow> x = Some a \<and> P a"
  by (cases x) auto

lemma unwrap_or_simps [simp]: "unwrap_or None d = d" "unwrap_or (Some a) d = a"
  by (simp_all add: unwrap_or_def)

lemma List_find_SomeD:
  assumes "List.find P xs = Some x"
  shows "x \<in> set xs" and "P x"
  using assms by (auto simp: find_Some_iff)

section \<open>Lemmas on \<open>max_by_key\<close>\<close>

lemma max_by_key_from_in: "max_by_key_from f b xs \<in> insert b (set xs)"
  by (induction f b xs rule: max_by_key_from.induct) auto

lemma max_by_key_from_ge: "f b \<le> f (max_by_key_from f b xs)"
proof (induction f b xs rule: max_by_key_from.induct)
  case (2 f best x xs)
  have "f best \<le> f (if f best \<le> f x then x else best)" by simp
  also have "\<dots> \<le> f (max_by_key_from f (if f best \<le> f x then x else best) xs)" by (rule 2)
  finally show ?case by simp
qed simp

lemma max_by_key_from_max: "y \<in> set xs \<Longrightarrow> f y \<le> f (max_by_key_from f b xs)"
proof (induction f b xs rule: max_by_key_from.induct)
  case (2 f best x xs)
  let ?b = "if f best \<le> f x then x else best"
  have "f x \<le> f ?b" by auto
  also have "\<dots> \<le> f (max_by_key_from f ?b xs)" by (rule max_by_key_from_ge)
  finally have "f x \<le> f (max_by_key_from f ?b xs)" .
  with 2 show ?case by auto
qed simp

lemma max_by_key_None [simp]: "max_by_key f xs = None \<longleftrightarrow> xs = []"
  by (cases xs) auto

lemma max_by_key_in: "max_by_key f xs = Some x \<Longrightarrow> x \<in> set xs"
  using max_by_key_from_in by (cases xs) fastforce+

lemma max_by_key_max: "max_by_key f xs = Some x \<Longrightarrow> y \<in> set xs \<Longrightarrow> f y \<le> f x"
  by (cases xs) (auto simp: max_by_key_from_ge max_by_key_from_max)

section \<open>Printing and parsing numbers\<close>

lemma digit_val_digit_char: "d < radix \<Longrightarrow> radix \<le> 16 \<Longrightarrow> digit_val radix (digit_char d) = Some d"
  by (auto simp: digit_val_def digit_char_def Let_def)

lemma digit_char_eval [simp]:
  "digit_char 0 = CHR ''0''"
  "digit_char 1 = CHR ''1''"
  "digit_char 2 = CHR ''2''"
  "digit_char 3 = CHR ''3''"
  "digit_char 4 = CHR ''4''"
  "digit_char 5 = CHR ''5''"
  "digit_char 6 = CHR ''6''"
  "digit_char 7 = CHR ''7''"
  "digit_char 8 = CHR ''8''"
  "digit_char 9 = CHR ''9''"
  "digit_char 10 = CHR ''A''"
  "digit_char 11 = CHR ''B''"
  "digit_char 12 = CHR ''C''"
  "digit_char 13 = CHR ''D''"
  "digit_char 14 = CHR ''E''"
  "digit_char 15 = CHR ''F''"
  "digit_char (Suc 0) = CHR ''1''"
  by code_simp+

lemma digits_val_from_append:
  "digits_val_from radix a (s @ t) =
     (case digits_val_from radix a s of None \<Rightarrow> None | Some b \<Rightarrow> digits_val_from radix b t)"
  by (induction radix a s rule: digits_val_from.induct) (auto split: option.splits)

lemma show_radix_nonempty [simp]: "show_radix radix n \<noteq> []"
  by (subst show_radix.simps) simp

lemma digits_val_from_show:
  assumes "2 \<le> radix" "radix \<le> 16"
  shows "digits_val_from radix 0 (show_radix radix n) = Some n"
  using assms
proof (induction radix n rule: show_radix.induct)
  case (1 radix n)
  show ?case
  proof (cases "n < radix")
    case True
    with "1.prems" show ?thesis
      by (simp add: show_radix.simps [of radix n] digit_val_digit_char)
  next
    case False
    with 1 have IH: "digits_val_from radix 0 (show_radix radix (n div radix)) = Some (n div radix)"
      by simp
    have "digit_val radix (digit_char (n mod radix)) = Some (n mod radix)"
      using "1.prems" by (intro digit_val_digit_char) auto
    with False "1.prems" IH show ?thesis
      by (simp add: show_radix.simps [of radix n] digits_val_from_append)
  qed
qed

lemma digits_val_show_radix:
  "2 \<le> radix \<Longrightarrow> radix \<le> 16 \<Longrightarrow> digits_val radix (show_radix radix n) = Some n"
  by (simp add: digits_val_def digits_val_from_show)

text \<open>Printed digits are never a sign, a separator or white space.\<close>

lemma digit_char_cases:
  "d < 16 \<Longrightarrow> digit_char d \<in> set ''0123456789ABCDEF''"
proof -
  have "\<forall>d \<in> set [0..<16]. digit_char d \<in> set ''0123456789ABCDEF''" by code_simp
  thus "d < 16 \<Longrightarrow> digit_char d \<in> set ''0123456789ABCDEF''" by simp
qed

lemma show_radix_chars:
  assumes "radix \<le> 16" "2 \<le> radix"
  shows "set (show_radix radix n) \<subseteq> set ''0123456789ABCDEF''"
  using assms
proof (induction radix n rule: show_radix.induct)
  case (1 radix n)
  show ?case
  proof (cases "n < radix")
    case True
    with "1.prems" have "n < 16" by simp
    from digit_char_cases [OF this] True show ?thesis
      by (simp add: show_radix.simps [of radix n])
  next
    case False
    with 1 have IH: "set (show_radix radix (n div radix)) \<subseteq> set ''0123456789ABCDEF''" by simp
    have "n mod radix < radix" using "1.prems" by simp
    hence "n mod radix < 16" using "1.prems" by linarith
    from digit_char_cases [OF this] IH False "1.prems" show ?thesis
      by (subst show_radix.simps) auto
  qed
qed

lemma show_radix_hd:
  assumes "radix \<le> 16" "2 \<le> radix"
  shows "hd (show_radix radix n) \<in> set ''0123456789ABCDEF''"
  using show_radix_chars [OF assms] hd_in_set [OF show_radix_nonempty] by blast

lemma parse_unsigned_show:
  assumes "2 \<le> radix" "radix \<le> 16" "n < 2 ^ bits"
  shows "parse_unsigned radix bits (show_radix radix n) = Some n"
proof -
  obtain c r where cr: "show_radix radix n = c # r"
    by (cases "show_radix radix n") auto
  have "c \<noteq> CHR ''+''" using show_radix_hd [OF assms(2,1), of n] cr by auto
  with digits_val_show_radix [OF assms(1,2), of n] cr assms(3) show ?thesis
    by (simp add: parse_unsigned_def)
qed

lemma parse_i32_show:
  assumes "i32_range i"
  shows "parse_i32 (show_int i) = Some i"
proof (cases "i < 0")
  case True
  with assms show ?thesis
    by (simp add: parse_i32_def parse_i32_radix_def show_int_def show_nat_def
        digits_val_show_radix i32_range_def)
next
  case False
  obtain c r where cr: "show_radix 10 (nat i) = c # r"
    by (cases "show_radix 10 (nat i)") auto
  have "c \<noteq> CHR ''+''" "c \<noteq> CHR ''-''" using show_radix_hd [of 10 "nat i"] cr by auto
  moreover from False assms have "nat i < 2 ^ 31" by (simp add: i32_range_def)
  ultimately show ?thesis
    using False cr digits_val_show_radix [of 10 "nat i"]
    by (simp add: parse_i32_def parse_i32_radix_def show_int_def show_nat_def)
qed

lemma digits_val_show_nat: "digits_val 10 (show_nat n) = Some n"
  unfolding show_nat_def by (rule digits_val_show_radix) simp_all

lemma show_nat_inj [simp]: "show_nat m = show_nat n \<longleftrightarrow> m = n"
  by (metis digits_val_show_nat option.inject)

lemma show_nat_no_minus: "show_nat n \<noteq> CHR ''-'' # s"
proof
  assume "show_nat n = CHR ''-'' # s"
  hence "hd (show_radix 10 n) = CHR ''-''" by (simp add: show_nat_def)
  thus False using show_radix_hd [of 10 n] by simp
qed

lemma show_int_inj [simp]: "show_int i = show_int j \<longleftrightarrow> i = j"
proof -
  have "show_nat m \<noteq> CHR ''-'' # s" "CHR ''-'' # s \<noteq> show_nat m" for m s
    using show_nat_no_minus [of m s] by metis+
  thus ?thesis by (auto simp: show_int_def)
qed

lemma show_int_chars: "set (show_int i) \<subseteq> set ''-0123456789ABCDEF''"
proof -
  have "set (show_radix 10 n) \<subseteq> set ''-0123456789ABCDEF''" for n
    by (rule order_trans [OF show_radix_chars]) auto
  thus ?thesis by (simp add: show_int_def show_nat_def)
qed

section \<open>Splitting and trimming\<close>

lemma split_once_append:
  "d \<notin> set a \<Longrightarrow> split_once d (a @ d # b) = Some (a, b)"
  by (induction a) auto

lemma split_once_SomeD:
  "split_once d s = Some (a, b) \<Longrightarrow> s = a @ d # b \<and> d \<notin> set a"
  by (induction s arbitrary: a) (auto split: if_splits)

lemma trim_id:
  assumes "\<forall>c \<in> set s. \<not> is_ws c"
  shows "trim s = s"
proof -
  have "dropWhile is_ws t = t" if "\<forall>c \<in> set t. \<not> is_ws c" for t
    using that by (cases t) auto
  from this [of s] this [of "rev s"] assms show ?thesis
    by (simp add: trim_def)
qed

lemma strip_prefix_append [simp]: "strip_prefix p (p @ s) = Some s"
  by (induction p) auto

lemma strip_prefix_SomeD: "strip_prefix p s = Some t \<Longrightarrow> s = p @ t"
  by (induction p s rule: strip_prefix.induct) (auto split: if_splits)

lemma strip_prefix_iff: "strip_prefix p s = Some t \<longleftrightarrow> s = p @ t"
  using strip_prefix_SomeD by auto

lemma starts_with_iff: "starts_with s p \<longleftrightarrow> (\<exists>t. s = p @ t)"
  by (auto simp: starts_with_def strip_prefix_iff)

lemma ends_with_iff: "ends_with s p \<longleftrightarrow> (\<exists>t. s = t @ p)"
proof
  assume "ends_with s p"
  then obtain t where "strip_prefix (rev p) (rev s) = Some t" by (auto simp: ends_with_def)
  hence "rev s = rev p @ t" by (rule strip_prefix_SomeD)
  hence "s = rev t @ p" by (metis rev_append rev_rev_ident)
  thus "\<exists>t. s = t @ p" by blast
next
  assume "\<exists>t. s = t @ p"
  thus "ends_with s p" by (auto simp: ends_with_def)
qed

section \<open>Tokens and lines\<close>

definition word_like :: "string \<Rightarrow> bool" where
  "word_like s = (s \<noteq> [] \<and> list_all (\<lambda>c. \<not> is_ws c) s)"

lemma split_ws_word:
  "list_all (\<lambda>c. \<not> is_ws c) w \<Longrightarrow> split_ws_from acc (w @ s) = split_ws_from (rev w @ acc) s"
  by (induction w arbitrary: acc) auto

lemma is_ws_space [simp]: "is_ws CHR '' ''"
  by (simp add: is_ws_def)

lemma split_whitespace_join:
  assumes "list_all word_like ws"
  shows "split_whitespace (join '' '' ws) = ws"
  using assms
proof (induction "'' ''" ws rule: join.induct)
  case (2 x)
  hence "split_whitespace (x @ []) = [x]"
    unfolding split_whitespace_def by (subst split_ws_word) (auto simp: word_like_def)
  thus ?case by simp
next
  case (3 x y xs)
  hence x: "word_like x" and IH: "split_whitespace (join '' '' (y # xs)) = y # xs" by simp_all
  have "split_whitespace (x @ '' '' @ join '' '' (y # xs)) =
      split_ws_from (rev x) ('' '' @ join '' '' (y # xs))"
    using x unfolding split_whitespace_def by (subst split_ws_word) (auto simp: word_like_def)
  also have "\<dots> = x # split_whitespace (join '' '' (y # xs))"
    using x by (simp add: split_whitespace_def word_like_def)
  finally show ?case using IH by simp
qed (simp add: split_whitespace_def)

lemma dropWhile_none: "list_all (\<lambda>c. \<not> P c) t \<Longrightarrow> dropWhile P t = t"
  by (cases t) auto

text \<open>Text made of lines, each ended by a newline, splits back into them.\<close>

lemma lines_from_line:
  "CHR 0x0A \<notin> set l \<Longrightarrow> lines_from acc (l @ CHR 0x0A # s) = strip_cr (rev acc @ l) # lines_from [] s"
  by (induction l arbitrary: acc) auto

lemma lines_concat:
  assumes "list_all (\<lambda>l. CHR 0x0A \<notin> set l \<and> CHR 0x0D \<notin> set l) ls"
  shows "lines (concat (map (\<lambda>l. l @ [CHR 0x0A]) ls)) = ls"
  using assms
proof (induction ls)
  case (Cons l ls)
  have "l \<noteq> [] \<Longrightarrow> last l \<noteq> CHR 0x0D" using Cons.prems last_in_set [of l] by force
  hence "strip_cr l = l" by (auto simp: strip_cr_def)
  with Cons lines_from_line [of l "[]"] show ?case by (simp add: lines_def)
qed (simp add: lines_def)

section \<open>Words\<close>

lemma unat_Suc_no_wrap:
  fixes w :: "'a::len word"
  assumes "Suc (unat w) < 2 ^ LENGTH('a)"
  shows "unat (w + 1) = Suc (unat w)"
  using assms by (simp add: unat_word_ariths)

lemma less_Suc_word:
  fixes w :: "'a::len word"
  assumes "Suc (unat w) < 2 ^ LENGTH('a)"
  shows "w < w + 1"
  using unat_Suc_no_wrap [OF assms] by (simp add: word_less_nat_alt)

lemma unat_saturating_sub: "unat (saturating_sub a b) = unat a - unat b"
  by (auto simp: saturating_sub_def word_less_nat_alt unat_sub_if')

end
