(* ===== verification/Consensus.thy ===== *)
theory Consensus
  imports PgPrelude
begin

text \<open>
  The consensus-store seam, \<open>crates/pg-agent-core/src/consensus.rs\<close>: the replicated document
  (lease, pause flag, scheduled switchover, generation counter), the \<open>ConsensusStore\<close> trait as a
  record of operations over a store state, and the in-memory store with its fault-injection
  switches.

  \<open>consensus_store\<close> (the record) is the trait object the HA loop is handed; the locale
  \<open>lease_store\<close> states what the trait's documentation promises of any implementation, and the
  in-memory store is shown to keep it. \<open>generation\<close> and \<open>term\<close> are \<open>u64\<close>: the release profile
  wraps on overflow, so the fencing theorems carry the bound under which no wrap occurs.
\<close>

section \<open>The replicated document\<close>

record lease =
  lease_holder :: i32
  lease_term :: u64
  lease_since :: datetime

record paused =
  paused_reason :: string
  paused_set_by :: string
  paused_at :: datetime

record switchover =
  so_target :: i32
  so_not_before :: "datetime option"

record cluster_state =
  cs_lease :: "lease option"
  cs_paused :: "paused option"
  cs_switchover :: "switchover option"
  cs_generation :: u64

definition default_cluster_state :: cluster_state where
  "default_cluster_state =
     \<lparr>cs_lease = None, cs_paused = None, cs_switchover = None, cs_generation = 0\<rparr>"

datatype takeover_outcome = Won lease | Lost "lease option"

datatype release_outcome = Released | NotHolder "lease option"

section \<open>The trait\<close>

text \<open>
  \<open>Box<dyn ConsensusStore>\<close>: five operations over a store state. Every one may fail; a write takes
  the wall-clock time at which it is issued.
\<close>

record 's consensus_store =
  st_read_state :: "'s \<Rightarrow> (string, cluster_state) result \<times> 's"
  st_try_takeover ::
    "i32 \<Rightarrow> (i32 \<times> u64) option \<Rightarrow> datetime \<Rightarrow> 's \<Rightarrow> (string, takeover_outcome) result \<times> 's"
  st_release :: "i32 \<Rightarrow> u64 \<Rightarrow> 's \<Rightarrow> (string, release_outcome) result \<times> 's"
  st_set_paused :: "paused option \<Rightarrow> 's \<Rightarrow> (string, unit) result \<times> 's"
  st_set_switchover :: "switchover option \<Rightarrow> 's \<Rightarrow> (string, unit) result \<times> 's"

section \<open>The in-memory store\<close>

record in_memory_store =
  im_state :: cluster_state
  im_fail_reads :: u32
  im_fail_writes :: u32
  im_unavailable :: bool

definition im_new :: in_memory_store where
  "im_new = \<lparr>im_state = default_cluster_state, im_fail_reads = 0, im_fail_writes = 0,
             im_unavailable = False\<rparr>"

definition im_install :: "cluster_state \<Rightarrow> in_memory_store \<Rightarrow> in_memory_store" where
  "im_install c s = s\<lparr>im_state := c\<rparr>"

definition im_snapshot :: "in_memory_store \<Rightarrow> cluster_state" where
  "im_snapshot s = im_state s"

definition fail_next_reads :: "u32 \<Rightarrow> in_memory_store \<Rightarrow> in_memory_store" where
  "fail_next_reads n s = s\<lparr>im_fail_reads := n\<rparr>"

definition fail_next_writes :: "u32 \<Rightarrow> in_memory_store \<Rightarrow> in_memory_store" where
  "fail_next_writes n s = s\<lparr>im_fail_writes := n\<rparr>"

definition set_unavailable :: "bool \<Rightarrow> in_memory_store \<Rightarrow> in_memory_store" where
  "set_unavailable b s = s\<lparr>im_unavailable := b\<rparr>"

text \<open>
  The gate of every call: persistent unavailability first, then the counter of injected failures,
  decremented when it is positive. Returns the error, if any, and the counter.
\<close>

definition check_gate :: "bool \<Rightarrow> u32 \<Rightarrow> string \<Rightarrow> (string, unit) result \<times> u32" where
  "check_gate unavail counter what =
     (if unavail then (Inl ''consensus store: unavailable (injected partition)'', counter)
      else if 0 < counter then (Inl (''consensus store: '' @ what @ '' failed (injected)''), counter - 1)
      else (Inr (), counter))"

definition read_gate :: "string \<Rightarrow> in_memory_store \<Rightarrow> (string, unit) result \<times> in_memory_store" where
  "read_gate what s =
     (let (r, n) = check_gate (im_unavailable s) (im_fail_reads s) what
      in (r, s\<lparr>im_fail_reads := n\<rparr>))"

definition write_gate :: "string \<Rightarrow> in_memory_store \<Rightarrow> (string, unit) result \<times> in_memory_store" where
  "write_gate what s =
     (let (r, n) = check_gate (im_unavailable s) (im_fail_writes s) what
      in (r, s\<lparr>im_fail_writes := n\<rparr>))"

definition im_read_state ::
  "in_memory_store \<Rightarrow> (string, cluster_state) result \<times> in_memory_store" where
  "im_read_state s =
     (case read_gate ''read'' s of
        (Inl e, s') \<Rightarrow> (Inl e, s')
      | (Inr _, s') \<Rightarrow> (Inr (im_state s'), s'))"

text \<open>The precondition of the compare-and-swap, as the source matches it.\<close>

fun observed_holds :: "lease option \<Rightarrow> (i32 \<times> u64) option \<Rightarrow> bool" where
  "observed_holds None None = True"
| "observed_holds (Some cur) (Some (h, t)) = (lease_holder cur = h \<and> lease_term cur = t)"
| "observed_holds _ _ = False"

definition im_try_takeover ::
  "i32 \<Rightarrow> (i32 \<times> u64) option \<Rightarrow> datetime \<Rightarrow> in_memory_store \<Rightarrow>
     (string, takeover_outcome) result \<times> in_memory_store" where
  "im_try_takeover candidate expected now s =
     (case write_gate ''takeover'' s of
        (Inl e, s') \<Rightarrow> (Inl e, s')
      | (Inr _, s') \<Rightarrow>
          let state = im_state s' in
          if \<not> observed_holds (cs_lease state) expected
          then (Inr (Lost (cs_lease state)), s')
          else
            let state = state\<lparr>cs_generation := cs_generation state + 1\<rparr>;
                l = \<lparr>lease_holder = candidate, lease_term = cs_generation state, lease_since = now\<rparr>;
                state = state\<lparr>cs_lease := Some l\<rparr>
            in (Inr (Won l), s'\<lparr>im_state := state\<rparr>))"

definition im_release ::
  "i32 \<Rightarrow> u64 \<Rightarrow> in_memory_store \<Rightarrow> (string, release_outcome) result \<times> in_memory_store" where
  "im_release h t s =
     (case write_gate ''release'' s of
        (Inl e, s') \<Rightarrow> (Inl e, s')
      | (Inr _, s') \<Rightarrow>
          let state = im_state s' in
          case cs_lease state of
            Some cur \<Rightarrow>
              if lease_holder cur = h \<and> lease_term cur = t
              then (Inr Released,
                    s'\<lparr>im_state := state\<lparr>cs_generation := cs_generation state + 1,
                                          cs_lease := None\<rparr>\<rparr>)
              else (Inr (NotHolder (Some cur)), s')
          | None \<Rightarrow> (Inr (NotHolder None), s'))"

definition im_set_paused ::
  "paused option \<Rightarrow> in_memory_store \<Rightarrow> (string, unit) result \<times> in_memory_store" where
  "im_set_paused p s =
     (case write_gate ''set_paused'' s of
        (Inl e, s') \<Rightarrow> (Inl e, s')
      | (Inr _, s') \<Rightarrow>
          (Inr (), s'\<lparr>im_state := (im_state s')\<lparr>cs_generation := cs_generation (im_state s') + 1,
                                                cs_paused := p\<rparr>\<rparr>))"

definition im_set_switchover ::
  "switchover option \<Rightarrow> in_memory_store \<Rightarrow> (string, unit) result \<times> in_memory_store" where
  "im_set_switchover w s =
     (case write_gate ''set_switchover'' s of
        (Inl e, s') \<Rightarrow> (Inl e, s')
      | (Inr _, s') \<Rightarrow>
          (Inr (), s'\<lparr>im_state := (im_state s')\<lparr>cs_generation := cs_generation (im_state s') + 1,
                                                cs_switchover := w\<rparr>\<rparr>))"

definition in_memory_ops :: "in_memory_store consensus_store" where
  "in_memory_ops =
     \<lparr>st_read_state = im_read_state, st_try_takeover = im_try_takeover, st_release = im_release,
      st_set_paused = im_set_paused, st_set_switchover = im_set_switchover\<rparr>"

section \<open>The contract of a lease store\<close>

text \<open>
  What the trait documentation promises, over the committed document \<open>abs s\<close>. The abstract effect
  of each write is a function on the document.
\<close>

definition lease_key :: "lease \<Rightarrow> i32 \<times> u64" where
  "lease_key l = (lease_holder l, lease_term l)"

definition spec_takeover ::
  "i32 \<Rightarrow> (i32 \<times> u64) option \<Rightarrow> datetime \<Rightarrow> cluster_state \<Rightarrow> takeover_outcome \<times> cluster_state" where
  "spec_takeover c e now st =
     (if map_option lease_key (cs_lease st) = e
      then let l = \<lparr>lease_holder = c, lease_term = cs_generation st + 1, lease_since = now\<rparr>
           in (Won l, st\<lparr>cs_generation := cs_generation st + 1, cs_lease := Some l\<rparr>)
      else (Lost (cs_lease st), st))"

definition spec_release ::
  "i32 \<Rightarrow> u64 \<Rightarrow> cluster_state \<Rightarrow> release_outcome \<times> cluster_state" where
  "spec_release h t st =
     (if map_option lease_key (cs_lease st) = Some (h, t)
      then (Released, st\<lparr>cs_generation := cs_generation st + 1, cs_lease := None\<rparr>)
      else (NotHolder (cs_lease st), st))"

definition spec_set_paused :: "paused option \<Rightarrow> cluster_state \<Rightarrow> cluster_state" where
  "spec_set_paused p st = st\<lparr>cs_generation := cs_generation st + 1, cs_paused := p\<rparr>"

definition spec_set_switchover :: "switchover option \<Rightarrow> cluster_state \<Rightarrow> cluster_state" where
  "spec_set_switchover w st = st\<lparr>cs_generation := cs_generation st + 1, cs_switchover := w\<rparr>"

text \<open>
  One committed write, by whichever node, and any number of them.
\<close>

inductive doc_step :: "cluster_state \<Rightarrow> cluster_state \<Rightarrow> bool" where
  step_takeover: "doc_step st (snd (spec_takeover c x now st))"
| step_release: "doc_step st (snd (spec_release h t st))"
| step_paused: "doc_step st (spec_set_paused p st)"
| step_switchover: "doc_step st (spec_set_switchover w st)"

abbreviation doc_reach :: "cluster_state \<Rightarrow> cluster_state \<Rightarrow> bool" where
  "doc_reach \<equiv> doc_step\<^sup>*\<^sup>*"

text \<open>
  The contract is linearizability. Between the start and the end of a call other nodes may commit
  writes (and so may this call's own first attempt, when it is retried elsewhere). A successful read
  returns a document that was the committed one at some moment of the call; a successful write took
  effect on the document of some moment of the call, and its outcome is that of the abstract
  operation there. A failed call says nothing of what was committed meanwhile.
\<close>

locale lease_store =
  fixes ops :: "'s consensus_store"
    and abs :: "'s \<Rightarrow> cluster_state"
  assumes read_ok: "st_read_state ops s = (Inr cst, s') \<Longrightarrow>
          doc_reach (abs s) cst \<and> doc_reach cst (abs s')"
    and read_err: "st_read_state ops s = (Inl e, s') \<Longrightarrow> doc_reach (abs s) (abs s')"
    and takeover_ok: "st_try_takeover ops c x now s = (Inr out, s') \<Longrightarrow>
          \<exists>st. doc_reach (abs s) st \<and> out = fst (spec_takeover c x now st) \<and>
               doc_reach (snd (spec_takeover c x now st)) (abs s')"
    and takeover_err: "st_try_takeover ops c x now s = (Inl e, s') \<Longrightarrow> doc_reach (abs s) (abs s')"
    and release_ok: "st_release ops h t s = (Inr rel, s') \<Longrightarrow>
          \<exists>st. doc_reach (abs s) st \<and> rel = fst (spec_release h t st) \<and>
               doc_reach (snd (spec_release h t st)) (abs s')"
    and release_err: "st_release ops h t s = (Inl e, s') \<Longrightarrow> doc_reach (abs s) (abs s')"
    and paused_ok: "st_set_paused ops p s = (Inr u, s') \<Longrightarrow>
          \<exists>st. doc_reach (abs s) st \<and> doc_reach (spec_set_paused p st) (abs s')"
    and paused_err: "st_set_paused ops p s = (Inl e, s') \<Longrightarrow> doc_reach (abs s) (abs s')"
    and switchover_ok: "st_set_switchover ops w s = (Inr u, s') \<Longrightarrow>
          \<exists>st. doc_reach (abs s) st \<and> doc_reach (spec_set_switchover w st) (abs s')"
    and switchover_err: "st_set_switchover ops w s = (Inl e, s') \<Longrightarrow> doc_reach (abs s) (abs s')"
begin

lemma read_reaches: "st_read_state ops s = (r, s') \<Longrightarrow> doc_reach (abs s) (abs s')"
  using read_ok read_err by (cases r) (blast intro: rtranclp_trans)+

lemma takeover_reaches:
  assumes "st_try_takeover ops c x now s = (r, s')"
  shows "doc_reach (abs s) (abs s')"
proof (cases r)
  case (Inr out)
  with takeover_ok assms obtain st where "doc_reach (abs s) st"
    "doc_reach (snd (spec_takeover c x now st)) (abs s')" by blast
  thus ?thesis by (meson step_takeover rtranclp.rtrancl_into_rtrancl rtranclp_trans)
qed (use takeover_err assms in blast)

lemma release_reaches:
  assumes "st_release ops h t s = (r, s')"
  shows "doc_reach (abs s) (abs s')"
proof (cases r)
  case (Inr rel)
  with release_ok assms obtain st where "doc_reach (abs s) st"
    "doc_reach (snd (spec_release h t st)) (abs s')" by blast
  thus ?thesis by (meson step_release rtranclp.rtrancl_into_rtrancl rtranclp_trans)
qed (use release_err assms in blast)

text \<open>A won takeover found the lease it expected and installed its own with the next generation.\<close>

lemma won_installs_lease:
  assumes "st_try_takeover ops c x now s = (Inr (Won l), s')"
  obtains st st' where "doc_reach (abs s) st" "doc_reach st' (abs s')"
    "map_option lease_key (cs_lease st) = x" "cs_lease st' = Some l"
    "l = \<lparr>lease_holder = c, lease_term = cs_generation st + 1, lease_since = now\<rparr>"
    "cs_generation st' = cs_generation st + 1"
proof -
  from takeover_ok [OF assms] obtain st where st: "doc_reach (abs s) st"
    "Won l = fst (spec_takeover c x now st)" "doc_reach (snd (spec_takeover c x now st)) (abs s')"
    by blast
  from st(2) show thesis
    by (intro that [OF st(1,3)]) (auto simp: spec_takeover_def Let_def split: if_splits)
qed

lemma lost_saw_another:
  assumes "st_try_takeover ops c x now s = (Inr (Lost cur), s')"
  shows "\<exists>st. doc_reach (abs s) st \<and> doc_reach st (abs s') \<and> cur = cs_lease st \<and>
              map_option lease_key (cs_lease st) \<noteq> x"
  using takeover_ok [OF assms] by (auto simp: spec_takeover_def Let_def split: if_splits)

lemma released_vacates:
  assumes "st_release ops h t s = (Inr Released, s')"
  shows "\<exists>st. doc_reach (abs s) st \<and> map_option lease_key (cs_lease st) = Some (h, t) \<and>
              doc_reach (st\<lparr>cs_generation := cs_generation st + 1, cs_lease := None\<rparr>) (abs s')"
  using release_ok [OF assms] by (auto simp: spec_release_def split: if_splits)

end

section \<open>The in-memory store keeps the contract\<close>

lemma observed_holds_iff: "observed_holds l e \<longleftrightarrow> map_option lease_key l = e"
  by (cases "(l, e)" rule: observed_holds.cases) (auto simp: lease_key_def)

lemma read_gate_state: "im_state (snd (read_gate w s)) = im_state s"
  by (simp add: read_gate_def split: prod.splits)

lemma write_gate_state: "write_gate w s = (r, s') \<Longrightarrow> im_state s' = im_state s"
  by (auto simp: write_gate_def split: prod.splits)

lemma im_read_ok: "im_read_state s = (r, s') \<Longrightarrow>
    im_state s' = im_state s \<and> (\<forall>c. r = Inr c \<longrightarrow> c = im_state s)"
  using read_gate_state [of "''read''" s]
  by (auto simp: im_read_state_def split: prod.splits sum.splits)

lemma im_takeover_cases:
  obtains (gate) e s1 where "write_gate ''takeover'' s = (Inl e, s1)"
      "im_try_takeover c x now s = (Inl e, s1)" "im_state s1 = im_state s"
  | (cas) s1 where "im_state s1 = im_state s"
      "im_try_takeover c x now s =
         (Inr (fst (spec_takeover c x now (im_state s))),
          s1\<lparr>im_state := snd (spec_takeover c x now (im_state s))\<rparr>)"
proof (cases "write_gate ''takeover'' s")
  case (Pair r s1)
  note st = write_gate_state [OF Pair]
  show thesis
  proof (cases r)
    case (Inl e)
    with Pair show thesis by (intro gate [OF _ _ st]) (simp_all add: im_try_takeover_def)
  next
    case (Inr u)
    with Pair st show thesis
      by (intro cas [OF st])
        (simp add: im_try_takeover_def spec_takeover_def observed_holds_iff Let_def)
  qed
qed

lemma im_takeover_ok:
  "im_try_takeover c x now s = (Inr out, s') \<Longrightarrow>
     (out, im_state s') = spec_takeover c x now (im_state s)"
  by (cases c x now s rule: im_takeover_cases) auto

lemma im_takeover_err: "im_try_takeover c x now s = (Inl e, s') \<Longrightarrow> im_state s' = im_state s"
  by (cases c x now s rule: im_takeover_cases) auto

lemma im_release_ok:
  "im_release h t s = (Inr rel, s') \<Longrightarrow> (rel, im_state s') = spec_release h t (im_state s)"
  by (auto simp: im_release_def spec_release_def lease_key_def Let_def dest!: write_gate_state
      split: prod.splits sum.splits if_splits option.splits)

lemma im_release_err: "im_release h t s = (Inl e, s') \<Longrightarrow> im_state s' = im_state s"
  by (auto simp: im_release_def Let_def dest!: write_gate_state
      split: prod.splits sum.splits if_splits option.splits)

lemma im_set_paused_ok:
  "im_set_paused p s = (Inr u, s') \<Longrightarrow> im_state s' = spec_set_paused p (im_state s)"
  by (auto simp: im_set_paused_def spec_set_paused_def dest!: write_gate_state
      split: prod.splits sum.splits)

lemma im_set_paused_err: "im_set_paused p s = (Inl e, s') \<Longrightarrow> im_state s' = im_state s"
  by (auto simp: im_set_paused_def dest!: write_gate_state split: prod.splits sum.splits)

lemma im_set_switchover_ok:
  "im_set_switchover w s = (Inr u, s') \<Longrightarrow> im_state s' = spec_set_switchover w (im_state s)"
  by (auto simp: im_set_switchover_def spec_set_switchover_def dest!: write_gate_state
      split: prod.splits sum.splits)

lemma im_set_switchover_err: "im_set_switchover w s = (Inl e, s') \<Longrightarrow> im_state s' = im_state s"
  by (auto simp: im_set_switchover_def dest!: write_gate_state split: prod.splits sum.splits)

text \<open>
  The in-memory store does nothing between the start of a call and its effect, so it keeps the
  contract with both intervals empty.
\<close>

interpretation mem: lease_store in_memory_ops im_state
proof unfold_locales
  show "\<exists>st. doc_reach (im_state s) st \<and> out = fst (spec_takeover c x now st) \<and>
      doc_reach (snd (spec_takeover c x now st)) (im_state s')"
    if "st_try_takeover in_memory_ops c x now s = (Inr out, s')" for c x now s out s'
    using that im_takeover_ok [of c x now s out s']
    by (intro exI [of _ "im_state s"]) (simp add: in_memory_ops_def prod_eq_iff)
  show "\<exists>st. doc_reach (im_state s) st \<and> rel = fst (spec_release h t st) \<and>
      doc_reach (snd (spec_release h t st)) (im_state s')"
    if "st_release in_memory_ops h t s = (Inr rel, s')" for h t s rel s'
    using that im_release_ok [of h t s rel s']
    by (intro exI [of _ "im_state s"]) (simp add: in_memory_ops_def prod_eq_iff)
  show "\<exists>st. doc_reach (im_state s) st \<and> doc_reach (spec_set_paused p st) (im_state s')"
    if "st_set_paused in_memory_ops p s = (Inr u, s')" for p s u s'
    using that im_set_paused_ok [of p s u s']
    by (intro exI [of _ "im_state s"]) (simp add: in_memory_ops_def)
  show "\<exists>st. doc_reach (im_state s) st \<and> doc_reach (spec_set_switchover w st) (im_state s')"
    if "st_set_switchover in_memory_ops w s = (Inr u, s')" for w s u s'
    using that im_set_switchover_ok [of w s u s']
    by (intro exI [of _ "im_state s"]) (simp add: in_memory_ops_def)
qed (auto simp: in_memory_ops_def dest: im_read_ok im_takeover_err im_release_err im_set_paused_err
    im_set_switchover_err)

section \<open>Faults are transient\<close>

text \<open>
  An injected failure count of \<open>n\<close> makes exactly the next \<open>n\<close> reads fail and the one after succeed.
\<close>

fun im_reads :: "nat \<Rightarrow> in_memory_store \<Rightarrow> (string, cluster_state) result list \<times> in_memory_store"
where
  "im_reads 0 s = ([], s)"
| "im_reads (Suc n) s =
     (let (r, s') = im_read_state s; (rs, s'') = im_reads n s' in (r # rs, s''))"

lemma im_read_injected:
  assumes "\<not> im_unavailable s" and "0 < im_fail_reads s"
  shows "im_read_state s =
    (Inl ''consensus store: read failed (injected)'', s\<lparr>im_fail_reads := im_fail_reads s - 1\<rparr>)"
  using assms by (simp add: im_read_state_def read_gate_def check_gate_def)

lemma im_reads_injected:
  assumes "\<not> im_unavailable s" and "unat (im_fail_reads s) = n"
  shows "fst (im_reads (Suc n) s) =
    replicate n (Inl ''consensus store: read failed (injected)'') @ [Inr (im_state s)]"
  using assms
proof (induction n arbitrary: s)
  case 0
  hence "im_fail_reads s = 0" by (simp add: unat_eq_0)
  with 0 show ?case
    by (simp add: im_read_state_def read_gate_def check_gate_def split: prod.splits)
next
  case (Suc n)
  hence pos: "0 < im_fail_reads s" by (simp add: word_gt_0_no unat_gt_0 word_less_nat_alt)
  let ?s = "s\<lparr>im_fail_reads := im_fail_reads s - 1\<rparr>"
  have "unat (im_fail_reads ?s) = n"
    using pos Suc.prems by (simp add: unat_minus_one word_gt_0)
  with Suc.IH [of ?s] Suc.prems
  have "fst (im_reads (Suc n) ?s) =
    replicate n (Inl ''consensus store: read failed (injected)'') @ [Inr (im_state s)]" by simp
  with im_read_injected [OF Suc.prems(1) pos] show ?case
    by (simp del: im_reads.simps(2) add: im_reads.simps(2) [of "Suc n" s] case_prod_beta Let_def)
qed

end
