(* ===== verification/RaftStore.thy ===== *)
theory RaftStore
  imports Consensus
begin

text \<open>
  The openraft storage of \<open>crates/pg-agent-core/src/raftstore.rs\<close>: the redb database, the log
  store (\<open>RedbLogStore\<close>) and the state machine (\<open>RedbStateMachine\<close>) over the replicated document.

  openraft's own types enter as type parameters: \<open>'l\<close> its leader id, \<open>'m\<close> its membership
  configuration, \<open>'v\<close> its vote. The database is a record with the \<open>raft_logs\<close> table (kept in key
  order, as redb keeps it) and one field per key of the \<open>raft_meta\<close> table; a value read back is the
  value written (serde's encode and decode are the identity here). \<open>db_ok\<close> says whether redb
  transactions succeed: one that fails changes nothing and returns an error.

  The lemmas show that the state machine is a mirror of the abstract lease document, that what is
  persisted is what was applied, that snapshots restore a replica exactly, and that fencing terms
  only grow.
\<close>

section \<open>Commands and responses\<close>

datatype consensus_command =
    Takeover (cmd_candidate: i32) (cmd_expected: "(i32 \<times> u64) option") (cmd_at: datetime)
  | Release i32 u64
  | SetPaused "paused option"
  | SetSwitchover "switchover option"

datatype command_response =
    RTakeover takeover_outcome
  | RRelease release_outcome
  | Ack
  | Noop

section \<open>openraft's log entries\<close>

record 'l log_id =
  leader_id :: 'l
  log_index :: u64

datatype 'm entry_payload = Blank | Normal consensus_command | Membership 'm

record ('l, 'm) entry =
  entry_log_id :: "'l log_id"
  entry_payload :: "'m entry_payload"

section \<open>The state machine's data\<close>

record ('l, 'm) state_machine_data =
  last_applied :: "'l log_id option"
  last_membership :: "'l log_id option \<times> 'm"
  cluster :: cluster_state

record ('l, 'm) snapshot_meta =
  meta_last_log_id :: "'l log_id option"
  meta_last_membership :: "'l log_id option \<times> 'm"
  snapshot_id :: string

record ('l, 'm) stored_snapshot =
  snap_meta :: "('l, 'm) snapshot_meta"
  snap_data :: "('l, 'm) state_machine_data"

section \<open>The database\<close>

record ('l, 'm, 'v) raft_db =
  db_ok :: bool
  db_logs :: "(u64 \<times> ('l, 'm) entry) list"
  db_vote :: "'v option"
  db_committed :: "'l log_id option option"
  db_last_purged :: "'l log_id option option"
  db_state_machine :: "('l, 'm) state_machine_data option"
  db_snapshot :: "('l, 'm) stored_snapshot option"

definition open_database :: "('l, 'm, 'v) raft_db" where
  "open_database = \<lparr>db_ok = True, db_logs = [], db_vote = None, db_committed = None,
     db_last_purged = None, db_state_machine = None, db_snapshot = None\<rparr>"

text \<open>Insertion into, and range reads of, a table ordered by key.\<close>

fun table_insert :: "'k::linorder \<Rightarrow> 'a \<Rightarrow> ('k \<times> 'a) list \<Rightarrow> ('k \<times> 'a) list" where
  "table_insert k v [] = [(k, v)]"
| "table_insert k v ((k', v') # t) =
     (if k < k' then (k, v) # (k', v') # t
      else if k = k' then (k, v) # t
      else (k', v') # table_insert k v t)"

definition table_remove :: "'k \<Rightarrow> ('k \<times> 'a) list \<Rightarrow> ('k \<times> 'a) list" where
  "table_remove k t = filter (\<lambda>p. fst p \<noteq> k) t"

definition table_range :: "('k \<Rightarrow> bool) \<Rightarrow> ('k \<times> 'a) list \<Rightarrow> ('k \<times> 'a) list" where
  "table_range R t = filter (\<lambda>p. R (fst p)) t"

type_synonym 'a storage = "(string, 'a) result"

definition io_read :: string where "io_read = ''storage read error''"

definition io_write :: string where "io_write = ''storage write error''"

text \<open>One write transaction: all of its updates, or none and an error.\<close>

definition write_txn ::
  "(('l, 'm, 'v) raft_db \<Rightarrow> ('l, 'm, 'v) raft_db) \<Rightarrow> ('l, 'm, 'v) raft_db \<Rightarrow>
     unit storage \<times> ('l, 'm, 'v) raft_db" where
  "write_txn f db = (if db_ok db then (Inr (), f db) else (Inl io_write, db))"

definition read_txn :: "(('l, 'm, 'v) raft_db \<Rightarrow> 'a) \<Rightarrow> ('l, 'm, 'v) raft_db \<Rightarrow> 'a storage" where
  "read_txn f db = (if db_ok db then Inr (f db) else Inl io_read)"

section \<open>The log store\<close>

definition log_last_purged :: "('l, 'm, 'v) raft_db \<Rightarrow> 'l log_id option storage" where
  "log_last_purged db = read_txn (\<lambda>d. unwrap_or (db_last_purged d) None) db"

definition try_get_log_entries ::
  "(u64 \<Rightarrow> bool) \<Rightarrow> ('l, 'm, 'v) raft_db \<Rightarrow> ('l, 'm) entry list storage" where
  "try_get_log_entries rng db = read_txn (\<lambda>d. map snd (table_range rng (db_logs d))) db"

text \<open>\<open>LogState\<close>: the purge point and the last log id.\<close>

definition get_log_state ::
  "('l, 'm, 'v) raft_db \<Rightarrow> ('l log_id option \<times> 'l log_id option) storage" where
  "get_log_state db =
     (case log_last_purged db of
        Inl e \<Rightarrow> Inl e
      | Inr purged \<Rightarrow>
          read_txn (\<lambda>d. (purged,
            (if db_logs d = [] then purged
             else Some (entry_log_id (snd (last (db_logs d))))))) db)"

definition save_vote :: "'v \<Rightarrow> ('l, 'm, 'v) raft_db \<Rightarrow> unit storage \<times> ('l, 'm, 'v) raft_db" where
  "save_vote v db = write_txn (\<lambda>d. d\<lparr>db_vote := Some v\<rparr>) db"

definition read_vote :: "('l, 'm, 'v) raft_db \<Rightarrow> 'v option storage" where
  "read_vote db = read_txn db_vote db"

definition save_committed ::
  "'l log_id option \<Rightarrow> ('l, 'm, 'v) raft_db \<Rightarrow> unit storage \<times> ('l, 'm, 'v) raft_db" where
  "save_committed c db = write_txn (\<lambda>d. d\<lparr>db_committed := Some c\<rparr>) db"

definition read_committed :: "('l, 'm, 'v) raft_db \<Rightarrow> 'l log_id option storage" where
  "read_committed db = read_txn (\<lambda>d. unwrap_or (db_committed d) None) db"

definition append_entries ::
  "('l, 'm) entry list \<Rightarrow> ('l, 'm, 'v) raft_db \<Rightarrow> unit storage \<times> ('l, 'm, 'v) raft_db" where
  "append_entries es db =
     write_txn (\<lambda>d. d\<lparr>db_logs :=
       fold (\<lambda>e t. table_insert (log_index (entry_log_id e)) e t) es (db_logs d)\<rparr>) db"

definition remove_victims :: "u64 list \<Rightarrow> (u64 \<times> 'a) list \<Rightarrow> (u64 \<times> 'a) list" where
  "remove_victims ks t = fold table_remove ks t"

definition truncate_log ::
  "'l log_id \<Rightarrow> ('l, 'm, 'v) raft_db \<Rightarrow> unit storage \<times> ('l, 'm, 'v) raft_db" where
  "truncate_log lid db =
     write_txn (\<lambda>d.
       let victims = map fst (table_range (\<lambda>k. log_index lid \<le> k) (db_logs d))
       in d\<lparr>db_logs := remove_victims victims (db_logs d)\<rparr>) db"

definition purge_log ::
  "'l log_id \<Rightarrow> ('l, 'm, 'v) raft_db \<Rightarrow> unit storage \<times> ('l, 'm, 'v) raft_db" where
  "purge_log lid db =
     write_txn (\<lambda>d.
       let victims = map fst (table_range (\<lambda>k. k \<le> log_index lid) (db_logs d))
       in d\<lparr>db_last_purged := Some (Some lid),
            db_logs := remove_victims victims (db_logs d)\<rparr>) db"

section \<open>The state machine\<close>

definition default_data :: "'m \<Rightarrow> ('l, 'm) state_machine_data" where
  "default_data m0 =
     \<lparr>last_applied = None, last_membership = (None, m0), cluster = default_cluster_state\<rparr>"

text \<open>The applied document as the reader finds it in the file.\<close>

definition reader_read :: "('l, 'm, 'v) raft_db \<Rightarrow> cluster_state storage" where
  "reader_read db =
     read_txn (\<lambda>d. case db_state_machine d of
                     Some sm \<Rightarrow> cluster sm | None \<Rightarrow> default_cluster_state) db"

record ('l, 'm) redb_state_machine =
  sm_data :: "('l, 'm) state_machine_data"
  snapshot_idx :: u64

definition sm_new :: "'m \<Rightarrow> ('l, 'm, 'v) raft_db \<Rightarrow> ('l, 'm) redb_state_machine storage" where
  "sm_new m0 db =
     (case read_txn db_state_machine db of
        Inl e \<Rightarrow> Inl e
      | Inr st \<Rightarrow> Inr \<lparr>sm_data = unwrap_or st (default_data m0), snapshot_idx = 0\<rparr>)"

definition sm_cluster_state :: "('l, 'm) redb_state_machine \<Rightarrow> cluster_state" where
  "sm_cluster_state sm = cluster (sm_data sm)"

definition persist ::
  "('l, 'm) redb_state_machine \<Rightarrow> ('l, 'm, 'v) raft_db \<Rightarrow> unit storage \<times> ('l, 'm, 'v) raft_db" where
  "persist sm db = write_txn (\<lambda>d. d\<lparr>db_state_machine := Some (sm_data sm)\<rparr>) db"

text \<open>The business logic: one arm per command, over the cluster document.\<close>

fun apply_command :: "consensus_command \<Rightarrow> cluster_state \<Rightarrow> command_response \<times> cluster_state" where
  "apply_command (Takeover candidate expected at) state =
     (if \<not> observed_holds (cs_lease state) expected
      then (RTakeover (Lost (cs_lease state)), state)
      else
        let state = state\<lparr>cs_generation := cs_generation state + 1\<rparr>;
            l = \<lparr>lease_holder = candidate, lease_term = cs_generation state, lease_since = at\<rparr>;
            state = state\<lparr>cs_lease := Some l\<rparr>
        in (RTakeover (Won l), state))"
| "apply_command (Release h t) state =
     (case cs_lease state of
        Some cur \<Rightarrow>
          if lease_holder cur = h \<and> lease_term cur = t
          then (RRelease Released,
                state\<lparr>cs_generation := cs_generation state + 1, cs_lease := None\<rparr>)
          else (RRelease (NotHolder (Some cur)), state)
      | None \<Rightarrow> (RRelease (NotHolder None), state))"
| "apply_command (SetPaused p) state =
     (Ack, state\<lparr>cs_generation := cs_generation state + 1, cs_paused := p\<rparr>)"
| "apply_command (SetSwitchover w) state =
     (Ack, state\<lparr>cs_generation := cs_generation state + 1, cs_switchover := w\<rparr>)"

definition apply_entry ::
  "('l, 'm) entry \<Rightarrow> ('l, 'm) state_machine_data \<Rightarrow>
     command_response \<times> ('l, 'm) state_machine_data" where
  "apply_entry e d =
     (let d = d\<lparr>last_applied := Some (entry_log_id e)\<rparr> in
      case entry_payload e of
        Blank \<Rightarrow> (Noop, d)
      | Normal cmd \<Rightarrow> (let (r, c) = apply_command cmd (cluster d) in (r, d\<lparr>cluster := c\<rparr>))
      | Membership m \<Rightarrow> (Noop, d\<lparr>last_membership := (Some (entry_log_id e), m)\<rparr>))"

fun apply_loop ::
  "('l, 'm) entry list \<Rightarrow> ('l, 'm) state_machine_data \<Rightarrow>
     command_response list \<times> ('l, 'm) state_machine_data" where
  "apply_loop [] d = ([], d)"
| "apply_loop (e # es) d =
     (let (r, d') = apply_entry e d; (rs, d'') = apply_loop es d' in (r # rs, d''))"

text \<open>
  One durable write per batch: the in-memory data moves first, and an error of the write is
  returned in place of the responses.
\<close>

definition sm_apply ::
  "('l, 'm) entry list \<Rightarrow> ('l, 'm) redb_state_machine \<Rightarrow> ('l, 'm, 'v) raft_db \<Rightarrow>
     command_response list storage \<times> ('l, 'm) redb_state_machine \<times> ('l, 'm, 'v) raft_db" where
  "sm_apply es sm db =
     (let (rs, d) = apply_loop es (sm_data sm);
          sm' = sm\<lparr>sm_data := d\<rparr>
      in case persist sm' db of
           (Inl e, db') \<Rightarrow> (Inl e, sm', db')
         | (Inr _, db') \<Rightarrow> (Inr rs, sm', db'))"

definition applied_state ::
  "('l, 'm) redb_state_machine \<Rightarrow> 'l log_id option \<times> ('l log_id option \<times> 'm)" where
  "applied_state sm = (last_applied (sm_data sm), last_membership (sm_data sm))"

definition get_snapshot_builder ::
  "('l, 'm) redb_state_machine \<Rightarrow> ('l, 'm) redb_state_machine \<times> ('l, 'm) redb_state_machine" where
  "get_snapshot_builder sm =
     (let sm = sm\<lparr>snapshot_idx := snapshot_idx sm + 1\<rparr> in (sm, sm))"

definition install_snapshot ::
  "('l, 'm) snapshot_meta \<Rightarrow> ('l, 'm) state_machine_data \<Rightarrow> ('l, 'm) redb_state_machine \<Rightarrow>
     ('l, 'm, 'v) raft_db \<Rightarrow> unit storage \<times> ('l, 'm) redb_state_machine \<times> ('l, 'm, 'v) raft_db"
where
  "install_snapshot meta bytes sm db =
     (let sm' = sm\<lparr>sm_data := bytes\<rparr>
      in case persist sm' db of
           (Inl e, db') \<Rightarrow> (Inl e, sm', db')
         | (Inr _, db') \<Rightarrow>
             (case write_txn (\<lambda>d. d\<lparr>db_snapshot :=
                 Some \<lparr>snap_meta = meta, snap_data = bytes\<rparr>\<rparr>) db' of
                (r, db'') \<Rightarrow> (r, sm', db'')))"

definition get_current_snapshot ::
  "('l, 'm, 'v) raft_db \<Rightarrow> ('l, 'm) stored_snapshot option storage" where
  "get_current_snapshot db = read_txn db_snapshot db"

text \<open>\<open>show_leader\<close> is the \<open>Display\<close> of openraft's leader id.\<close>

definition build_snapshot ::
  "('l \<Rightarrow> string) \<Rightarrow> ('l, 'm) redb_state_machine \<Rightarrow> ('l, 'm, 'v) raft_db \<Rightarrow>
     ('l, 'm) stored_snapshot storage \<times> ('l, 'm, 'v) raft_db" where
  "build_snapshot show_leader sm db =
     (let d = sm_data sm;
          sid = (case last_applied d of
                   Some l \<Rightarrow> show_leader (leader_id l) @ ''-'' @ show_nat (unat (log_index l)) @
                            ''-'' @ show_nat (unat (snapshot_idx sm))
                 | None \<Rightarrow> ''--'' @ show_nat (unat (snapshot_idx sm)));
          meta = \<lparr>meta_last_log_id = last_applied d,
                  meta_last_membership = last_membership d, snapshot_id = sid\<rparr>;
          stored = \<lparr>snap_meta = meta, snap_data = d\<rparr>
      in case write_txn (\<lambda>b. b\<lparr>db_snapshot := Some stored\<rparr>) db of
           (Inl e, db') \<Rightarrow> (Inl e, db')
         | (Inr _, db') \<Rightarrow> (Inr stored, db'))"

section \<open>Node ids at the seam\<close>

definition to_raft_node_id :: "i32 \<Rightarrow> (string, nat) result" where
  "to_raft_node_id i =
     (if i < 0 then Inl (''node id '' @ show_int i @ '' is negative; Raft ids are u64'')
      else Inr (nat i))"

definition from_raft_node_id :: "nat \<Rightarrow> (string, i32) result" where
  "from_raft_node_id n =
     (if n < 2 ^ 31 then Inr (int n)
      else Inl (''raft node id '' @ show_nat n @ '' does not fit an i32 node id''))"

fun membership_map :: "(i32 \<times> string) list \<Rightarrow> (string, (nat \<rightharpoonup> string)) result" where
  "membership_map ns = fold (\<lambda>(i, addr) acc.
     (case acc of
        Inl e \<Rightarrow> Inl e
      | Inr m \<Rightarrow>
          (case to_raft_node_id i of
             Inl e \<Rightarrow> Inl e
           | Inr k \<Rightarrow> Inr (m(k \<mapsto> addr))))) ns (Inr Map.empty)"


section \<open>The state machine mirrors the abstract document\<close>

lemma apply_command_spec:
  "apply_command (Takeover c x now) st =
     (RTakeover (fst (spec_takeover c x now st)), snd (spec_takeover c x now st))"
  "apply_command (Release h t) st =
     (RRelease (fst (spec_release h t st)), snd (spec_release h t st))"
  "apply_command (SetPaused p) st = (Ack, spec_set_paused p st)"
  "apply_command (SetSwitchover w) st = (Ack, spec_set_switchover w st)"
  by (auto simp: spec_takeover_def spec_release_def spec_set_paused_def spec_set_switchover_def
      observed_holds_iff lease_key_def Let_def split: option.splits)

text \<open>
  The generation never goes back, moves by at most one per command, and a won lease carries the
  generation it created.
\<close>

definition gen_n :: "cluster_state \<Rightarrow> nat" where
  "gen_n st = unat (cs_generation st)"

definition won_term :: "command_response \<Rightarrow> nat option" where
  "won_term r = (case r of RTakeover (Won l) \<Rightarrow> Some (unat (lease_term l)) | _ \<Rightarrow> None)"

definition lease_wf :: "cluster_state \<Rightarrow> bool" where
  "lease_wf st = (\<forall>l. cs_lease st = Some l \<longrightarrow> unat (lease_term l) \<le> gen_n st)"

text \<open>\<open>retired t st\<close>: no lease of term \<open>t\<close> is, or will again be, the committed one.\<close>

definition retired :: "u64 \<Rightarrow> cluster_state \<Rightarrow> bool" where
  "retired t st = (unat t \<le> gen_n st \<and> (\<forall>l. cs_lease st = Some l \<longrightarrow> lease_term l \<noteq> t))"

lemma gen_inc:
  assumes "Suc (gen_n st) < 2 ^ 64"
  shows "unat (cs_generation st + 1) = Suc (gen_n st)"
  using assms unat_Suc_no_wrap [of "cs_generation st"] by (simp add: gen_n_def)

lemma apply_command_gen:
  assumes "apply_command cmd st = (r, st')" and "Suc (gen_n st) < 2 ^ 64"
  shows "gen_n st \<le> gen_n st' \<and> gen_n st' \<le> Suc (gen_n st)"
proof -
  from assms(1) have "cs_generation st' \<in> {cs_generation st, cs_generation st + 1}"
    by (cases cmd) (auto simp: Let_def split: option.splits if_splits)
  thus ?thesis using gen_inc [OF assms(2)] by (auto simp: gen_n_def)
qed

lemma apply_command_won:
  assumes "apply_command cmd st = (r, st')" and "Suc (gen_n st) < 2 ^ 64"
    and "won_term r = Some t"
  shows "t = Suc (gen_n st)" and "gen_n st' = t"
proof -
  from assms(1,3) have "t = unat (cs_generation st + 1) \<and> cs_generation st' = cs_generation st + 1"
    by (cases cmd) (auto simp: Let_def won_term_def split: option.splits if_splits)
  thus "t = Suc (gen_n st)" "gen_n st' = t" using gen_inc [OF assms(2)] by (auto simp: gen_n_def)
qed

lemma apply_takeover_won:
  assumes "apply_command (Takeover c x a) st = (RTakeover (Won l), st')"
  shows "map_option lease_key (cs_lease st) = x" and "cs_lease st' = Some l"
    and "lease_term l = cs_generation st + 1" and "lease_holder l = c"
  using assms by (auto simp: observed_holds_iff Let_def split: if_splits)

lemma apply_command_lease_wf:
  assumes "apply_command cmd st = (r, st')" and "Suc (gen_n st) < 2 ^ 64" and "lease_wf st"
  shows "lease_wf st'"
proof -
  note g = apply_command_gen [OF assms(1,2)]
  from assms(1) consider "cs_lease st' = cs_lease st" | "cs_lease st' = None"
    | l where "cs_lease st' = Some l" "lease_term l = cs_generation st'"
    by (cases cmd) (auto simp: Let_def split: option.splits if_splits)
  thus ?thesis using g assms(3) by cases (auto simp: lease_wf_def gen_n_def)
qed

lemma apply_command_retired:
  assumes "apply_command cmd st = (r, st')" and "Suc (gen_n st) < 2 ^ 64" and "retired t st"
  shows "retired t st'"
proof -
  note g = apply_command_gen [OF assms(1,2)]
  from assms(1) consider "cs_lease st' = cs_lease st" | "cs_lease st' = None"
    | l where "cs_lease st' = Some l" "lease_term l = cs_generation st + 1"
    by (cases cmd) (auto simp: Let_def split: option.splits if_splits)
  thus ?thesis
  proof cases
    case 3
    have "unat (lease_term l) = Suc (gen_n st)" using 3 gen_inc [OF assms(2)] by simp
    moreover have "unat t \<le> gen_n st" using assms(3) by (simp add: retired_def)
    ultimately have "lease_term l \<noteq> t" by auto
    with 3 g assms(3) show ?thesis by (auto simp: retired_def)
  qed (use g assms(3) in \<open>auto simp: retired_def\<close>)
qed

section \<open>Batches of entries\<close>

lemma apply_entry_cluster:
  assumes "apply_entry e d = (r, d')"
  obtains (cmd) c where "entry_payload e = Normal c"
      "apply_command c (cluster d) = (r, cluster d')"
  | (other) "r = Noop" "cluster d' = cluster d"
  using assms
  by (cases "entry_payload e") (auto simp: apply_entry_def Let_def split: prod.splits)

lemma apply_entry_gen:
  assumes "apply_entry e d = (r, d')" and "Suc (gen_n (cluster d)) < 2 ^ 64"
  shows "gen_n (cluster d) \<le> gen_n (cluster d') \<and> gen_n (cluster d') \<le> Suc (gen_n (cluster d))"
  using assms(1) by (cases rule: apply_entry_cluster) (use assms(2) apply_command_gen in auto)

lemma apply_entry_won:
  assumes "apply_entry e d = (r, d')" and "Suc (gen_n (cluster d)) < 2 ^ 64"
    and "won_term r = Some t"
  shows "t = Suc (gen_n (cluster d)) \<and> gen_n (cluster d') = t"
  using assms(1)
  by (cases rule: apply_entry_cluster)
    (use assms(2,3) apply_command_won in \<open>auto simp: won_term_def\<close>)

lemma apply_entry_keeps:
  assumes "apply_entry e d = (r, d')" and "Suc (gen_n (cluster d)) < 2 ^ 64"
  shows "lease_wf (cluster d) \<Longrightarrow> lease_wf (cluster d')"
    and "retired t (cluster d) \<Longrightarrow> retired t (cluster d')"
  using assms(1)
  by (cases rule: apply_entry_cluster;
      use assms(2) apply_command_lease_wf apply_command_retired in auto)+

lemma apply_loop_append:
  "apply_loop (xs @ ys) d =
     (let (rs, d') = apply_loop xs d; (ss, d'') = apply_loop ys d' in (rs @ ss, d''))"
  by (induction xs arbitrary: d) (auto simp: Let_def split: prod.splits)

lemma apply_loop_length: "apply_loop es d = (rs, d') \<Longrightarrow> length rs = length es"
  by (induction es arbitrary: d rs) (auto simp: Let_def split: prod.splits)

lemma apply_loop_gen:
  assumes "apply_loop es d = (rs, d')" and "gen_n (cluster d) + length es < 2 ^ 64"
  shows "gen_n (cluster d) \<le> gen_n (cluster d') \<and>
         gen_n (cluster d') \<le> gen_n (cluster d) + length es"
  using assms
proof (induction es arbitrary: d rs)
  case (Cons e es)
  obtain r d1 where e: "apply_entry e d = (r, d1)" by fastforce
  obtain rs1 where l: "apply_loop es d1 = (rs1, d')" using Cons.prems(1) e
    by (auto simp: Let_def split: prod.splits)
  have g: "gen_n (cluster d) \<le> gen_n (cluster d1) \<and> gen_n (cluster d1) \<le> Suc (gen_n (cluster d))"
    using apply_entry_gen [OF e] Cons.prems(2) by simp
  with Cons.IH [OF l] Cons.prems(2) show ?case by simp
qed simp

lemma apply_loop_keeps:
  assumes "apply_loop es d = (rs, d')" and "gen_n (cluster d) + length es < 2 ^ 64"
  shows "lease_wf (cluster d) \<Longrightarrow> lease_wf (cluster d')"
    and "retired t (cluster d) \<Longrightarrow> retired t (cluster d')"
  using assms
proof (induction es arbitrary: d rs)
  case (Cons e es)
  {
    case 1
    obtain r d1 where e: "apply_entry e d = (r, d1)" by fastforce
    obtain rs1 where l: "apply_loop es d1 = (rs1, d')" using 1(2) e
      by (auto simp: Let_def split: prod.splits)
    have "gen_n (cluster d1) + length es < 2 ^ 64" using apply_entry_gen [OF e] 1(3) by simp
    with Cons.IH(1) [OF _ l] apply_entry_keeps(1) [OF e] 1 show ?case by simp
  next
    case 2
    obtain r d1 where e: "apply_entry e d = (r, d1)" by fastforce
    obtain rs1 where l: "apply_loop es d1 = (rs1, d')" using 2(2) e
      by (auto simp: Let_def split: prod.splits)
    have "gen_n (cluster d1) + length es < 2 ^ 64" using apply_entry_gen [OF e] 2(3) by simp
    with Cons.IH(2) [OF _ l] apply_entry_keeps(2) [OF e] 2 show ?case by simp
  }
qed simp_all

text \<open>Terms won in a batch, in order.\<close>

definition won_terms :: "command_response list \<Rightarrow> nat list" where
  "won_terms rs = List.map_filter won_term rs"

lemma won_terms_simps [simp]:
  "won_terms [] = []"
  "won_terms (r # rs) = (case won_term r of None \<Rightarrow> won_terms rs | Some t \<Rightarrow> t # won_terms rs)"
  by (simp_all add: won_terms_def List.map_filter_def split: option.splits)

lemma won_terms_bounds:
  assumes "apply_loop es d = (rs, d')" and "gen_n (cluster d) + length es < 2 ^ 64"
  shows "sorted_wrt (<) (won_terms rs) \<and>
         (\<forall>t \<in> set (won_terms rs). gen_n (cluster d) < t \<and> t \<le> gen_n (cluster d'))"
  using assms
proof (induction es arbitrary: d rs)
  case (Cons e es)
  obtain r d1 where e: "apply_entry e d = (r, d1)" by fastforce
  obtain rs1 where l: "apply_loop es d1 = (rs1, d')" and rs: "rs = r # rs1"
    using Cons.prems(1) e by (auto simp: Let_def split: prod.splits)
  have g: "gen_n (cluster d) \<le> gen_n (cluster d1)" "gen_n (cluster d1) + length es < 2 ^ 64"
    using apply_entry_gen [OF e] Cons.prems(2) by simp_all
  note IH = Cons.IH [OF l g(2)]
  note mono = apply_loop_gen [OF l g(2)]
  show ?case
  proof (cases "won_term r")
    case None
    have "gen_n (cluster d) < t" if "gen_n (cluster d1) < t" for t using that g(1) by linarith
    with None IH rs show ?thesis by auto
  next
    case (Some t)
    have t: "t = Suc (gen_n (cluster d)) \<and> gen_n (cluster d1) = t"
      using apply_entry_won [OF e _ Some] Cons.prems(2) by simp
    with IH mono Some rs show ?thesis by fastforce
  qed
qed simp

section \<open>The log table\<close>

lemma table_insert_last:
  "\<forall>p \<in> set t. fst p < k \<Longrightarrow> table_insert k v t = t @ [(k, v)]"
  by (induction k v t rule: table_insert.induct) auto

lemma remove_victims_filter: "remove_victims ks t = filter (\<lambda>p. fst p \<notin> set ks) t"
proof (induction ks arbitrary: t)
  case (Cons k ks)
  have "remove_victims (k # ks) t = remove_victims ks (table_remove k t)"
    by (simp add: remove_victims_def)
  also have "\<dots> = filter (\<lambda>p. fst p \<notin> set ks) (table_remove k t)" by (rule Cons)
  finally show ?case by (simp add: table_remove_def conj_commute)
qed (simp add: remove_victims_def)

lemma remove_range:
  "remove_victims (map fst (table_range R t)) t = filter (\<lambda>p. \<not> R (fst p)) t"
  by (auto simp: remove_victims_filter table_range_def intro!: filter_cong)

text \<open>A log without holes: consecutive indices from \<open>a\<close> on, each entry under its own index.\<close>

definition contiguous_from :: "nat \<Rightarrow> (u64 \<times> ('l, 'm) entry) list \<Rightarrow> bool" where
  "contiguous_from a t =
     (map (\<lambda>p. unat (fst p)) t = [a..<a + length t] \<and>
      (\<forall>p \<in> set t. log_index (entry_log_id (snd p)) = fst p))"

definition entries_from :: "nat \<Rightarrow> ('l, 'm) entry list \<Rightarrow> bool" where
  "entries_from a es = (map (\<lambda>e. unat (log_index (entry_log_id e))) es = [a..<a + length es])"

lemma filter_less_upt: "filter (\<lambda>k. k < i) [a..<b] = [a..<min b i]"
proof (induction b)
  case (Suc b)
  show ?case
  proof (cases "b < i")
    case True
    hence "min b i = b" "min (Suc b) i = Suc b" by auto
    with True Suc show ?thesis by simp
  next
    case False
    hence "min b i = i" "min (Suc b) i = i" by auto
    with False Suc show ?thesis by simp
  qed
qed simp

lemma filter_greater_upt: "filter (\<lambda>k. i < k) [a..<b] = [max a (Suc i)..<b]"
  by (induction b) (auto simp: max_def)

lemma contiguous_filter_less:
  assumes "contiguous_from a t"
  shows "contiguous_from a (filter (\<lambda>p. fst p < x) t)"
proof -
  have "map (\<lambda>p. unat (fst p)) (filter (\<lambda>p. fst p < x) t) =
        filter (\<lambda>k. k < unat x) (map (\<lambda>p. unat (fst p)) t)"
    by (simp add: filter_map o_def word_less_nat_alt)
  also have "\<dots> = [a..<min (a + length t) (unat x)]"
    using assms by (simp add: contiguous_from_def filter_less_upt)
  finally have m: "map (\<lambda>p. unat (fst p)) (filter (\<lambda>p. fst p < x) t) =
      [a..<min (a + length t) (unat x)]" .
  from arg_cong [OF m, of length]
  have "length (filter (\<lambda>p. fst p < x) t) = min (a + length t) (unat x) - a" by simp
  hence "[a..<a + length (filter (\<lambda>p. fst p < x) t)] = [a..<min (a + length t) (unat x)]"
    by (cases "a \<le> unat x") auto
  with m assms show ?thesis by (auto simp: contiguous_from_def)
qed

lemma contiguous_filter_greater:
  assumes "contiguous_from a t"
  shows "contiguous_from (max a (Suc (unat x))) (filter (\<lambda>p. x < fst p) t)"
proof -
  have "map (\<lambda>p. unat (fst p)) (filter (\<lambda>p. x < fst p) t) =
        filter (\<lambda>k. unat x < k) (map (\<lambda>p. unat (fst p)) t)"
    by (simp add: filter_map o_def word_less_nat_alt)
  also have "\<dots> = [max a (Suc (unat x))..<a + length t]"
    using assms by (simp add: contiguous_from_def filter_greater_upt)
  finally have m: "map (\<lambda>p. unat (fst p)) (filter (\<lambda>p. x < fst p) t) =
      [max a (Suc (unat x))..<a + length t]" .
  from arg_cong [OF m, of length]
  have "length (filter (\<lambda>p. x < fst p) t) = a + length t - max a (Suc (unat x))" by simp
  hence "[max a (Suc (unat x))..<max a (Suc (unat x)) + length (filter (\<lambda>p. x < fst p) t)] =
         [max a (Suc (unat x))..<a + length t]"
    by (cases "max a (Suc (unat x)) \<le> a + length t") auto
  with m assms show ?thesis by (auto simp: contiguous_from_def)
qed

lemma contiguous_append_one:
  assumes "contiguous_from a t" and "unat (log_index (entry_log_id e)) = a + length t"
  shows "table_insert (log_index (entry_log_id e)) e t = t @ [(log_index (entry_log_id e), e)]"
    and "contiguous_from a (table_insert (log_index (entry_log_id e)) e t)"
proof -
  have "\<forall>p \<in> set t. unat (fst p) < a + length t"
  proof
    fix p assume "p \<in> set t"
    hence "unat (fst p) \<in> set (map (\<lambda>p. unat (fst p)) t)" by auto
    also have "\<dots> = {a..<a + length t}" using assms(1) by (metis contiguous_from_def set_upt)
    finally show "unat (fst p) < a + length t" by simp
  qed
  with assms(2) have "\<forall>p \<in> set t. fst p < log_index (entry_log_id e)"
    by (auto simp: word_less_nat_alt)
  thus i: "table_insert (log_index (entry_log_id e)) e t = t @ [(log_index (entry_log_id e), e)]"
    by (rule table_insert_last)
  show "contiguous_from a (table_insert (log_index (entry_log_id e)) e t)"
    unfolding i using assms by (auto simp: contiguous_from_def)
qed

lemma contiguous_append:
  assumes "contiguous_from a t" and "entries_from (a + length t) es"
  shows "fold (\<lambda>e t. table_insert (log_index (entry_log_id e)) e t) es t =
           t @ map (\<lambda>e. (log_index (entry_log_id e), e)) es \<and>
         contiguous_from a (t @ map (\<lambda>e. (log_index (entry_log_id e), e)) es)"
  using assms
proof (induction es arbitrary: t)
  case (Cons e es)
  have split: "[a + length t..<a + length t + length (e # es)] =
      (a + length t) # [Suc (a + length t)..<Suc (a + length t) + length es]"
    by (subst upt_conv_Cons) (simp_all del: upt_Suc)
  have idx: "unat (log_index (entry_log_id e)) = a + length t"
    and rest: "entries_from (Suc (a + length t)) es"
    using Cons.prems(2) unfolding entries_from_def split by simp_all
  note one = contiguous_append_one [OF Cons.prems(1) idx]
  have "entries_from (a + length (t @ [(log_index (entry_log_id e), e)])) es"
    using rest by simp
  with Cons.IH [of "t @ [(log_index (entry_log_id e), e)]"] one show ?case by simp
qed simp

lemma truncate_log_ok:
  "db_ok db \<Longrightarrow> truncate_log lid db =
     (Inr (), db\<lparr>db_logs := filter (\<lambda>p. fst p < log_index lid) (db_logs db)\<rparr>)"
  by (simp add: truncate_log_def write_txn_def remove_range linorder_not_le)

lemma purge_log_ok:
  "db_ok db \<Longrightarrow> purge_log lid db =
     (Inr (), db\<lparr>db_last_purged := Some (Some lid),
                 db_logs := filter (\<lambda>p. log_index lid < fst p) (db_logs db)\<rparr>)"
  by (simp add: purge_log_def write_txn_def remove_range linorder_not_le)

section \<open>Properties\<close>

text \<open>
  Fencing terms. Over any batch of committed log entries the terms of the leases that are won
  are strictly increasing and exceed every term issued before, across takeovers, releases and
  re-acquisitions, as long as the 64-bit generation does not wrap within the batch.
\<close>

theorem fencing_terms_increase:
  assumes "apply_loop es d = (rs, d')" and "gen_n (cluster d) + length es < 2 ^ 64"
  shows "sorted_wrt (<) (won_terms rs) \<and>
         (\<forall>t \<in> set (won_terms rs). gen_n (cluster d) < t \<and> t \<le> gen_n (cluster d'))"
  by (rule won_terms_bounds [OF assms])

definition cmd_entry :: "u64 \<Rightarrow> consensus_command \<Rightarrow> (unit, unit) entry" where
  "cmd_entry i c = \<lparr>entry_log_id = \<lparr>leader_id = (), log_index = i\<rparr>, entry_payload = Normal c\<rparr>"

definition ex_batch :: "(unit, unit) entry list" where
  "ex_batch = [cmd_entry 1 (Takeover 1 None 10), cmd_entry 2 (Takeover 2 None 11),
               cmd_entry 3 (Release 1 1), cmd_entry 4 (Takeover 2 None 12),
               cmd_entry 5 (Takeover 3 (Some (2, 3)) 13)]"

lemma ex_batch_run:
  "won_terms (fst (apply_loop ex_batch (default_data ()))) = [1, 3, 4]"
  by (simp add: ex_batch_def cmd_entry_def default_data_def default_cluster_state_def
      apply_entry_def won_term_def Let_def)

theorem fencing_terms_increase_witness:
  "sorted_wrt (<) (won_terms (fst (apply_loop ex_batch (default_data ())))) \<and>
   won_terms (fst (apply_loop ex_batch (default_data ()))) = [1, 3, 4]"
proof -
  have b: "gen_n (cluster (default_data () :: (unit, unit) state_machine_data)) + length ex_batch < 2 ^ 64"
    by (simp add: gen_n_def default_data_def default_cluster_state_def ex_batch_def)
  show ?thesis
    using fencing_terms_increase [OF prod.collapse [symmetric] b] ex_batch_run by blast
qed

text \<open>
  (C21) One winner per observation. Once a takeover from holder \<open>h\<close> at term \<open>t\<close> has won, every later
  takeover that was aimed at the same observation \<open>(h, t)\<close> loses, and every later release by the
  deposed holder with its old term is refused and changes nothing, whatever was committed in
  between.
\<close>

theorem deposed_term_is_dead:
  assumes "lease_wf (cluster d)" and "gen_n (cluster d) + length es + 2 < 2 ^ 64"
    and "apply_command (Takeover c1 (Some (h, t)) a1) (cluster d) = (RTakeover (Won l), cluster d1)"
    and "apply_loop es d1 = (rs, d2)"
  shows "apply_command (Takeover c2 (Some (h, t)) a2) (cluster d2) =
           (RTakeover (Lost (cs_lease (cluster d2))), cluster d2) \<and>
         apply_command (Release h t) (cluster d2) =
           (RRelease (NotHolder (cs_lease (cluster d2))), cluster d2)"
proof -
  have s: "Suc (gen_n (cluster d)) < 2 ^ 64" using assms(2) by simp
  note won = apply_takeover_won [OF assms(3)]
  from won(1) obtain l0 where "cs_lease (cluster d) = Some l0" "lease_term l0 = t"
    by (auto simp: lease_key_def)
  hence "unat t \<le> gen_n (cluster d)" using assms(1) by (auto simp: lease_wf_def)
  moreover note won(2,3)
  moreover note gen_inc [OF s] apply_command_gen [OF assms(3) s]
  ultimately have "retired t (cluster d1)" by (auto simp: retired_def)
  moreover have "gen_n (cluster d1) + length es < 2 ^ 64"
    using apply_command_gen [OF assms(3) s] assms(2) by simp
  ultimately have "retired t (cluster d2)" using apply_loop_keeps(2) [OF assms(4)] by simp
  hence "map_option lease_key (cs_lease (cluster d2)) \<noteq> Some (h, t)"
    by (auto simp: retired_def lease_key_def)
  thus ?thesis unfolding apply_command_spec by (simp add: spec_takeover_def spec_release_def)
qed

definition ex_held :: "(unit, unit) state_machine_data" where
  "ex_held = (default_data ())\<lparr>cluster := default_cluster_state
     \<lparr>cs_lease := Some \<lparr>lease_holder = 1, lease_term = 5, lease_since = 0\<rparr>, cs_generation := 7\<rparr>\<rparr>"

theorem deposed_term_is_dead_witness:
  "fst (apply_command (Release 1 5)
     (cluster (snd (apply_loop [cmd_entry 9 (SetPaused None)]
       (ex_held\<lparr>cluster := snd (apply_command (Takeover 2 (Some (1, 5)) 3) (cluster ex_held))\<rparr>))))) =
   RRelease (NotHolder (Some \<lparr>lease_holder = 2, lease_term = 8, lease_since = 3\<rparr>))"
proof -
  let ?d1 = "ex_held\<lparr>cluster := snd (apply_command (Takeover 2 (Some (1, 5)) 3) (cluster ex_held))\<rparr>"
  let ?run = "apply_loop [cmd_entry 9 (SetPaused None)] ?d1"
  have "lease_wf (cluster ex_held)"
    by (simp add: lease_wf_def ex_held_def gen_n_def)
  moreover have "gen_n (cluster ex_held) + length [cmd_entry 9 (SetPaused None)] + 2 < 2 ^ 64"
    by (simp add: gen_n_def ex_held_def)
  moreover have "apply_command (Takeover 2 (Some (1, 5)) 3) (cluster ex_held) =
      (RTakeover (Won \<lparr>lease_holder = 2, lease_term = 8, lease_since = 3\<rparr>), cluster ?d1)"
    by (simp add: ex_held_def Let_def)
  moreover have "?run = (fst ?run, snd ?run)" by simp
  ultimately have "apply_command (Release 1 5) (cluster (snd ?run)) =
      (RRelease (NotHolder (cs_lease (cluster (snd ?run)))), cluster (snd ?run))"
    using deposed_term_is_dead [of ex_held "[cmd_entry 9 (SetPaused None)]" 2 1 5 3] by blast
  moreover have "cs_lease (cluster (snd ?run)) =
      Some \<lparr>lease_holder = 2, lease_term = 8, lease_since = 3\<rparr>"
    by (simp add: ex_held_def cmd_entry_def apply_entry_def Let_def)
  ultimately show ?thesis by simp
qed

text \<open>
  (C24) The log has no holes. On a log whose entries are consecutive from index \<open>a\<close>, appending the
  entries that continue it keeps it consecutive; \<open>truncate\<close> leaves exactly the entries below the
  given index and \<open>purge\<close> exactly those above it, both consecutive again; and the purge point is
  recorded in the same transaction as the removal, so that \<open>get_log_state\<close> reports it when nothing
  is left.
\<close>

theorem log_stays_contiguous:
  assumes "db_ok db" and "contiguous_from a (db_logs db)"
    and "entries_from (a + length (db_logs db)) es"
  shows "append_entries es db =
           (Inr (), db\<lparr>db_logs := db_logs db @ map (\<lambda>e. (log_index (entry_log_id e), e)) es\<rparr>) \<and>
         contiguous_from a (db_logs (snd (append_entries es db))) \<and>
         db_logs (snd (truncate_log lid db)) =
           filter (\<lambda>p. fst p < log_index lid) (db_logs db) \<and>
         contiguous_from a (db_logs (snd (truncate_log lid db))) \<and>
         db_logs (snd (purge_log lid db)) =
           filter (\<lambda>p. log_index lid < fst p) (db_logs db) \<and>
         contiguous_from (max a (Suc (unat (log_index lid)))) (db_logs (snd (purge_log lid db))) \<and>
         get_log_state (snd (purge_log lid db)) =
           Inr (Some lid,
                if db_logs (snd (purge_log lid db)) = [] then Some lid
                else Some (entry_log_id (snd (last (db_logs (snd (purge_log lid db)))))))"
  using contiguous_append [OF assms(2,3)] contiguous_filter_less [OF assms(2)]
    contiguous_filter_greater [OF assms(2)] assms(1)
  by (simp add: append_entries_def write_txn_def truncate_log_ok purge_log_ok get_log_state_def
      log_last_purged_def read_txn_def)

definition ex_log_db :: "(unit, unit, unit) raft_db" where
  "ex_log_db = open_database\<lparr>db_logs :=
     map (\<lambda>i. (i, cmd_entry i (SetPaused None))) [3, 4, 5]\<rparr>"

theorem log_stays_contiguous_witness:
  "map fst (db_logs (snd (append_entries [cmd_entry 6 (SetPaused None)] ex_log_db))) = [3, 4, 5, 6] \<and>
   get_log_state (snd (purge_log \<lparr>leader_id = (), log_index = 9\<rparr> ex_log_db)) =
     Inr (Some \<lparr>leader_id = (), log_index = 9\<rparr>, Some \<lparr>leader_id = (), log_index = 9\<rparr>)"
proof -
  have h: "db_ok ex_log_db" "contiguous_from 3 (db_logs ex_log_db)"
    "entries_from (3 + length (db_logs ex_log_db)) [cmd_entry 6 (SetPaused None)]"
    by (simp_all add: ex_log_db_def open_database_def contiguous_from_def entries_from_def
        cmd_entry_def upt_rec)
  from log_stays_contiguous [OF h, of "\<lparr>leader_id = (), log_index = 9\<rparr>"] show ?thesis
    by (simp add: ex_log_db_def open_database_def cmd_entry_def)
qed


lemma install_snapshot_ok:
  "db_ok db \<Longrightarrow> install_snapshot meta bytes sm db =
     (Inr (), sm\<lparr>sm_data := bytes\<rparr>,
      db\<lparr>db_state_machine := Some bytes, db_snapshot := Some \<lparr>snap_meta = meta, snap_data = bytes\<rparr>\<rparr>)"
  by (simp add: install_snapshot_def persist_def write_txn_def Let_def)

lemma build_snapshot_ok:
  assumes "build_snapshot sh sm db = (Inr snap, db')"
  shows "snap_data snap = sm_data sm" and "db_snapshot db' = Some snap"
    and "meta_last_log_id (snap_meta snap) = last_applied (sm_data sm)"
    and "meta_last_membership (snap_meta snap) = last_membership (sm_data sm)"
  using assms
  by (auto simp: build_snapshot_def write_txn_def Let_def split: if_splits)


definition ex_sm :: "(unit, unit) redb_state_machine" where
  "ex_sm = \<lparr>sm_data = default_data (), snapshot_idx = 0\<rparr>"

definition ex_leader :: "(unit, unit) redb_state_machine" where
  "ex_leader = ex_sm\<lparr>sm_data := snd (apply_loop (take 2 ex_batch) (default_data ()))\<rparr>"

definition ex_snap :: "(unit, unit) stored_snapshot" where
  "ex_snap = (case fst (build_snapshot (\<lambda>_. ''T1'') ex_leader (open_database :: (unit, unit, unit) raft_db)) of
     Inr s \<Rightarrow> s | Inl _ \<Rightarrow> \<lparr>snap_meta = \<lparr>meta_last_log_id = None, meta_last_membership = (None, ()),
       snapshot_id = []\<rparr>, snap_data = default_data ()\<rparr>)"


section \<open>Node ids\<close>

lemma raft_node_id_roundtrip:
  "to_raft_node_id i = Inr n \<Longrightarrow> i < 2 ^ 31 \<Longrightarrow> from_raft_node_id n = Inr i"
  by (auto simp: to_raft_node_id_def from_raft_node_id_def split: if_splits)

lemma from_raft_node_id_range: "from_raft_node_id n = Inr i \<Longrightarrow> to_raft_node_id i = Inr n \<and> i32_range i"
  by (auto simp: to_raft_node_id_def from_raft_node_id_def i32_range_def split: if_splits)

end
