(* ===== verification/Config.thy ===== *)
theory Config
  imports PgPrelude
begin

text \<open>
  \<open>crates/pg-agent-core/src/config.rs\<close> with the error type of \<open>errors.rs\<close> and the replication
  section of \<open>crates/pgman/src/pgstandby.rs\<close>: the schema of \<open>config.toml\<close>, its defaults, the
  environment overrides, the resolution of the local node id, structural validation, and the run-time
  projections (\<open>NodePool\<close>, \<open>ServeSettings\<close>, \<open>PostgresRuntime\<close>).

  The TOML parser is outside the model: the development starts from the parsed \<open>Config\<close>. The file
  system and \<open>gethostname\<close> are arguments of the functions that consult them. \<open>IpAddr\<close> parsing follows
  the standard library's parser. Ports are natural numbers below \<open>2^16\<close>; paths are strings.
\<close>

section \<open>Errors\<close>

datatype agent_error =
    NoPool
  | DuplicateId i32
  | DuplicateHost string
  | NegativeId i32
  | NodeNotFound string
  | NoLocalNode
  | LocalNodeMissingFromPool string i32
  | NodeIdFile string string
  | NodeRefUnresolvable i32 string
  | NodeRefNotLocal i32 string
  | RaftConfigError string
  | ReplicationSslMode

definition show_agent_error :: "agent_error \<Rightarrow> string" where
  "show_agent_error e =
     (case e of
        NoPool \<Rightarrow> ''config: pool must have at least one node''
      | DuplicateId i \<Rightarrow> ''config: duplicate node id in pool: '' @ show_int i
      | DuplicateHost h \<Rightarrow> ''config: duplicate hostname in pool: '' @ h
      | NegativeId i \<Rightarrow> ''config: node id must be non-negative: '' @ show_int i
      | NodeNotFound n \<Rightarrow> ''config: node not found: '' @ n
      | NoLocalNode \<Rightarrow>
          ''config: local node not found in pool (no node_id configured and no hostname match)''
      | LocalNodeMissingFromPool origin i \<Rightarrow>
          ''config: '' @ origin @ '' specifies id='' @ show_int i @ '' which is not in pool''
      | NodeIdFile path msg \<Rightarrow> ''config: node_id file '' @ path @ '': '' @ msg
      | NodeRefUnresolvable i h \<Rightarrow> ''unknown node: id='' @ show_int i @ '' hostname='' @ debug_str h
      | NodeRefNotLocal i h \<Rightarrow> ''node id='' @ show_int i @ '' ('' @ h @ '') is not the local node''
      | RaftConfigError m \<Rightarrow> ''config: [raft]: '' @ m
      | ReplicationSslMode \<Rightarrow>
          ''config: postgres.replication.sslmode must be one of disable, allow, prefer, require, verify-ca, verify-full'')"

section \<open>Nodes and the pool\<close>

record node_config =
  nc_id :: i32
  nc_hostname :: string

definition slot_name :: "node_config \<Rightarrow> string" where
  "slot_name n = ''node'' @ show_int (nc_id n)"

definition peer_addr :: "node_config \<Rightarrow> nat \<Rightarrow> string" where
  "peer_addr n port = nc_hostname n @ '':'' @ show_nat port"

text \<open>The wire's \<open>NodeRef\<close>: what pgpool says of a node.\<close>

record node_ref =
  ref_id :: i32
  ref_hostname :: string
  ref_pg_port :: i32
  ref_pg_data :: string

record node_pool =
  np_members :: "node_config list"
  np_local_node_id :: i32

definition find_by_id :: "node_config list \<Rightarrow> i32 \<Rightarrow> (agent_error, node_config) result" where
  "find_by_id ms i =
     (case List.find (\<lambda>n. nc_id n = i) ms of
        Some n \<Rightarrow> Inr n | None \<Rightarrow> Inl (NodeNotFound (''id='' @ show_int i)))"

definition node_by_id :: "node_pool \<Rightarrow> i32 \<Rightarrow> (agent_error, node_config) result" where
  "node_by_id p i = find_by_id (np_members p) i"

definition node_by_hostname :: "node_pool \<Rightarrow> string \<Rightarrow> (agent_error, node_config) result" where
  "node_by_hostname p h =
     (case List.find (\<lambda>n. nc_hostname n = h) (np_members p) of
        Some n \<Rightarrow> Inr n | None \<Rightarrow> Inl (NodeNotFound (''hostname='' @ h)))"

definition local_node :: "node_pool \<Rightarrow> (agent_error, node_config) result" where
  "local_node p = (if np_local_node_id p < 0 then Inl NoLocalNode else node_by_id p (np_local_node_id p))"

definition is_local :: "node_pool \<Rightarrow> node_config \<Rightarrow> bool" where
  "is_local p n = (0 \<le> np_local_node_id p \<and> nc_id n = np_local_node_id p)"

definition resolve_node :: "node_pool \<Rightarrow> node_ref \<Rightarrow> (agent_error, node_config) result" where
  "resolve_node p r =
     (let unresolvable = NodeRefUnresolvable (ref_id r) (ref_hostname r) in
      if ref_hostname r \<noteq> [] then
        (case node_by_hostname p (ref_hostname r) of Inl _ \<Rightarrow> Inl unresolvable | Inr n \<Rightarrow> Inr n)
      else if 0 \<le> ref_id r then
        (case node_by_id p (ref_id r) of Inl _ \<Rightarrow> Inl unresolvable | Inr n \<Rightarrow> Inr n)
      else Inl unresolvable)"

definition resolve_local_node :: "node_pool \<Rightarrow> node_ref \<Rightarrow> (agent_error, node_config) result" where
  "resolve_local_node p r =
     (case resolve_node p r of
        Inl e \<Rightarrow> Inl e
      | Inr n \<Rightarrow> if \<not> is_local p n then Inl (NodeRefNotLocal (nc_id n) (nc_hostname n)) else Inr n)"

section \<open>The schema\<close>

record tls_config =
  tls_ca_cert :: "string option"
  tls_cert :: "string option"
  tls_key :: "string option"

definition tls_is_configured :: "tls_config \<Rightarrow> bool" where
  "tls_is_configured t = (tls_ca_cert t \<noteq> None \<and> tls_cert t \<noteq> None \<and> tls_key t \<noteq> None)"

record pg_replication_config =
  repl_sslmode :: "string option"

definition allowed_sslmodes :: "string list" where
  "allowed_sslmodes = [''disable'', ''allow'', ''prefer'', ''require'', ''verify-ca'', ''verify-full'']"

definition replication_valid :: "pg_replication_config \<Rightarrow> bool" where
  "replication_valid r =
     (case repl_sslmode r of None \<Rightarrow> True | Some m \<Rightarrow> List.member allowed_sslmodes m)"

definition effective_sslmode :: "pg_replication_config \<Rightarrow> string" where
  "effective_sslmode r = unwrap_or (repl_sslmode r) ''verify-full''"

definition conninfo :: "pg_replication_config \<Rightarrow> string \<Rightarrow> nat \<Rightarrow> string \<Rightarrow> string \<Rightarrow> string" where
  "conninfo r host port user dbname =
     ''host='' @ host @ '' port='' @ show_nat port @ '' user='' @ user @
     (if dbname \<noteq> [] then '' dbname='' @ dbname else []) @
     '' sslmode='' @ effective_sslmode r"

record postgres_config =
  pg_port :: "nat option"
  pg_install_prefix :: "string option"
  pg_data_dir :: "string option"
  pg_socket_dir :: "string option"
  pg_repl_user :: "string option"
  pg_user_home :: "string option"
  pg_archive_dir :: "string option"
  pg_service :: "string option"
  pg_replication :: pg_replication_config

record pcp_config =
  pcp_user :: "string option"
  pcp_port :: "nat option"
  pcp_pgpool_service :: "string option"

record healthz_config =
  hz_enabled :: "bool option"
  hz_listen :: "string option"
  hz_port :: "nat option"

definition hz_is_enabled :: "healthz_config \<Rightarrow> bool" where
  "hz_is_enabled h = unwrap_or (hz_enabled h) True"

text \<open>\<open>[raft]\<close>: seconds and milliseconds as the file gives them (\<open>u64\<close> values).\<close>

record raft_config =
  rc_obsolete_enabled :: "bool option"
  rc_loop_wait_secs :: "nat option"
  rc_retry_timeout_secs :: "nat option"
  rc_leader_ttl_secs :: "nat option"
  rc_election_timeout_ms :: "nat option"

record config =
  c_agent_port :: "nat option"
  c_unix_socket :: "string option"
  c_listen :: "string option"
  c_node_id :: "i32 option"
  c_node_id_file :: "string option"
  c_state_dir :: "string option"
  c_tls :: tls_config
  c_pool :: "node_config list"
  c_postgres :: postgres_config
  c_pcp :: pcp_config
  c_healthz :: healthz_config
  c_required_peers :: "nat option"
  c_supervise_pgpool :: "bool option"
  c_raft :: raft_config
  c_dev_mode :: bool
  c_local_node_id :: i32

definition effective_required_peers :: "config \<Rightarrow> nat" where
  "effective_required_peers c = unwrap_or (c_required_peers c) 1"

definition effective_pgpool_enabled :: "config \<Rightarrow> bool" where
  "effective_pgpool_enabled c = unwrap_or (c_supervise_pgpool c) True"

section \<open>Timing\<close>

definition effective_loop_wait :: "raft_config \<Rightarrow> duration" where
  "effective_loop_wait r = secs (unwrap_or (rc_loop_wait_secs r) 10)"

definition effective_retry_timeout :: "raft_config \<Rightarrow> duration" where
  "effective_retry_timeout r = secs (unwrap_or (rc_retry_timeout_secs r) 10)"

definition effective_leader_ttl :: "raft_config \<Rightarrow> duration" where
  "effective_leader_ttl r = secs (unwrap_or (rc_leader_ttl_secs r) 30)"

definition effective_election_timeout :: "raft_config \<Rightarrow> duration" where
  "effective_election_timeout r = millis (unwrap_or (rc_election_timeout_ms r) 5000)"

definition obsolete_enabled_warning :: "raft_config \<Rightarrow> string option" where
  "obsolete_enabled_warning r =
     (if rc_obsolete_enabled r = Some True
      then Some ''[raft] enabled is obsolete and ignored -- consensus is not optional. Delete the line.''
      else None)"

text \<open>
  \<open>RaftConfig::validate\<close>, with its three refusals in the source's order. \<open>Duration\<close> arithmetic
  panics past \<open>2^64\<close> seconds; \<open>None\<close> stands for that panic.
\<close>

definition duration_overflow :: "duration \<Rightarrow> bool" where
  "duration_overflow d = (secs (2 ^ 64) \<le> d)"

definition raft_validate :: "raft_config \<Rightarrow> (agent_error, unit) result option" where
  "raft_validate r =
     (if rc_obsolete_enabled r = Some False
      then Some (Inl (RaftConfigError ''enabled = false''))
      else
        let loop_wait = effective_loop_wait r; retry = effective_retry_timeout r;
            ttl = effective_leader_ttl r; election = effective_election_timeout r in
        if duration_overflow (2 * retry) \<or> duration_overflow (loop_wait + 2 * retry) then None
        else if ttl < loop_wait + 2 * retry then Some (Inl (RaftConfigError ''leader_ttl''))
        else if retry \<le> election then Some (Inl (RaftConfigError ''retry_timeout''))
        else Some (Inr ()))"

section \<open>Defaults\<close>

definition get_or_insert :: "'a option \<Rightarrow> 'a \<Rightarrow> 'a option" where
  "get_or_insert x d = Some (unwrap_or x d)"

text \<open>\<open>Path::join\<close> with a relative component.\<close>

definition path_join :: "string \<Rightarrow> string \<Rightarrow> string" where
  "path_join p c = (if p = [] then c else if last p = CHR ''/'' then p @ c else p @ ''/'' @ c)"

definition default_user_home :: string where
  "default_user_home = ''/var/lib/postgresql''"

definition postgres_apply_defaults :: "postgres_config \<Rightarrow> postgres_config" where
  "postgres_apply_defaults p = p\<lparr>
     pg_port := get_or_insert (pg_port p) 5432,
     pg_install_prefix := get_or_insert (pg_install_prefix p) ''/usr/lib/postgresql/17'',
     pg_data_dir := get_or_insert (pg_data_dir p) ''/var/lib/postgresql/17/main'',
     pg_socket_dir := get_or_insert (pg_socket_dir p) ''/var/run/postgresql'',
     pg_repl_user := get_or_insert (pg_repl_user p) ''repl'',
     pg_user_home := get_or_insert (pg_user_home p) default_user_home,
     pg_archive_dir := get_or_insert (pg_archive_dir p) ''/var/lib/postgresql/archive'',
     pg_service := get_or_insert (pg_service p) ''postgresql@17-main.service''\<rparr>"

definition pcp_apply_defaults :: "pcp_config \<Rightarrow> pcp_config" where
  "pcp_apply_defaults p = p\<lparr>
     pcp_user := get_or_insert (pcp_user p) ''pgpool'',
     pcp_port := get_or_insert (pcp_port p) 9898,
     pcp_pgpool_service := get_or_insert (pcp_pgpool_service p) ''pgpool2.service''\<rparr>"

definition healthz_apply_defaults :: "healthz_config \<Rightarrow> healthz_config" where
  "healthz_apply_defaults h = h\<lparr>
     hz_listen := get_or_insert (hz_listen h) ''0.0.0.0'',
     hz_port := get_or_insert (hz_port h) 9702\<rparr>"

definition apply_defaults :: "config \<Rightarrow> config" where
  "apply_defaults c =
     (let c = c\<lparr>c_agent_port := get_or_insert (c_agent_port c) 9701\<rparr>;
          c = c\<lparr>c_unix_socket := get_or_insert (c_unix_socket c) ''/run/pg_agentd/pg_agentd.sock''\<rparr>;
          c = c\<lparr>c_postgres := postgres_apply_defaults (c_postgres c)\<rparr>;
          c = (if c_state_dir c = None
               then c\<lparr>c_state_dir := Some (path_join
                      (unwrap_or (pg_user_home (c_postgres c)) default_user_home) ''pg_agent'')\<rparr>
               else c);
          c = c\<lparr>c_pcp := pcp_apply_defaults (c_pcp c)\<rparr>
      in c\<lparr>c_healthz := healthz_apply_defaults (c_healthz c)\<rparr>)"

section \<open>Environment overrides\<close>

definition env_str :: "(string \<Rightarrow> string option) \<Rightarrow> string \<Rightarrow> string option \<Rightarrow> string option" where
  "env_str getenv k old =
     (case opt_filter (\<lambda>s. s \<noteq> []) (getenv k) of Some v \<Rightarrow> Some v | None \<Rightarrow> old)"

definition env_port :: "(string \<Rightarrow> string option) \<Rightarrow> string \<Rightarrow> nat option \<Rightarrow> nat option" where
  "env_port getenv k old =
     (case opt_filter (\<lambda>s. s \<noteq> []) (getenv k) of
        None \<Rightarrow> old
      | Some s \<Rightarrow> (case parse_unsigned 10 16 s of Some p \<Rightarrow> Some p | None \<Rightarrow> old))"

definition apply_env_overrides_from :: "(string \<Rightarrow> string option) \<Rightarrow> config \<Rightarrow> config" where
  "apply_env_overrides_from getenv c =
     c\<lparr>c_unix_socket := env_str getenv ''PG_AGENTD_SOCKET'' (c_unix_socket c),
       c_agent_port := env_port getenv ''PG_AGENTD_PORT'' (c_agent_port c),
       c_listen := env_str getenv ''PG_AGENTD_LISTEN'' (c_listen c),
       c_tls := (c_tls c)\<lparr>
         tls_ca_cert := env_str getenv ''PG_AGENTD_TLS_CA_CERT'' (tls_ca_cert (c_tls c)),
         tls_cert := env_str getenv ''PG_AGENTD_TLS_CERT'' (tls_cert (c_tls c)),
         tls_key := env_str getenv ''PG_AGENTD_TLS_KEY'' (tls_key (c_tls c))\<rparr>,
       c_pcp := (c_pcp c)\<lparr>
         pcp_user := env_str getenv ''PG_AGENTD_PCP_USER'' (pcp_user (c_pcp c)),
         pcp_port := env_port getenv ''PG_AGENTD_PCP_PORT'' (pcp_port (c_pcp c))\<rparr>\<rparr>"

section \<open>The local node id\<close>

datatype io_error = IoNotFound | IoOther string

text \<open>The file system, as a function from a path to its text.\<close>

type_synonym file_system = "string \<Rightarrow> (io_error, string) result"

definition io_message :: "io_error \<Rightarrow> string" where
  "io_message e = (case e of IoNotFound \<Rightarrow> ''not found'' | IoOther m \<Rightarrow> m)"

definition read_node_id_file :: "file_system \<Rightarrow> string \<Rightarrow> (agent_error, i32) result" where
  "read_node_id_file fs path =
     (case fs path of
        Inl e \<Rightarrow> Inl (NodeIdFile path (io_message e))
      | Inr raw \<Rightarrow>
          (case parse_i32 (trim raw) of
             Some i \<Rightarrow> Inr i | None \<Rightarrow> Inl (NodeIdFile path ''parse'')))"

definition try_read_node_id_file :: "file_system \<Rightarrow> string \<Rightarrow> (agent_error, i32 option) result" where
  "try_read_node_id_file fs path =
     (case fs path of
        Inr raw \<Rightarrow>
          (case parse_i32 (trim raw) of
             Some i \<Rightarrow> Inr (Some i) | None \<Rightarrow> Inl (NodeIdFile path ''parse''))
      | Inl IoNotFound \<Rightarrow> Inr None
      | Inl (IoOther m) \<Rightarrow> Inl (NodeIdFile path m))"

definition set_local_node_by_id :: "i32 \<Rightarrow> string \<Rightarrow> config \<Rightarrow> (agent_error, unit) result \<times> config" where
  "set_local_node_by_id i origin c =
     (if list_ex (\<lambda>n. nc_id n = i) (c_pool c)
      then (Inr (), c\<lparr>c_local_node_id := i\<rparr>)
      else (Inl (LocalNodeMissingFromPool origin i), c))"

text \<open>Step 3: the first pgpool node-id file that exists decides.\<close>

fun probe_pgpool_files ::
  "file_system \<Rightarrow> string list \<Rightarrow> (agent_error, (i32 \<times> string) option) result" where
  "probe_pgpool_files fs [] = Inr None"
| "probe_pgpool_files fs (p # ps) =
     (case try_read_node_id_file fs p of
        Inl e \<Rightarrow> Inl e
      | Inr (Some i) \<Rightarrow> Inr (Some (i, p))
      | Inr None \<Rightarrow> probe_pgpool_files fs ps)"

definition resolve_local_node_id_with_pgpool_files ::
  "file_system \<Rightarrow> string option \<Rightarrow> string list \<Rightarrow> config \<Rightarrow> (agent_error, unit) result \<times> config" where
  "resolve_local_node_id_with_pgpool_files fs hostname pgpool_files c =
     (let c = c\<lparr>c_local_node_id := -1\<rparr> in
      case c_node_id c of
        Some i \<Rightarrow> set_local_node_by_id i ''config node_id'' c
      | None \<Rightarrow>
     (case c_node_id_file c of
        Some p \<Rightarrow>
          (case read_node_id_file fs p of
             Inl e \<Rightarrow> (Inl e, c)
           | Inr i \<Rightarrow> set_local_node_by_id i (''node_id_file '' @ p) c)
      | None \<Rightarrow>
     (case probe_pgpool_files fs pgpool_files of
        Inl e \<Rightarrow> (Inl e, c)
      | Inr (Some (i, p)) \<Rightarrow> set_local_node_by_id i (''pgpool_node_id file '' @ p) c
      | Inr None \<Rightarrow>
     (case hostname of
        None \<Rightarrow> (Inr (), c)
      | Some h \<Rightarrow>
          (case List.find (\<lambda>n. nc_hostname n = h) (c_pool c) of
             Some n \<Rightarrow> (Inr (), c\<lparr>c_local_node_id := nc_id n\<rparr>)
           | None \<Rightarrow> (Inr (), c))))))"

definition default_pgpool_node_id_files :: "string list" where
  "default_pgpool_node_id_files = [''/etc/pgpool2/pgpool_node_id'', ''/etc/pgpool-II/pgpool_node_id'']"

definition resolve_local_node_id ::
  "file_system \<Rightarrow> string option \<Rightarrow> config \<Rightarrow> (agent_error, unit) result \<times> config" where
  "resolve_local_node_id fs hostname c =
     resolve_local_node_id_with_pgpool_files fs hostname default_pgpool_node_id_files c"

section \<open>Validation and loading\<close>

text \<open>The pool scan: negative id, duplicate id, duplicate host, in this order, node by node.\<close>

fun validate_pool ::
  "i32 list \<Rightarrow> string list \<Rightarrow> node_config list \<Rightarrow> (agent_error, unit) result" where
  "validate_pool ids hosts [] = Inr ()"
| "validate_pool ids hosts (n # ns) =
     (if nc_id n < 0 then Inl (NegativeId (nc_id n))
      else if List.member ids (nc_id n) then Inl (DuplicateId (nc_id n))
      else if List.member hosts (nc_hostname n) then Inl (DuplicateHost (nc_hostname n))
      else validate_pool (nc_id n # ids) (nc_hostname n # hosts) ns)"

definition to_node_pool :: "config \<Rightarrow> node_pool" where
  "to_node_pool c = \<lparr>np_members = c_pool c, np_local_node_id = c_local_node_id c\<rparr>"

definition config_local_node :: "config \<Rightarrow> (agent_error, node_config) result" where
  "config_local_node c =
     (if c_local_node_id c < 0 then Inl NoLocalNode
      else find_by_id (c_pool c) (c_local_node_id c))"

definition validate :: "config \<Rightarrow> (agent_error, unit) result option" where
  "validate c =
     (if c_pool c = [] then Some (Inl NoPool)
      else case validate_pool [] [] (c_pool c) of
        Inl e \<Rightarrow> Some (Inl e)
      | Inr _ \<Rightarrow>
     (case config_local_node c of
        Inl e \<Rightarrow> Some (Inl e)
      | Inr _ \<Rightarrow>
          if \<not> replication_valid (pg_replication (c_postgres c)) then Some (Inl ReplicationSslMode)
          else raft_validate (c_raft c)))"

text \<open>\<open>load\<close> after the TOML parse: defaults, then the local node, then validation.\<close>

definition load_parsed ::
  "file_system \<Rightarrow> string option \<Rightarrow> config \<Rightarrow> (agent_error, config) result option" where
  "load_parsed fs hostname cfg =
     (case resolve_local_node_id fs hostname (apply_defaults cfg) of
        (Inl e, _) \<Rightarrow> Some (Inl e)
      | (Inr _, c) \<Rightarrow>
          map_option (\<lambda>r. case r of Inl e \<Rightarrow> Inl e | Inr _ \<Rightarrow> Inr c) (validate c))"

section \<open>Projections\<close>

text \<open>
  \<open>IpAddr::from_str\<close>, as the standard library parses it: every reader returns what it read and the
  rest of the text. \<open>read_number\<close> takes digits greedily and refuses more than \<open>maxd\<close> of them, a value
  that does not fit, and (for an octet) a leading zero.
\<close>

fun read_digits :: "nat \<Rightarrow> string \<Rightarrow> nat list \<times> string" where
  "read_digits radix [] = ([], [])"
| "read_digits radix (c # s) =
     (case digit_val radix c of
        None \<Rightarrow> ([], c # s)
      | Some d \<Rightarrow> (let (ds, r) = read_digits radix s in (d # ds, r)))"

definition read_number :: "nat \<Rightarrow> nat \<Rightarrow> nat \<Rightarrow> bool \<Rightarrow> string \<Rightarrow> (nat \<times> string) option" where
  "read_number radix maxd bound zero_prefix s =
     (let (ds, r) = read_digits radix s; v = foldl (\<lambda>a d. a * radix + d) 0 ds
      in if ds = [] \<or> maxd < length ds \<or> bound \<le> v \<or> (\<not> zero_prefix \<and> hd ds = 0 \<and> 1 < length ds)
         then None else Some (v, r))"

definition read_separator ::
  "char \<Rightarrow> nat \<Rightarrow> (string \<Rightarrow> ('a \<times> string) option) \<Rightarrow> string \<Rightarrow> ('a \<times> string) option" where
  "read_separator sep i inner s =
     (if i = 0 then inner s
      else case s of c # r \<Rightarrow> if c = sep then inner r else None | [] \<Rightarrow> None)"

fun read_octets :: "nat \<Rightarrow> nat \<Rightarrow> string \<Rightarrow> (nat list \<times> string) option" where
  "read_octets i 0 s = Some ([], s)"
| "read_octets i (Suc k) s =
     (case read_separator CHR ''.'' i (read_number 10 3 256 False) s of
        None \<Rightarrow> None
      | Some (v, r) \<Rightarrow> map_option (\<lambda>(vs, r). (v # vs, r)) (read_octets (Suc i) k r))"

definition read_ipv4_addr :: "string \<Rightarrow> (nat list \<times> string) option" where
  "read_ipv4_addr s = read_octets 0 4 s"

text \<open>\<open>read_groups\<close>: \<open>i\<close> groups are read, \<open>k\<close> are left; the flag says the last two came as an IPv4
  address.\<close>

fun read_groups :: "nat \<Rightarrow> nat \<Rightarrow> string \<Rightarrow> nat list \<times> bool \<times> string" where
  "read_groups i 0 s = ([], False, s)"
| "read_groups i (Suc k) s =
     (case (if 0 < k then read_separator CHR '':'' i read_ipv4_addr s else None) of
        Some (vs, r) \<Rightarrow> ([vs ! 0 * 256 + vs ! 1, vs ! 2 * 256 + vs ! 3], True, r)
      | None \<Rightarrow>
          (case read_separator CHR '':'' i (read_number 16 4 65536 True) s of
             None \<Rightarrow> ([], False, s)
           | Some (g, r) \<Rightarrow> (case read_groups (Suc i) k r of (gs, v4, r) \<Rightarrow> (g # gs, v4, r))))"

definition read_ipv6_addr :: "string \<Rightarrow> (nat list \<times> string) option" where
  "read_ipv6_addr s =
     (case read_groups 0 8 s of
        (hd_gs, head_ipv4, r) \<Rightarrow>
          if length hd_gs = 8 then Some (hd_gs, r)
          else if head_ipv4 then None
          else case strip_prefix ''::'' r of
              None \<Rightarrow> None
            | Some r \<Rightarrow>
                (case read_groups 0 (8 - (length hd_gs + 1)) r of
                   (tl_gs, _, r) \<Rightarrow>
                     Some (hd_gs @ replicate (8 - length hd_gs - length tl_gs) 0 @ tl_gs, r)))"

definition ip_is_loopback :: "string \<Rightarrow> bool" where
  "ip_is_loopback h =
     (case read_ipv4_addr h of
        Some (vs, r) \<Rightarrow> r = [] \<and> vs ! 0 = 127
      | None \<Rightarrow>
          (case read_ipv6_addr h of
             Some (gs, r) \<Rightarrow> r = [] \<and> gs = [0, 0, 0, 0, 0, 0, 0, 1]
           | None \<Rightarrow> False))"

definition is_loopback_hostname :: "string \<Rightarrow> bool" where
  "is_loopback_hostname h = (h = ''localhost'' \<or> h = ''ip6-localhost'' \<or> ip_is_loopback h)"

definition has_remote_peers :: "config \<Rightarrow> bool" where
  "has_remote_peers c =
     list_ex (\<lambda>n. \<not> is_loopback_hostname (nc_hostname n))
       (filter (\<lambda>n. nc_id n \<noteq> c_local_node_id c) (c_pool c))"

definition peer_listen_addr :: "config \<Rightarrow> string" where
  "peer_listen_addr c =
     (case c_listen c of
        Some l \<Rightarrow> l
      | None \<Rightarrow> if tls_is_configured (c_tls c) then ''0.0.0.0'' else ''127.0.0.1'') @
     '':'' @ show_nat (unwrap_or (c_agent_port c) 9701)"

record serve_settings =
  ss_unix_socket :: string
  ss_agent_port :: nat
  ss_peer_listen_addr :: string
  ss_tls :: tls_config
  ss_tls_configured :: bool
  ss_has_remote_peers :: bool
  ss_dev_mode :: bool
  ss_healthz_enabled :: bool
  ss_healthz_listen_addr :: string

definition to_serve_settings :: "config \<Rightarrow> serve_settings" where
  "to_serve_settings c =
     \<lparr>ss_unix_socket = unwrap_or (c_unix_socket c) ''/run/pg_agentd/pg_agentd.sock'',
      ss_agent_port = unwrap_or (c_agent_port c) 9701,
      ss_peer_listen_addr = peer_listen_addr c,
      ss_tls = c_tls c,
      ss_tls_configured = tls_is_configured (c_tls c),
      ss_has_remote_peers = has_remote_peers c,
      ss_dev_mode = c_dev_mode c,
      ss_healthz_enabled = hz_is_enabled (c_healthz c),
      ss_healthz_listen_addr = unwrap_or (hz_listen (c_healthz c)) ''0.0.0.0'' @ '':'' @
        show_nat (unwrap_or (hz_port (c_healthz c)) 9702)\<rparr>"

definition reject_insecure_remote_peer :: "serve_settings \<Rightarrow> bool" where
  "reject_insecure_remote_peer s =
     (ss_has_remote_peers s \<and> \<not> ss_tls_configured s \<and> \<not> ss_dev_mode s)"

record postgres_runtime =
  rt_port :: nat
  rt_data_dir :: string
  rt_repl_user :: string

definition to_postgres_runtime :: "config \<Rightarrow> postgres_runtime" where
  "to_postgres_runtime c =
     \<lparr>rt_port = unwrap_or (pg_port (c_postgres c)) 5432,
      rt_data_dir = unwrap_or (pg_data_dir (c_postgres c)) ''/var/lib/postgresql/17/main'',
      rt_repl_user = unwrap_or (pg_repl_user (c_postgres c)) ''repl''\<rparr>"

section \<open>Lookups\<close>

definition pool_ids :: "node_config list \<Rightarrow> i32 set" where
  "pool_ids ns = nc_id ` set ns"

lemma pool_idsI: "n \<in> set ns \<Longrightarrow> nc_id n \<in> pool_ids ns"
  by (simp add: pool_ids_def)

lemma pool_ids_eq: "i \<in> pool_ids ns \<longleftrightarrow> list_ex (\<lambda>n. nc_id n = i) ns"
  by (auto simp: pool_ids_def list_ex_iff)

lemma find_by_id_Inr: "find_by_id ms i = Inr n \<Longrightarrow> n \<in> set ms \<and> nc_id n = i"
  by (auto simp: find_by_id_def dest: List_find_SomeD split: option.splits)

lemma find_by_id_ok: "i \<in> pool_ids ms \<longleftrightarrow> is_ok (find_by_id ms i)"
  by (auto simp: find_by_id_def find_None_iff pool_ids_def is_ok_def dest: List_find_SomeD split: option.split)

lemma slot_name_inj: "slot_name a = slot_name b \<longleftrightarrow> nc_id a = nc_id b"
  by (simp add: slot_name_def)

section \<open>The pool scan\<close>

lemma validate_pool_iff:
  "validate_pool ids hosts ns = Inr () \<longleftrightarrow>
     (\<forall>n \<in> set ns. 0 \<le> nc_id n \<and> nc_id n \<notin> set ids \<and> nc_hostname n \<notin> set hosts) \<and>
     distinct (map nc_id ns) \<and> distinct (map nc_hostname ns)"
proof (induction ids hosts ns rule: validate_pool.induct)
  case (2 ids hosts n ns)
  show ?case
  proof (cases "nc_id n < 0 \<or> nc_id n \<in> set ids \<or> nc_hostname n \<in> set hosts")
    case True
    thus ?thesis by auto
  next
    case False
    with 2 have "validate_pool (nc_id n # ids) (nc_hostname n # hosts) ns = Inr () \<longleftrightarrow>
        (\<forall>m \<in> set ns. 0 \<le> nc_id m \<and> nc_id m \<notin> set (nc_id n # ids) \<and> nc_hostname m \<notin> set (nc_hostname n # hosts)) \<and>
        distinct (map nc_id ns) \<and> distinct (map nc_hostname ns)" by simp
    with False show ?thesis by (auto simp: image_iff)
  qed
qed simp

definition pool_ok :: "node_config list \<Rightarrow> bool" where
  "pool_ok ns \<longleftrightarrow>
     ns \<noteq> [] \<and> list_all (\<lambda>n. 0 \<le> nc_id n) ns \<and> distinct (map nc_id ns) \<and> distinct (map nc_hostname ns)"

definition timing_ok :: "raft_config \<Rightarrow> bool" where
  "timing_ok r \<longleftrightarrow>
     effective_loop_wait r + 2 * effective_retry_timeout r \<le> effective_leader_ttl r \<and>
     effective_election_timeout r < effective_retry_timeout r"

lemma raft_validate_iff:
  "raft_validate r = Some (Inr ()) \<longleftrightarrow>
     rc_obsolete_enabled r \<noteq> Some False \<and> timing_ok r \<and>
     \<not> duration_overflow (effective_loop_wait r + 2 * effective_retry_timeout r)"
  by (auto simp: raft_validate_def timing_ok_def Let_def duration_overflow_def)

lemma config_local_iff:
  "is_ok (config_local_node c) \<longleftrightarrow> 0 \<le> c_local_node_id c \<and> c_local_node_id c \<in> pool_ids (c_pool c)"
  by (auto simp: config_local_node_def find_by_id_ok)

section \<open>Properties\<close>

text \<open>
  Validation accepts exactly the sound configurations: a non-empty pool with pairwise distinct
  non-negative ids and pairwise distinct host names, a local node that is a member, an allowed
  \<open>sslmode\<close>, no \<open>enabled = false\<close>, \<open>leader_ttl \<ge> loop_wait + 2 * retry_timeout\<close>,
  \<open>retry_timeout > election_timeout\<close>, and durations within the range of \<open>Duration\<close>.
\<close>

theorem validate_exact:
  "validate c = Some (Inr ()) \<longleftrightarrow>
     pool_ok (c_pool c) \<and> 0 \<le> c_local_node_id c \<and> c_local_node_id c \<in> pool_ids (c_pool c) \<and>
     replication_valid (pg_replication (c_postgres c)) \<and>
     rc_obsolete_enabled (c_raft c) \<noteq> Some False \<and> timing_ok (c_raft c) \<and>
     \<not> duration_overflow (effective_loop_wait (c_raft c) + 2 * effective_retry_timeout (c_raft c))"
proof -
  have "validate c = Some (Inr ()) \<longleftrightarrow>
      c_pool c \<noteq> [] \<and> validate_pool [] [] (c_pool c) = Inr () \<and> is_ok (config_local_node c) \<and>
      replication_valid (pg_replication (c_postgres c)) \<and> raft_validate (c_raft c) = Some (Inr ())"
    by (auto simp: validate_def is_ok_def split: sum.splits)
  thus ?thesis
    unfolding validate_pool_iff config_local_iff raft_validate_iff by (auto simp: pool_ok_def list_all_iff)
qed

section \<open>Resolving the local node\<close>

lemma set_local_cases:
  assumes "set_local_node_by_id i origin c = (r, c')"
  shows "(r = Inr () \<and> i \<in> pool_ids (c_pool c) \<and> c' = c\<lparr>c_local_node_id := i\<rparr>) \<or>
         (r = Inl (LocalNodeMissingFromPool origin i) \<and> i \<notin> pool_ids (c_pool c) \<and> c' = c)"
  using assms by (auto simp: set_local_node_by_id_def pool_ids_eq split: if_splits)

lemma find_host:
  "List.find (\<lambda>n. nc_hostname n = h) ns = Some n \<Longrightarrow> nc_hostname n = h \<and> n \<in> set ns \<and> nc_id n \<in> pool_ids ns"
  using List_find_SomeD [of "\<lambda>n. nc_hostname n = h" ns n] by (simp add: pool_idsI)

lemma find_host_None:
  "List.find (\<lambda>n. nc_hostname n = h) ns = None \<Longrightarrow> h \<notin> nc_hostname ` set ns"
  by (auto simp: find_None_iff)

lemma probe_None: "probe_pgpool_files fs ps = Inr None \<longleftrightarrow> (\<forall>p \<in> set ps. fs p = Inl IoNotFound)"
  by (induction ps) (auto simp: try_read_node_id_file_def split: sum.splits option.splits io_error.splits)

text \<open>What resolution leaves: only the local id changed, to the marker or to a member's id.\<close>

lemma resolve_keeps:
  assumes "resolve_local_node_id_with_pgpool_files fs hostname files c = (r, c')"
  shows "c' = c\<lparr>c_local_node_id := c_local_node_id c'\<rparr>"
    and "c_local_node_id c' \<noteq> -1 \<Longrightarrow> c_local_node_id c' \<in> pool_ids (c_pool c)"
  using assms
  by (auto simp: resolve_local_node_id_with_pgpool_files_def Let_def dest!: set_local_cases find_host
      split: option.splits sum.splits prod.splits)

lemma hostname_fallback [consumes 4]:
  assumes "resolve_local_node_id_with_pgpool_files fs hostname files c = (r, c')"
    and "c_node_id c = None" and "c_node_id_file c = None" and "probe_pgpool_files fs files = Inr None"
  obtains (unset) "\<And>h. hostname = Some h \<Longrightarrow> h \<notin> nc_hostname ` set (c_pool c)"
      "r = Inr ()" "c_local_node_id c' = -1"
  | (host) n where "n \<in> set (c_pool c)" "hostname = Some (nc_hostname n)"
      "nc_id n \<in> pool_ids (c_pool c)" "r = Inr ()" "c_local_node_id c' = nc_id n"
proof (cases hostname)
  case None
  with assms show thesis by (intro unset) (auto simp: resolve_local_node_id_with_pgpool_files_def Let_def)
next
  case (Some h)
  show thesis
  proof (cases "List.find (\<lambda>n. nc_hostname n = h) (c_pool c)")
    case None
    with assms Some find_host_None [OF None] show thesis
      by (intro unset) (auto simp: resolve_local_node_id_with_pgpool_files_def Let_def)
  next
    case (Some n)
    with assms \<open>hostname = Some h\<close> find_host [OF Some] show thesis
      by (intro host [of n]) (auto simp: resolve_local_node_id_with_pgpool_files_def Let_def)
  qed
qed

text \<open>
  The node never guesses who it is. Resolution either fails, or picks a member of the pool, or
  leaves the id unset; it leaves it unset only when no source names a node: no \<open>node_id\<close>, no
  \<open>node_id_file\<close>, none of the pgpool files exists, and the host name is nobody's. A source that names
  an id outside the pool, or a file that cannot be read or parsed, is an error, whatever the later
  sources would say.
\<close>

theorem local_node_never_guessed:
  assumes "resolve_local_node_id_with_pgpool_files fs hostname files c = (r, c')"
    and "list_all (\<lambda>n. 0 \<le> nc_id n) (c_pool c)"
  shows "if c_local_node_id c' = -1
    then is_ok r \<longleftrightarrow> c_node_id c = None \<and> c_node_id_file c = None \<and>
           list_all (\<lambda>f. fs f = Inl IoNotFound) files \<and>
           (case hostname of None \<Rightarrow> True | Some h \<Rightarrow> h \<notin> nc_hostname ` set (c_pool c))
    else is_ok r \<and> c_local_node_id c' \<in> pool_ids (c_pool c) \<and>
         (case c_node_id c of
            Some i \<Rightarrow> c_local_node_id c' = i
          | None \<Rightarrow>
         (case c_node_id_file c of
            Some f \<Rightarrow> read_node_id_file fs f = Inr (c_local_node_id c')
          | None \<Rightarrow>
         (case probe_pgpool_files fs files of
            Inr (Some (i, f)) \<Rightarrow> c_local_node_id c' = i
          | _ \<Rightarrow> \<exists>n \<in> set (c_pool c). nc_id n = c_local_node_id c' \<and> hostname = Some (nc_hostname n))))"
proof -
  have m: "-1 \<notin> pool_ids (c_pool c)" using assms(2) by (auto simp: list_all_iff pool_ids_def)
  show ?thesis
  proof (cases "c_node_id c")
    case (Some i)
    with assms(1) have "set_local_node_by_id i ''config node_id'' (c\<lparr>c_local_node_id := -1\<rparr>) = (r, c')"
      by (simp add: resolve_local_node_id_with_pgpool_files_def)
    from set_local_cases [OF this] m Some show ?thesis by auto
  next
    case ni: None
    show ?thesis
    proof (cases "c_node_id_file c")
      case (Some p)
      show ?thesis
      proof (cases "read_node_id_file fs p")
        case (Inl e)
        with assms(1) ni Some show ?thesis by (auto simp: resolve_local_node_id_with_pgpool_files_def)
      next
        case (Inr i)
        with assms(1) ni Some have
          "set_local_node_by_id i (''node_id_file '' @ p) (c\<lparr>c_local_node_id := -1\<rparr>) = (r, c')"
          by (simp add: resolve_local_node_id_with_pgpool_files_def)
        from set_local_cases [OF this] m ni Some Inr show ?thesis by auto
      qed
    next
      case nf: None
      show ?thesis
      proof (cases "probe_pgpool_files fs files")
        case (Inl e)
        hence "\<not> list_all (\<lambda>f. fs f = Inl IoNotFound) files"
          using probe_None [of fs files] by (auto simp: list_all_iff)
        with assms(1) ni nf Inl show ?thesis by (auto simp: resolve_local_node_id_with_pgpool_files_def)
      next
        case (Inr o')
        show ?thesis
        proof (cases o')
          case (Some ip)
          obtain i p where ip: "ip = (i, p)" by fastforce
          have na: "\<not> list_all (\<lambda>f. fs f = Inl IoNotFound) files"
            using probe_None [of fs files] Inr Some by (auto simp: list_all_iff)
          from assms(1) ni nf Inr Some ip have
            "set_local_node_by_id i (''pgpool_node_id file '' @ p) (c\<lparr>c_local_node_id := -1\<rparr>) = (r, c')"
            by (simp add: resolve_local_node_id_with_pgpool_files_def)
          from set_local_cases [OF this] m ni nf Inr Some ip na show ?thesis by auto
        next
          case None
          have all: "list_all (\<lambda>f. fs f = Inl IoNotFound) files"
            using probe_None [of fs files] Inr None by (simp add: list_all_iff)
          from Inr None have pr: "probe_pgpool_files fs files = Inr None" by simp
          from assms(1) ni nf pr show ?thesis
          proof (cases rule: hostname_fallback)
            case unset
            with ni nf all show ?thesis by (simp split: option.split)
          next
            case (host n)
            from host(3) m have "nc_id n \<noteq> -1" by metis
            with host ni nf pr show ?thesis by auto
          qed
        qed
      qed
    qed
  qed
qed

definition ex_config :: config where
  "ex_config =
     \<lparr>c_agent_port = None, c_unix_socket = None, c_listen = None, c_node_id = None, c_node_id_file = None,
      c_state_dir = None, c_tls = \<lparr>tls_ca_cert = None, tls_cert = None, tls_key = None\<rparr>,
      c_pool = [\<lparr>nc_id = 0, nc_hostname = ''db0''\<rparr>, \<lparr>nc_id = 1, nc_hostname = ''db1''\<rparr>,
                \<lparr>nc_id = 2, nc_hostname = ''db2''\<rparr>],
      c_postgres = \<lparr>pg_port = None, pg_install_prefix = None, pg_data_dir = None, pg_socket_dir = None,
        pg_repl_user = None, pg_user_home = None, pg_archive_dir = None, pg_service = None,
        pg_replication = \<lparr>repl_sslmode = None\<rparr>\<rparr>,
      c_pcp = \<lparr>pcp_user = None, pcp_port = None, pcp_pgpool_service = None\<rparr>,
      c_healthz = \<lparr>hz_enabled = None, hz_listen = None, hz_port = None\<rparr>, c_required_peers = None,
      c_supervise_pgpool = None,
      c_raft = \<lparr>rc_obsolete_enabled = None, rc_loop_wait_secs = None, rc_retry_timeout_secs = None,
        rc_leader_ttl_secs = None, rc_election_timeout_ms = None\<rparr>,
      c_dev_mode = False, c_local_node_id = -1\<rparr>"

definition ex_files :: file_system where
  "ex_files p = (if p = ''/etc/pgpool2/pgpool_node_id'' then Inr (''2'' @ [CHR 0x0A]) else Inl IoNotFound)"

lemma ex_resolve:
  "resolve_local_node_id_with_pgpool_files ex_files (Some ''db1'') default_pgpool_node_id_files ex_config =
     (Inr (), ex_config\<lparr>c_local_node_id := 2\<rparr>)"
  by (simp add: resolve_local_node_id_with_pgpool_files_def ex_config_def default_pgpool_node_id_files_def
      ex_files_def try_read_node_id_file_def trim_def is_ws_def parse_i32_def parse_i32_radix_def
      digits_val_def digit_val_def set_local_node_by_id_def)

theorem local_node_never_guessed_witness:
  "2 \<in> pool_ids (c_pool ex_config)"
proof -
  have "list_all (\<lambda>n. 0 \<le> nc_id n) (c_pool ex_config)" by (simp add: ex_config_def)
  from local_node_never_guessed [OF ex_resolve this] show ?thesis by simp
qed

section \<open>Loading\<close>

lemma get_or_insert_idem [simp]:
  "get_or_insert (get_or_insert x d) d = get_or_insert x d" "get_or_insert x d \<noteq> None"
  "unwrap_or (get_or_insert x d) d' = unwrap_or x d"
  by (simp_all add: get_or_insert_def)

lemma apply_defaults_eq:
  "apply_defaults c = c\<lparr>c_agent_port := get_or_insert (c_agent_port c) 9701,
     c_unix_socket := get_or_insert (c_unix_socket c) ''/run/pg_agentd/pg_agentd.sock'',
     c_state_dir := get_or_insert (c_state_dir c)
       (path_join (unwrap_or (pg_user_home (c_postgres c)) default_user_home) ''pg_agent''),
     c_postgres := postgres_apply_defaults (c_postgres c), c_pcp := pcp_apply_defaults (c_pcp c),
     c_healthz := healthz_apply_defaults (c_healthz c)\<rparr>"
proof (cases "c_state_dir c")
  case None
  thus ?thesis
    unfolding apply_defaults_def Let_def by (simp add: postgres_apply_defaults_def) (simp add: get_or_insert_def)
next
  case (Some d)
  thus ?thesis unfolding apply_defaults_def Let_def by (simp, simp add: get_or_insert_def)
qed

lemma apply_defaults_local [simp]:
  "apply_defaults (c\<lparr>c_local_node_id := i\<rparr>) = (apply_defaults c)\<lparr>c_local_node_id := i\<rparr>"
  "c_pool (apply_defaults c) = c_pool c" "c_raft (apply_defaults c) = c_raft c"
  by (simp_all add: apply_defaults_eq)

lemma apply_defaults_idem: "apply_defaults (apply_defaults c) = apply_defaults c"
  by (simp add: apply_defaults_eq postgres_apply_defaults_def pcp_apply_defaults_def
      healthz_apply_defaults_def)

lemma unit_result: "(\<forall>e. r \<noteq> Inl e) \<longleftrightarrow> r = Inr ()" for r :: "('e, unit) result"
  by (cases r) auto

lemma find_unique:
  assumes "distinct (map f ns)" and "n \<in> set ns"
  shows "List.find (\<lambda>m. f m = f n) ns = Some n"
  using assms by (induction ns) (auto simp: image_iff)

text \<open>
  (C31) A configuration that loads can be relied on. Its pool is the one in the file; the local node is
  a member of it and every member is found by its id and by its host name, so that a reference from
  pgpool resolves to exactly the node it names; no two members share a replication slot; filling in
  the defaults again changes nothing; and the two timing rules hold.
\<close>

theorem loaded_config_is_sound:
  assumes "load_parsed fs hostname cfg = Some (Inr c)"
  shows "c_pool c = c_pool cfg \<and> apply_defaults c = c \<and> distinct (map slot_name (c_pool c)) \<and>
    timing_ok (c_raft c) \<and>
    (\<exists>n \<in> set (c_pool c). local_node (to_node_pool c) = Inr n \<and> is_local (to_node_pool c) n) \<and>
    list_all (\<lambda>m. node_by_id (to_node_pool c) (nc_id m) = Inr m \<and>
      (nc_hostname m = [] \<or>
       resolve_node (to_node_pool c) \<lparr>ref_id = i, ref_hostname = nc_hostname m, ref_pg_port = p,
         ref_pg_data = d\<rparr> = Inr m) \<and>
      resolve_node (to_node_pool c) \<lparr>ref_id = nc_id m, ref_hostname = [], ref_pg_port = p,
         ref_pg_data = d\<rparr> = Inr m) (c_pool c)"
proof -
  from assms obtain u where
    r: "resolve_local_node_id fs hostname (apply_defaults cfg) = (Inr u, c)" and
    v: "validate c = Some (Inr ())"
    unfolding load_parsed_def
    by (cases "resolve_local_node_id fs hostname (apply_defaults cfg)")
      (auto simp: unit_result split: sum.splits)
  note k = resolve_keeps(1) [OF r [unfolded resolve_local_node_id_def]]
  have pool: "c_pool c = c_pool cfg" and idem: "apply_defaults c = c"
    using k by (metis apply_defaults_local(2) config.select_convs(8) config.surjective config.update_convs(16),
        metis apply_defaults_idem apply_defaults_local(1))
  from v validate_exact [of c] have ok: "pool_ok (c_pool c)" "timing_ok (c_raft c)"
    "0 \<le> c_local_node_id c" "c_local_node_id c \<in> pool_ids (c_pool c)" by auto
  then obtain n where n: "n \<in> set (c_pool c)" "nc_id n = c_local_node_id c" by (auto simp: pool_ids_def)
  note byid = find_unique [of nc_id "c_pool c"] and byhost = find_unique [of nc_hostname "c_pool c"]
  have dist: "distinct (map nc_id (c_pool c))" "distinct (map nc_hostname (c_pool c))"
    "list_all (\<lambda>n. 0 \<le> nc_id n) (c_pool c)" using ok(1) by (simp_all add: pool_ok_def)
  have "distinct (map slot_name (c_pool c))"
    using dist(1) by (simp add: distinct_map inj_on_def slot_name_inj)
  moreover have "local_node (to_node_pool c) = Inr n \<and> is_local (to_node_pool c) n"
    using ok(3) n byid [OF dist(1) n(1)]
    by (simp add: local_node_def to_node_pool_def node_by_id_def find_by_id_def is_local_def)
  moreover have "list_all (\<lambda>m. node_by_id (to_node_pool c) (nc_id m) = Inr m \<and>
      (nc_hostname m = [] \<or>
       resolve_node (to_node_pool c) \<lparr>ref_id = i, ref_hostname = nc_hostname m, ref_pg_port = p,
         ref_pg_data = d\<rparr> = Inr m) \<and>
      resolve_node (to_node_pool c) \<lparr>ref_id = nc_id m, ref_hostname = [], ref_pg_port = p,
         ref_pg_data = d\<rparr> = Inr m) (c_pool c)"
    using byid [OF dist(1)] byhost [OF dist(2)] dist(3)
    by (auto simp: list_all_iff to_node_pool_def node_by_id_def find_by_id_def resolve_node_def
        node_by_hostname_def Let_def split: if_splits)
  ultimately show ?thesis using pool idem ok(2) n(1) by blast
qed

lemma ex_load:
  "load_parsed ex_files None ex_config =
     Some (Inr ((apply_defaults ex_config)\<lparr>c_local_node_id := 2\<rparr>))"
proof -
  let ?c = "(apply_defaults ex_config)\<lparr>c_local_node_id := 2\<rparr>"
  have "c_node_id (apply_defaults ex_config) = None" "c_node_id_file (apply_defaults ex_config) = None"
    by (simp_all add: apply_defaults_eq ex_config_def)
  hence r: "resolve_local_node_id ex_files None (apply_defaults ex_config) = (Inr (), ?c)"
    by (simp add: resolve_local_node_id_def resolve_local_node_id_with_pgpool_files_def
        default_pgpool_node_id_files_def ex_files_def try_read_node_id_file_def trim_def is_ws_def
        parse_i32_def parse_i32_radix_def digits_val_def digit_val_def set_local_node_by_id_def ex_config_def)
  have "pg_replication (c_postgres ?c) = \<lparr>repl_sslmode = None\<rparr>"
    by (simp add: apply_defaults_eq ex_config_def postgres_apply_defaults_def)
  hence "validate ?c = Some (Inr ())"
    unfolding validate_exact
    by (simp add: ex_config_def pool_ok_def pool_ids_def replication_valid_def timing_ok_def
        effective_loop_wait_def effective_retry_timeout_def effective_leader_ttl_def
        effective_election_timeout_def secs_def millis_def duration_overflow_def)
  with r show ?thesis by (simp add: load_parsed_def)
qed

theorem loaded_config_is_sound_witness:
  "\<exists>n \<in> set (c_pool ex_config).
     local_node (to_node_pool ((apply_defaults ex_config)\<lparr>c_local_node_id := 2\<rparr>)) = Inr n"
  using loaded_config_is_sound [OF ex_load, of 0 0 "[]"] by auto

end
