(* ===== verification/RaftConsensus.thy ===== *)
theory RaftConsensus
  imports RaftStore Config "HOL-Library.Sublist"
begin

text \<open>
  The consensus store over a running Raft: \<open>crates/pg-agent-core/src/raftconsensus.rs\<close>, with the
  leader-forwarding client and the leader-side handlers of \<open>raftnet.rs\<close>.

  openraft and the network are parameters: a record \<open>raft_world\<close> of what the code asks of them, over
  an abstract world state. The locale \<open>raft_cluster\<close> states openraft's documented guarantees about the
  committed document (a client write that answers took effect at one moment of the call; a read after
  \<open>ensure_linearizable\<close> sees a document committed during the call) and derives the contract
  \<open>lease_store\<close> for the store the HA loop is handed. A single-voter cluster over the storage of
  \<open>RaftStore\<close> interprets it.
\<close>

section \<open>openraft and the network\<close>

text \<open>
  The fate of one RPC to an address: it fails in transport, or a node serves it and the reply is or
  is not back before the client-side deadline.
\<close>

datatype rpc_fate = TransportFailure string | Served nat bool

text \<open>
  The first argument of the openraft fields is the node whose handle is used. \<open>w_read\<close> is that
  node's \<open>ClusterStateReader\<close>, \<open>w_current_leader\<close> and \<open>w_node_addr\<close> its metrics.
\<close>

record 's raft_world =
  w_client_write :: "nat \<Rightarrow> consensus_command \<Rightarrow> 's \<Rightarrow> (string, command_response) result \<times> 's"
  w_ensure_linearizable :: "nat \<Rightarrow> 's \<Rightarrow> (string, unit) result \<times> 's"
  w_read :: "nat \<Rightarrow> 's \<Rightarrow> cluster_state storage"
  w_current_leader :: "nat \<Rightarrow> 's \<Rightarrow> nat option"
  w_node_addr :: "nat \<Rightarrow> 's \<Rightarrow> nat \<Rightarrow> string option"
  w_dial :: "string \<Rightarrow> 's \<Rightarrow> (string, unit) result \<times> 's"
  w_rpc :: "string \<Rightarrow> 's \<Rightarrow> rpc_fate \<times> 's"

section \<open>The leader-side handlers\<close>

definition not_leader :: "string \<Rightarrow> string \<Rightarrow> string" where
  "not_leader what e = ''raft: '' @ what @ '': not the leader: '' @ e"

definition grpc_propose ::
  "'s raft_world \<Rightarrow> nat \<Rightarrow> consensus_command \<Rightarrow> 's \<Rightarrow> (string, command_response) result \<times> 's" where
  "grpc_propose w n cmd s =
     (case w_client_write w n cmd s of
        (Inl e, s') \<Rightarrow> (Inl (not_leader ''propose'' e), s')
      | (Inr written, s') \<Rightarrow> (Inr written, s'))"

definition grpc_read_state ::
  "'s raft_world \<Rightarrow> nat \<Rightarrow> 's \<Rightarrow> (string, cluster_state) result \<times> 's" where
  "grpc_read_state w n s =
     (case w_ensure_linearizable w n s of
        (Inl e, s') \<Rightarrow> (Inl (not_leader ''read_state'' e), s')
      | (Inr _, s') \<Rightarrow>
          (case w_read w n s' of
             Inl e \<Rightarrow> (Inl (''raft: read_state: '' @ e), s')
           | Inr st \<Rightarrow> (Inr st, s')))"

section \<open>The forwarding client\<close>

text \<open>The store's own state: the channels cached by address, beside the world.\<close>

record 's rc_state =
  rc_world :: 's
  rc_channels :: "string list"

definition lc_client :: "'s raft_world \<Rightarrow> string \<Rightarrow> 's rc_state \<Rightarrow> (string, unit) result \<times> 's rc_state" where
  "lc_client w addr st =
     (if List.member (rc_channels st) addr then (Inr (), st)
      else case w_dial w addr (rc_world st) of
             (Inl e, s') \<Rightarrow> (Inl e, st\<lparr>rc_world := s'\<rparr>)
           | (Inr _, s') \<Rightarrow> (Inr (), st\<lparr>rc_world := s', rc_channels := addr # rc_channels st\<rparr>))"

definition lc_invalidate :: "string \<Rightarrow> 's rc_state \<Rightarrow> 's rc_state" where
  "lc_invalidate addr st = st\<lparr>rc_channels := removeAll addr (rc_channels st)\<rparr>"

text \<open>
  The common shape of \<open>LeaderClient::propose\<close> and \<open>read_state\<close>: get a channel, run the RPC under the
  deadline, and forget the channel on a refusal or a missed deadline. \<open>handler\<close> is what the serving
  node runs.
\<close>

definition lc_call ::
  "'s raft_world \<Rightarrow> string \<Rightarrow> string \<Rightarrow> (nat \<Rightarrow> 's \<Rightarrow> (string, 'a) result \<times> 's) \<Rightarrow> 's rc_state \<Rightarrow>
     (string, 'a) result \<times> 's rc_state" where
  "lc_call w what addr handler st =
     (case lc_client w addr st of
        (Inl e, st1) \<Rightarrow> (Inl e, st1)
      | (Inr _, st1) \<Rightarrow>
          (case w_rpc w addr (rc_world st1) of
             (TransportFailure status, s2) \<Rightarrow>
               (Inl (''raft '' @ what @ '' via '' @ addr @ '': '' @ status),
                lc_invalidate addr (st1\<lparr>rc_world := s2\<rparr>))
           | (Served n in_time, s2) \<Rightarrow>
               (case handler n s2 of
                  (r, s3) \<Rightarrow>
                    if \<not> in_time then
                      (Inl (''raft '' @ what @ '' via '' @ addr @ '': no reply''),
                       lc_invalidate addr (st1\<lparr>rc_world := s3\<rparr>))
                    else (case r of
                        Inl status \<Rightarrow>
                          (Inl (''raft '' @ what @ '' via '' @ addr @ '': '' @ status),
                           lc_invalidate addr (st1\<lparr>rc_world := s3\<rparr>))
                      | Inr a \<Rightarrow> (Inr a, st1\<lparr>rc_world := s3\<rparr>)))))"

definition lc_propose ::
  "'s raft_world \<Rightarrow> string \<Rightarrow> consensus_command \<Rightarrow> 's rc_state \<Rightarrow>
     (string, command_response) result \<times> 's rc_state" where
  "lc_propose w addr cmd st = lc_call w ''propose'' addr (\<lambda>n s. grpc_propose w n cmd s) st"

definition lc_read_state ::
  "'s raft_world \<Rightarrow> string \<Rightarrow> 's rc_state \<Rightarrow> (string, cluster_state) result \<times> 's rc_state" where
  "lc_read_state w addr st = lc_call w ''read_state'' addr (grpc_read_state w) st"

section \<open>The store\<close>

definition leader_addr :: "'s raft_world \<Rightarrow> nat \<Rightarrow> 's \<Rightarrow> string option" where
  "leader_addr w me s =
     (case w_current_leader w me s of
        None \<Rightarrow> None
      | Some leader \<Rightarrow> opt_filter (\<lambda>a. a \<noteq> []) (w_node_addr w me s leader))"

definition no_leader_known :: "string \<Rightarrow> string" where
  "no_leader_known e = ''consensus: no leader known ('' @ e @ '')''"

definition propose ::
  "'s raft_world \<Rightarrow> nat \<Rightarrow> consensus_command \<Rightarrow> 's rc_state \<Rightarrow>
     (string, command_response) result \<times> 's rc_state" where
  "propose w me cmd st =
     (case w_client_write w me cmd (rc_world st) of
        (Inr written, s') \<Rightarrow> (Inr written, st\<lparr>rc_world := s'\<rparr>)
      | (Inl local_err, s') \<Rightarrow>
          (case leader_addr w me s' of
             None \<Rightarrow> (Inl (no_leader_known local_err), st\<lparr>rc_world := s'\<rparr>)
           | Some addr \<Rightarrow> lc_propose w addr cmd (st\<lparr>rc_world := s'\<rparr>)))"

definition rc_read_state ::
  "'s raft_world \<Rightarrow> nat \<Rightarrow> 's rc_state \<Rightarrow> (string, cluster_state) result \<times> 's rc_state" where
  "rc_read_state w me st =
     (case w_ensure_linearizable w me (rc_world st) of
        (Inr _, s') \<Rightarrow> (w_read w me s', st\<lparr>rc_world := s'\<rparr>)
      | (Inl local_err, s') \<Rightarrow>
          (case leader_addr w me s' of
             None \<Rightarrow> (Inl (no_leader_known local_err), st\<lparr>rc_world := s'\<rparr>)
           | Some addr \<Rightarrow> lc_read_state w addr (st\<lparr>rc_world := s'\<rparr>)))"

definition wrong_variant :: "string \<Rightarrow> string" where
  "wrong_variant what = ''consensus: '' @ what @ '' got the wrong response variant''"

definition rc_try_takeover ::
  "'s raft_world \<Rightarrow> nat \<Rightarrow> i32 \<Rightarrow> (i32 \<times> u64) option \<Rightarrow> datetime \<Rightarrow> 's rc_state \<Rightarrow>
     (string, takeover_outcome) result \<times> 's rc_state" where
  "rc_try_takeover w me candidate expected now st =
     (case propose w me (Takeover candidate expected now) st of
        (Inl e, st') \<Rightarrow> (Inl e, st')
      | (Inr (RTakeover outcome), st') \<Rightarrow> (Inr outcome, st')
      | (Inr _, st') \<Rightarrow> (Inl (wrong_variant ''takeover''), st'))"

definition rc_release ::
  "'s raft_world \<Rightarrow> nat \<Rightarrow> i32 \<Rightarrow> u64 \<Rightarrow> 's rc_state \<Rightarrow> (string, release_outcome) result \<times> 's rc_state" where
  "rc_release w me h t st =
     (case propose w me (Release h t) st of
        (Inl e, st') \<Rightarrow> (Inl e, st')
      | (Inr (RRelease outcome), st') \<Rightarrow> (Inr outcome, st')
      | (Inr _, st') \<Rightarrow> (Inl (wrong_variant ''release''), st'))"

definition rc_set_paused ::
  "'s raft_world \<Rightarrow> nat \<Rightarrow> paused option \<Rightarrow> 's rc_state \<Rightarrow> (string, unit) result \<times> 's rc_state" where
  "rc_set_paused w me p st =
     (case propose w me (SetPaused p) st of
        (Inl e, st') \<Rightarrow> (Inl e, st')
      | (Inr Ack, st') \<Rightarrow> (Inr (), st')
      | (Inr _, st') \<Rightarrow> (Inl (wrong_variant ''set_paused''), st'))"

definition rc_set_switchover ::
  "'s raft_world \<Rightarrow> nat \<Rightarrow> switchover option \<Rightarrow> 's rc_state \<Rightarrow> (string, unit) result \<times> 's rc_state" where
  "rc_set_switchover w me so st =
     (case propose w me (SetSwitchover so) st of
        (Inl e, st') \<Rightarrow> (Inl e, st')
      | (Inr Ack, st') \<Rightarrow> (Inr (), st')
      | (Inr _, st') \<Rightarrow> (Inl (wrong_variant ''set_switchover''), st'))"

definition rc_ops :: "'s raft_world \<Rightarrow> nat \<Rightarrow> 's rc_state consensus_store" where
  "rc_ops w me =
     \<lparr>st_read_state = rc_read_state w me, st_try_takeover = rc_try_takeover w me,
      st_release = rc_release w me, st_set_paused = rc_set_paused w me,
      st_set_switchover = rc_set_switchover w me\<rparr>"

section \<open>Membership bootstrap\<close>

datatype membership_bootstrap = Formed nat | AlreadyFormed

definition describe :: "membership_bootstrap \<Rightarrow> string" where
  "describe b =
     (case b of
        Formed n \<Rightarrow> ''raft membership initialized ('' @ show_nat n @ '' nodes)''
      | AlreadyFormed \<Rightarrow> ''raft membership already formed'')"

text \<open>
  openraft's election window from the one configured knob: (heartbeat, minimum, maximum) in
  milliseconds.
\<close>

definition election_window :: "raft_config \<Rightarrow> nat \<times> nat \<times> nat" where
  "election_window cfg =
     (let election_max = as_millis (effective_election_timeout cfg);
          election_min = max (election_max div 2) 1
      in (max (election_min div 5) 1, election_min, election_max))"

text \<open>\<open>initialize\<close>'s answers: done, refused because the cluster exists, or another error.\<close>

datatype initialize_answer = InitOk | InitNotAllowed | InitError string

definition leader_wait_after_bootstrap :: duration where
  "leader_wait_after_bootstrap = secs 10"

definition membership_bootstrap_stagger :: duration where
  "membership_bootstrap_stagger = secs 3"

text \<open>
  The two polling loops, over the successive (clock reading, answer) pairs they see at their heads.
  \<open>None\<close> is a list that ends before the loop does.
\<close>

fun await_leader :: "instant \<Rightarrow> (instant \<times> bool) list \<Rightarrow> bool option" where
  "await_leader deadline [] = None"
| "await_leader deadline ((now, has_leader) # ps) =
     (if has_leader then Some True
      else if deadline \<le> now then Some False
      else await_leader deadline ps)"

fun await_formed :: "instant \<Rightarrow> (instant \<times> bool) list \<Rightarrow> bool option" where
  "await_formed deadline [] = None"
| "await_formed deadline ((now, initialized) # ps) =
     (if deadline \<le> now then Some False
      else if initialized then Some True
      else await_formed deadline ps)"

definition bootstrap_outcome ::
  "nat \<Rightarrow> bool \<Rightarrow> initialize_answer \<Rightarrow> (string, membership_bootstrap) result" where
  "bootstrap_outcome n_members initialized ans =
     (if initialized then Inr AlreadyFormed
      else case ans of
          InitOk \<Rightarrow> Inr (Formed n_members)
        | InitNotAllowed \<Rightarrow> Inr AlreadyFormed
        | InitError e \<Rightarrow> Inl (''raft: initialize membership: '' @ e))"

definition bootstrap_membership ::
  "nat \<Rightarrow> bool \<Rightarrow> initialize_answer \<Rightarrow> instant \<Rightarrow> (instant \<times> bool) list \<Rightarrow>
     (string, membership_bootstrap) result option" where
  "bootstrap_membership n_members initialized ans now polls =
     (case bootstrap_outcome n_members initialized ans of
        Inl e \<Rightarrow> Some (Inl e)
      | Inr outcome \<Rightarrow>
          map_option (\<lambda>_. Inr outcome) (await_leader (now + leader_wait_after_bootstrap) polls))"

text \<open>
  \<open>ensure_membership\<close>: the delay of a node is its position among the member ids. The result says
  whether this node went on to bootstrap.
\<close>

fun position_of :: "nat \<Rightarrow> nat list \<Rightarrow> nat option" where
  "position_of x [] = None"
| "position_of x (y # ys) = (if x = y then Some 0 else map_option Suc (position_of x ys))"

definition stagger_delay :: "nat list \<Rightarrow> nat \<Rightarrow> duration" where
  "stagger_delay members local_id =
     membership_bootstrap_stagger * unwrap_or (position_of local_id members) 0"

definition ensure_membership ::
  "nat list \<Rightarrow> nat \<Rightarrow> bool \<Rightarrow> instant \<Rightarrow> (instant \<times> bool) list \<Rightarrow> bool option" where
  "ensure_membership members local_id initialized now polls =
     (if initialized then Some False
      else map_option Not (await_formed (now + stagger_delay members local_id) polls))"

section \<open>The committed log\<close>

text \<open>The document after a log of commands, from the empty document.\<close>

definition run_cmds :: "consensus_command list \<Rightarrow> cluster_state \<Rightarrow> cluster_state" where
  "run_cmds cs st = fold (\<lambda>cmd st. snd (apply_command cmd st)) cs st"

definition doc_of :: "consensus_command list \<Rightarrow> cluster_state" where
  "doc_of cs = run_cmds cs default_cluster_state"

lemma doc_of_snoc: "doc_of (l @ [cmd]) = snd (apply_command cmd (doc_of l))"
  by (simp add: doc_of_def run_cmds_def)

lemma doc_of_append: "doc_of (l @ m) = run_cmds m (doc_of l)"
  by (simp add: doc_of_def run_cmds_def)

lemma apply_command_step: "doc_step st (snd (apply_command cmd st))"
  by (cases cmd)
    (simp_all add: apply_command_spec doc_step.intros del: apply_command.simps)

lemma run_cmds_reach: "doc_reach st (run_cmds cs st)"
proof (induction cs arbitrary: st)
  case (Cons c cs)
  have "doc_reach (snd (apply_command c st)) (run_cmds (c # cs) st)"
    using Cons by (simp add: run_cmds_def)
  with apply_command_step show ?case by (rule converse_rtranclp_into_rtranclp)
qed (simp add: run_cmds_def)

lemma prefix_reach: "prefix l m \<Longrightarrow> doc_reach (doc_of l) (doc_of m)"
  by (auto simp: prefix_def doc_of_append run_cmds_reach)

lemma run_cmds_keeps:
  assumes "gen_n st + length cs < 2 ^ 64"
  shows "gen_n (run_cmds cs st) \<le> gen_n st + length cs \<and>
         (lease_wf st \<longrightarrow> lease_wf (run_cmds cs st)) \<and>
         (retired t st \<longrightarrow> retired t (run_cmds cs st))"
  using assms
proof (induction cs arbitrary: st)
  case (Cons c cs)
  let ?st = "snd (apply_command c st)"
  have run: "run_cmds (c # cs) st = run_cmds cs ?st" by (simp add: run_cmds_def)
  have a: "apply_command c st = (fst (apply_command c st), ?st)" by simp
  from Cons.prems have s: "Suc (gen_n st) < 2 ^ 64" by simp
  note g = apply_command_gen [OF a s]
  with Cons.IH [of ?st] Cons.prems apply_command_lease_wf [OF a s] apply_command_retired [OF a s]
  show ?case unfolding run by simp
qed (simp add: run_cmds_def)

lemma doc_of_bounds:
  assumes "length l < 2 ^ 64"
  shows "gen_n (doc_of l) \<le> length l" and "lease_wf (doc_of l)"
  using run_cmds_keeps [of default_cluster_state l] assms
  by (simp_all add: doc_of_def gen_n_def default_cluster_state_def lease_wf_def)

lemma takeover_retires:
  assumes "fst (apply_command (Takeover c (Some (h, t)) a) (doc_of l)) = RTakeover (Won le)"
    and "Suc (length l) < 2 ^ 64"
  shows "retired t (doc_of (l @ [Takeover c (Some (h, t)) a]))"
proof -
  have len: "length l < 2 ^ 64" using assms(2) by simp
  note b = doc_of_bounds [OF len]
  have s: "Suc (gen_n (doc_of l)) < 2 ^ 64" using b(1) assms(2) by linarith
  have ap: "apply_command (Takeover c (Some (h, t)) a) (doc_of l) =
      (RTakeover (Won le), doc_of (l @ [Takeover c (Some (h, t)) a]))"
    using assms(1) by (simp add: doc_of_snoc prod_eq_iff del: apply_command.simps)
  note won = apply_takeover_won [OF ap]
  from won(1) b(2) have "unat t \<le> gen_n (doc_of l)" by (auto simp: lease_key_def lease_wf_def)
  with won(2,3) gen_inc [OF s] apply_command_gen [OF ap s] show ?thesis
    by (auto simp: retired_def)
qed

section \<open>openraft's guarantees\<close>

text \<open>
  A call that is a write, or a read, while the committed log grows from \<open>l0\<close> to \<open>l1\<close>.
\<close>

definition writes ::
  "consensus_command \<Rightarrow> consensus_command list \<Rightarrow> (string, command_response) result \<Rightarrow>
     consensus_command list \<Rightarrow> bool" where
  "writes cmd l0 r l1 \<longleftrightarrow>
     prefix l0 l1 \<and>
     (\<forall>resp. r = Inr resp \<longrightarrow>
        (\<exists>l. prefix l0 l \<and> prefix (l @ [cmd]) l1 \<and> resp = fst (apply_command cmd (doc_of l))))"

definition reads ::
  "consensus_command list \<Rightarrow> (string, cluster_state) result \<Rightarrow> consensus_command list \<Rightarrow> bool" where
  "reads l0 r l1 \<longleftrightarrow>
     prefix l0 l1 \<and>
     (\<forall>c. r = Inr c \<longrightarrow> (\<exists>l. prefix l0 l \<and> prefix l l1 \<and> c = doc_of l))"

lemma writes_closed:
  "writes cmd l0 r l1 \<Longrightarrow> writes cmd l0 (Inl e) l1"
  "prefix l0 l1 \<Longrightarrow> writes cmd l0 (Inl e) l1"
  by (auto simp: writes_def)

lemma writes_before: "prefix l l0 \<Longrightarrow> writes cmd l0 r l1 \<Longrightarrow> writes cmd l r l1"
  unfolding writes_def using prefix_order.trans by blast

lemma reads_closed:
  "reads l0 r l1 \<Longrightarrow> reads l0 (Inl e) l1"
  "prefix l0 l1 \<Longrightarrow> reads l0 (Inl e) l1"
  by (auto simp: reads_def)

lemma reads_before: "prefix l l0 \<Longrightarrow> reads l0 r l1 \<Longrightarrow> reads l r l1"
  unfolding reads_def using prefix_order.trans by blast

text \<open>
  The committed log only grows; a client write that answers stands in it, at a place appended during
  the call, and answers with what the state machine gave there; a local read after
  \<open>ensure_linearizable\<close> returns the document of a log committed by the end of that call and no older
  than its start. An error guarantees nothing but growth: the write may have been committed.
\<close>

locale raft_cluster =
  fixes w :: "'s raft_world" and clog :: "'s \<Rightarrow> consensus_command list"
  assumes client_write: "w_client_write w n cmd s = (r, s') \<Longrightarrow> writes cmd (clog s) r (clog s')"
    and linearizable_read: "w_ensure_linearizable w n s = (Inr u, s') \<Longrightarrow>
      reads (clog s) (w_read w n s') (clog s')"
    and linearizable_grows: "w_ensure_linearizable w n s = (q, s') \<Longrightarrow> prefix (clog s) (clog s')"
    and dial_grows: "w_dial w a s = (d, s') \<Longrightarrow> prefix (clog s) (clog s')"
    and rpc_grows: "w_rpc w a s = (f, s') \<Longrightarrow> prefix (clog s) (clog s')"
begin

lemma grpc_propose_writes:
  "grpc_propose w n cmd s = (r, s') \<Longrightarrow> writes cmd (clog s) r (clog s')"
  by (auto simp: grpc_propose_def dest: client_write intro: writes_closed
      split: prod.splits sum.splits)

lemma grpc_read_reads:
  "grpc_read_state w n s = (r, s') \<Longrightarrow> reads (clog s) r (clog s')"
proof -
  assume a: "grpc_read_state w n s = (r, s')"
  obtain q s1 where q: "w_ensure_linearizable w n s = (q, s1)" by fastforce
  show ?thesis
  proof (cases q)
    case (Inl e)
    with a q linearizable_grows [OF q] show ?thesis
      by (auto simp: grpc_read_state_def intro: reads_closed)
  next
    case (Inr u)
    with q have rd: "reads (clog s) (w_read w n s1) (clog s1)" using linearizable_read by blast
    from a q Inr have "s' = s1 \<and> (r = w_read w n s1 \<or> (\<exists>e. r = Inl e))"
      by (auto simp: grpc_read_state_def split: sum.splits)
    with rd show ?thesis by (auto intro: reads_closed)
  qed
qed

text \<open>
  \<open>lc_call\<close> keeps any relation on logs that its handler keeps, that holds of a failure after mere
  growth, and that is closed under earlier growth.
\<close>

lemma lc_call_keeps:
  assumes "lc_call w what addr h st = (r, st')"
    and handler: "\<And>n s r s'. h n s = (r, s') \<Longrightarrow> R (clog s) r (clog s')"
    and failure: "\<And>l0 r l1 e. R l0 r l1 \<Longrightarrow> R l0 (Inl e) l1"
    and moved: "\<And>l0 l1 e. prefix l0 l1 \<Longrightarrow> R l0 (Inl e) l1"
    and before: "\<And>l l0 r l1. prefix l l0 \<Longrightarrow> R l0 r l1 \<Longrightarrow> R l r l1"
  shows "R (clog (rc_world st)) r (clog (rc_world st'))"
proof -
  obtain d st1 where cl: "lc_client w addr st = (d, st1)" by fastforce
  hence m1: "prefix (clog (rc_world st)) (clog (rc_world st1))"
    by (auto simp: lc_client_def dest: dial_grows split: if_splits prod.splits sum.splits)
  show ?thesis
  proof (cases d)
    case (Inl e)
    with assms(1) cl m1 show ?thesis by (auto simp: lc_call_def intro: moved)
  next
    case (Inr u)
    obtain f s2 where rpc: "w_rpc w addr (rc_world st1) = (f, s2)" by fastforce
    have m2: "prefix (clog (rc_world st)) (clog s2)"
      using m1 rpc_grows [OF rpc] by (rule prefix_order.trans)
    show ?thesis
    proof (cases f)
      case (TransportFailure e)
      with assms(1) cl Inr rpc m2 show ?thesis
        by (auto simp: lc_call_def lc_invalidate_def intro: moved)
    next
      case (Served n ok)
      obtain r' s3 where h: "h n s2 = (r', s3)" by fastforce
      have "R (clog (rc_world st)) r' (clog s3)" by (rule before [OF m2 handler [OF h]])
      with assms(1) cl Inr rpc Served h show ?thesis
        by (auto simp: lc_call_def lc_invalidate_def dest: failure split: if_splits sum.splits)
    qed
  qed
qed

lemma lc_propose_writes:
  assumes "lc_propose w addr cmd st = (r, st')"
  shows "writes cmd (clog (rc_world st)) r (clog (rc_world st'))"
  using assms unfolding lc_propose_def
  by (rule lc_call_keeps) (auto intro: grpc_propose_writes writes_closed writes_before)

lemma lc_read_reads:
  assumes "lc_read_state w addr st = (r, st')"
  shows "reads (clog (rc_world st)) r (clog (rc_world st'))"
  using assms unfolding lc_read_state_def
  by (rule lc_call_keeps) (auto intro: grpc_read_reads reads_closed reads_before)

lemma propose_writes:
  assumes "propose w me cmd st = (r, st')"
  shows "writes cmd (clog (rc_world st)) r (clog (rc_world st'))"
proof -
  obtain r1 s1 where l: "w_client_write w me cmd (rc_world st) = (r1, s1)" by fastforce
  note wr = client_write [OF l]
  show ?thesis
  proof (cases r1)
    case (Inr a)
    with assms l wr show ?thesis by (auto simp: propose_def)
  next
    case (Inl e)
    from wr have m: "prefix (clog (rc_world st)) (clog s1)" by (simp add: writes_def)
    show ?thesis
    proof (cases "leader_addr w me s1")
      case None
      with assms l Inl wr show ?thesis by (auto simp: propose_def intro: writes_closed)
    next
      case (Some addr)
      with assms l Inl have "lc_propose w addr cmd (st\<lparr>rc_world := s1\<rparr>) = (r, st')"
        by (simp add: propose_def)
      from writes_before [OF m] lc_propose_writes [OF this] show ?thesis by simp
    qed
  qed
qed

lemma rc_read_reads:
  assumes "rc_read_state w me st = (r, st')"
  shows "reads (clog (rc_world st)) r (clog (rc_world st'))"
proof -
  obtain r1 s1 where l: "w_ensure_linearizable w me (rc_world st) = (r1, s1)" by fastforce
  note m = linearizable_grows [OF l]
  show ?thesis
  proof (cases r1)
    case (Inr u)
    with assms l linearizable_read [of me "rc_world st" u s1] show ?thesis
      by (auto simp: rc_read_state_def)
  next
    case (Inl e)
    show ?thesis
    proof (cases "leader_addr w me s1")
      case None
      with assms l Inl m show ?thesis by (auto simp: rc_read_state_def intro: reads_closed)
    next
      case (Some addr)
      with assms l Inl have "lc_read_state w addr (st\<lparr>rc_world := s1\<rparr>) = (r, st')"
        by (simp add: rc_read_state_def)
      from reads_before [OF m] lc_read_reads [OF this] show ?thesis by simp
    qed
  qed
qed

text \<open>The store answers with the variant of its command, so the wrong-variant arms are dead.\<close>

lemma rc_ops_grow:
  "rc_try_takeover w me c x now st = (r1, st') \<Longrightarrow> prefix (clog (rc_world st)) (clog (rc_world st'))"
  "rc_release w me h t st = (r2, st') \<Longrightarrow> prefix (clog (rc_world st)) (clog (rc_world st'))"
  "rc_set_paused w me p st = (r3, st') \<Longrightarrow> prefix (clog (rc_world st)) (clog (rc_world st'))"
  "rc_set_switchover w me so st = (r4, st') \<Longrightarrow> prefix (clog (rc_world st)) (clog (rc_world st'))"
  by (auto simp: rc_try_takeover_def rc_release_def rc_set_paused_def rc_set_switchover_def
      writes_def dest!: propose_writes split: prod.splits sum.splits command_response.splits)

lemma rc_ops_effect:
  "rc_try_takeover w me c x now st = (Inr out, st') \<Longrightarrow>
     propose w me (Takeover c x now) st = (Inr (RTakeover out), st')"
  "rc_release w me h t st = (Inr rel, st') \<Longrightarrow>
     propose w me (Release h t) st = (Inr (RRelease rel), st')"
  "rc_set_paused w me p st = (Inr u, st') \<Longrightarrow> propose w me (SetPaused p) st = (Inr Ack, st')"
  "rc_set_switchover w me so st = (Inr u, st') \<Longrightarrow>
     propose w me (SetSwitchover so) st = (Inr Ack, st')"
  by (auto simp: rc_try_takeover_def rc_release_def rc_set_paused_def rc_set_switchover_def
      split: prod.splits sum.splits command_response.splits)

lemma propose_placed:
  assumes "propose w me cmd st = (Inr resp, st')"
  obtains l where "prefix (clog (rc_world st)) l" "prefix (l @ [cmd]) (clog (rc_world st'))"
    "resp = fst (apply_command cmd (doc_of l))"
  using propose_writes [OF assms] by (auto simp: writes_def)

lemma rc_takeover_placed:
  assumes "rc_try_takeover w me cand x now st = (Inr out, st')"
  shows "\<exists>l. prefix (clog (rc_world st)) l \<and>
             prefix (l @ [Takeover cand x now]) (clog (rc_world st')) \<and>
             apply_command (Takeover cand x now) (doc_of l) =
               (RTakeover out, doc_of (l @ [Takeover cand x now]))"
  using propose_placed [OF rc_ops_effect(1) [OF assms]] unfolding doc_of_snoc
  by (metis prod.collapse)

lemma rc_release_placed:
  assumes "rc_release w me h t st = (Inr rel, st')"
  shows "\<exists>l. prefix (clog (rc_world st)) l \<and> prefix (l @ [Release h t]) (clog (rc_world st')) \<and>
             apply_command (Release h t) (doc_of l) = (RRelease rel, doc_of (l @ [Release h t]))"
  using propose_placed [OF rc_ops_effect(2) [OF assms]] unfolding doc_of_snoc
  by (metis prod.collapse)

lemma propose_effect:
  assumes "propose w me cmd st = (Inr resp, st')"
  obtains c where "doc_reach (doc_of (clog (rc_world st))) c" "resp = fst (apply_command cmd c)"
    "doc_reach (snd (apply_command cmd c)) (doc_of (clog (rc_world st')))"
  using propose_placed [OF assms] prefix_reach doc_of_snoc by metis

end

sublocale raft_cluster \<subseteq> rc: lease_store "rc_ops w me" "\<lambda>st. doc_of (clog (rc_world st))" for me
proof unfold_locales
  show "\<exists>c0. doc_reach (doc_of (clog (rc_world s))) c0 \<and> out = fst (spec_takeover c x now c0) \<and>
      doc_reach (snd (spec_takeover c x now c0)) (doc_of (clog (rc_world s')))"
    if "st_try_takeover (rc_ops w me) c x now s = (Inr out, s')" for c x now s out s'
  proof -
    from that have "propose w me (Takeover c x now) s = (Inr (RTakeover out), s')"
      by (simp add: rc_ops_def rc_ops_effect)
    from propose_effect [OF this] show ?thesis
      unfolding apply_command_spec by (metis fst_conv snd_conv command_response.inject(1))
  qed
  show "\<exists>c0. doc_reach (doc_of (clog (rc_world s))) c0 \<and> rel = fst (spec_release h t c0) \<and>
      doc_reach (snd (spec_release h t c0)) (doc_of (clog (rc_world s')))"
    if "st_release (rc_ops w me) h t s = (Inr rel, s')" for h t s rel s'
  proof -
    from that have "propose w me (Release h t) s = (Inr (RRelease rel), s')"
      by (simp add: rc_ops_def rc_ops_effect)
    from propose_effect [OF this] show ?thesis
      unfolding apply_command_spec by (metis fst_conv snd_conv command_response.inject(2))
  qed
  show "\<exists>c0. doc_reach (doc_of (clog (rc_world s))) c0 \<and>
      doc_reach (spec_set_paused p c0) (doc_of (clog (rc_world s')))"
    if "st_set_paused (rc_ops w me) p s = (Inr u, s')" for p s u s'
  proof -
    from that have "propose w me (SetPaused p) s = (Inr Ack, s')"
      by (simp add: rc_ops_def rc_ops_effect)
    from propose_effect [OF this] show ?thesis
      unfolding apply_command_spec by (metis snd_conv)
  qed
  show "\<exists>c0. doc_reach (doc_of (clog (rc_world s))) c0 \<and>
      doc_reach (spec_set_switchover so c0) (doc_of (clog (rc_world s')))"
    if "st_set_switchover (rc_ops w me) so s = (Inr u, s')" for so s u s'
  proof -
    from that have "propose w me (SetSwitchover so) s = (Inr Ack, s')"
      by (simp add: rc_ops_def rc_ops_effect)
    from propose_effect [OF this] show ?thesis
      unfolding apply_command_spec by (metis snd_conv)
  qed
next
  fix s cst s'
  assume "st_read_state (rc_ops w me) s = (Inr cst, s')"
  hence "reads (clog (rc_world s)) (Inr cst) (clog (rc_world s'))"
    by (simp add: rc_ops_def rc_read_reads)
  thus "doc_reach (doc_of (clog (rc_world s))) cst \<and> doc_reach cst (doc_of (clog (rc_world s')))"
    by (auto simp: reads_def prefix_reach)
qed (auto simp: rc_ops_def reads_def dest!: rc_ops_grow rc_read_reads intro: prefix_reach)

section \<open>A single-voter cluster\<close>

text \<open>
  One voter over the storage of \<open>RaftStore\<close>: a client write appends its entry to the log, applies it
  and answers with the state machine's response; storage that does not add up (the applied data is
  not that of the log) is refused, as is any storage error. The cluster is node 0, reachable under
  one address.
\<close>

type_synonym solo_db = "(unit, unit, unit) raft_db"

definition entry_cmds :: "('l, 'm) entry list \<Rightarrow> consensus_command list" where
  "entry_cmds es = List.map_filter
     (\<lambda>e. case entry_payload e of Normal c \<Rightarrow> Some c | _ \<Rightarrow> None) es"

definition solo_log :: "solo_db \<Rightarrow> consensus_command list" where
  "solo_log db = entry_cmds (map snd (db_logs db))"

definition solo_data :: "solo_db \<Rightarrow> (unit, unit) state_machine_data" where
  "solo_data db = unwrap_or (db_state_machine db) (default_data ())"

definition solo_consistent :: "solo_db \<Rightarrow> bool" where
  "solo_consistent db =
     (solo_data db = snd (apply_loop (map snd (db_logs db)) (default_data ())) \<and>
      list_all (\<lambda>p. fst p < of_nat (Suc (length (db_logs db)))) (db_logs db))"

definition solo_entry :: "consensus_command \<Rightarrow> solo_db \<Rightarrow> (unit, unit) entry" where
  "solo_entry cmd db =
     \<lparr>entry_log_id = \<lparr>leader_id = (), log_index = of_nat (Suc (length (db_logs db)))\<rparr>,
      entry_payload = Normal cmd\<rparr>"

definition solo_client_write ::
  "nat \<Rightarrow> consensus_command \<Rightarrow> solo_db \<Rightarrow> (string, command_response) result \<times> solo_db" where
  "solo_client_write n cmd db =
     (if \<not> solo_consistent db then (Inl ''fatal'', db)
      else
        let e = solo_entry cmd db
        in case append_entries [e] db of
             (Inl err, db1) \<Rightarrow> (Inl err, db1)
           | (Inr _, db1) \<Rightarrow>
               (case sm_new () db1 of
                  Inl err \<Rightarrow> (Inl err, db1)
                | Inr sm \<Rightarrow>
                    (case sm_apply [e] sm db1 of
                       (Inl err, _, db2) \<Rightarrow> (Inl err, db2)
                     | (Inr rs, _, db2) \<Rightarrow> (Inr (hd rs), db2))))"

definition solo_world :: "solo_db raft_world" where
  "solo_world =
     \<lparr>w_client_write = solo_client_write,
      w_ensure_linearizable = (\<lambda>n db. (if solo_consistent db then Inr () else Inl ''fatal'', db)),
      w_read = (\<lambda>n db. reader_read db),
      w_current_leader = (\<lambda>n db. Some 0),
      w_node_addr = (\<lambda>n db i. if i = 0 then Some ''node0:9701'' else None),
      w_dial = (\<lambda>a db. (Inr (), db)),
      w_rpc = (\<lambda>a db. (Served 0 True, db))\<rparr>"

lemma apply_loop_cmds: "cluster (snd (apply_loop es d)) = run_cmds (entry_cmds es) (cluster d)"
proof (induction es arbitrary: d)
  case (Cons e es)
  have "cluster (snd (apply_entry e d)) = run_cmds (entry_cmds [e]) (cluster d)"
    by (cases "entry_payload e")
      (auto simp: apply_entry_def entry_cmds_def List.map_filter_def run_cmds_def Let_def
        simp del: apply_command.simps split: prod.splits)
  moreover have "entry_cmds (e # es) = entry_cmds [e] @ entry_cmds es"
    by (simp add: entry_cmds_def List.map_filter_def)
  ultimately show ?case
    using Cons [of "snd (apply_entry e d)"] by (simp add: run_cmds_def case_prod_beta Let_def)
qed (simp add: run_cmds_def entry_cmds_def List.map_filter_def)

lemma solo_data_doc: "solo_consistent db \<Longrightarrow> cluster (solo_data db) = doc_of (solo_log db)"
  by (simp add: solo_consistent_def apply_loop_cmds doc_of_def solo_log_def default_data_def)

lemma solo_write_ok:
  assumes "solo_consistent db" and "db_ok db"
  shows "solo_client_write n cmd db =
    (Inr (fst (apply_command cmd (doc_of (solo_log db)))),
     db\<lparr>db_logs := db_logs db @ [(log_index (entry_log_id (solo_entry cmd db)), solo_entry cmd db)],
        db_state_machine := Some (snd (apply_entry (solo_entry cmd db) (solo_data db)))\<rparr>)"
proof -
  let ?e = "solo_entry cmd db"
  have app: "append_entries [?e] db =
      (Inr (), db\<lparr>db_logs := db_logs db @ [(log_index (entry_log_id ?e), ?e)]\<rparr>)"
    using assms by (simp add: append_entries_def write_txn_def solo_entry_def solo_consistent_def
        list_all_iff table_insert_last)
  have "fst (apply_entry ?e (solo_data db)) = fst (apply_command cmd (doc_of (solo_log db)))"
    using solo_data_doc [OF assms(1)]
    by (simp add: apply_entry_def solo_entry_def case_prod_beta Let_def del: apply_command.simps)
  with app assms show ?thesis
    by (simp add: solo_client_write_def sm_new_def read_txn_def solo_data_def [symmetric]
        sm_apply_def persist_def write_txn_def case_prod_beta Let_def)
qed

lemma solo_write_writes:
  "solo_client_write n cmd db = (r, db') \<Longrightarrow> writes cmd (solo_log db) r (solo_log db')"
proof (cases "solo_consistent db \<and> db_ok db")
  case True
  assume "solo_client_write n cmd db = (r, db')"
  with solo_write_ok [of db n cmd] True
  have "r = Inr (fst (apply_command cmd (doc_of (solo_log db))))"
    and "solo_log db' = solo_log db @ [cmd]"
    by (auto simp: solo_log_def entry_cmds_def List.map_filter_def solo_entry_def)
  thus ?thesis by (auto simp: writes_def)
next
  case False
  assume "solo_client_write n cmd db = (r, db')"
  with False have "db' = db \<and> (\<exists>e. r = Inl e)"
    by (auto simp: solo_client_write_def append_entries_def write_txn_def Let_def split: if_splits)
  thus ?thesis by (auto simp: writes_def)
qed

lemma solo_read_reads:
  assumes "solo_consistent db"
  shows "reads (solo_log db) (reader_read db) (solo_log db)"
proof -
  have "(case db_state_machine db of None \<Rightarrow> default_cluster_state | Some d \<Rightarrow> cluster d) =
      cluster (solo_data db)"
    by (simp add: solo_data_def default_data_def split: option.split)
  with solo_data_doc [OF assms] show ?thesis
    by (auto simp: reads_def reader_read_def read_txn_def)
qed

interpretation solo: raft_cluster solo_world solo_log
  by unfold_locales
    (auto simp: solo_world_def dest: solo_write_writes intro: solo_read_reads split: if_splits)

section \<open>Properties\<close>

text \<open>
  (C28) A store answer is a fact of the committed log. Over openraft's guarantees, whichever node
  serves the call and whether or not it is forwarded to the leader: a document returned by
  \<open>read_state\<close> is the document of a log committed during the call (never a default, and never older
  than the start of the call); a takeover or a release that answers stands in the log at a place
  appended during the call, and its outcome is the state machine's answer at that place.
\<close>

theorem store_is_linearizable:
  assumes "raft_cluster w clog"
  shows "(rc_read_state w me st = (Inr c, st1) \<longrightarrow>
           (\<exists>l. prefix (clog (rc_world st)) l \<and> prefix l (clog (rc_world st1)) \<and> c = doc_of l)) \<and>
         (rc_try_takeover w me cand x now st = (Inr out, st2) \<longrightarrow>
           (\<exists>l. prefix (clog (rc_world st)) l \<and>
                prefix (l @ [Takeover cand x now]) (clog (rc_world st2)) \<and>
                apply_command (Takeover cand x now) (doc_of l) =
                  (RTakeover out, doc_of (l @ [Takeover cand x now])))) \<and>
         (rc_release w me h t st = (Inr rel, st3) \<longrightarrow>
           (\<exists>l. prefix (clog (rc_world st)) l \<and> prefix (l @ [Release h t]) (clog (rc_world st3)) \<and>
                apply_command (Release h t) (doc_of l) = (RRelease rel, doc_of (l @ [Release h t]))))"
  using raft_cluster.rc_read_reads [OF assms, of me st "Inr c" st1]
    raft_cluster.rc_takeover_placed [OF assms, of me cand x now st out st2]
    raft_cluster.rc_release_placed [OF assms, of me h t st rel st3]
  by (auto simp: reads_def)

definition solo_start :: "solo_db rc_state" where
  "solo_start = \<lparr>rc_world = open_database, rc_channels = []\<rparr>"

definition solo_won :: "solo_db rc_state" where
  "solo_won = snd (rc_try_takeover solo_world 0 1 None 7 solo_start)"

lemmas solo_eval = solo_world_def solo_client_write_def solo_consistent_def solo_data_def
  open_database_def solo_entry_def append_entries_def write_txn_def sm_new_def read_txn_def
  sm_apply_def persist_def apply_entry_def default_data_def default_cluster_state_def
  solo_log_def entry_cmds_def List.map_filter_def rc_try_takeover_def propose_def rc_read_state_def
  reader_read_def Let_def

lemma solo_won_log: "solo_log (rc_world solo_won) = [Takeover 1 None 7]"
  by (simp add: solo_won_def solo_start_def solo_eval)

lemma solo_won_read:
  "rc_read_state solo_world 0 solo_won =
     (Inr (default_cluster_state\<lparr>cs_generation := 1,
        cs_lease := Some \<lparr>lease_holder = 1, lease_term = 1, lease_since = 7\<rparr>\<rparr>), solo_won)"
  by (simp add: solo_won_def solo_start_def solo_eval)

theorem store_is_linearizable_witness:
  "\<exists>l. prefix [Takeover 1 None 7] l \<and> prefix l [Takeover 1 None 7] \<and>
       cs_lease (doc_of l) = Some \<lparr>lease_holder = 1, lease_term = 1, lease_since = 7\<rparr>"
proof -
  obtain l where l: "prefix (solo_log (rc_world solo_won)) l" "prefix l (solo_log (rc_world solo_won))"
    "default_cluster_state\<lparr>cs_generation := 1,
        cs_lease := Some \<lparr>lease_holder = 1, lease_term = 1, lease_since = 7\<rparr>\<rparr> = doc_of l"
    using store_is_linearizable [OF solo.raft_cluster_axioms, THEN conjunct1, rule_format,
        OF solo_won_read] by blast
  have "cs_lease (doc_of l) = Some \<lparr>lease_holder = 1, lease_term = 1, lease_since = 7\<rparr>"
    unfolding l(3) [symmetric] by simp
  with l(1,2) show ?thesis unfolding solo_won_log by blast
qed

text \<open>
  (C27) One winner per observation, end to end. Once a node's takeover from the observed \<open>(h, t)\<close> has
  been reported won, no takeover started later from the same observation, by any node and through any
  path, is reported won, as long as the log is shorter than the 64-bit term space.
\<close>

theorem one_winner_per_observation:
  assumes "raft_cluster w clog"
    and "rc_try_takeover w n1 c1 (Some (h, t)) now1 st = (Inr (Won l1), st1)"
    and "prefix (clog (rc_world st1)) (clog (rc_world st2))"
    and "rc_try_takeover w n2 c2 (Some (h, t)) now2 st2 = (Inr out, st3)"
    and "length (clog (rc_world st3)) < 2 ^ 64"
  shows "\<exists>cur. out = Lost cur"
proof -
  let ?cmd1 = "Takeover c1 (Some (h, t)) now1" and ?cmd2 = "Takeover c2 (Some (h, t)) now2"
  from raft_cluster.rc_takeover_placed [OF assms(1,2)] obtain l where
    l: "prefix (l @ [?cmd1]) (clog (rc_world st1))"
      "apply_command ?cmd1 (doc_of l) = (RTakeover (Won l1), doc_of (l @ [?cmd1]))" by blast
  from raft_cluster.rc_takeover_placed [OF assms(1,4)] obtain m where
    m: "prefix (clog (rc_world st2)) m" "prefix (m @ [?cmd2]) (clog (rc_world st3))"
      "apply_command ?cmd2 (doc_of m) = (RTakeover out, doc_of (m @ [?cmd2]))" by blast
  from l(1) assms(3) m(1) have "prefix (l @ [?cmd1]) m" by (meson prefix_order.trans)
  then obtain k where k: "m = (l @ [?cmd1]) @ k" by (rule prefixE)
  have len: "Suc (length m) < 2 ^ 64"
    using prefix_length_le [OF m(2)] assms(5) by simp
  hence len1: "Suc (length l) < 2 ^ 64" "length (l @ [?cmd1]) < 2 ^ 64" using k by simp_all
  have ret: "retired t (doc_of (l @ [?cmd1]))"
    by (rule takeover_retires [OF _ len1(1)]) (simp only: l(2) fst_conv)
  have "gen_n (doc_of (l @ [?cmd1])) + length k < 2 ^ 64"
    using doc_of_bounds(1) [OF len1(2)] len k by simp
  hence "retired t (doc_of m)"
    using run_cmds_keeps [of "doc_of (l @ [?cmd1])" k t] ret unfolding k doc_of_append [of _ k] by blast
  hence "map_option lease_key (cs_lease (doc_of m)) \<noteq> Some (h, t)"
    by (auto simp: retired_def lease_key_def)
  with m(3) show ?thesis
    unfolding apply_command_spec by (auto simp: spec_takeover_def)
qed

definition solo_deposed :: "solo_db rc_state" where
  "solo_deposed = snd (rc_try_takeover solo_world 0 2 (Some (1, 1)) 8 solo_won)"

lemma solo_deposed_run:
  "rc_try_takeover solo_world 0 2 (Some (1, 1)) 8 solo_won =
     (Inr (Won \<lparr>lease_holder = 2, lease_term = 2, lease_since = 8\<rparr>), solo_deposed)"
  by (simp add: solo_deposed_def solo_won_def solo_start_def solo_eval)

lemma solo_third_run:
  "\<exists>st. rc_try_takeover solo_world 0 3 (Some (1, 1)) 9 solo_deposed =
     (Inr (Lost (Some \<lparr>lease_holder = 2, lease_term = 2, lease_since = 8\<rparr>)), st) \<and>
     length (solo_log (rc_world st)) = 3"
  by (simp add: solo_deposed_def solo_won_def solo_start_def solo_eval)

theorem one_winner_per_observation_witness:
  "\<exists>cur. fst (rc_try_takeover solo_world 0 3 (Some (1, 1)) 9 solo_deposed) = Inr (Lost cur)"
proof -
  obtain st where st: "rc_try_takeover solo_world 0 3 (Some (1, 1)) 9 solo_deposed =
     (Inr (Lost (Some \<lparr>lease_holder = 2, lease_term = 2, lease_since = 8\<rparr>)), st)"
    "length (solo_log (rc_world st)) = 3"
    using solo_third_run by blast
  have "length (solo_log (rc_world st)) < 2 ^ 64" using st(2) by simp
  with one_winner_per_observation [OF solo.raft_cluster_axioms solo_deposed_run _ st(1)]
  obtain cur where "Lost (Some \<lparr>lease_holder = 2, lease_term = 2, lease_since = 8\<rparr>) = Lost cur"
    by blast
  with st(1) show ?thesis by auto
qed

section \<open>Forwarding and bootstrap\<close>

text \<open>A forwarded call that fails after the channel was obtained leaves no cached channel.\<close>

lemma failed_call_drops_channel:
  assumes "lc_call w what addr h st = (Inl e, st')" and "lc_client w addr st = (Inr u, st1)"
  shows "addr \<notin> set (rc_channels st')"
  using assms
  by (auto simp: lc_call_def lc_invalidate_def split: prod.splits rpc_fate.splits if_splits sum.splits)

text \<open>A poll every 250 ms (100 ms) ends the loop once the readings pass the deadline.\<close>

lemma await_formed_returns:
  assumes "\<exists>p \<in> set ps. deadline \<le> fst p"
  shows "\<exists>b. await_formed deadline ps = Some b"
  using assms by (induction deadline ps rule: await_formed.induct) auto

lemma await_leader_returns:
  assumes "\<exists>p \<in> set ps. deadline \<le> fst p"
  shows "\<exists>b. await_leader deadline ps = Some b"
  using assms by (induction deadline ps rule: await_leader.induct) auto

lemma position_of_nth: "position_of x xs = Some i \<Longrightarrow> i < length xs \<and> xs ! i = x"
  by (induction xs arbitrary: i) (auto split: if_splits)

lemma position_of_in: "x \<in> set xs \<Longrightarrow> \<exists>i. position_of x xs = Some i"
  by (induction xs) auto

lemma position_of_inj:
  assumes "x \<in> set xs" "y \<in> set xs" "x \<noteq> y"
  shows "unwrap_or (position_of x xs) 0 \<noteq> unwrap_or (position_of y xs) 0"
proof -
  obtain i j where "position_of x xs = Some i" "position_of y xs = Some j"
    using position_of_in assms(1,2) by meson
  moreover from this have "i \<noteq> j" using position_of_nth assms(3) by metis
  ultimately show ?thesis by simp
qed

text \<open>
  Bootstrap. Two members never get the same delay: their delays differ by at least the stagger,
  and the first member waits not at all, so some node always proposes at once. Both polling loops
  return as soon as one clock reading has passed their deadline, a node that sees the pool formed
  never proposes, and \<open>NotAllowed\<close> (the cluster exists already) is success, not an error.
\<close>

theorem bootstrap_staggered:
  assumes "a \<in> set members" "b \<in> set members" "a \<noteq> b"
    and "\<exists>p \<in> set polls. now + stagger_delay members a \<le> fst p"
    and "\<exists>p \<in> set lpolls. now + leader_wait_after_bootstrap \<le> fst p"
  shows "(stagger_delay members a + secs 3 \<le> stagger_delay members b \<or>
          stagger_delay members b + secs 3 \<le> stagger_delay members a) \<and>
         stagger_delay members (hd members) = 0 \<and>
         ensure_membership members a initialized now polls \<noteq> None \<and>
         ensure_membership members a True now polls = Some False \<and>
         bootstrap_membership n False InitNotAllowed now lpolls = Some (Inr AlreadyFormed) \<and>
         bootstrap_membership n False InitOk now lpolls = Some (Inr (Formed n))"
proof -
  have "members \<noteq> []" using assms(1) by auto
  hence z: "stagger_delay members (hd members) = 0"
    by (cases members) (simp_all add: stagger_delay_def)
  have "stagger_delay members a + secs 3 \<le> stagger_delay members b \<or>
        stagger_delay members b + secs 3 \<le> stagger_delay members a"
    using position_of_inj [OF assms(1-3)]
    by (auto simp: stagger_delay_def membership_bootstrap_stagger_def secs_def nat_neq_iff)
  moreover obtain r where "await_formed (now + stagger_delay members a) polls = Some r"
    using await_formed_returns [OF assms(4)] by blast
  moreover obtain q where "await_leader (now + leader_wait_after_bootstrap) lpolls = Some q"
    using await_leader_returns [OF assms(5)] by blast
  ultimately show ?thesis
    using z by (cases initialized)
      (simp_all add: ensure_membership_def bootstrap_membership_def bootstrap_outcome_def)
qed

theorem bootstrap_staggered_witness:
  "stagger_delay [1, 4, 9] 4 = secs 3 \<and> stagger_delay [1, 4, 9] 9 = secs 6 \<and>
   ensure_membership [1, 4, 9] 4 False 0 [(0, False), (secs 3, True)] = Some True \<and>
   bootstrap_membership 3 False InitNotAllowed 0 [(0, True), (secs 10, True)] = Some (Inr AlreadyFormed)"
proof -
  have "bootstrap_membership 3 False InitNotAllowed 0 [(0, True), (secs 10, True)] = Some (Inr AlreadyFormed)"
    by (rule bootstrap_staggered [of 4 "[1, 4, 9]" 9 "[(0, False), (secs 3, True)]" 0
          "[(0, True), (secs 10, True)]" False 3, THEN conjunct2, THEN conjunct2, THEN conjunct2,
          THEN conjunct2, THEN conjunct1])
      (simp_all add: stagger_delay_def membership_bootstrap_stagger_def secs_def
        leader_wait_after_bootstrap_def)
  thus ?thesis
    by (simp add: stagger_delay_def membership_bootstrap_stagger_def ensure_membership_def secs_def)
qed

text \<open>The election window openraft gets is well-formed for every timeout of at least 12 ms.\<close>

lemma election_window_ok:
  assumes "election_window cfg = (hb, lo, hi)" and "12 \<le> hi"
  shows "1 \<le> hb \<and> 5 * hb \<le> lo \<and> lo < hi"
  using assms by (auto simp: election_window_def Let_def)

end
