(* ===== verification/ClusterView.thy ===== *)
theory ClusterView
  imports Config
begin

text \<open>
  \<open>crates/pg-agent-core/src/cluster_view.rs\<close>: the status a node reports (\<open>proto/common.proto\<close>), the
  parallel status fan-out under one deadline, the record of who was last seen serving, and the WAL
  position with its lexicographic order.

  A \<open>HashMap\<close> keyed by node id is an association list without duplicate keys. The fan-out is a
  function of the order and time at which the spawned tasks complete.
\<close>

section \<open>Node status\<close>

record node_status =
  is_running :: bool
  is_in_recovery :: bool
  is_ready :: bool
  replication_lag_bytes :: int
  replication_state :: string
  is_postgres_running :: bool
  is_pgpool_running :: bool
  is_postgres_status_ok :: bool
  is_pgpool_status_ok :: bool
  timeline_id :: i32
  current_wal_lsn :: u64
  last_flush_lsn :: u64
  peer_primary_seen_age_ms :: "(i32 \<times> nat) list"

record peer_status_view =
  psv_node :: node_config
  psv_status :: "(string, node_status) result"

definition serving :: "node_status \<Rightarrow> bool" where
  "serving s = (is_postgres_running s \<and> \<not> is_in_recovery s)"

section \<open>Hash maps\<close>

definition hm_insert :: "'k \<Rightarrow> 'v \<Rightarrow> ('k \<times> 'v) list \<Rightarrow> ('k \<times> 'v) list" where
  "hm_insert k v m = (k, v) # filter (\<lambda>p. fst p \<noteq> k) m"

definition hm_remove :: "'k \<Rightarrow> ('k \<times> 'v) list \<Rightarrow> ('k \<times> 'v) list" where
  "hm_remove k m = filter (\<lambda>p. fst p \<noteq> k) m"

section \<open>Sightings\<close>

type_synonym peer_seen = "(i32 \<times> instant) list"

definition record_primary :: "instant \<Rightarrow> i32 \<Rightarrow> peer_seen \<Rightarrow> peer_seen" where
  "record_primary now i seen = hm_insert i now seen"

text \<open>\<open>as_millis() as u64\<close> keeps the low 64 bits.\<close>

definition ages_ms :: "instant \<Rightarrow> peer_seen \<Rightarrow> (i32 \<times> nat) list" where
  "ages_ms now seen = map (\<lambda>(i, at). (i, as_millis (now - at) mod 2 ^ 64)) seen"

section \<open>The fan-out\<close>

definition status_fanout_budget :: duration where
  "status_fanout_budget = secs 5"

text \<open>
  The completions of the spawned tasks, in order: when, and the view, or \<open>None\<close> for a task that
  panicked. A task that never completes is absent.
\<close>

type_synonym completion = "instant \<times> peer_status_view option"

fun drain :: "instant \<Rightarrow> instant \<Rightarrow> completion list \<Rightarrow> peer_status_view list" where
  "drain deadline now [] = []"
| "drain deadline now ((at, v) # rest) =
     (if deadline \<le> now \<or> deadline < at then []
      else case v of
          Some view \<Rightarrow> view # drain deadline (max now at) rest
        | None \<Rightarrow> drain deadline (max now at) rest)"

text \<open>The second loop over \<open>nodes\<close>: a node without a view gets an error entry.\<close>

fun fill_missing :: "node_config list \<Rightarrow> peer_status_view list \<Rightarrow> peer_status_view list" where
  "fill_missing [] out = out"
| "fill_missing (n # ns) out =
     (if \<not> list_ex (\<lambda>v. nc_id (psv_node v) = nc_id n) out
      then fill_missing ns (out @ [\<lparr>psv_node = n, psv_status =
             Inl ''did not answer within the status fan-out budget''\<rparr>])
      else fill_missing ns out)"

definition record_serving :: "instant \<Rightarrow> peer_status_view list \<Rightarrow> peer_seen \<Rightarrow> peer_seen" where
  "record_serving now out seen =
     fold (\<lambda>v seen. case psv_status v of
               Inr s \<Rightarrow> if serving s then record_primary now (nc_id (psv_node v)) seen else seen
             | Inl _ \<Rightarrow> seen) out seen"

definition collect_statuses ::
  "node_config list \<Rightarrow> duration \<Rightarrow> instant \<Rightarrow> completion list \<Rightarrow> instant \<Rightarrow> peer_seen option \<Rightarrow>
     peer_status_view list \<times> peer_seen option" where
  "collect_statuses nodes budget start completions done seen =
     (let out = drain (start + budget) start completions;
          seen' = map_option (record_serving done out) seen
      in (fill_missing nodes out, seen'))"

section \<open>WAL positions\<close>

datatype wal_position = WalPosition (wp_timeline: i32) (wp_lsn: u64)

text \<open>The derived \<open>Ord\<close>: fields in order of declaration.\<close>

instantiation wal_position :: linorder
begin

definition less_eq_wal_position :: "wal_position \<Rightarrow> wal_position \<Rightarrow> bool" where
  "less_eq_wal_position p q \<longleftrightarrow>
     wp_timeline p < wp_timeline q \<or> (wp_timeline p = wp_timeline q \<and> wp_lsn p \<le> wp_lsn q)"

definition less_wal_position :: "wal_position \<Rightarrow> wal_position \<Rightarrow> bool" where
  "less_wal_position p q \<longleftrightarrow>
     wp_timeline p < wp_timeline q \<or> (wp_timeline p = wp_timeline q \<and> wp_lsn p < wp_lsn q)"

instance
  by intro_classes
    (auto simp: less_eq_wal_position_def less_wal_position_def wal_position.expand)

end

definition from_status :: "node_status \<Rightarrow> wal_position option" where
  "from_status s =
     (if 0 < timeline_id s \<and> 0 < last_flush_lsn s
      then Some (WalPosition (timeline_id s) (last_flush_lsn s)) else None)"

definition lag_behind :: "wal_position \<Rightarrow> wal_position \<Rightarrow> u64 option" where
  "lag_behind p ahead =
     (if wp_timeline p = wp_timeline ahead then Some (saturating_sub (wp_lsn ahead) (wp_lsn p))
      else None)"

unbundle bit_operations_syntax

definition show_position :: "wal_position \<Rightarrow> string" where
  "show_position p =
     ''TL'' @ show_int (wp_timeline p) @ ''@'' @ show_hex (unat (drop_bit 32 (wp_lsn p))) @ ''/'' @
     show_hex (unat (wp_lsn p AND 0xFFFFFFFF))"

section \<open>Lemmas\<close>

lemma hm_insert_lookup [simp]: "map_of (hm_insert k v m) = (map_of m)(k \<mapsto> v)"
proof
  fix x
  have "map_of (filter (\<lambda>p. fst p \<noteq> k) m) x = map_of m x" if "x \<noteq> k"
    using that by (induction m) auto
  thus "map_of (hm_insert k v m) x = ((map_of m)(k \<mapsto> v)) x" by (simp add: hm_insert_def)
qed

lemma hm_insert_keys [simp]: "fst ` set (hm_insert k v m) = insert k (fst ` set m)"
  by (auto simp: hm_insert_def image_iff)

lemma hm_insert_distinct: "distinct (map fst m) \<Longrightarrow> distinct (map fst (hm_insert k v m))"
  by (auto simp: hm_insert_def distinct_map_filter)

text \<open>What is drained is an initial part of what completes.\<close>

lemma drain_initial: "\<exists>rest. List.map_filter snd cs = drain dl now cs @ rest"
  by (induction dl now cs rule: drain.induct)
    (auto simp: List.map_filter_def split: option.splits)

lemma drain_distinct:
  "distinct (map f (List.map_filter snd cs)) \<Longrightarrow> distinct (map f (drain dl now cs))"
  using drain_initial [of cs dl now] by auto

lemma drain_in_time:
  "v \<in> set (drain dl now cs) \<Longrightarrow> \<exists>at. (at, Some v) \<in> set cs \<and> at \<le> dl"
  by (induction dl now cs rule: drain.induct) (auto split: if_splits option.splits)

lemma fill_missing_prefix: "\<exists>more. fill_missing ns out = out @ more \<and>
    (\<forall>v \<in> set more. psv_node v \<in> set ns \<and> \<not> is_ok (psv_status v))"
  by (induction ns out rule: fill_missing.induct) force+

lemma fill_missing_ids:
  "(\<lambda>v. nc_id (psv_node v)) ` set (fill_missing ns out) =
     (\<lambda>v. nc_id (psv_node v)) ` set out \<union> nc_id ` set ns"
proof (induction ns out rule: fill_missing.induct)
  case (2 n ns out)
  show ?case
  proof (cases "list_ex (\<lambda>v. nc_id (psv_node v) = nc_id n) out")
    case True
    hence "nc_id n \<in> (\<lambda>v. nc_id (psv_node v)) ` set out"
      by (force simp: list_ex_iff)
    with 2 True show ?thesis by auto
  qed (use 2 in auto)
qed simp

lemma fill_missing_distinct:
  "distinct (map (\<lambda>v. nc_id (psv_node v)) out) \<Longrightarrow>
     distinct (map (\<lambda>v. nc_id (psv_node v)) (fill_missing ns out))"
proof (induction ns out rule: fill_missing.induct)
  case (2 n ns out)
  show ?case
  proof (cases "list_ex (\<lambda>v. nc_id (psv_node v) = nc_id n) out")
    case False
    hence "nc_id n \<notin> (\<lambda>v. nc_id (psv_node v)) ` set out" by (auto simp: list_ex_iff)
    with 2 False show ?thesis by simp
  qed (use 2 in simp)
qed simp

lemma record_serving_lookup:
  "map_of (record_serving now out seen) i =
     (if \<exists>v \<in> set out. \<exists>s. psv_status v = Inr s \<and> serving s \<and> nc_id (psv_node v) = i
      then Some now else map_of seen i)"
proof (induction out arbitrary: seen)
  case (Cons v out)
  have "record_serving now (v # out) seen =
      record_serving now out (record_serving now [v] seen)" by (simp add: record_serving_def)
  with Cons show ?case
    by (auto simp: record_serving_def record_primary_def split: sum.splits)
qed (simp add: record_serving_def)

lemma map_of_ages:
  "map_of (ages_ms now seen) i = map_option (\<lambda>at. as_millis (now - at) mod 2 ^ 64) (map_of seen i)"
  by (induction seen) (auto simp: ages_ms_def)

lemma less_position_iff:
  "WalPosition t l < WalPosition t' l' \<longleftrightarrow> t < t' \<or> (t = t' \<and> l < l')"
  by (simp add: less_wal_position_def)

section \<open>Properties\<close>

text \<open>
  One slow peer degrades one peer's evidence. The fan-out returns exactly one view per node,
  whatever completes and when: a view that arrived is kept as it is, and every other node gets an
  error entry. A node is recorded as seen serving exactly when its own view says it runs PostgreSQL
  out of recovery; nobody else's record moves.
\<close>

theorem fanout_one_view_per_node:
  assumes "distinct (map nc_id nodes)"
    and "\<forall>c \<in> set completions. \<forall>v. snd c = Some v \<longrightarrow> psv_node v \<in> set nodes"
    and "distinct (map (\<lambda>v. nc_id (psv_node v)) (List.map_filter snd completions))"
    and "collect_statuses nodes budget start completions done (Some seen) = (views, Some seen')"
  shows "distinct (map (\<lambda>v. nc_id (psv_node v)) views) \<and>
         (\<lambda>v. nc_id (psv_node v)) ` set views = nc_id ` set nodes \<and>
         length views = length nodes \<and>
         (\<forall>v \<in> set views. is_ok (psv_status v) \<longrightarrow>
            (\<exists>at \<le> start + budget. (at, Some v) \<in> set completions)) \<and>
         (\<forall>i. map_of seen' i =
            (if \<exists>v \<in> set views. \<exists>s. psv_status v = Inr s \<and> serving s \<and> nc_id (psv_node v) = i
             then Some done else map_of seen i))"
proof -
  let ?out = "drain (start + budget) start completions"
  from assms(4) have v: "views = fill_missing nodes ?out" and s: "seen' = record_serving done ?out seen"
    by (auto simp: collect_statuses_def Let_def)
  obtain more where m: "views = ?out @ more"
    "\<forall>v \<in> set more. psv_node v \<in> set nodes \<and> \<not> is_ok (psv_status v)"
    using fill_missing_prefix [of nodes ?out] v by auto
  have d: "distinct (map (\<lambda>v. nc_id (psv_node v)) views)"
    unfolding v by (rule fill_missing_distinct [OF drain_distinct [OF assms(3)]])
  have sub: "(\<lambda>v. nc_id (psv_node v)) ` set ?out \<subseteq> nc_id ` set nodes"
  proof
    fix i assume "i \<in> (\<lambda>v. nc_id (psv_node v)) ` set ?out"
    then obtain u where "u \<in> set ?out" "i = nc_id (psv_node u)" by auto
    moreover from this drain_in_time obtain at where "(at, Some u) \<in> set completions" by meson
    ultimately show "i \<in> nc_id ` set nodes" using assms(2) by fastforce
  qed
  hence ids: "(\<lambda>v. nc_id (psv_node v)) ` set views = nc_id ` set nodes"
    unfolding v fill_missing_ids by blast
  have "length views = card (set (map (\<lambda>v. nc_id (psv_node v)) views))"
    using d by (simp only: distinct_card length_map)
  also have "\<dots> = card (set (map nc_id nodes))" using ids by simp
  also have "\<dots> = length nodes" using assms(1) by (simp only: distinct_card length_map)
  finally have len: "length views = length nodes" .
  have ok: "\<exists>at \<le> start + budget. (at, Some u) \<in> set completions"
    if "u \<in> set views" "is_ok (psv_status u)" for u
    using that m drain_in_time [of u "start + budget" start completions] by auto
  have "(\<exists>v \<in> set views. \<exists>s. psv_status v = Inr s \<and> serving s \<and> nc_id (psv_node v) = i) \<longleftrightarrow>
        (\<exists>v \<in> set ?out. \<exists>s. psv_status v = Inr s \<and> serving s \<and> nc_id (psv_node v) = i)" for i
    using m by fastforce
  with d ids len ok s show ?thesis by (simp add: record_serving_lookup)
qed

definition ex_status :: node_status where
  "ex_status = \<lparr>is_running = True, is_in_recovery = False, is_ready = True,
     replication_lag_bytes = 0, replication_state = [], is_postgres_running = True,
     is_pgpool_running = True, is_postgres_status_ok = True, is_pgpool_status_ok = True,
     timeline_id = 3, current_wal_lsn = 100, last_flush_lsn = 100,
     peer_primary_seen_age_ms = []\<rparr>"

definition ex_nodes :: "node_config list" where
  "ex_nodes = [\<lparr>nc_id = 1, nc_hostname = ''a''\<rparr>, \<lparr>nc_id = 2, nc_hostname = ''b''\<rparr>]"

definition ex_completions :: "completion list" where
  "ex_completions =
     [(10, Some \<lparr>psv_node = \<lparr>nc_id = 2, nc_hostname = ''b''\<rparr>, psv_status = Inr ex_status\<rparr>),
      (secs 9, Some \<lparr>psv_node = \<lparr>nc_id = 1, nc_hostname = ''a''\<rparr>, psv_status = Inr ex_status\<rparr>)]"

theorem fanout_one_view_per_node_witness:
  "case collect_statuses ex_nodes (secs 5) 0 ex_completions 11 (Some [(1, 4)]) of (views, seen) \<Rightarrow>
     length views = 2 \<and> map_of (the seen) 2 = Some 11 \<and> map_of (the seen) 1 = Some 4"
proof -
  let ?r = "collect_statuses ex_nodes (secs 5) 0 ex_completions 11 (Some [(1, 4)])"
  have run: "drain (0 + secs 5) 0 ex_completions =
      [\<lparr>psv_node = \<lparr>nc_id = 2, nc_hostname = ''b''\<rparr>, psv_status = Inr ex_status\<rparr>]"
    by (simp add: ex_completions_def secs_def)
  have r: "?r = (fst ?r, Some (record_serving 11
      [\<lparr>psv_node = \<lparr>nc_id = 2, nc_hostname = ''b''\<rparr>, psv_status = Inr ex_status\<rparr>] [(1, 4)]))"
    by (simp add: collect_statuses_def run [simplified] Let_def)
  have "length (fst ?r) = length ex_nodes"
    by (rule fanout_one_view_per_node [OF _ _ _ r, THEN conjunct2, THEN conjunct2, THEN conjunct1])
      (simp_all add: ex_nodes_def ex_completions_def List.map_filter_def)
  hence len: "length (fst ?r) = 2" by (simp add: ex_nodes_def)
  show ?thesis
    by (subst r) (simp add: len record_serving_lookup ex_status_def serving_def)
qed

end
