(* ===== verification/HaLoop.thy ===== *)
theory HaLoop
  imports Consensus ClusterView
begin

text \<open>
  The HA loop, \<open>crates/pg-agent-core/src/ha.rs\<close>: one tick reads the lease, observes local PostgreSQL
  and every peer, and produces exactly one decision.

  A tick is a function of the store it is handed (\<open>consensus_store\<close>), the node pool, the timing, and
  the environment of that tick: the clock, whether the store read came back within the retry budget,
  the answers of the local database, the completions of the status fan-out, the random jitter, and
  what other nodes do to the store between this tick's read and its write. The state a tick carries to
  the next (\<open>TickState\<close>, the shared sighting record and the store) is \<open>ha_world\<close>.

  The free-text reasons of the source are constructors that carry the same data.
\<close>

section \<open>Timing and decisions\<close>

record ha_timing =
  loop_wait :: duration
  retry_timeout :: duration
  leader_ttl :: duration

datatype stand_down =
    InBackoff duration
  | LocalUnknown
  | WitnessSawHolder i32 i32 nat
  | StreamingVacant
  | RivalReceiving i32
  | PositionUnknown
  | NotSettled "i32 list" "i32 list"
  | NewerTimeline i32
  | MoreFlushed i32 u64
  | LowerIdTie i32
  | ProposalFailed string
  | VacantButPrimary i32
  | ManyPrimaries "i32 list"

datatype demote_reason =
    StoreUnknownTooLong duration
  | PromotionDidNotHappen duration
  | HolderStateUnknown

datatype ha_decision =
    Paused
  | StoreUnknown duration
  | WouldDemote demote_reason
  | RetainedLease u64
  | AwaitingPromotion u64 duration
  | Following i32
  | WouldFollowNewHolder i32 i32
  | HolderUnhealthy i32 duration
  | DetachingFromDeposed i32
  | StoodDown stand_down
  | TookOver u64 bool
  | LostTakeover "i32 option"

section \<open>Views and state\<close>

record local_view =
  lv_is_primary :: "bool option"
  lv_pos :: "wal_position option"
  lv_receiving :: bool

record peer_view =
  pv_node :: node_config
  pv_running_as_primary :: bool
  pv_pos :: "wal_position option"
  pv_receiving :: bool
  pv_reachable :: bool
  pv_seen_ages :: "(i32 \<times> nat) list"

text \<open>\<open>mem::discriminant\<close> of a decision.\<close>

definition ha_discriminant :: "ha_decision \<Rightarrow> nat" where
  "ha_discriminant d =
     (case d of Paused \<Rightarrow> 0 | StoreUnknown _ \<Rightarrow> 1 | WouldDemote _ \<Rightarrow> 2 | RetainedLease _ \<Rightarrow> 3
      | AwaitingPromotion _ _ \<Rightarrow> 4 | Following _ \<Rightarrow> 5 | WouldFollowNewHolder _ _ \<Rightarrow> 6
      | HolderUnhealthy _ _ \<Rightarrow> 7 | DetachingFromDeposed _ \<Rightarrow> 8 | StoodDown _ \<Rightarrow> 9
      | TookOver _ _ \<Rightarrow> 10 | LostTakeover _ \<Rightarrow> 11)"

record tick_state =
  ts_last_holder :: "i32 option"
  ts_holder_unhealthy_since :: "(i32 \<times> instant) option"
  ts_store_unknown_since :: "instant option"
  ts_backoff_until :: "instant option"
  ts_held_term :: "u64 option"
  ts_held_since :: "instant option"
  ts_last_logged :: "nat option"
  ts_settled_pos :: "(i32 \<times> wal_position) list"

definition tick_state_new :: tick_state where
  "tick_state_new =
     \<lparr>ts_last_holder = None, ts_holder_unhealthy_since = None, ts_store_unknown_since = None,
      ts_backoff_until = None, ts_held_term = None, ts_held_since = None, ts_last_logged = None,
      ts_settled_pos = []\<rparr>"

record 's ha_world =
  hw_tick :: tick_state
  hw_seen :: "peer_seen option"
  hw_store :: 's

text \<open>The answers of \<open>LocalDb\<close> this tick; \<open>db_lag_state\<close> is the state of \<open>replication_lag\<close>.\<close>

record local_answers =
  db_is_in_recovery :: "(string, bool) result"
  db_timeline_id :: "(string, i32) result"
  db_flush_lsn :: "(string, u64) result"
  db_lag_state :: "(string, string) result"

record 's tick_env =
  env_now :: instant
  env_wall :: datetime
  env_read_in_time :: bool
  env_db :: local_answers
  env_fanout_start :: instant
  env_completions :: "completion list"
  env_fanout_done :: instant
  env_jitter_ms :: nat
  env_between :: "'s \<Rightarrow> 's"

section \<open>Observing\<close>

definition observe_local :: "local_answers \<Rightarrow> local_view" where
  "observe_local db =
     (let is_primary = map_option Not (ok_opt (db_is_in_recovery db));
          pos = (if is_primary \<noteq> None then
                   (case (opt_filter (\<lambda>t. 0 < t) (ok_opt (db_timeline_id db)),
                          opt_filter (\<lambda>l. 0 < l) (ok_opt (db_flush_lsn db))) of
                      (Some t, Some lsn) \<Rightarrow> Some (WalPosition t lsn)
                    | _ \<Rightarrow> None)
                 else None);
          receiving = (if is_primary = Some False then
                         (case db_lag_state db of Inr st \<Rightarrow> st \<noteq> [] | Inl _ \<Rightarrow> False)
                       else False)
      in \<lparr>lv_is_primary = is_primary, lv_pos = pos, lv_receiving = receiving\<rparr>)"

definition peer_view_of :: "peer_status_view \<Rightarrow> peer_view" where
  "peer_view_of v =
     (case psv_status v of
        Inr s \<Rightarrow>
          \<lparr>pv_node = psv_node v,
           pv_running_as_primary = (is_postgres_running s \<and> \<not> is_in_recovery s),
           pv_pos = from_status s,
           pv_receiving = (is_in_recovery s \<and> replication_state s \<noteq> []),
           pv_reachable = True,
           pv_seen_ages = peer_primary_seen_age_ms s\<rparr>
      | Inl _ \<Rightarrow>
          \<lparr>pv_node = psv_node v, pv_running_as_primary = False, pv_pos = None,
           pv_receiving = False, pv_reachable = False, pv_seen_ages = []\<rparr>)"

definition observe_peers ::
  "node_pool \<Rightarrow> 's tick_env \<Rightarrow> peer_seen option \<Rightarrow> peer_view list \<times> peer_seen option" where
  "observe_peers pool env seen =
     (let others = filter (\<lambda>n. nc_id n \<noteq> np_local_node_id pool) (np_members pool)
      in if others = [] then ([], seen)
         else case collect_statuses others status_fanout_budget (env_fanout_start env)
                     (env_completions env) (env_fanout_done env) seen of
             (views, seen') \<Rightarrow> (map peer_view_of views, seen'))"

section \<open>Backoff and grace\<close>

definition promotion_grace :: "ha_timing \<Rightarrow> duration" where
  "promotion_grace tm = leader_ttl tm"

text \<open>\<open>gen_range(0..m)\<close> yields a number below \<open>m\<close>; \<open>jitter\<close> is the random source.\<close>

definition arm_backoff :: "ha_timing \<Rightarrow> nat \<Rightarrow> instant \<Rightarrow> tick_state \<Rightarrow> tick_state" where
  "arm_backoff tm jitter now ts =
     (let base = loop_wait tm;
          jitter_ms = (if as_millis base = 0 then 0 else jitter mod as_millis base)
      in ts\<lparr>ts_backoff_until := Some (now + base + millis jitter_ms)\<rparr>)"

section \<open>Candidacy\<close>

text \<open>The gates before the position comparison, in order. \<open>Some d\<close> is the early return.\<close>

definition backoff_gate :: "instant \<Rightarrow> tick_state \<Rightarrow> ha_decision option" where
  "backoff_gate now ts =
     (case ts_backoff_until ts of
        Some until \<Rightarrow> if now < until then Some (StoodDown (InBackoff (until - now))) else None
      | None \<Rightarrow> None)"

text \<open>\<open>find_map\<close> over the reachable peers other than the holder.\<close>

fun find_witness :: "i32 \<Rightarrow> nat \<Rightarrow> peer_view list \<Rightarrow> (i32 \<times> nat) option" where
  "find_witness holder ttl_ms [] = None"
| "find_witness holder ttl_ms (p # ps) =
     (if pv_reachable p \<and> nc_id (pv_node p) \<noteq> holder then
        (case opt_filter (\<lambda>age. age \<le> ttl_ms) (map_of (pv_seen_ages p) holder) of
           Some age \<Rightarrow> Some (nc_id (pv_node p), age)
         | None \<Rightarrow> find_witness holder ttl_ms ps)
      else find_witness holder ttl_ms ps)"

definition witness_gate ::
  "ha_timing \<Rightarrow> (i32 \<times> u64) option \<Rightarrow> peer_view list \<Rightarrow> ha_decision option" where
  "witness_gate tm expected peers =
     (case expected of
        None \<Rightarrow> None
      | Some (holder, _) \<Rightarrow>
          (case find_witness holder (as_millis (leader_ttl tm) mod 2 ^ 64) peers of
             Some (w, age) \<Rightarrow> Some (StoodDown (WitnessSawHolder w holder age))
           | None \<Rightarrow> None))"

definition freeze_gate ::
  "(i32 \<times> u64) option \<Rightarrow> local_view \<Rightarrow> peer_view list \<Rightarrow> ha_decision option" where
  "freeze_gate expected lv peers =
     (if lv_is_primary lv = Some False \<and> lv_receiving lv then
        (case expected of
           Some (holder, _) \<Rightarrow> Some (DetachingFromDeposed holder)
         | None \<Rightarrow> Some (StoodDown StreamingVacant))
      else case List.find (\<lambda>p. \<not> pv_running_as_primary p \<and> pv_pos p \<noteq> None \<and> pv_receiving p) peers of
          Some mover \<Rightarrow> Some (StoodDown (RivalReceiving (nc_id (pv_node mover))))
        | None \<Rightarrow> None)"

definition early_gates ::
  "ha_timing \<Rightarrow> (i32 \<times> u64) option \<Rightarrow> local_view \<Rightarrow> peer_view list \<Rightarrow> instant \<Rightarrow> tick_state \<Rightarrow>
     ha_decision option" where
  "early_gates tm expected lv peers now ts =
     (case backoff_gate now ts of
        Some d \<Rightarrow> Some d
      | None \<Rightarrow>
          if lv_is_primary lv = None then Some (StoodDown LocalUnknown)
          else case witness_gate tm expected peers of
              Some d \<Rightarrow> Some d
            | None \<Rightarrow> freeze_gate expected lv peers)"

text \<open>The positions sampled this tick: the local one, then each peer's.\<close>

definition current_positions ::
  "i32 \<Rightarrow> wal_position \<Rightarrow> peer_view list \<Rightarrow> (i32 \<times> wal_position) list" where
  "current_positions local_id my_pos peers =
     fold (\<lambda>p m. case pv_pos p of Some pos \<Rightarrow> hm_insert (nc_id (pv_node p)) pos m | None \<Rightarrow> m)
       peers (hm_insert local_id my_pos [])"

definition unsettled ::
  "(i32 \<times> wal_position) list \<Rightarrow> (i32 \<times> wal_position) list \<Rightarrow> i32 list" where
  "unsettled current settled =
     map fst (filter (\<lambda>(i, pos). map_of settled i \<noteq> Some pos) current)"

definition vanished ::
  "i32 \<Rightarrow> (i32 \<times> wal_position) list \<Rightarrow> (i32 \<times> wal_position) list \<Rightarrow> i32 list" where
  "vanished local_id current settled =
     filter (\<lambda>i. i \<noteq> local_id \<and> map_of current i = None) (map fst settled)"

text \<open>
  The best of the other positions, by (position, Reverse id): on integers the reverse order is the
  order of the negations.
\<close>

definition reported_positions :: "peer_view list \<Rightarrow> (i32 \<times> wal_position) list" where
  "reported_positions peers =
     List.map_filter (\<lambda>p. map_option (\<lambda>pos. (nc_id (pv_node p), pos)) (pv_pos p)) peers"

definition best_other :: "peer_view list \<Rightarrow> (i32 \<times> wal_position) option" where
  "best_other peers = max_by_key (\<lambda>(i, pos). (pos, - i)) (reported_positions peers)"

definition outranked :: "i32 \<Rightarrow> wal_position \<Rightarrow> peer_view list \<Rightarrow> stand_down option" where
  "outranked local_id my_pos peers =
     (case best_other peers of
        None \<Rightarrow> None
      | Some (best_id, best_pos) \<Rightarrow>
          if my_pos < best_pos then
            (case lag_behind my_pos best_pos of
               None \<Rightarrow> Some (NewerTimeline best_id)
             | Some lag \<Rightarrow> Some (MoreFlushed best_id lag))
          else if best_pos = my_pos \<and> best_id < local_id then Some (LowerIdTie best_id)
          else None)"

text \<open>The CAS and its three outcomes.\<close>

definition propose_takeover ::
  "'s consensus_store \<Rightarrow> ha_timing \<Rightarrow> 's tick_env \<Rightarrow> i32 \<Rightarrow> (i32 \<times> u64) option \<Rightarrow> local_view \<Rightarrow>
     tick_state \<Rightarrow> 's \<Rightarrow> ha_decision \<times> tick_state \<times> 's" where
  "propose_takeover ops tm env local_id expected lv ts s =
     (case st_try_takeover ops local_id expected (env_wall env) (env_between env s) of
        (Inr (Won l), s') \<Rightarrow> (TookOver (lease_term l) (lv_is_primary lv = Some True), ts, s')
      | (Inr (Lost current), s') \<Rightarrow>
          (LostTakeover (map_option lease_holder current),
           arm_backoff tm (env_jitter_ms env) (env_now env) ts, s')
      | (Inl e, s') \<Rightarrow> (StoodDown (ProposalFailed e), ts, s'))"

definition consider_candidacy ::
  "'s consensus_store \<Rightarrow> ha_timing \<Rightarrow> 's tick_env \<Rightarrow> i32 \<Rightarrow> (i32 \<times> u64) option \<Rightarrow> local_view \<Rightarrow>
     peer_view list \<Rightarrow> tick_state \<Rightarrow> 's \<Rightarrow> ha_decision \<times> tick_state \<times> 's" where
  "consider_candidacy ops tm env local_id expected lv peers ts s =
     (case early_gates tm expected lv peers (env_now env) ts of
        Some d \<Rightarrow> (d, ts, s)
      | None \<Rightarrow>
     (case lv_pos lv of
        None \<Rightarrow> (StoodDown PositionUnknown, ts, s)
      | Some my_pos \<Rightarrow>
          let current = current_positions local_id my_pos peers;
              us = unsettled current (ts_settled_pos ts);
              vs = vanished local_id current (ts_settled_pos ts);
              ts = ts\<lparr>ts_settled_pos := current\<rparr>
          in if us \<noteq> [] \<or> vs \<noteq> [] then (StoodDown (NotSettled us vs), ts, s)
             else case outranked local_id my_pos peers of
                 Some why \<Rightarrow>
                   (StoodDown why, arm_backoff tm (env_jitter_ms env) (env_now env) ts, s)
               | None \<Rightarrow> propose_takeover ops tm env local_id expected lv ts s))"

section \<open>The arms of a tick\<close>

text \<open>The store could not be read.\<close>

definition store_unknown_arm ::
  "ha_timing \<Rightarrow> i32 \<Rightarrow> instant \<Rightarrow> tick_state \<Rightarrow> ha_decision \<times> tick_state" where
  "store_unknown_arm tm local_id now ts =
     (let since = unwrap_or (ts_store_unknown_since ts) now;
          ts = ts\<lparr>ts_store_unknown_since := Some since\<rparr>;
          unknown_for = now - since
      in if ts_last_holder ts = Some local_id \<and> retry_timeout tm < unknown_for
         then (WouldDemote (StoreUnknownTooLong unknown_for), ts)
         else (StoreUnknown unknown_for, ts))"

text \<open>The lease is ours.\<close>

definition own_lease_arm ::
  "'s consensus_store \<Rightarrow> ha_timing \<Rightarrow> 's tick_env \<Rightarrow> i32 \<Rightarrow> lease \<Rightarrow> local_view \<Rightarrow> tick_state \<Rightarrow> 's \<Rightarrow>
     ha_decision \<times> tick_state \<times> 's" where
  "own_lease_arm ops tm env local_id l lv ts s =
     (let now = env_now env;
          ts = ts\<lparr>ts_holder_unhealthy_since := None, ts_settled_pos := []\<rparr>;
          ts = (if ts_held_term ts \<noteq> Some (lease_term l)
                then ts\<lparr>ts_held_term := Some (lease_term l), ts_held_since := Some now\<rparr> else ts);
          held_for = now - unwrap_or (ts_held_since ts) now
      in case lv_is_primary lv of
           Some True \<Rightarrow> (RetainedLease (lease_term l), ts, s)
         | Some False \<Rightarrow>
             if held_for < promotion_grace tm
             then (AwaitingPromotion (lease_term l) held_for, ts, s)
             else
               (case st_release ops local_id (lease_term l) (env_between env s) of
                  (_, s') \<Rightarrow>
                    (WouldDemote (PromotionDidNotHappen held_for),
                     arm_backoff tm (env_jitter_ms env) now ts, s'))
         | None \<Rightarrow> (WouldDemote HolderStateUnknown, ts, s))"

text \<open>Someone else holds the lease.\<close>

definition holder_healthy :: "i32 \<Rightarrow> peer_view list \<Rightarrow> bool" where
  "holder_healthy holder peers =
     (case List.find (\<lambda>p. nc_id (pv_node p) = holder) peers of
        Some p \<Rightarrow> pv_running_as_primary p | None \<Rightarrow> False)"

definition unhealthy_clock :: "i32 \<Rightarrow> instant \<Rightarrow> tick_state \<Rightarrow> instant \<times> tick_state" where
  "unhealthy_clock holder now ts =
     (case ts_holder_unhealthy_since ts of
        Some (h, t) \<Rightarrow>
          if h = holder then (t, ts)
          else (now, ts\<lparr>ts_holder_unhealthy_since := Some (holder, now)\<rparr>)
      | None \<Rightarrow> (now, ts\<lparr>ts_holder_unhealthy_since := Some (holder, now)\<rparr>))"

definition other_lease_arm ::
  "'s consensus_store \<Rightarrow> ha_timing \<Rightarrow> 's tick_env \<Rightarrow> i32 \<Rightarrow> lease \<Rightarrow> local_view \<Rightarrow> peer_view list \<Rightarrow>
     tick_state \<Rightarrow> 's \<Rightarrow> ha_decision \<times> tick_state \<times> 's" where
  "other_lease_arm ops tm env local_id l lv peers ts s =
     (let holder = lease_holder l; now = env_now env
      in if holder_healthy holder peers then
           let ts = ts\<lparr>ts_holder_unhealthy_since := None, ts_settled_pos := []\<rparr>
           in case ts_last_holder ts of
                Some p \<Rightarrow>
                  (if p \<noteq> holder then WouldFollowNewHolder p holder else Following holder, ts, s)
              | None \<Rightarrow> (Following holder, ts, s)
         else
           let (since, ts) = unhealthy_clock holder now ts;
               unhealthy_for = now - since
           in if leader_ttl tm \<le> unhealthy_for
              then consider_candidacy ops tm env local_id (Some (holder, lease_term l)) lv peers ts s
              else (HolderUnhealthy holder unhealthy_for, ts, s))"

text \<open>Nobody holds the lease.\<close>

definition observed_primaries :: "i32 \<Rightarrow> local_view \<Rightarrow> peer_view list \<Rightarrow> i32 list" where
  "observed_primaries local_id lv peers =
     map (\<lambda>p. nc_id (pv_node p)) (filter pv_running_as_primary peers) @
     (if lv_is_primary lv = Some True then [local_id] else [])"

definition vacant_arm ::
  "'s consensus_store \<Rightarrow> ha_timing \<Rightarrow> 's tick_env \<Rightarrow> i32 \<Rightarrow> local_view \<Rightarrow> peer_view list \<Rightarrow>
     tick_state \<Rightarrow> 's \<Rightarrow> ha_decision \<times> tick_state \<times> 's" where
  "vacant_arm ops tm env local_id lv peers ts s =
     (case observed_primaries local_id lv peers of
        [] \<Rightarrow> consider_candidacy ops tm env local_id None lv peers ts s
      | [only] \<Rightarrow>
          if only \<noteq> local_id then (StoodDown (VacantButPrimary only), ts, s)
          else consider_candidacy ops tm env local_id None lv peers ts s
      | many \<Rightarrow> (StoodDown (ManyPrimaries many), ts, s))"

definition lease_arm ::
  "'s consensus_store \<Rightarrow> ha_timing \<Rightarrow> 's tick_env \<Rightarrow> i32 \<Rightarrow> lease option \<Rightarrow> local_view \<Rightarrow>
     peer_view list \<Rightarrow> tick_state \<Rightarrow> 's \<Rightarrow> ha_decision \<times> tick_state \<times> 's" where
  "lease_arm ops tm env local_id le lv peers ts s =
     (case le of
        Some l \<Rightarrow>
          if lease_holder l = local_id then own_lease_arm ops tm env local_id l lv ts s
          else other_lease_arm ops tm env local_id l lv peers ts s
      | None \<Rightarrow> vacant_arm ops tm env local_id lv peers ts s)"

section \<open>One tick\<close>

definition remembered_holder :: "i32 \<Rightarrow> lease option \<Rightarrow> ha_decision \<Rightarrow> i32 option" where
  "remembered_holder local_id le d =
     (case d of TookOver _ _ \<Rightarrow> Some local_id | _ \<Rightarrow> map_option lease_holder le)"

definition tick_once ::
  "'s consensus_store \<Rightarrow> node_pool \<Rightarrow> ha_timing \<Rightarrow> 's tick_env \<Rightarrow> 's ha_world \<Rightarrow>
     ha_decision \<times> 's ha_world" where
  "tick_once ops pool tm env hw =
     (let local_id = np_local_node_id pool;
          (read, s) = st_read_state ops (hw_store hw);
          state = (if env_read_in_time env then read else Inl ''store read exceeded retry_timeout'');
          lv = observe_local (env_db env);
          (peers, seen) = observe_peers pool env (hw_seen hw);
          ts = hw_tick hw
      in case state of
           Inl _ \<Rightarrow>
             (case store_unknown_arm tm local_id (env_now env) ts of
                (d, ts') \<Rightarrow> (d, \<lparr>hw_tick = ts', hw_seen = seen, hw_store = s\<rparr>))
         | Inr st \<Rightarrow>
             let ts = ts\<lparr>ts_store_unknown_since := None\<rparr>
             in if cs_paused st \<noteq> None
                then (Paused, \<lparr>hw_tick = ts, hw_seen = seen, hw_store = s\<rparr>)
                else case lease_arm ops tm env local_id (cs_lease st) lv peers ts s of
                    (d, ts', s') \<Rightarrow>
                      (d, \<lparr>hw_tick = ts'\<lparr>ts_last_holder :=
                                        remembered_holder local_id (cs_lease st) d\<rparr>,
                           hw_seen = seen, hw_store = s'\<rparr>))"

section \<open>Logging and the loop\<close>

datatype log_level = Warn | Info | Debug

definition log_decision :: "ha_decision \<Rightarrow> tick_state \<Rightarrow> log_level \<times> tick_state" where
  "log_decision d ts =
     (let disc = ha_discriminant d;
          changed = (ts_last_logged ts \<noteq> Some disc);
          ts = ts\<lparr>ts_last_logged := Some disc\<rparr>
      in case d of
           WouldDemote _ \<Rightarrow> (Warn, ts)
         | TookOver _ _ \<Rightarrow> (Warn, ts)
         | LostTakeover _ \<Rightarrow> (Warn, ts)
         | _ \<Rightarrow> (if changed then Info else Debug, ts))"

text \<open>\<open>run\<close> up to shutdown: one environment per tick, each decision logged and handed on.\<close>

fun run_loop ::
  "'s consensus_store \<Rightarrow> node_pool \<Rightarrow> ha_timing \<Rightarrow> 's tick_env list \<Rightarrow> 's ha_world \<Rightarrow>
     (ha_decision \<times> log_level) list \<times> 's ha_world" where
  "run_loop ops pool tm [] hw = ([], hw)"
| "run_loop ops pool tm (e # es) hw =
     (let (d, hw) = tick_once ops pool tm e hw;
          (lvl, ts) = log_decision d (hw_tick hw);
          (ds, hw) = run_loop ops pool tm es (hw\<lparr>hw_tick := ts\<rparr>)
      in ((d, lvl) # ds, hw))"

section \<open>Ranking\<close>

lemma best_other_None: "best_other peers = None \<longleftrightarrow> (\<forall>p \<in> set peers. pv_pos p = None)"
  by (auto simp: best_other_def reported_positions_def List.map_filter_def filter_empty_conv)

lemma best_other_max:
  assumes "best_other peers = Some (b, bp)" and "p \<in> set peers" and "pv_pos p = Some pos"
  shows "pos < bp \<or> (pos = bp \<and> b \<le> nc_id (pv_node p))"
proof -
  have "(nc_id (pv_node p), pos) \<in>
      set (reported_positions peers)"
    using assms(2,3) by (force simp: reported_positions_def List.map_filter_def)
  from max_by_key_max [OF assms(1) [unfolded best_other_def] this] show ?thesis
    by (auto simp: less_eq_prod_def)
qed

lemma best_other_in:
  assumes "best_other peers = Some (b, bp)"
  shows "\<exists>p \<in> set peers. nc_id (pv_node p) = b \<and> pv_pos p = Some bp"
proof -
  have "(b, bp) \<in>
      set (reported_positions peers)"
    using max_by_key_in [OF assms [unfolded best_other_def]] .
  thus ?thesis by (auto simp: reported_positions_def List.map_filter_def)
qed

text \<open>\<open>beats\<close>: more flushed WAL, or as much and the lower id.\<close>

definition beats :: "i32 \<times> wal_position \<Rightarrow> i32 \<times> wal_position \<Rightarrow> bool" where
  "beats a b \<longleftrightarrow> snd b < snd a \<or> (snd a = snd b \<and> fst a < fst b)"

lemma outranked_None_iff:
  "outranked i my peers = None \<longleftrightarrow>
     (\<forall>p \<in> set peers. \<forall>pos. pv_pos p = Some pos \<longrightarrow> \<not> beats (nc_id (pv_node p), pos) (i, my))"
proof (cases "best_other peers")
  case None
  with best_other_None [of peers] show ?thesis by (simp add: outranked_def)
next
  case (Some bb)
  obtain b bp where bb: "best_other peers = Some (b, bp)" using Some by (cases bb) auto
  have "outranked i my peers = None \<longleftrightarrow> \<not> beats (b, bp) (i, my)"
    using bb by (auto simp: outranked_def beats_def split: option.splits)
  moreover have "\<not> beats (b, bp) (i, my) \<Longrightarrow> \<not> beats (nc_id (pv_node p), pos) (i, my)"
    if "p \<in> set peers" "pv_pos p = Some pos" for p pos
    using best_other_max [OF bb that] by (auto simp: beats_def)
  moreover obtain p where "p \<in> set peers" "nc_id (pv_node p) = b" "pv_pos p = Some bp"
    using best_other_in [OF bb] by blast
  ultimately show ?thesis by metis
qed

section \<open>Candidacy\<close>

lemma find_witness_None:
  "find_witness h ttl peers = None \<longleftrightarrow>
     (\<forall>p \<in> set peers. pv_reachable p \<and> nc_id (pv_node p) \<noteq> h \<longrightarrow>
        (\<forall>age. map_of (pv_seen_ages p) h = Some age \<longrightarrow> ttl < age))"
  by (induction h ttl peers rule: find_witness.induct)
    (auto split: option.splits if_splits simp: not_le)

lemma freeze_gate_None:
  "freeze_gate x lv peers = None \<longleftrightarrow>
     \<not> (lv_is_primary lv = Some False \<and> lv_receiving lv) \<and>
     (\<forall>p \<in> set peers. pv_pos p \<noteq> None \<and> pv_receiving p \<longrightarrow> pv_running_as_primary p)"
proof -
  have find: "(case List.find P ps of Some m \<Rightarrow> Some (F m) | None \<Rightarrow> None) = None \<longleftrightarrow>
      (\<forall>p \<in> set ps. \<not> P p)" for P :: "peer_view \<Rightarrow> bool" and F :: "peer_view \<Rightarrow> ha_decision" and ps
    using List_find_SomeD [of P ps] by (auto simp: find_None_iff split: option.splits)
  show ?thesis
    by (cases "lv_is_primary lv = Some False \<and> lv_receiving lv")
      (auto simp only: freeze_gate_def find if_True if_False split: option.splits, auto)
qed

lemma early_gates_None:
  "early_gates tm x lv peers now ts = None \<longleftrightarrow>
     (\<forall>until. ts_backoff_until ts = Some until \<longrightarrow> until \<le> now) \<and>
     lv_is_primary lv \<noteq> None \<and> witness_gate tm x peers = None \<and> freeze_gate x lv peers = None"
  by (auto simp: early_gates_def backoff_gate_def split: option.splits)

text \<open>What the ladder established by the time it reaches the compare-and-swap.\<close>

definition ready_to_propose ::
  "ha_timing \<Rightarrow> 's tick_env \<Rightarrow> i32 \<Rightarrow> (i32 \<times> u64) option \<Rightarrow> local_view \<Rightarrow> peer_view list \<Rightarrow>
     tick_state \<Rightarrow> bool" where
  "ready_to_propose tm env i x lv peers ts \<longleftrightarrow>
     early_gates tm x lv peers (env_now env) ts = None \<and>
     (\<exists>my. lv_pos lv = Some my \<and>
        unsettled (current_positions i my peers) (ts_settled_pos ts) = [] \<and>
        vanished i (current_positions i my peers) (ts_settled_pos ts) = [] \<and>
        outranked i my peers = None)"

lemma consider_candidacy_cases:
  obtains (declined) d ts' where "consider_candidacy ops tm env i x lv peers ts s = (d, ts', s)"
      "\<not> ready_to_propose tm env i x lv peers ts" "\<And>t b. d \<noteq> TookOver t b" "\<And>c. d \<noteq> LostTakeover c"
      "\<And>r. d \<noteq> WouldDemote r" "\<And>t. d \<noteq> RetainedLease t"
  | (proposed) my where "lv_pos lv = Some my"
      "ready_to_propose tm env i x lv peers ts"
      "consider_candidacy ops tm env i x lv peers ts s =
         propose_takeover ops tm env i x lv
           (ts\<lparr>ts_settled_pos := current_positions i my peers\<rparr>) s"
proof (cases "ready_to_propose tm env i x lv peers ts")
  case True
  then obtain my where "lv_pos lv = Some my" by (auto simp: ready_to_propose_def)
  with True show thesis
    by (intro proposed) (auto simp: ready_to_propose_def consider_candidacy_def Let_def)
next
  case False
  show thesis
  proof (cases "early_gates tm x lv peers (env_now env) ts")
    case (Some d)
    hence "(\<forall>t b. d \<noteq> TookOver t b) \<and> (\<forall>c. d \<noteq> LostTakeover c) \<and> (\<forall>r. d \<noteq> WouldDemote r) \<and>
        (\<forall>t. d \<noteq> RetainedLease t)"
      by (auto simp: early_gates_def backoff_gate_def witness_gate_def freeze_gate_def
          split: option.splits if_splits)
    with Some False show thesis by (intro declined) (auto simp: consider_candidacy_def)
  next
    case None
    show thesis
    proof (cases "lv_pos lv")
      case (Some my)
      let ?c = "current_positions i my peers"
      show thesis
      proof (cases "unsettled ?c (ts_settled_pos ts) \<noteq> [] \<or> vanished i ?c (ts_settled_pos ts) \<noteq> []")
        case True
        show thesis
          by (rule declined) (use True None Some False in \<open>simp add: consider_candidacy_def Let_def\<close>,
              use False in simp_all)
      next
        case settled: False
        with False None Some obtain why where "outranked i my peers = Some why"
          by (auto simp: ready_to_propose_def)
        with settled None Some False show thesis
          by (intro declined [of "StoodDown why"]) (simp_all add: consider_candidacy_def Let_def)
      qed
    qed (use None False in \<open>auto intro!: declined simp: consider_candidacy_def\<close>)
  qed
qed

lemma propose_took_over:
  assumes "propose_takeover ops tm env i x lv ts s = (TookOver t b, ts', s')"
  shows "\<exists>l. st_try_takeover ops i x (env_wall env) (env_between env s) = (Inr (Won l), s') \<and>
             lease_term l = t \<and> b = (lv_is_primary lv = Some True)"
  using assms
  by (auto simp: propose_takeover_def split: prod.splits sum.splits takeover_outcome.splits)

lemma candidacy_took_over:
  assumes "consider_candidacy ops tm env i x lv peers ts s = (TookOver t b, ts', s')"
  shows "ready_to_propose tm env i x lv peers ts"
    and "\<exists>l. st_try_takeover ops i x (env_wall env) (env_between env s) = (Inr (Won l), s') \<and>
             lease_term l = t \<and> b = (lv_is_primary lv = Some True)"
proof -
  have "ready_to_propose tm env i x lv peers ts \<and>
    (\<exists>l. st_try_takeover ops i x (env_wall env) (env_between env s) = (Inr (Won l), s') \<and>
             lease_term l = t \<and> b = (lv_is_primary lv = Some True))"
    using assms propose_took_over
    by (cases rule: consider_candidacy_cases [where ops = ops and tm = tm and env = env and i = i
          and x = x and lv = lv and peers = peers and ts = ts and s = s]) auto
  thus "ready_to_propose tm env i x lv peers ts"
    "\<exists>l. st_try_takeover ops i x (env_wall env) (env_between env s) = (Inr (Won l), s') \<and>
             lease_term l = t \<and> b = (lv_is_primary lv = Some True)" by auto
qed

section \<open>The positions sampled\<close>

lemma sample_fold_other:
  assumes "j \<notin> (\<lambda>p. nc_id (pv_node p)) ` set peers"
  shows "map_of (fold (\<lambda>p m. case pv_pos p of Some pos \<Rightarrow> hm_insert (nc_id (pv_node p)) pos m
           | None \<Rightarrow> m) peers m) j = map_of m j"
  using assms by (induction peers arbitrary: m) (auto split: option.splits)

lemma sample_fold_peer:
  assumes "distinct (map (\<lambda>p. nc_id (pv_node p)) peers)" and "p \<in> set peers" and "pv_pos p = Some pos"
  shows "map_of (fold (\<lambda>p m. case pv_pos p of Some pos \<Rightarrow> hm_insert (nc_id (pv_node p)) pos m
           | None \<Rightarrow> m) peers m) (nc_id (pv_node p)) = Some pos"
  using assms by (induction peers arbitrary: m) (auto simp: sample_fold_other)

lemma current_positions_local:
  "i \<notin> (\<lambda>p. nc_id (pv_node p)) ` set peers \<Longrightarrow> map_of (current_positions i my peers) i = Some my"
  by (simp add: current_positions_def sample_fold_other)

lemma current_positions_peer:
  "distinct (map (\<lambda>p. nc_id (pv_node p)) peers) \<Longrightarrow> p \<in> set peers \<Longrightarrow> pv_pos p = Some pos \<Longrightarrow>
     map_of (current_positions i my peers) (nc_id (pv_node p)) = Some pos"
  by (simp add: current_positions_def sample_fold_peer)

lemma unsettled_Nil:
  "unsettled current settled = [] \<Longrightarrow> map_of current j = Some pos \<Longrightarrow> map_of settled j = Some pos"
  by (auto simp: unsettled_def filter_empty_conv dest!: map_of_SomeD)

lemma vanished_Nil:
  "vanished i current settled = [] \<Longrightarrow> j \<noteq> i \<Longrightarrow> map_of settled j = Some pos \<Longrightarrow>
     map_of current j \<noteq> None"
proof -
  assume a: "vanished i current settled = []" "j \<noteq> i" "map_of settled j = Some pos"
  from a(3) have "j \<in> set (map fst settled)" by (force dest: map_of_SomeD)
  with a(1,2) show "map_of current j \<noteq> None"
    unfolding vanished_def filter_empty_conv by auto
qed

section \<open>One tick\<close>

text \<open>A tick whose read answered and found no pause is its lease arm.\<close>

lemma tick_once_eq:
  assumes "st_read_state ops (hw_store hw) = (r, s)" and "observe_peers pool env (hw_seen hw) = (peers, seen)"
  shows "tick_once ops pool tm env hw =
    (case (if env_read_in_time env then r else Inl ''store read exceeded retry_timeout'') of
       Inl _ \<Rightarrow>
         (case store_unknown_arm tm (np_local_node_id pool) (env_now env) (hw_tick hw) of
            (d, ts') \<Rightarrow> (d, \<lparr>hw_tick = ts', hw_seen = seen, hw_store = s\<rparr>))
     | Inr st \<Rightarrow>
         if cs_paused st \<noteq> None
         then (Paused, \<lparr>hw_tick = (hw_tick hw)\<lparr>ts_store_unknown_since := None\<rparr>,
                        hw_seen = seen, hw_store = s\<rparr>)
         else case lease_arm ops tm env (np_local_node_id pool) (cs_lease st)
                     (observe_local (env_db env)) peers
                     ((hw_tick hw)\<lparr>ts_store_unknown_since := None\<rparr>) s of
             (d, ts', s') \<Rightarrow>
               (d, \<lparr>hw_tick = ts'\<lparr>ts_last_holder :=
                      remembered_holder (np_local_node_id pool) (cs_lease st) d\<rparr>,
                    hw_seen = seen, hw_store = s'\<rparr>))"
  unfolding tick_once_def Let_def assms prod.case by (rule refl)

text \<open>A takeover is always the outcome of the candidacy ladder, from a read that answered.\<close>

lemma other_lease_took_over:
  assumes "other_lease_arm ops tm env i l lv peers ts s = (TookOver t b, ts', s')"
  shows "\<not> holder_healthy (lease_holder l) peers"
    and "leader_ttl tm \<le> env_now env - fst (unhealthy_clock (lease_holder l) (env_now env) ts)"
    and "consider_candidacy ops tm env i (Some (lease_holder l, lease_term l)) lv peers
           (snd (unhealthy_clock (lease_holder l) (env_now env) ts)) s = (TookOver t b, ts', s')"
  using assms
  by (auto simp: other_lease_arm_def Let_def case_prod_beta split: if_splits option.splits)

lemma own_lease_not_took_over:
  "own_lease_arm ops tm env i l lv ts s = (d, ts', s') \<Longrightarrow> d \<noteq> TookOver t b"
  by (auto simp: own_lease_arm_def Let_def split: option.splits bool.splits if_splits prod.splits)

lemma vacant_took_over:
  assumes "vacant_arm ops tm env i lv peers ts s = (TookOver t b, ts', s')"
  shows "observed_primaries i lv peers \<in> {[], [i]}"
    and "consider_candidacy ops tm env i None lv peers ts s = (TookOver t b, ts', s')"
  using assms by (auto simp: vacant_arm_def split: list.splits if_splits)

lemma tick_took_over:
  assumes "tick_once ops pool tm env hw = (TookOver t b, hw')"
  obtains st s peers seen ts ts' where
    "st_read_state ops (hw_store hw) = (Inr st, s)" "env_read_in_time env" "cs_paused st = None"
    "observe_peers pool env (hw_seen hw) = (peers, seen)"
    "ts_settled_pos ts = ts_settled_pos (hw_tick hw)"
    "ts_backoff_until ts = ts_backoff_until (hw_tick hw)"
    "\<And>l. cs_lease st = Some l \<Longrightarrow> lease_holder l \<noteq> np_local_node_id pool"
    "\<And>l. cs_lease st = Some l \<Longrightarrow> \<not> holder_healthy (lease_holder l) peers \<and>
       leader_ttl tm \<le> env_now env - fst (unhealthy_clock (lease_holder l) (env_now env) (hw_tick hw))"
    "cs_lease st = None \<Longrightarrow>
       observed_primaries (np_local_node_id pool) (observe_local (env_db env)) peers \<in>
         {[], [np_local_node_id pool]}"
    "consider_candidacy ops tm env (np_local_node_id pool) (map_option lease_key (cs_lease st))
       (observe_local (env_db env)) peers ts s = (TookOver t b, ts', hw_store hw')"
proof -
  obtain r s where r: "st_read_state ops (hw_store hw) = (r, s)" by fastforce
  obtain peers seen where p: "observe_peers pool env (hw_seen hw) = (peers, seen)" by fastforce
  have nu: "fst (store_unknown_arm tm i now x) \<noteq> TookOver t b" for i now x
    by (simp add: store_unknown_arm_def Let_def)
  have clock: "fst (unhealthy_clock h now (x\<lparr>ts_store_unknown_since := None\<rparr>)) =
      fst (unhealthy_clock h now x)" for h now x
    by (auto simp: unhealthy_clock_def split: option.splits)
  have keep: "ts_settled_pos (snd (unhealthy_clock h now x)) = ts_settled_pos x"
    "ts_backoff_until (snd (unhealthy_clock h now x)) = ts_backoff_until x" for h now x
    by (auto simp: unhealthy_clock_def split: option.splits)
  let ?i = "np_local_node_id pool" and ?lv = "observe_local (env_db env)"
  let ?ts = "(hw_tick hw)\<lparr>ts_store_unknown_since := None\<rparr>"
  from assms nu obtain st where st: "env_read_in_time env" "r = Inr st" "cs_paused st = None"
    unfolding tick_once_eq [OF r p]
    by (cases r) (auto split: if_splits prod.splits, (metis fst_conv)+)
  from assms st obtain ts' where la:
    "lease_arm ops tm env ?i (cs_lease st) ?lv peers ?ts s = (TookOver t b, ts', hw_store hw')"
    unfolding tick_once_eq [OF r p] by (auto split: prod.splits)
  show thesis
  proof (cases "cs_lease st")
    case None
    with la have v: "vacant_arm ops tm env ?i ?lv peers ?ts s = (TookOver t b, ts', hw_store hw')"
      by (simp add: lease_arm_def)
    from vacant_took_over [OF v] None st r p show thesis
      by (intro that [of st s peers seen ?ts]) auto
  next
    case (Some l)
    with la have o: "lease_holder l \<noteq> ?i"
      "other_lease_arm ops tm env ?i l ?lv peers ?ts s = (TookOver t b, ts', hw_store hw')"
      using own_lease_not_took_over [of ops tm env ?i l ?lv ?ts s] Some
      by (auto simp: lease_arm_def split: if_splits)
    from other_lease_took_over [OF o(2)] Some o(1) st r p show thesis
      by (intro that [of st s peers seen "snd (unhealthy_clock (lease_holder l) (env_now env) ?ts)"])
        (auto simp: clock keep lease_key_def)
  qed
qed

section \<open>Whom a tick sees\<close>

text \<open>Each spawned task answers for its own node, once.\<close>

definition fanout_ok :: "node_pool \<Rightarrow> completion list \<Rightarrow> bool" where
  "fanout_ok pool cs \<longleftrightarrow>
     distinct (map nc_id (np_members pool)) \<and>
     (\<forall>v \<in> set (List.map_filter snd cs).
        psv_node v \<in> set (np_members pool) \<and> nc_id (psv_node v) \<noteq> np_local_node_id pool) \<and>
     distinct (map (\<lambda>v. nc_id (psv_node v)) (List.map_filter snd cs))"

lemma peer_view_of_node [simp]: "pv_node (peer_view_of v) = psv_node v"
  by (simp add: peer_view_of_def split: sum.splits)

lemma observe_peers_ids:
  assumes "fanout_ok pool (env_completions env)"
    and "observe_peers pool env seen = (peers, seen')"
  shows "distinct (map (\<lambda>p. nc_id (pv_node p)) peers)"
    and "np_local_node_id pool \<notin> (\<lambda>p. nc_id (pv_node p)) ` set peers"
proof -
  let ?others = "filter (\<lambda>n. nc_id n \<noteq> np_local_node_id pool) (np_members pool)"
  let ?out = "drain (env_fanout_start env + status_fanout_budget) (env_fanout_start env)
      (env_completions env)"
  have d: "distinct (map (\<lambda>v. nc_id (psv_node v)) ?out)"
    using assms(1) by (intro drain_distinct) (simp add: fanout_ok_def)
  have nl: "np_local_node_id pool \<notin> (\<lambda>v. nc_id (psv_node v)) ` set ?out"
    using assms(1) drain_initial [of "env_completions env"
        "env_fanout_start env + status_fanout_budget" "env_fanout_start env"]
    by (auto simp: fanout_ok_def)
  from assms(2) consider "peers = []" | "peers = map peer_view_of (fill_missing ?others ?out)"
    by (auto simp: observe_peers_def collect_statuses_def Let_def split: if_splits)
  hence "distinct (map (\<lambda>p. nc_id (pv_node p)) peers) \<and>
         np_local_node_id pool \<notin> (\<lambda>p. nc_id (pv_node p)) ` set peers"
  proof cases
    case 2
    have "(\<lambda>p. nc_id (pv_node p)) ` set peers =
        (\<lambda>v. nc_id (psv_node v)) ` set (fill_missing ?others ?out)"
      by (simp add: 2 image_image)
    also have "\<dots> = (\<lambda>v. nc_id (psv_node v)) ` set ?out \<union> nc_id ` set ?others"
      by (rule fill_missing_ids)
    finally have "np_local_node_id pool \<notin> (\<lambda>p. nc_id (pv_node p)) ` set peers" using nl by auto
    moreover have "distinct (map (\<lambda>p. nc_id (pv_node p)) peers)"
      using fill_missing_distinct [OF d, of ?others] by (simp add: 2 o_def)
    ultimately show ?thesis by blast
  qed simp
  thus "distinct (map (\<lambda>p. nc_id (pv_node p)) peers)"
    "np_local_node_id pool \<notin> (\<lambda>p. nc_id (pv_node p)) ` set peers" by auto
qed

lemma current_positions_inv:
  assumes "map_of (current_positions i my peers) j = Some pos" and "j \<noteq> i"
  shows "\<exists>p \<in> set peers. nc_id (pv_node p) = j \<and> pv_pos p = Some pos"
proof -
  have "map_of (fold (\<lambda>p m. case pv_pos p of Some pos \<Rightarrow> hm_insert (nc_id (pv_node p)) pos m
      | None \<Rightarrow> m) peers m) j = Some pos \<Longrightarrow>
      map_of m j = Some pos \<or> (\<exists>p \<in> set peers. nc_id (pv_node p) = j \<and> pv_pos p = Some pos)" for m
    by (induction peers arbitrary: m) (force split: option.splits if_splits)+
  from this [of "hm_insert i my []"] assms show ?thesis by (auto simp: current_positions_def)
qed

lemma observe_local_receiving:
  "lv_receiving (observe_local db) \<Longrightarrow> lv_is_primary (observe_local db) = Some False"
  unfolding observe_local_def Let_def by (auto split: if_splits)

section \<open>An example\<close>

text \<open>
  A failover: nodes 1, 2, 3; node 1 held the lease and is silent; node 2 (this one) and node 3 are
  standbys that have stopped receiving, node 2 with more flushed WAL.
\<close>

definition ha_pool :: node_pool where
  "ha_pool = \<lparr>np_members = [\<lparr>nc_id = 1, nc_hostname = ''a''\<rparr>, \<lparr>nc_id = 2, nc_hostname = ''b''\<rparr>,
                           \<lparr>nc_id = 3, nc_hostname = ''c''\<rparr>], np_local_node_id = 2\<rparr>"

definition ha_tm :: ha_timing where
  "ha_tm = \<lparr>loop_wait = secs 10, retry_timeout = secs 10, leader_ttl = secs 30\<rparr>"

definition ha_status3 :: node_status where
  "ha_status3 = ex_status\<lparr>is_in_recovery := True, last_flush_lsn := 90,
     peer_primary_seen_age_ms := [(1, 40000)]\<rparr>"

definition ha_env :: "instant \<Rightarrow> in_memory_store tick_env" where
  "ha_env now = \<lparr>env_now = now, env_wall = 0, env_read_in_time = True,
     env_db = \<lparr>db_is_in_recovery = Inr True, db_timeline_id = Inr 3, db_flush_lsn = Inr 100,
               db_lag_state = Inr []\<rparr>,
     env_fanout_start = now,
     env_completions = [(now, Some \<lparr>psv_node = \<lparr>nc_id = 3, nc_hostname = ''c''\<rparr>,
                                    psv_status = Inr ha_status3\<rparr>)],
     env_fanout_done = now, env_jitter_ms = 0, env_between = id\<rparr>"

definition ha_doc :: cluster_state where
  "ha_doc = default_cluster_state\<lparr>cs_generation := 7,
     cs_lease := Some \<lparr>lease_holder = 1, lease_term = 5, lease_since = 0\<rparr>\<rparr>"

definition ha_start :: "in_memory_store ha_world" where
  "ha_start = \<lparr>hw_tick = tick_state_new\<lparr>ts_last_holder := Some 1,
       ts_holder_unhealthy_since := Some (1, secs 60),
       ts_settled_pos := [(2, WalPosition 3 100), (3, WalPosition 3 90)]\<rparr>,
     hw_seen = None, hw_store = im_install ha_doc im_new\<rparr>"

definition ha_peers :: "peer_view list" where
  "ha_peers =
     [\<lparr>pv_node = \<lparr>nc_id = 3, nc_hostname = ''c''\<rparr>, pv_running_as_primary = False,
       pv_pos = Some (WalPosition 3 90), pv_receiving = False, pv_reachable = True,
       pv_seen_ages = [(1, 40000)]\<rparr>,
      \<lparr>pv_node = \<lparr>nc_id = 1, nc_hostname = ''a''\<rparr>, pv_running_as_primary = False,
       pv_pos = None, pv_receiving = False, pv_reachable = False, pv_seen_ages = []\<rparr>]"

lemma ha_observe: "observe_peers ha_pool (ha_env now) None = (ha_peers, None)"
  by (simp add: observe_peers_def ha_pool_def ha_env_def collect_statuses_def
      status_fanout_budget_def secs_def ha_status3_def ex_status_def
      peer_view_of_def from_status_def ha_peers_def Let_def)

lemma ha_env_fields:
  "env_now (ha_env now) = now" "env_read_in_time (ha_env now)" "env_wall (ha_env now) = 0"
  "env_jitter_ms (ha_env now) = 0" "env_between (ha_env now) = id"
  by (simp_all add: ha_env_def)

lemma ha_fanout_ok: "fanout_ok ha_pool (env_completions (ha_env now))"
  by (simp add: fanout_ok_def ha_pool_def ha_env_def List.map_filter_def)

lemma ha_local: "observe_local (env_db (ha_env now)) =
    \<lparr>lv_is_primary = Some False, lv_pos = Some (WalPosition 3 100), lv_receiving = False\<rparr>"
  by (simp add: ha_env_def observe_local_def del: not_None_eq)

lemmas ha_eval = ha_local ha_env_fields lease_arm_def other_lease_arm_def own_lease_arm_def
  vacant_arm_def observed_primaries_def holder_healthy_def unhealthy_clock_def
  consider_candidacy_def early_gates_def backoff_gate_def witness_gate_def freeze_gate_def
  current_positions_def unsettled_def vanished_def outranked_def best_other_def reported_positions_def
  List.map_filter_def hm_insert_def propose_takeover_def in_memory_ops_def im_try_takeover_def im_release_def
  write_gate_def read_gate_def check_gate_def im_read_state_def lag_behind_def
  less_wal_position_def less_eq_wal_position_def less_eq_prod_def remembered_holder_def
  arm_backoff_def promotion_grace_def Let_def

lemma ha_read:
  "st_read_state in_memory_ops (hw_store ha_start) = (Inr ha_doc, im_install ha_doc im_new)"
  by (simp add: in_memory_ops_def im_read_state_def read_gate_def check_gate_def ha_start_def
      im_install_def im_new_def)

lemma ha_tick:
  "\<exists>hw. tick_once in_memory_ops ha_pool ha_tm (ha_env (secs 100)) ha_start = (TookOver 8 False, hw)"
proof -
  have seen: "hw_seen ha_start = None" by (simp add: ha_start_def)
  show ?thesis
    unfolding tick_once_eq [OF ha_read ha_observe [folded seen]]
    by (simp add: ha_eval ha_peers_def ha_pool_def ha_tm_def ha_doc_def ha_start_def
        im_install_def im_new_def tick_state_new_def default_cluster_state_def secs_def as_millis_def
        del: not_None_eq)
qed

section \<open>Properties\<close>



text \<open>
  (C26) A holder is deposed only on sustained evidence. When a tick takes the lease from a holder, that
  holder was not observed running as primary in this tick, this node's clock on that very holder had
  been started by an earlier tick at least \<open>leader_ttl\<close> ago, no reachable other peer reports having
  seen it serve within \<open>leader_ttl\<close>, and the cluster is not paused.
\<close>

theorem deposal_needs_evidence:
  assumes "tick_once ops pool tm env hw = (TookOver t b, hw')"
    and "st_read_state ops (hw_store hw) = (Inr st, s)" and "cs_lease st = Some l"
    and "observe_peers pool env (hw_seen hw) = (peers, seen)"
    and "0 < leader_ttl tm"
  shows "lease_holder l \<noteq> np_local_node_id pool \<and> \<not> holder_healthy (lease_holder l) peers \<and>
    (\<exists>t0. ts_holder_unhealthy_since (hw_tick hw) = Some (lease_holder l, t0) \<and>
          t0 + leader_ttl tm \<le> env_now env) \<and>
    (\<forall>p \<in> set peers. \<forall>age. pv_reachable p \<and> nc_id (pv_node p) \<noteq> lease_holder l \<and>
       map_of (pv_seen_ages p) (lease_holder l) = Some age \<longrightarrow>
       as_millis (leader_ttl tm) mod 2 ^ 64 < age) \<and>
    cs_paused st = None \<and>
    (\<forall>until. ts_backoff_until (hw_tick hw) = Some until \<longrightarrow> until \<le> env_now env)"
  using assms(1)
proof (rule tick_took_over)
  fix st' s' peers' seen' ts ts'
  assume a: "st_read_state ops (hw_store hw) = (Inr st', s')" "cs_paused st' = None"
    "observe_peers pool env (hw_seen hw) = (peers', seen')"
    "ts_backoff_until ts = ts_backoff_until (hw_tick hw)"
    "\<And>l. cs_lease st' = Some l \<Longrightarrow> lease_holder l \<noteq> np_local_node_id pool"
    "\<And>l. cs_lease st' = Some l \<Longrightarrow> \<not> holder_healthy (lease_holder l) peers' \<and>
       leader_ttl tm \<le> env_now env - fst (unhealthy_clock (lease_holder l) (env_now env) (hw_tick hw))"
    "consider_candidacy ops tm env (np_local_node_id pool) (map_option lease_key (cs_lease st'))
       (observe_local (env_db env)) peers' ts s' = (TookOver t b, ts', hw_store hw')"
  from a(1,3) assms(2,4) have e: "st' = st" "peers' = peers" by auto
  from candidacy_took_over(1) [OF a(7)] have g:
    "\<forall>until. ts_backoff_until ts = Some until \<longrightarrow> until \<le> env_now env"
    "witness_gate tm (Some (lease_key l)) peers = None"
    using assms(3) by (auto simp: ready_to_propose_def early_gates_None e)
  from g(2) have w: "find_witness (lease_holder l) (as_millis (leader_ttl tm) mod 2 ^ 64) peers = None"
    by (auto simp: witness_gate_def lease_key_def split: option.splits)
  have "leader_ttl tm \<le> env_now env - fst (unhealthy_clock (lease_holder l) (env_now env) (hw_tick hw))"
    using a(6) assms(3) e by simp
  with assms(5) have "\<exists>t0. ts_holder_unhealthy_since (hw_tick hw) = Some (lease_holder l, t0) \<and>
      t0 + leader_ttl tm \<le> env_now env"
    by (auto simp: unhealthy_clock_def split: option.splits if_splits)
  with a(2,4-6) assms(3) e g(1) w show ?thesis by (auto simp: find_witness_None)
qed

theorem deposal_needs_evidence_witness:
  "\<exists>t0. ts_holder_unhealthy_since (hw_tick ha_start) = Some (1, t0) \<and> t0 + secs 30 \<le> secs 100"
proof -
  obtain hw where run:
    "tick_once in_memory_ops ha_pool ha_tm (ha_env (secs 100)) ha_start = (TookOver 8 False, hw)"
    using ha_tick by blast
  have obs: "observe_peers ha_pool (ha_env (secs 100)) (hw_seen ha_start) = (ha_peers, None)"
    by (simp add: ha_start_def ha_observe)
  have l: "cs_lease ha_doc = Some \<lparr>lease_holder = 1, lease_term = 5, lease_since = 0\<rparr>"
    by (simp add: ha_doc_def)
  have ttl: "0 < leader_ttl ha_tm" by (simp add: ha_tm_def secs_def)
  from deposal_needs_evidence [OF run ha_read l obs ttl] show ?thesis
    by (simp add: ha_env_fields ha_tm_def)
qed

text \<open>
  The compare-and-swap is the gate. Over any lease store, whatever other nodes commit between
  this tick's read and its write, a tick that reports a takeover at term \<open>t\<close> has committed a lease
  of its own with that term, on top of a document whose lease was the one it had read (or whose
  lease was vacant, when it had read a vacant one).
\<close>

theorem takeover_is_committed:
  assumes "lease_store ops docf"
    and "\<forall>s. doc_reach (docf s) (docf (env_between env s))"
    and "tick_once ops pool tm env hw = (TookOver t b, hw')"
  shows "\<exists>read c c'.
    doc_reach (docf (hw_store hw)) read \<and> doc_reach read c \<and> doc_step c c' \<and>
    doc_reach c' (docf (hw_store hw')) \<and>
    map_option lease_key (cs_lease c) = map_option lease_key (cs_lease read) \<and>
    cs_lease c' = Some \<lparr>lease_holder = np_local_node_id pool, lease_term = t,
                       lease_since = env_wall env\<rparr> \<and>
    t = cs_generation c + 1"
  using assms(3)
proof (rule tick_took_over)
  fix st :: cluster_state and s peers seen ts ts'
  let ?i = "np_local_node_id pool" and ?x = "map_option lease_key (cs_lease st)"
  assume r: "st_read_state ops (hw_store hw) = (Inr st, s)"
    and cc: "consider_candidacy ops tm env ?i ?x (observe_local (env_db env)) peers ts s =
      (TookOver t b, ts', hw_store hw')"
  from candidacy_took_over(2) [OF cc] obtain l where
    l: "st_try_takeover ops ?i ?x (env_wall env) (env_between env s) = (Inr (Won l), hw_store hw')"
      "lease_term l = t" by blast
  note read = lease_store.read_ok [OF assms(1) r]
  from lease_store.takeover_ok [OF assms(1) l(1)] obtain c where
    c: "doc_reach (docf (env_between env s)) c" "Won l = fst (spec_takeover ?i ?x (env_wall env) c)"
      "doc_reach (snd (spec_takeover ?i ?x (env_wall env) c)) (docf (hw_store hw'))" by blast
  have "doc_reach st c" using read assms(2) c(1) by (meson rtranclp_trans)
  moreover from c(2) have "map_option lease_key (cs_lease c) = ?x"
    "cs_lease (snd (spec_takeover ?i ?x (env_wall env) c)) =
       Some \<lparr>lease_holder = ?i, lease_term = cs_generation c + 1, lease_since = env_wall env\<rparr>"
    "l = \<lparr>lease_holder = ?i, lease_term = cs_generation c + 1, lease_since = env_wall env\<rparr>"
    by (auto simp: spec_takeover_def Let_def split: if_splits)
  moreover note step_takeover [of c ?i ?x "env_wall env"]
  ultimately show ?thesis using read c(3) l(2) by auto
qed

theorem takeover_is_committed_witness:
  "\<exists>c'. doc_reach c' (im_state (hw_store (snd (tick_once in_memory_ops ha_pool ha_tm
       (ha_env (secs 100)) ha_start)))) \<and>
     cs_lease c' = Some \<lparr>lease_holder = 2, lease_term = 8, lease_since = 0\<rparr>"
proof -
  obtain hw where run:
    "tick_once in_memory_ops ha_pool ha_tm (ha_env (secs 100)) ha_start = (TookOver 8 False, hw)"
    using ha_tick by blast
  have "\<forall>s. doc_reach (im_state s) (im_state (env_between (ha_env (secs 100)) s))"
    by (simp add: ha_env_fields)
  note tc = takeover_is_committed [OF mem.lease_store_axioms this run]
  have "np_local_node_id ha_pool = 2" "env_wall (ha_env (secs 100)) = 0"
    by (simp_all add: ha_pool_def ha_env_fields)
  with tc show ?thesis unfolding run snd_conv by metis
qed

text \<open>
  An unknown store is not a vacant one. When the read fails or comes too late, the tick writes
  nothing to the store, keeps every clock but its own, and demotes only a node that knew itself the
  holder and whose store has been unknown for longer than \<open>retry_timeout\<close>; when the cluster is
  paused, the tick decides nothing and writes nothing.
\<close>

theorem unknown_store_is_inert:
  assumes "st_read_state ops (hw_store hw) = (r, s)"
    and "tick_once ops pool tm env hw = (d, hw')"
  shows "(\<not> env_read_in_time env \<or> \<not> is_ok r \<longrightarrow>
           hw_store hw' = s \<and>
           hw_tick hw' = (hw_tick hw)\<lparr>ts_store_unknown_since :=
             Some (unwrap_or (ts_store_unknown_since (hw_tick hw)) (env_now env))\<rparr> \<and>
           (if ts_last_holder (hw_tick hw) = Some (np_local_node_id pool) \<and>
               (\<exists>t0. ts_store_unknown_since (hw_tick hw) = Some t0 \<and>
                     retry_timeout tm < env_now env - t0)
            then \<exists>u > retry_timeout tm. d = WouldDemote (StoreUnknownTooLong u)
            else \<exists>u. d = StoreUnknown u)) \<and>
         (\<forall>st. env_read_in_time env \<and> r = Inr st \<and> cs_paused st \<noteq> None \<longrightarrow>
           d = Paused \<and> hw_store hw' = s)"
proof -
  obtain peers seen where p: "observe_peers pool env (hw_seen hw) = (peers, seen)" by fastforce
  show ?thesis
    using assms(2) unfolding tick_once_eq [OF assms(1) p]
    by (cases "ts_store_unknown_since (hw_tick hw)")
      (auto simp: store_unknown_arm_def Let_def split: if_splits sum.splits)
qed

definition ha_late :: "in_memory_store tick_env" where
  "ha_late = (ha_env (secs 100))\<lparr>env_read_in_time := False\<rparr>"

definition ha_holder :: "in_memory_store ha_world" where
  "ha_holder = ha_start\<lparr>hw_tick := tick_state_new\<lparr>ts_last_holder := Some 2,
     ts_store_unknown_since := Some (secs 85)\<rparr>\<rparr>"

theorem unknown_store_is_inert_witness:
  "\<exists>u > secs 10. fst (tick_once in_memory_ops ha_pool ha_tm ha_late ha_holder) =
     WouldDemote (StoreUnknownTooLong u)"
proof -
  let ?t = "tick_once in_memory_ops ha_pool ha_tm ha_late ha_holder"
  have r: "st_read_state in_memory_ops (hw_store ha_holder) = (Inr ha_doc, im_install ha_doc im_new)"
    using ha_read by (simp add: ha_holder_def)
  have "ts_last_holder (hw_tick ha_holder) = Some (np_local_node_id ha_pool)"
    "ts_store_unknown_since (hw_tick ha_holder) = Some (secs 85)"
    "\<not> env_read_in_time ha_late" "env_now ha_late = secs 100" "retry_timeout ha_tm = secs 10"
    by (simp_all add: ha_holder_def ha_pool_def ha_late_def ha_env_fields ha_tm_def)
  with unknown_store_is_inert [OF r prod.collapse [symmetric], where pool = ha_pool and tm = ha_tm
      and env = ha_late] show ?thesis
    by (simp add: secs_def)
qed

lemma beats_total: "fst a \<noteq> fst b \<Longrightarrow> beats a b \<or> beats b a"
  by (auto simp: beats_def)

lemma beats_asym: "beats a b \<Longrightarrow> \<not> beats b a"
  by (auto simp: beats_def)

lemma beats_trans: "beats a b \<Longrightarrow> beats b c \<Longrightarrow> beats a c"
  by (auto simp: beats_def)

lemma unbeaten_exists:
  assumes "ns \<noteq> []"
  shows "\<exists>a \<in> set ns. \<forall>b \<in> set ns. \<not> beats b a"
  using assms
proof (induction ns rule: list_nonempty_induct)
  case (cons x xs)
  then obtain a where a: "a \<in> set xs" "\<forall>b \<in> set xs. \<not> beats b a" by blast
  show ?case
  proof (cases "beats x a")
    case True
    have "\<not> beats b x" if "b \<in> set (x # xs)" for b
      using that True a beats_trans [of b x a] beats_asym [of x x] by auto
    thus ?thesis by (intro bexI [of _ x]) auto
  qed (use a in auto)
qed (auto simp: beats_def)

text \<open>
  Exactly one candidate. Among nodes that see each other's frozen positions (each node's view
  reports every other node, with the position that node has), exactly one is not outranked: two
  candidates never both proceed, and some candidate always does.
\<close>

theorem exactly_one_candidate:
  assumes "nodes \<noteq> []" and "distinct (map fst nodes)"
    and "\<forall>a \<in> set nodes. set (reported_positions (view (fst a))) = set nodes - {a}"
  shows "\<exists>!a. a \<in> set nodes \<and> outranked (fst a) (snd a) (view (fst a)) = None"
proof -
  have iff: "outranked (fst a) (snd a) (view (fst a)) = None \<longleftrightarrow> (\<forall>b \<in> set nodes. \<not> beats b a)"
    if "a \<in> set nodes" for a
  proof -
    have "outranked (fst a) (snd a) (view (fst a)) = None \<longleftrightarrow>
        (\<forall>b \<in> set (reported_positions (view (fst a))). \<not> beats b a)"
      unfolding outranked_None_iff reported_positions_def by (force simp: List.map_filter_def)
    also have "\<dots> \<longleftrightarrow> (\<forall>b \<in> set nodes. \<not> beats b a)"
      using assms(3) that by (auto simp: beats_def)
    finally show ?thesis .
  qed
  from unbeaten_exists [OF assms(1)] obtain a where
    a: "a \<in> set nodes" "\<forall>b \<in> set nodes. \<not> beats b a" by blast
  have "c = a" if "c \<in> set nodes" "\<forall>b \<in> set nodes. \<not> beats b c" for c
  proof (rule ccontr)
    assume "c \<noteq> a"
    hence "fst c \<noteq> fst a" using assms(2) a(1) that(1) by (auto simp: distinct_map inj_on_def)
    from beats_total [OF this] a that show False by blast
  qed
  hence uniq: "c = a" if "c \<in> set nodes \<and> outranked (fst c) (snd c) (view (fst c)) = None" for c
    using that iff [of c] by blast
  have cand: "a \<in> set nodes \<and> outranked (fst a) (snd a) (view (fst a)) = None"
    using a iff [OF a(1)] by blast
  show ?thesis
  proof (rule ex1I [of _ a])
    show "a \<in> set nodes \<and> outranked (fst a) (snd a) (view (fst a)) = None" by (rule cand)
    show "c = a" if "c \<in> set nodes \<and> outranked (fst c) (snd c) (view (fst c)) = None" for c
      using that by (rule uniq)
  qed
qed

definition view_entry :: "i32 \<times> wal_position \<Rightarrow> peer_view" where
  "view_entry a = \<lparr>pv_node = \<lparr>nc_id = fst a, nc_hostname = []\<rparr>, pv_running_as_primary = False,
     pv_pos = Some (snd a), pv_receiving = False, pv_reachable = True, pv_seen_ages = []\<rparr>"

theorem exactly_one_candidate_witness:
  "\<exists>!a. a \<in> set [(1, WalPosition 3 90), (2, WalPosition 3 100), (3, WalPosition 3 100)] \<and>
     outranked (fst a) (snd a) (map view_entry (filter (\<lambda>b. fst b \<noteq> fst a)
       [(1, WalPosition 3 90), (2, WalPosition 3 100), (3, WalPosition 3 100)])) = None"
  by (rule exactly_one_candidate) (auto simp: view_entry_def reported_positions_def List.map_filter_def)

text \<open>
  A holder gives the lease up only after its grace. The tick releases the lease exactly when this
  node has held the same term in recovery since an earlier tick at least \<open>leader_ttl\<close> ago; it then
  backs off for at least \<open>loop_wait\<close>. Otherwise a holder's tick writes nothing: it retains as a
  primary, waits in recovery, and reports a demotion when it cannot tell.
\<close>

theorem release_only_after_grace:
  assumes "st_read_state ops (hw_store hw) = (Inr st, s)" and "env_read_in_time env"
    and "cs_paused st = None" and "cs_lease st = Some l" and "lease_holder l = np_local_node_id pool"
    and "0 < leader_ttl tm"
    and "tick_once ops pool tm env hw = (d, hw')"
  shows "if lv_is_primary (observe_local (env_db env)) = Some False \<and>
            ts_held_term (hw_tick hw) = Some (lease_term l) \<and>
            (\<exists>t0. ts_held_since (hw_tick hw) = Some t0 \<and> t0 + leader_ttl tm \<le> env_now env)
         then (\<exists>u. d = WouldDemote (PromotionDidNotHappen u)) \<and>
              hw_store hw' = snd (st_release ops (lease_holder l) (lease_term l) (env_between env s)) \<and>
              (\<exists>u \<ge> env_now env + loop_wait tm. ts_backoff_until (hw_tick hw') = Some u)
         else hw_store hw' = s \<and>
              (case lv_is_primary (observe_local (env_db env)) of
                 Some True \<Rightarrow> d = RetainedLease (lease_term l)
               | Some False \<Rightarrow> \<exists>u < leader_ttl tm. d = AwaitingPromotion (lease_term l) u
               | None \<Rightarrow> d = WouldDemote HolderStateUnknown)"
proof -
  obtain peers seen where p: "observe_peers pool env (hw_seen hw) = (peers, seen)" by fastforce
  let ?ts = "(hw_tick hw)\<lparr>ts_store_unknown_since := None\<rparr>"
  obtain d1 ts1 s1 where o: "own_lease_arm ops tm env (lease_holder l) l
      (observe_local (env_db env)) ?ts s = (d1, ts1, s1)" by (metis prod.exhaust)
  have eq: "d = d1" "hw_store hw' = s1" "ts_backoff_until (hw_tick hw') = ts_backoff_until ts1"
    using assms(7) o assms(2-5) unfolding tick_once_eq [OF assms(1) p]
    by (auto simp: lease_arm_def)
  show ?thesis
  proof (cases "lv_is_primary (observe_local (env_db env))")
    case None
    with o eq show ?thesis by (auto simp: own_lease_arm_def Let_def)
  next
    case (Some b)
    with o eq assms(6) show ?thesis
      by (cases b; cases "ts_held_since (hw_tick hw)")
        (auto simp: own_lease_arm_def promotion_grace_def arm_backoff_def Let_def
          split: if_splits prod.splits)
  qed
qed

definition ha_stuck :: "in_memory_store ha_world" where
  "ha_stuck = \<lparr>hw_tick = tick_state_new\<lparr>ts_held_term := Some 5, ts_held_since := Some (secs 50)\<rparr>,
     hw_seen = None,
     hw_store = im_install (ha_doc\<lparr>cs_lease :=
       Some \<lparr>lease_holder = 2, lease_term = 5, lease_since = 0\<rparr>\<rparr>) im_new\<rparr>"

theorem release_only_after_grace_witness:
  "\<exists>u. fst (tick_once in_memory_ops ha_pool ha_tm (ha_env (secs 100)) ha_stuck) =
     WouldDemote (PromotionDidNotHappen u)"
proof -
  let ?l = "\<lparr>lease_holder = 2, lease_term = 5, lease_since = 0\<rparr>"
  have r: "st_read_state in_memory_ops (hw_store ha_stuck) =
      (Inr (ha_doc\<lparr>cs_lease := Some ?l\<rparr>), hw_store ha_stuck)"
    by (simp add: in_memory_ops_def im_read_state_def read_gate_def check_gate_def ha_stuck_def
        im_install_def im_new_def)
  have c: "cs_paused (ha_doc\<lparr>cs_lease := Some ?l\<rparr>) = None"
    "cs_lease (ha_doc\<lparr>cs_lease := Some ?l\<rparr>) = Some ?l"
    "lease_holder ?l = np_local_node_id ha_pool" "0 < leader_ttl ha_tm"
    by (simp_all add: ha_doc_def default_cluster_state_def ha_pool_def ha_tm_def secs_def)
  have "lv_is_primary (observe_local (env_db (ha_env (secs 100)))) = Some False \<and>
      ts_held_term (hw_tick ha_stuck) = Some (lease_term ?l) \<and>
      (\<exists>t0. ts_held_since (hw_tick ha_stuck) = Some t0 \<and>
         t0 + leader_ttl ha_tm \<le> env_now (ha_env (secs 100)))"
    by (simp add: ha_local ha_stuck_def ha_tm_def ha_env_fields secs_def)
  with release_only_after_grace [OF r ha_env_fields(2) c prod.collapse [symmetric]] show ?thesis
    by (simp only: if_True)
qed

text \<open>
  A vacant lease is never filled on another node's behalf. While the lease is vacant and some
  peer is observed running as primary, the tick writes nothing and stands down.
\<close>

theorem vacant_lease_left_to_its_primary:
  assumes "st_read_state ops (hw_store hw) = (Inr st, s)" and "env_read_in_time env"
    and "cs_paused st = None" and "cs_lease st = None"
    and "fanout_ok pool (env_completions env)"
    and "observe_peers pool env (hw_seen hw) = (peers, seen)"
    and "p \<in> set peers" and "pv_running_as_primary p"
    and "tick_once ops pool tm env hw = (d, hw')"
  shows "hw_store hw' = s \<and>
         (\<exists>w. d = StoodDown w \<and> (w = VacantButPrimary (nc_id (pv_node p)) \<or> (\<exists>ms. w = ManyPrimaries ms)))"
proof -
  let ?i = "np_local_node_id pool"
  let ?o = "observed_primaries ?i (observe_local (env_db env)) peers"
  have inp: "nc_id (pv_node p) \<in> set ?o" using assms(7,8) by (auto simp: observed_primaries_def)
  have ne: "nc_id (pv_node p) \<noteq> ?i" using observe_peers_ids(2) [OF assms(5,6)] assms(7) by force
  obtain d1 ts1 s1 where v: "vacant_arm ops tm env ?i (observe_local (env_db env)) peers
      ((hw_tick hw)\<lparr>ts_store_unknown_since := None\<rparr>) s = (d1, ts1, s1)" by (metis prod.exhaust)
  have eq: "d = d1" "hw_store hw' = s1"
    using assms(9) v assms(2-4) unfolding tick_once_eq [OF assms(1,6)]
    by (auto simp: lease_arm_def)
  show ?thesis
    using v eq inp ne by (auto simp: vacant_arm_def split: list.splits if_splits)
qed

definition ha_primary3 :: "in_memory_store tick_env" where
  "ha_primary3 = (ha_env (secs 100))\<lparr>env_completions :=
     [(secs 100, Some \<lparr>psv_node = \<lparr>nc_id = 3, nc_hostname = ''c''\<rparr>, psv_status = Inr ex_status\<rparr>)]\<rparr>"

definition ha_vacant :: "in_memory_store ha_world" where
  "ha_vacant = \<lparr>hw_tick = tick_state_new, hw_seen = None,
     hw_store = im_install (ha_doc\<lparr>cs_lease := None\<rparr>) im_new\<rparr>"

definition ha_peer3 :: peer_view where
  "ha_peer3 = \<lparr>pv_node = \<lparr>nc_id = 3, nc_hostname = ''c''\<rparr>, pv_running_as_primary = True,
     pv_pos = Some (WalPosition 3 100), pv_receiving = False, pv_reachable = True, pv_seen_ages = []\<rparr>"

lemma ha_observe3:
  "\<exists>rest. observe_peers ha_pool ha_primary3 None = (ha_peer3 # rest, None)"
  by (simp add: observe_peers_def ha_pool_def ha_env_def ha_primary3_def collect_statuses_def
      status_fanout_budget_def secs_def ex_status_def peer_view_of_def from_status_def ha_peer3_def
      Let_def)

theorem vacant_lease_left_to_its_primary_witness:
  "im_state (hw_store (snd (tick_once in_memory_ops ha_pool ha_tm ha_primary3 ha_vacant))) =
     ha_doc\<lparr>cs_lease := None\<rparr>"
proof -
  obtain rest where o: "observe_peers ha_pool ha_primary3 (hw_seen ha_vacant) = (ha_peer3 # rest, None)"
    using ha_observe3 by (auto simp: ha_vacant_def)
  have r: "st_read_state in_memory_ops (hw_store ha_vacant) =
      (Inr (ha_doc\<lparr>cs_lease := None\<rparr>), hw_store ha_vacant)"
    by (simp add: in_memory_ops_def im_read_state_def read_gate_def check_gate_def ha_vacant_def
        im_install_def im_new_def)
  have f: "fanout_ok ha_pool (env_completions ha_primary3)"
    by (simp add: fanout_ok_def ha_pool_def ha_primary3_def List.map_filter_def)
  have "hw_store (snd (tick_once in_memory_ops ha_pool ha_tm ha_primary3 ha_vacant)) =
      hw_store ha_vacant"
    by (rule vacant_lease_left_to_its_primary [OF r _ _ _ f o _ _ prod.collapse [symmetric],
          of ha_peer3, THEN conjunct1])
      (simp_all add: ha_primary3_def ha_env_fields ha_doc_def default_cluster_state_def ha_peer3_def)
  thus ?thesis by (simp add: ha_vacant_def im_install_def)
qed

lemma sample_fold_distinct:
  "distinct (map fst m) \<Longrightarrow>
     distinct (map fst (fold (\<lambda>p m. case pv_pos p of
        Some pos \<Rightarrow> hm_insert (nc_id (pv_node p)) pos m | None \<Rightarrow> m) peers m))"
  by (induction peers arbitrary: m) (simp_all add: hm_insert_distinct split: option.splits)

lemma current_positions_distinct: "distinct (map fst (current_positions i my peers))"
  unfolding current_positions_def by (rule sample_fold_distinct) (simp add: hm_insert_def)

lemma unsettled_same: "distinct (map fst c) \<Longrightarrow> unsettled c c = []"
  by (auto simp: unsettled_def filter_empty_conv)

lemma vanished_same: "vanished i c c = []"
  by (auto simp: vanished_def filter_empty_conv map_of_eq_None_iff)

text \<open>One candidacy, everything but the settling being favourable, on a store that answers.\<close>

lemma candidacy_step:
  assumes "early_gates tm x lv peers (env_now env) ts = None" and "lv_pos lv = Some my"
    and "outranked i my peers = None"
    and "st_try_takeover ops i x (env_wall env) (env_between env s) = (Inr (Won l), s')"
  shows "consider_candidacy ops tm env i x lv peers ts s =
      (if unsettled (current_positions i my peers) (ts_settled_pos ts) \<noteq> [] \<or>
          vanished i (current_positions i my peers) (ts_settled_pos ts) \<noteq> []
       then (StoodDown (NotSettled (unsettled (current_positions i my peers) (ts_settled_pos ts))
               (vanished i (current_positions i my peers) (ts_settled_pos ts))),
             ts\<lparr>ts_settled_pos := current_positions i my peers\<rparr>, s)
       else (TookOver (lease_term l) (lv_is_primary lv = Some True),
             ts\<lparr>ts_settled_pos := current_positions i my peers\<rparr>, s'))"
  using assms by (simp add: consider_candidacy_def propose_takeover_def Let_def)

definition quiet ::
  "ha_timing \<Rightarrow> node_pool \<Rightarrow> lease \<Rightarrow> local_view \<Rightarrow> wal_position \<Rightarrow> peer_view list \<Rightarrow> bool" where
  "quiet tm pool l lv my peers \<longleftrightarrow>
     lease_holder l \<noteq> np_local_node_id pool \<and> \<not> holder_healthy (lease_holder l) peers \<and>
     lv_is_primary lv \<noteq> None \<and> lv_pos lv = Some my \<and> \<not> lv_receiving lv \<and>
     find_witness (lease_holder l) (as_millis (leader_ttl tm) mod 2 ^ 64) peers = None \<and>
     (\<forall>p \<in> set peers. pv_pos p \<noteq> None \<and> pv_receiving p \<longrightarrow> pv_running_as_primary p) \<and>
     (\<forall>p \<in> set peers. \<forall>pos. pv_pos p = Some pos \<longrightarrow>
        \<not> beats (nc_id (pv_node p), pos) (np_local_node_id pool, my))"

definition working_store :: "in_memory_store \<Rightarrow> bool" where
  "working_store s = (\<not> im_unavailable s \<and> im_fail_reads s = 0 \<and> im_fail_writes s = 0)"

lemma working_read: "working_store s \<Longrightarrow> st_read_state in_memory_ops s = (Inr (im_state s), s)"
  by (simp add: working_store_def in_memory_ops_def im_read_state_def read_gate_def check_gate_def)

lemma working_takeover:
  assumes "working_store s" and "cs_lease (im_state s) = Some l"
  shows "\<exists>s'. st_try_takeover in_memory_ops c (Some (lease_key l)) now s =
    (Inr (Won \<lparr>lease_holder = c, lease_term = cs_generation (im_state s) + 1, lease_since = now\<rparr>), s') \<and>
    cs_lease (im_state s') =
      Some \<lparr>lease_holder = c, lease_term = cs_generation (im_state s) + 1, lease_since = now\<rparr>"
  using assms
  by (simp add: working_store_def in_memory_ops_def im_try_takeover_def write_gate_def check_gate_def
      observed_holds_iff Let_def)

lemma quiet_tick:
  assumes "working_store (hw_store hw)" and "cs_paused (im_state (hw_store hw)) = None"
    and "cs_lease (im_state (hw_store hw)) = Some l"
    and "env_read_in_time env" and "env_between env = id"
    and "observe_peers pool env (hw_seen hw) = (peers, seen)"
    and "quiet tm pool l (observe_local (env_db env)) my peers"
    and "ts_holder_unhealthy_since (hw_tick hw) = Some (lease_holder l, t0)"
    and "t0 + leader_ttl tm \<le> env_now env"
    and "\<forall>until. ts_backoff_until (hw_tick hw) = Some until \<longrightarrow> until \<le> env_now env"
    and "tick_once in_memory_ops pool tm env hw = (d, hw')"
  shows "ts_settled_pos (hw_tick hw') = current_positions (np_local_node_id pool) my peers \<and>
    (if ts_settled_pos (hw_tick hw) = current_positions (np_local_node_id pool) my peers \<or>
        hw_store hw' \<noteq> hw_store hw
     then (\<exists>b. d = TookOver (cs_generation (im_state (hw_store hw)) + 1) b) \<and>
          map_option lease_key (cs_lease (im_state (hw_store hw'))) =
            Some (np_local_node_id pool, cs_generation (im_state (hw_store hw)) + 1)
     else hw_store hw' = hw_store hw \<and>
          ts_holder_unhealthy_since (hw_tick hw') = ts_holder_unhealthy_since (hw_tick hw) \<and>
          ts_backoff_until (hw_tick hw') = ts_backoff_until (hw_tick hw) \<and> hw_seen hw' = seen)"
proof -
  let ?i = "np_local_node_id pool" and ?lv = "observe_local (env_db env)"
  let ?ts = "(hw_tick hw)\<lparr>ts_store_unknown_since := None\<rparr>"
  let ?c = "current_positions ?i my peers"
  obtain s' where w: "st_try_takeover in_memory_ops ?i (Some (lease_key l)) (env_wall env)
      (env_between env (hw_store hw)) =
      (Inr (Won \<lparr>lease_holder = ?i, lease_term = cs_generation (im_state (hw_store hw)) + 1,
                 lease_since = env_wall env\<rparr>), s')"
    "cs_lease (im_state s') = Some \<lparr>lease_holder = ?i,
        lease_term = cs_generation (im_state (hw_store hw)) + 1, lease_since = env_wall env\<rparr>"
    using working_takeover [OF assms(1,3)] assms(5) by fastforce
  have eg: "early_gates tm (Some (lease_key l)) ?lv peers (env_now env) ?ts = None"
    using assms(7,10)
    by (auto simp: early_gates_None quiet_def witness_gate_def lease_key_def freeze_gate_None)
  have rk: "outranked ?i my peers = None" and pos: "lv_pos ?lv = Some my"
    using assms(7) by (simp_all add: outranked_None_iff quiet_def)
  have ttl: "leader_ttl tm \<le> env_now env - t0" using assms(9) by simp
  have arm: "lease_arm in_memory_ops tm env ?i (cs_lease (im_state (hw_store hw))) ?lv peers ?ts
      (hw_store hw) =
      consider_candidacy in_memory_ops tm env ?i (Some (lease_key l)) ?lv peers ?ts (hw_store hw)"
    using assms(3,7,8) ttl
    by (simp add: lease_arm_def other_lease_arm_def quiet_def unhealthy_clock_def lease_key_def Let_def)
  have lk: "lease_key \<lparr>lease_holder = a, lease_term = b, lease_since = c\<rparr> = (a, b)" for a b c
    by (simp add: lease_key_def)
  have settled: "unsettled ?c ?c = []" "vanished ?i ?c ?c = []"
    using unsettled_same [OF current_positions_distinct] vanished_same by blast+
  show ?thesis
    using assms(2,4,11) w(2)
    unfolding tick_once_eq [OF working_read [OF assms(1)] assms(6)]
    by (auto simp: arm candidacy_step [OF eg pos rk w(1)] settled lk split: if_splits)
qed



definition reacquired_0 :: "in_memory_store ha_world" where
  "reacquired_0 = \<lparr>hw_tick = tick_state_new, hw_seen = None, hw_store = im_install ha_doc im_new\<rparr>"

definition reacquired_1 :: "ha_decision \<times> in_memory_store ha_world" where
  "reacquired_1 = tick_once in_memory_ops ha_pool ha_tm (ha_env (secs 60)) reacquired_0"

definition reacquired_2 :: "ha_decision \<times> in_memory_store ha_world" where
  "reacquired_2 = tick_once in_memory_ops ha_pool ha_tm (ha_env (secs 70))
     ((snd reacquired_1)\<lparr>hw_store := snd (im_release 1 5 (hw_store (snd reacquired_1)))\<rparr>)"

definition reacquired_3 :: "in_memory_store ha_world" where
  "reacquired_3 = (snd reacquired_2)\<lparr>hw_store :=
     snd (im_try_takeover 1 None 5 (hw_store (snd reacquired_2)))\<rparr>"

lemma reacquired_1_eq:
  "reacquired_1 = (HolderUnhealthy 1 0,
     \<lparr>hw_tick = tick_state_new\<lparr>ts_last_holder := Some 1,
        ts_holder_unhealthy_since := Some (1, secs 60)\<rparr>,
      hw_seen = None, hw_store = im_install ha_doc im_new\<rparr>)"
proof -
  have r: "st_read_state in_memory_ops (hw_store reacquired_0) = (Inr ha_doc, im_install ha_doc im_new)"
    using ha_read by (simp add: reacquired_0_def ha_start_def)
  have o: "observe_peers ha_pool (ha_env (secs 60)) (hw_seen reacquired_0) = (ha_peers, None)"
    by (simp add: reacquired_0_def ha_observe)
  show ?thesis
    unfolding reacquired_1_def tick_once_eq [OF r o]
    by (simp add: ha_eval ha_peers_def ha_pool_def ha_tm_def ha_doc_def reacquired_0_def
        tick_state_new_def default_cluster_state_def secs_def del: not_None_eq)
qed

lemma reacquired_2_eq:
  "reacquired_2 = (StoodDown (NotSettled [3, 2] []),
     \<lparr>hw_tick = tick_state_new\<lparr>ts_holder_unhealthy_since := Some (1, secs 60),
        ts_settled_pos := [(3, WalPosition 3 90), (2, WalPosition 3 100)]\<rparr>,
      hw_seen = None,
      hw_store = im_install (ha_doc\<lparr>cs_generation := 8, cs_lease := None\<rparr>) im_new\<rparr>)"
proof -
  let ?w = "(snd reacquired_1)\<lparr>hw_store := snd (im_release 1 5 (hw_store (snd reacquired_1)))\<rparr>"
  have st: "hw_store ?w = im_install (ha_doc\<lparr>cs_generation := 8, cs_lease := None\<rparr>) im_new"
    by (simp add: reacquired_1_eq im_release_def write_gate_def check_gate_def im_install_def im_new_def
        ha_doc_def default_cluster_state_def)
  have r: "st_read_state in_memory_ops (hw_store ?w) =
      (Inr (ha_doc\<lparr>cs_generation := 8, cs_lease := None\<rparr>), hw_store ?w)"
    by (simp add: st in_memory_ops_def im_read_state_def read_gate_def check_gate_def
        im_install_def im_new_def)
  have o: "observe_peers ha_pool (ha_env (secs 70)) (hw_seen ?w) = (ha_peers, None)"
    by (simp add: reacquired_1_eq ha_observe)
  show ?thesis
    unfolding reacquired_2_def tick_once_eq [OF r o]
    by (simp add: st) (simp add: ha_eval ha_peers_def ha_pool_def ha_tm_def ha_doc_def reacquired_1_eq
        tick_state_new_def default_cluster_state_def secs_def del: not_None_eq)
qed

text \<open>
  The protection window is per holder id, not per lease. The source says that a lease that changes
  hands must not inherit the previous holder's unhealthy time. The clock is keyed by the holder's id
  alone and is not stopped by the ticks that read a vacant lease, so a holder that gives its lease up
  and wins a new one is deposed the first time its new lease is seen: node 2 first sees node 1's lease
  of term 5 unhealthy at 60 s, sees a vacant lease at 70 s, and at 91 s, on its first sight of the
  lease of term 9, takes it over although \<open>leader_ttl\<close> is 30 s.
\<close>

theorem reacquired_lease_inherits_clock:
  "fst reacquired_1 = HolderUnhealthy 1 0 \<and>
   cs_lease (im_state (hw_store (snd reacquired_2))) = None \<and>
   cs_lease (im_state (hw_store reacquired_3)) =
     Some \<lparr>lease_holder = 1, lease_term = 9, lease_since = 5\<rparr> \<and>
   ts_last_holder (hw_tick reacquired_3) = None \<and>
   fst (tick_once in_memory_ops ha_pool ha_tm (ha_env (secs 91)) reacquired_3) = TookOver 10 False"
proof -
  have st: "hw_store reacquired_3 = im_install (ha_doc\<lparr>cs_generation := 9,
      cs_lease := Some \<lparr>lease_holder = 1, lease_term = 9, lease_since = 5\<rparr>\<rparr>) im_new"
    by (simp add: reacquired_3_def reacquired_2_eq im_try_takeover_def write_gate_def check_gate_def
        im_install_def im_new_def ha_doc_def default_cluster_state_def Let_def)
  have r: "st_read_state in_memory_ops (hw_store reacquired_3) =
      (Inr (ha_doc\<lparr>cs_generation := 9,
        cs_lease := Some \<lparr>lease_holder = 1, lease_term = 9, lease_since = 5\<rparr>\<rparr>), hw_store reacquired_3)"
    by (simp add: st in_memory_ops_def im_read_state_def read_gate_def check_gate_def
        im_install_def im_new_def)
  have o: "observe_peers ha_pool (ha_env (secs 91)) (hw_seen reacquired_3) = (ha_peers, None)"
    by (simp add: reacquired_3_def reacquired_2_eq ha_observe)
  have tick: "hw_tick reacquired_3 = tick_state_new\<lparr>ts_holder_unhealthy_since := Some (1, secs 60),
        ts_settled_pos := [(3, WalPosition 3 90), (2, WalPosition 3 100)]\<rparr>"
    by (simp add: reacquired_3_def reacquired_2_eq)
  have "fst (tick_once in_memory_ops ha_pool ha_tm (ha_env (secs 91)) reacquired_3) = TookOver 10 False"
    unfolding tick_once_eq [OF r o] tick st
    by (simp add: ha_eval ha_peers_def ha_pool_def ha_tm_def ha_doc_def im_install_def im_new_def
        tick_state_new_def default_cluster_state_def secs_def as_millis_def del: not_None_eq)
  thus ?thesis
    by (simp add: reacquired_1_eq reacquired_2_eq st tick im_install_def ha_doc_def tick_state_new_def)
qed

end
