(* ===== verification/Pcp.thy ===== *)
theory Pcp
  imports Config
begin

text \<open>
  The pgpool control-protocol client, \<open>crates/pg-agent-core/src/pcp.rs\<close>: the arguments of an
  invocation, the outcome of the subprocess, and the parsers of its output.

  The subprocess is a parameter: an outcome per invocation. The number parser for the weight column
  (\<open>f64\<close>) is an argument, since the weight is only carried along.
\<close>

section \<open>Rows\<close>

record 'f node_info =
  ni_id :: i32
  ni_hostname :: string
  ni_port :: nat
  ni_status_code :: nat
  ni_lb_weight :: 'f
  ni_status_name :: string
  ni_actual_status :: string
  ni_role :: string
  ni_actual_role :: string
  ni_replication_delay :: string
  ni_replication_state :: string
  ni_sync_state :: string

definition is_up :: "'f node_info \<Rightarrow> bool" where
  "is_up n = (0 < ni_status_code n \<and> ni_status_code n < 3)"

definition parse_node_info_line ::
  "(string \<Rightarrow> 'f option) \<Rightarrow> i32 \<Rightarrow> string \<Rightarrow> (string, 'f node_info) result" where
  "parse_node_info_line f64 i line =
     (let tokens = split_whitespace line in
      if length tokens < 11 then Inl (''expected >=11 tokens, got '' @ show_nat (length tokens))
      else case parse_unsigned 10 16 (tokens ! 1) of
        None \<Rightarrow> Inl (''port '' @ tokens ! 1)
      | Some port \<Rightarrow>
     (case parse_unsigned 10 8 (tokens ! 2) of
        None \<Rightarrow> Inl (''status_code '' @ tokens ! 2)
      | Some code \<Rightarrow>
     (case f64 (tokens ! 3) of
        None \<Rightarrow> Inl (''lb_weight '' @ tokens ! 3)
      | Some w \<Rightarrow>
          Inr \<lparr>ni_id = i, ni_hostname = tokens ! 0, ni_port = port, ni_status_code = code,
               ni_lb_weight = w, ni_status_name = tokens ! 4, ni_actual_status = tokens ! 5,
               ni_role = tokens ! 6, ni_actual_role = tokens ! 7,
               ni_replication_delay = tokens ! 8, ni_replication_state = tokens ! 9,
               ni_sync_state = tokens ! 10\<rparr>)))"

text \<open>The loop of \<open>parse_node_info_all\<close>: \<open>out\<close> holds the rows so far, \<open>i\<close> the line number.\<close>

fun parse_node_info_from ::
  "(string \<Rightarrow> 'f option) \<Rightarrow> nat \<Rightarrow> 'f node_info list \<Rightarrow> string list \<Rightarrow>
     (string, 'f node_info list) result" where
  "parse_node_info_from f64 i out [] = Inr out"
| "parse_node_info_from f64 i out (l # ls) =
     (let line = trim l in
      if line = [] then parse_node_info_from f64 (Suc i) out ls
      else case parse_node_info_line f64 (int (length out)) line of
          Inl e \<Rightarrow> Inl (''pcp_node_info -a: line '' @ show_nat (i + 1) @ '' '' @ e)
        | Inr n \<Rightarrow> parse_node_info_from f64 (Suc i) (out @ [n]) ls)"

definition parse_node_info_all ::
  "(string \<Rightarrow> 'f option) \<Rightarrow> string \<Rightarrow> (string, 'f node_info list) result" where
  "parse_node_info_all f64 raw = parse_node_info_from f64 0 [] (lines raw)"

section \<open>Invocations\<close>

record pcp_cli =
  cli_host :: string
  cli_port :: nat
  cli_user :: string

definition pcp_cli_new :: "pcp_config \<Rightarrow> pcp_cli" where
  "pcp_cli_new cfg =
     \<lparr>cli_host = ''localhost'', cli_port = unwrap_or (pcp_port cfg) 9898,
      cli_user = unwrap_or (pcp_user cfg) ''pgpool''\<rparr>"

definition common_args :: "pcp_cli \<Rightarrow> string list" where
  "common_args c = [''-h'', cli_host c, ''-p'', show_nat (cli_port c), ''-U'', cli_user c, ''-w'']"

text \<open>What became of the child: no answer in time, not spawned, or exited.\<close>

datatype child_outcome =
    TimedOut
  | SpawnNotFound
  | SpawnError string
  | Exited "int option" string string

definition combine_output :: "string \<Rightarrow> string \<Rightarrow> string" where
  "combine_output out err =
     (if out = [] \<and> err = [] then []
      else if err = [] then out
      else if out = [] then err
      else out @ [CHR 0x0A] @ err)"

definition exit_code :: "int option \<Rightarrow> string" where
  "exit_code c = (case c of Some i \<Rightarrow> show_int i | None \<Rightarrow> ''?'')"

definition pcp_spawn_error :: "string \<Rightarrow> string option \<Rightarrow> string" where
  "pcp_spawn_error bin e =
     (case e of
        None \<Rightarrow> bin @ '': binary not found on $PATH (install the pgpool2 package on this node, or check that /usr/bin is in pg_agentd.service's effective PATH)''
      | Some m \<Rightarrow> bin @ '': spawn: '' @ m)"

definition run_pcp ::
  "(string \<Rightarrow> string list \<Rightarrow> child_outcome) \<Rightarrow> pcp_cli \<Rightarrow> string \<Rightarrow> string \<Rightarrow> string list \<Rightarrow>
     (string, string) result" where
  "run_pcp exec c bin desc extra =
     (case exec bin (common_args c @ extra) of
        TimedOut \<Rightarrow> Inl (desc @ '': timed out after 30s'')
      | SpawnNotFound \<Rightarrow> Inl (pcp_spawn_error bin None)
      | SpawnError m \<Rightarrow> Inl (pcp_spawn_error bin (Some m))
      | Exited code out err \<Rightarrow>
          if code \<noteq> Some 0
          then Inl (desc @ '': exit '' @ exit_code code @ '': '' @ trim (combine_output out err))
          else Inr out)"

definition attach_node ::
  "(string \<Rightarrow> string list \<Rightarrow> child_outcome) \<Rightarrow> pcp_cli \<Rightarrow> i32 \<Rightarrow> (string, unit) result" where
  "attach_node exec c i =
     map_sum id (\<lambda>_. ()) (run_pcp exec c ''pcp_attach_node''
       (''pcp_attach_node (node '' @ show_int i @ '')'') [''-n'', show_int i])"

definition detach_node ::
  "(string \<Rightarrow> string list \<Rightarrow> child_outcome) \<Rightarrow> pcp_cli \<Rightarrow> i32 \<Rightarrow> (string, unit) result" where
  "detach_node exec c i =
     map_sum id (\<lambda>_. ()) (run_pcp exec c ''pcp_detach_node''
       (''pcp_detach_node (node '' @ show_int i @ '')'') [''-n'', show_int i])"

definition node_count ::
  "(string \<Rightarrow> string list \<Rightarrow> child_outcome) \<Rightarrow> pcp_cli \<Rightarrow> (string, i32) result" where
  "node_count exec c =
     (case run_pcp exec c ''pcp_node_count'' ''pcp_node_count'' [] of
        Inl e \<Rightarrow> Inl e
      | Inr raw \<Rightarrow>
          (case parse_i32 (trim raw) of
             Some n \<Rightarrow> Inr n | None \<Rightarrow> Inl (''pcp_node_count: parse '' @ trim raw)))"

definition node_info_all ::
  "(string \<Rightarrow> 'f option) \<Rightarrow> (string \<Rightarrow> string list \<Rightarrow> child_outcome) \<Rightarrow> pcp_cli \<Rightarrow>
     (string, 'f node_info list) result" where
  "node_info_all f64 exec c =
     (case run_pcp exec c ''pcp_node_info'' ''pcp_node_info -a'' [''-a''] of
        Inl e \<Rightarrow> Inl e
      | Inr raw \<Rightarrow> parse_node_info_all f64 raw)"

section \<open>What pgpool prints\<close>

text \<open>
  A row as pgpool prints it: the eleven columns and the two tokens of the time stamp. \<open>show_f\<close> is
  pgpool's printing of the weight.
\<close>

definition row_tokens :: "('f \<Rightarrow> string) \<Rightarrow> string \<Rightarrow> string \<Rightarrow> 'f node_info \<Rightarrow> string list" where
  "row_tokens show_f day tm n =
     [ni_hostname n, show_nat (ni_port n), show_nat (ni_status_code n), show_f (ni_lb_weight n),
      ni_status_name n, ni_actual_status n, ni_role n, ni_actual_role n, ni_replication_delay n,
      ni_replication_state n, ni_sync_state n, day, tm]"

definition print_rows :: "('f \<Rightarrow> string) \<Rightarrow> string \<Rightarrow> string \<Rightarrow> 'f node_info list \<Rightarrow> string" where
  "print_rows show_f day tm ns =
     concat (map (\<lambda>n. join '' '' (row_tokens show_f day tm n) @ [CHR 0x0A]) ns)"

definition printable :: "('f \<Rightarrow> string) \<Rightarrow> (string \<Rightarrow> 'f option) \<Rightarrow> string \<Rightarrow> string \<Rightarrow> 'f node_info \<Rightarrow> bool" where
  "printable show_f f64 day tm n \<longleftrightarrow>
     list_all word_like (row_tokens show_f day tm n) \<and>
     ni_port n < 2 ^ 16 \<and> ni_status_code n < 2 ^ 8 \<and> f64 (show_f (ni_lb_weight n)) = Some (ni_lb_weight n)"

lemma parse_line_print:
  assumes "printable show_f f64 day tm n"
  shows "parse_node_info_line f64 (ni_id n) (join '' '' (row_tokens show_f day tm n)) = Inr n"
proof -
  have sp: "split_whitespace (join '' '' (row_tokens show_f day tm n)) = row_tokens show_f day tm n"
    using assms by (intro split_whitespace_join) (simp add: printable_def)
  have "parse_unsigned 10 16 (show_nat (ni_port n)) = Some (ni_port n)"
    "parse_unsigned 10 8 (show_nat (ni_status_code n)) = Some (ni_status_code n)"
    using assms unfolding show_nat_def by (auto intro!: parse_unsigned_show simp: printable_def)
  with assms show ?thesis
    unfolding parse_node_info_line_def sp Let_def by (simp add: row_tokens_def printable_def)
qed

lemma join_space_chars:
  "set (join '' '' ws) \<subseteq> insert CHR '' '' (\<Union> (set ` set ws))"
  by (induction "'' ''" ws rule: join.induct) auto

lemma word_like_no_newline: "word_like w \<Longrightarrow> CHR 0x0A \<notin> set w \<and> CHR 0x0D \<notin> set w"
  by (auto simp: word_like_def list_all_iff is_ws_def)

text \<open>A joined row has no white space at its ends, so \<open>trim\<close> leaves it alone.\<close>

lemma trim_join:
  assumes "list_all word_like ws" and "ws \<noteq> []"
  shows "trim (join '' '' ws) = join '' '' ws" and "join '' '' ws \<noteq> []"
proof -
  have ends: "ws \<noteq> [] \<Longrightarrow> list_all word_like ws \<Longrightarrow>
      join '' '' ws \<noteq> [] \<and> \<not> is_ws (hd (join '' '' ws)) \<and> \<not> is_ws (last (join '' '' ws))"
  proof (induction "'' ''" ws rule: join.induct)
    case (2 x)
    thus ?case using hd_in_set [of x] last_in_set [of x] by (auto simp: word_like_def list_all_iff)
  next
    case (3 x y xs)
    thus ?case using hd_in_set [of x] by (auto simp: word_like_def list_all_iff)
  qed simp
  note e = ends [OF assms(2,1)]
  have dw: "dropWhile is_ws t = t" if "t \<noteq> []" "\<not> is_ws (hd t)" for t using that by (cases t) auto
  have "hd (rev (join '' '' ws)) = last (join '' '' ws)" using e by (simp add: hd_rev)
  with e dw [of "join '' '' ws"] dw [of "rev (join '' '' ws)"] show "trim (join '' '' ws) = join '' '' ws"
    by (simp add: trim_def)
  show "join '' '' ws \<noteq> []" using e by blast
qed

lemma parse_from_print:
  assumes "list_all (printable show_f f64 day tm) ns"
    and "map ni_id ns = map int [length out..<length out + length ns]"
  shows "parse_node_info_from f64 i out (map (\<lambda>n. join '' '' (row_tokens show_f day tm n)) ns) =
           Inr (out @ ns)"
  using assms
proof (induction ns arbitrary: i out)
  case (Cons n ns)
  have up: "[length out..<length out + length (n # ns)] =
      length out # [Suc (length out)..<Suc (length out) + length ns]"
    by (subst upt_conv_Cons) simp_all
  have ids: "ni_id n = int (length out)" "map ni_id ns = map int [length (out @ [n])..<length (out @ [n]) + length ns]"
    using Cons.prems(2) unfolding up by simp_all
  have p: "printable show_f f64 day tm n" using Cons.prems(1) by simp
  hence tj: "trim (join '' '' (row_tokens show_f day tm n)) = join '' '' (row_tokens show_f day tm n)"
    "join '' '' (row_tokens show_f day tm n) \<noteq> []"
    using trim_join [of "row_tokens show_f day tm n"] by (auto simp: printable_def row_tokens_def)
  have "parse_node_info_line f64 (int (length out)) (join '' '' (row_tokens show_f day tm n)) = Inr n"
    using parse_line_print [OF p] ids(1) by simp
  with tj Cons.IH [of "out @ [n]"] ids(2) Cons.prems(1) show ?case by (simp add: Let_def)
qed simp

section \<open>Properties\<close>

text \<open>
  What pgpool prints is what the agent reads: parsing the printed rows of any backends numbered
  from 0 gives back exactly those backends in order, with their ids assigned by position, and the
  full client returns them when the command succeeds.
\<close>

theorem node_info_roundtrip:
  assumes "list_all (printable show_f f64 day tm) ns" and "map ni_id ns = map int [0..<length ns]"
    and "exec ''pcp_node_info'' (common_args c @ [''-a'']) = Exited (Some 0) (print_rows show_f day tm ns) err"
  shows "node_info_all f64 exec c = Inr ns"
proof -
  have nl: "list_all (\<lambda>l. CHR 0x0A \<notin> set l \<and> CHR 0x0D \<notin> set l)
      (map (\<lambda>n. join '' '' (row_tokens show_f day tm n)) ns)"
    unfolding list_all_iff
  proof (rule ballI)
    fix l assume "l \<in> set (map (\<lambda>n. join '' '' (row_tokens show_f day tm n)) ns)"
    then obtain n where n: "n \<in> set ns" "l = join '' '' (row_tokens show_f day tm n)" by auto
    hence "\<forall>w \<in> set (row_tokens show_f day tm n). CHR 0x0A \<notin> set w \<and> CHR 0x0D \<notin> set w"
      using assms(1) word_like_no_newline by (auto simp: list_all_iff printable_def)
    thus "CHR 0x0A \<notin> set l \<and> CHR 0x0D \<notin> set l"
      using join_space_chars [of "row_tokens show_f day tm n"] n(2) by fastforce
  qed
  have "print_rows show_f day tm ns =
      concat (map (\<lambda>l. l @ [CHR 0x0A]) (map (\<lambda>n. join '' '' (row_tokens show_f day tm n)) ns))"
    by (simp add: print_rows_def o_def)
  hence "lines (print_rows show_f day tm ns) = map (\<lambda>n. join '' '' (row_tokens show_f day tm n)) ns"
    using lines_concat [OF nl] by simp
  with parse_from_print [of show_f f64 day tm ns "[]" 0] assms show ?thesis
    by (simp add: node_info_all_def run_pcp_def parse_node_info_all_def)
qed

definition ex_row :: "nat \<Rightarrow> string node_info" where
  "ex_row i = \<lparr>ni_id = int i, ni_hostname = ''db'', ni_port = 5432, ni_status_code = 2,
     ni_lb_weight = ''0.5'', ni_status_name = ''up'', ni_actual_status = ''up'', ni_role = ''standby'',
     ni_actual_role = ''standby'', ni_replication_delay = ''0'', ni_replication_state = ''streaming'',
     ni_sync_state = ''async''\<rparr>"

theorem node_info_roundtrip_witness:
  "node_info_all Some (\<lambda>_ _. Exited (Some 0)
     (print_rows (\<lambda>x. x) ''2024-01-01'' ''10:00:00'' [ex_row 0, ex_row 1]) []) (pcp_cli_new
       \<lparr>pcp_user = None, pcp_port = None, pcp_pgpool_service = None\<rparr>) = Inr [ex_row 0, ex_row 1]"
proof (rule node_info_roundtrip [where show_f = "\<lambda>x. x"])
  have d: "word_like (show_nat 5432)" "word_like (show_nat 2)"
    by (simp_all add: word_like_def show_nat_def show_radix.simps is_ws_def)
  show "list_all (printable (\<lambda>x. x) Some ''2024-01-01'' ''10:00:00'') [ex_row 0, ex_row 1]"
    using d by (simp add: printable_def row_tokens_def ex_row_def) (simp add: word_like_def is_ws_def)
qed (simp_all add: ex_row_def upt_rec)

lemma parse_from_shape:
  assumes "parse_node_info_from f64 i out ls = Inr ns"
    and "map ni_id out = map int [0..<length out]"
  shows "\<exists>new. ns = out @ new \<and> length new = length (filter (\<lambda>l. trim l \<noteq> []) ls) \<and>
           map ni_id ns = map int [0..<length ns]"
  using assms
proof (induction f64 i out ls rule: parse_node_info_from.induct)
  case (2 f64 i out l ls)
  show ?case
  proof (cases "trim l = []")
    case True
    with 2(1) [OF refl True] 2(3,4) show ?thesis by (simp add: Let_def)
  next
    case False
    with "2.prems" obtain n where n: "parse_node_info_line f64 (int (length out)) (trim l) = Inr n"
      "parse_node_info_from f64 (Suc i) (out @ [n]) ls = Inr ns"
      by (auto simp: Let_def split: sum.splits)
    have "ni_id n = int (length out)"
      using n(1) by (auto simp: parse_node_info_line_def Let_def split: if_splits option.splits)
    with 2(2) [OF refl False n] "2.prems"(2) False show ?thesis by auto
  qed
qed simp

text \<open>
  A malformed row is never dropped. If parsing succeeds, every non-blank line of the output
  became one row, in order, with consecutive ids from 0.
\<close>

theorem no_row_dropped:
  assumes "parse_node_info_all f64 raw = Inr ns"
  shows "length ns = length (filter (\<lambda>l. trim l \<noteq> []) (lines raw)) \<and>
         map ni_id ns = map int [0..<length ns]"
  using parse_from_shape [of f64 0 "[]" "lines raw" ns] assms by (auto simp: parse_node_info_all_def)

definition ex_row_line :: string where
  "ex_row_line = ''db 5432 2 0.5 up up standby standby 0 streaming async''"

lemma ex_row_line_parse: "parse_node_info_all Some ex_row_line = Inr [ex_row 0]"
  by (simp add: parse_node_info_all_def ex_row_line_def lines_def trim_def is_ws_def Let_def
      parse_node_info_line_def split_whitespace_def parse_unsigned_def digits_val_def digit_val_def
      ex_row_def)

theorem no_row_dropped_witness: "length [ex_row 0] = length (filter (\<lambda>l. trim l \<noteq> []) (lines ex_row_line))"
  using no_row_dropped [OF ex_row_line_parse] by blast

end
