(* ===== verification/Instance.thy ===== *)
theory Instance
  imports PgPrelude
begin

text \<open>
  The instance layer, \<open>crates/pgman/src/instance.rs\<close>: one owner for the local PostgreSQL's role.

  The mechanisms it composes (the process manager, the local database, the standby tools) are given
  by their answers to one call of an operation; an operation returns its result together with the
  calls it made, in order, so that ordering requirements are statements about that list. The polling
  loop of \<open>promote_and_wait\<close> runs over the successive (elapsed time, answer) pairs it sees.
\<close>

section \<open>Types\<close>

datatype instance_state = Down | Standby bool | Primary | Unknown

record upstream_spec =
  up_host :: string
  up_port :: nat
  up_repl_user :: string
  up_slot_name :: string

text \<open>\<open>WriteRecoveryConfOpts\<close>.\<close>

record recovery_conf_opts =
  rco_primary_host :: string
  rco_primary_port :: nat
  rco_repl_user :: string
  rco_slot_name :: string

definition recovery_conf :: "upstream_spec \<Rightarrow> recovery_conf_opts" where
  "recovery_conf u = \<lparr>rco_primary_host = up_host u, rco_primary_port = up_port u,
     rco_repl_user = up_repl_user u, rco_slot_name = up_slot_name u\<rparr>"

datatype mech_call =
    ProcIsActive
  | ProcStop
  | ProcStart
  | ProcReloadOrRestart
  | DbIsInRecovery
  | DbReplicationLag
  | DbPromote
  | DbReloadConf
  | SbWriteRecoveryConf recovery_conf_opts
  | SbDetachRecoveryConf
  | SbRewind string nat string
  | SbBasebackup string nat string string

record mech_answers =
  an_is_active :: "(string, bool) result"
  an_stop :: "(string, unit) result"
  an_start :: "(string, unit) result"
  an_reload_or_restart :: "(string, unit) result"
  an_in_recovery :: "(string, bool) result"
  an_lag_state :: "(string, string) result"
  an_promote :: "(string, unit) result"
  an_reload_conf :: "(string, unit) result"
  an_write_conf :: "(string, unit) result"
  an_detach_conf :: "(string, unit) result"
  an_rewind :: "(string, unit) result"
  an_basebackup :: "(string, unit) result"

section \<open>Operations\<close>

definition inst_state :: "mech_answers \<Rightarrow> instance_state \<times> mech_call list" where
  "inst_state an =
     (case an_is_active an of
        Inr False \<Rightarrow> (Down, [ProcIsActive])
      | Inl _ \<Rightarrow> (Unknown, [ProcIsActive])
      | Inr True \<Rightarrow>
          (case an_in_recovery an of
             Inr False \<Rightarrow> (Primary, [ProcIsActive, DbIsInRecovery])
           | Inr True \<Rightarrow>
               (Standby (case an_lag_state an of Inr st \<Rightarrow> st = ''streaming'' | Inl _ \<Rightarrow> False),
                [ProcIsActive, DbIsInRecovery, DbReplicationLag])
           | Inl _ \<Rightarrow> (Unknown, [ProcIsActive, DbIsInRecovery])))"

definition promote_poll_interval :: duration where
  "promote_poll_interval = millis 500"

definition still_in_recovery :: string where
  "still_in_recovery = ''promote: still in recovery; promotion may yet complete''"

text \<open>\<open>None\<close>: the list of polls ended before the loop did.\<close>

fun promote_loop ::
  "duration \<Rightarrow> (duration \<times> (string, bool) result) list \<Rightarrow> ((string, unit) result \<times> mech_call list) option"
where
  "promote_loop deadline [] = None"
| "promote_loop deadline ((elapsed, ans) # ps) =
     (if deadline \<le> elapsed then Some (Inl still_in_recovery, [])
      else case ans of
          Inr False \<Rightarrow> Some (Inr (), [DbIsInRecovery])
        | _ \<Rightarrow> map_option (\<lambda>(r, cs). (r, DbIsInRecovery # cs)) (promote_loop deadline ps))"

definition promote_and_wait ::
  "mech_answers \<Rightarrow> duration \<Rightarrow> (duration \<times> (string, bool) result) list \<Rightarrow>
     ((string, unit) result \<times> mech_call list) option" where
  "promote_and_wait an deadline polls =
     (case an_in_recovery an of
        Inr False \<Rightarrow> Some (Inr (), [DbIsInRecovery])
      | Inl e \<Rightarrow> Some (Inl (''promote: cannot read recovery state: '' @ e), [DbIsInRecovery])
      | Inr True \<Rightarrow>
          (case an_promote an of
             Inl e \<Rightarrow> Some (Inl (''promote: pg_promote: '' @ e), [DbIsInRecovery, DbPromote])
           | Inr _ \<Rightarrow>
               map_option (\<lambda>(r, cs). (r, [DbIsInRecovery, DbPromote] @ cs))
                 (promote_loop deadline polls)))"

definition ensure_stopped :: "mech_answers \<Rightarrow> (string, unit) result \<times> mech_call list" where
  "ensure_stopped an = (an_stop an, [ProcStop])"

definition inst_follow :: "mech_answers \<Rightarrow> upstream_spec \<Rightarrow> (string, unit) result \<times> mech_call list" where
  "inst_follow an u =
     (let w = SbWriteRecoveryConf (recovery_conf u) in
      case an_write_conf an of
        Inl e \<Rightarrow> (Inl (''follow: write recovery conf: '' @ e), [w])
      | Inr _ \<Rightarrow>
          (case an_reload_or_restart an of
             Inl e \<Rightarrow> (Inl (''follow: reload: '' @ e), [w, ProcReloadOrRestart])
           | Inr _ \<Rightarrow> (Inr (), [w, ProcReloadOrRestart])))"

text \<open>The tail of a rebuild: the recovery configuration, then the start.\<close>

definition rebuild_finish :: "mech_answers \<Rightarrow> upstream_spec \<Rightarrow> (string, unit) result \<times> mech_call list" where
  "rebuild_finish an u =
     (let w = SbWriteRecoveryConf (recovery_conf u) in
      case an_write_conf an of
        Inl e \<Rightarrow> (Inl (''rebuild: write recovery conf: '' @ e), [w])
      | Inr _ \<Rightarrow>
          (case an_start an of
             Inl e \<Rightarrow> (Inl (''rebuild: start: '' @ e), [w, ProcStart])
           | Inr _ \<Rightarrow> (Inr (), [w, ProcStart])))"

definition rebuild_as_standby ::
  "mech_answers \<Rightarrow> upstream_spec \<Rightarrow> (string, unit) result \<times> mech_call list" where
  "rebuild_as_standby an u =
     (case an_stop an of
        Inl e \<Rightarrow> (Inl (''rebuild: stop: '' @ e), [ProcStop])
      | Inr _ \<Rightarrow>
          let rw = SbRewind (up_host u) (up_port u) (up_repl_user u);
              bb = SbBasebackup (up_host u) (up_port u) (up_repl_user u) (up_slot_name u)
          in if is_ok (an_rewind an)
             then (case rebuild_finish an u of (r, cs) \<Rightarrow> (r, [ProcStop, rw] @ cs))
             else (case an_basebackup an of
                     Inl e \<Rightarrow> (Inl (''rebuild: basebackup: '' @ e), [ProcStop, rw, bb])
                   | Inr _ \<Rightarrow>
                       (case rebuild_finish an u of (r, cs) \<Rightarrow> (r, [ProcStop, rw, bb] @ cs))))"

definition stop_receiving :: "mech_answers \<Rightarrow> (string, unit) result \<times> mech_call list" where
  "stop_receiving an =
     (case an_detach_conf an of
        Inl e \<Rightarrow> (Inl e, [SbDetachRecoveryConf])
      | Inr _ \<Rightarrow> (an_reload_conf an, [SbDetachRecoveryConf, DbReloadConf]))"

section \<open>Properties\<close>

definition destructive :: "mech_call \<Rightarrow> bool" where
  "destructive c = (case c of SbRewind _ _ _ \<Rightarrow> True | SbBasebackup _ _ _ _ \<Rightarrow> True | _ \<Rightarrow> False)"

text \<open>
  Nothing destructive runs on an instance that may be up. Every rewind or basebackup of a rebuild
  comes after the stop, and the stop had succeeded; a basebackup is run exactly when the rewind
  failed; the instance is started at most once, as the last call and only after its recovery
  configuration was written.
\<close>

theorem rebuild_stops_first:
  "case rebuild_as_standby an u of (r, calls) \<Rightarrow>
    hd calls = ProcStop \<and>
    (list_ex destructive calls \<longleftrightarrow> is_ok (an_stop an)) \<and>
    (list_ex (\<lambda>c. c = SbBasebackup (up_host u) (up_port u) (up_repl_user u) (up_slot_name u)) calls \<longleftrightarrow>
       is_ok (an_stop an) \<and> \<not> is_ok (an_rewind an)) \<and>
    (ProcStart \<in> set calls \<longrightarrow>
       last calls = ProcStart \<and> last (butlast calls) = SbWriteRecoveryConf (recovery_conf u) \<and>
       ProcStart \<notin> set (butlast calls) \<and> is_ok (an_write_conf an)) \<and>
    (is_ok r \<longleftrightarrow>
       is_ok (an_stop an) \<and> (is_ok (an_rewind an) \<or> is_ok (an_basebackup an)) \<and>
       is_ok (an_write_conf an) \<and> is_ok (an_start an))"
  by (cases "an_stop an"; cases "an_rewind an"; cases "an_basebackup an"; cases "an_write_conf an";
      cases "an_start an")
    (simp_all add: rebuild_as_standby_def rebuild_finish_def destructive_def Let_def)

definition ex_up :: upstream_spec where
  "ex_up = \<lparr>up_host = ''db1'', up_port = 5432, up_repl_user = ''repl'', up_slot_name = ''node2''\<rparr>"

definition ex_answers :: mech_answers where
  "ex_answers = \<lparr>an_is_active = Inr True, an_stop = Inr (), an_start = Inr (),
     an_reload_or_restart = Inr (), an_in_recovery = Inr True, an_lag_state = Inr ''streaming'',
     an_promote = Inr (), an_reload_conf = Inr (), an_write_conf = Inr (), an_detach_conf = Inr (),
     an_rewind = Inl ''diverged'', an_basebackup = Inr ()\<rparr>"

theorem rebuild_stops_first_witness:
  "last (snd (rebuild_as_standby ex_answers ex_up)) = ProcStart \<and>
   hd (snd (rebuild_as_standby ex_answers ex_up)) = ProcStop"
proof -
  have "ProcStart \<in> set (snd (rebuild_as_standby ex_answers ex_up))"
    by (simp add: rebuild_as_standby_def rebuild_finish_def ex_answers_def Let_def)
  with rebuild_stops_first [of ex_answers ex_up] show ?thesis by (simp add: case_prod_beta)
qed

lemma promote_loop_returns:
  assumes "\<exists>p \<in> set polls. deadline \<le> fst p \<or> snd p = Inr False"
  shows "promote_loop deadline polls \<noteq> None"
  using assms
proof (induction polls)
  case (Cons p polls)
  obtain elapsed ans where p: "p = (elapsed, ans)" by (cases p)
  show ?case
  proof (cases "deadline \<le> elapsed \<or> ans = Inr False")
    case False
    with Cons p have "promote_loop deadline polls \<noteq> None" by auto
    with p show ?thesis by (auto split: sum.splits bool.splits)
  qed (use p in auto)
qed simp

lemma promote_loop_result:
  assumes "promote_loop deadline polls = Some (r, cs)"
  shows "if r = Inr () then \<exists>p \<in> set polls. fst p < deadline \<and> snd p = Inr False
         else r = Inl still_in_recovery \<and>
              (\<exists>pre p post. polls = pre @ p # post \<and> deadline \<le> fst p \<and>
                 (\<forall>q \<in> set pre. fst q < deadline \<and> snd q \<noteq> Inr False))"
  using assms
proof (induction deadline polls arbitrary: cs rule: promote_loop.induct)
  case (2 deadline elapsed ans ps)
  show ?case
  proof (cases "deadline \<le> elapsed")
    case True
    with "2.prems" show ?thesis by (auto intro!: exI [of _ "[]"])
  next
    case False
    show ?thesis
    proof (cases "ans = Inr False")
      case True
      with False "2.prems" show ?thesis by auto
    next
      case f: False
      with False "2.prems" obtain cs' where rec: "promote_loop deadline ps = Some (r, cs')"
        by (auto split: sum.splits bool.splits)
      have IH: "if r = Inr () then \<exists>p \<in> set ps. fst p < deadline \<and> snd p = Inr False
         else r = Inl still_in_recovery \<and>
              (\<exists>pre p post. ps = pre @ p # post \<and> deadline \<le> fst p \<and>
                 (\<forall>q \<in> set pre. fst q < deadline \<and> snd q \<noteq> Inr False))"
        using 2 False f rec by (cases ans) (auto split: bool.splits)
      show ?thesis
      proof (cases "r = Inr ()")
        case False
        with IH obtain pre p post where "r = Inl still_in_recovery" "ps = pre @ p # post"
          "deadline \<le> fst p" "\<forall>q \<in> set pre. fst q < deadline \<and> snd q \<noteq> Inr False" by auto
        moreover from this have "(elapsed, ans) # ps = ((elapsed, ans) # pre) @ p # post"
          "\<forall>q \<in> set ((elapsed, ans) # pre). fst q < deadline \<and> snd q \<noteq> Inr False"
          using \<open>\<not> deadline \<le> elapsed\<close> f by simp_all
        ultimately show ?thesis using False by metis
      qed (use IH in auto)
    qed
  qed
qed simp



section \<open>State\<close>

lemma inst_state_down: "fst (inst_state an) = Down \<longleftrightarrow> an_is_active an = Inr False"
  by (auto simp: inst_state_def split: sum.splits bool.splits)

lemma inst_state_primary:
  "fst (inst_state an) = Primary \<longleftrightarrow> an_is_active an = Inr True \<and> an_in_recovery an = Inr False"
  by (auto simp: inst_state_def split: sum.splits bool.splits)

end
