(* ===== verification/RoleExec.thy ===== *)
theory RoleExec
  imports HaLoop Instance Pcp
begin

text \<open>
  The role executor, \<open>crates/pg-agent-core/src/roleexec.rs\<close>: what is done about each decision of the
  HA loop.

  The collaborators (the instance, the local database, the journal, the peers) are given by their
  answers during one \<open>apply\<close>; the calls made are returned in order. The executor's own state is the
  record \<open>role_executor\<close>. The spawned self-attach probe is one call here (\<open>ECSpawnProbe\<close>); its body
  is \<open>self_attach_probe\<close>, and \<open>probe_finished\<close> is the store it does when it ends.
\<close>

section \<open>State, calls and answers\<close>

definition self_attach_probe_interval :: duration where
  "self_attach_probe_interval = secs 10"

definition sync_arm_probe_interval :: duration where
  "sync_arm_probe_interval = secs 10"

record role_executor =
  ex_confirmed_upstream :: "i32 option"
  ex_self_attach_in_flight :: bool
  ex_self_attach_last_probe :: "instant option"
  ex_sync_arm_last_probe :: "instant option"
  ex_follow_stalled_since :: "instant option"
  ex_follow_wedged :: bool

definition role_executor_new :: "bool \<Rightarrow> role_executor" where
  "role_executor_new wedged =
     \<lparr>ex_confirmed_upstream = None, ex_self_attach_in_flight = False,
      ex_self_attach_last_probe = None, ex_sync_arm_last_probe = None,
      ex_follow_stalled_since = None, ex_follow_wedged = wedged\<rparr>"

record role_cfg =
  rx_pool :: node_pool
  rx_promote_deadline :: duration
  rx_pg_port :: nat
  rx_repl_user :: string

datatype exec_call =
    ECState
  | ECJournalBegin i32 u64
  | ECJournalComplete string
  | ECJournalAbandon string
  | ECPromoteAndWait duration
  | ECCreateSlot string
  | ECEnsureStopped
  | ECStopReceiving
  | ECSetting string
  | ECConnectedStandbys
  | ECSetSyncNames string
  | ECSpawnProbe
  | ECPeerClient i32
  | ECPeerCreateSlot i32 string
  | ECFollow upstream_spec

record exec_answers =
  xa_now :: instant
  xa_state :: instance_state
  xa_begin :: "(string, string) result"
  xa_complete :: "(string, unit) result"
  xa_abandon :: "(string, unit) result"
  xa_promote :: "(string, unit) result"
  xa_create_slot :: "string \<Rightarrow> (string, unit) result"
  xa_stop :: "(string, unit) result"
  xa_stop_receiving :: "(string, unit) result"
  xa_setting :: "(string, string) result"
  xa_connected :: "(string, string list) result"
  xa_set_sync :: "(string, unit) result"
  xa_peer_client :: "(string, unit) result"
  xa_peer_create_slot :: "(string, unit) result"
  xa_follow :: "(string, unit) result"

section \<open>Fencing\<close>

definition fence :: "role_executor \<Rightarrow> role_executor \<times> exec_call list" where
  "fence st =
     (st\<lparr>ex_confirmed_upstream := None, ex_follow_stalled_since := None, ex_follow_wedged := False\<rparr>,
      [ECEnsureStopped])"

section \<open>Quorum commit\<close>

definition other_slots :: "node_pool \<Rightarrow> string list" where
  "other_slots pool =
     map slot_name (filter (\<lambda>n. nc_id n \<noteq> np_local_node_id pool) (np_members pool))"

definition desired_sync_names :: "node_pool \<Rightarrow> string" where
  "desired_sync_names pool = ''ANY 1 ('' @ join '', '' (sort (other_slots pool)) @ '')''"

definition sync_names_setting :: string where
  "sync_names_setting = ''synchronous_standby_names''"

definition ensure_quorum_commit ::
  "role_cfg \<Rightarrow> exec_answers \<Rightarrow> bool \<Rightarrow> role_executor \<Rightarrow> role_executor \<times> exec_call list" where
  "ensure_quorum_commit cfg an force st =
     (let limited = (\<not> force \<and> (case ex_sync_arm_last_probe st of
                       Some t \<Rightarrow> xa_now an - t < sync_arm_probe_interval | None \<Rightarrow> False))
      in if limited then (st, [])
         else
           let st = st\<lparr>ex_sync_arm_last_probe := Some (xa_now an)\<rparr>;
               desired = desired_sync_names (rx_pool cfg)
           in if other_slots (rx_pool cfg) = [] then (st, [])
              else case xa_setting an of
                  Inl _ \<Rightarrow> (st, [ECSetting sync_names_setting])
                | Inr current \<Rightarrow>
                    if current = desired then (st, [ECSetting sync_names_setting])
                    else if current = [] then
                      (case xa_connected an of
                         Inr names \<Rightarrow>
                           if names \<noteq> [] then
                             (st, [ECSetting sync_names_setting, ECConnectedStandbys,
                                   ECSetSyncNames desired])
                           else (st, [ECSetting sync_names_setting, ECConnectedStandbys])
                       | Inl _ \<Rightarrow> (st, [ECSetting sync_names_setting, ECConnectedStandbys]))
                    else (st, [ECSetting sync_names_setting, ECSetSyncNames desired]))"

section \<open>Self-attach\<close>

definition ensure_self_attached :: "exec_answers \<Rightarrow> role_executor \<Rightarrow> role_executor \<times> exec_call list" where
  "ensure_self_attached an st =
     (let limited = (case ex_self_attach_last_probe st of
                       Some t \<Rightarrow> xa_now an - t < self_attach_probe_interval | None \<Rightarrow> False)
      in if limited then (st, [])
         else if ex_self_attach_in_flight st then (st, [])
         else (st\<lparr>ex_self_attach_in_flight := True, ex_self_attach_last_probe := Some (xa_now an)\<rparr>,
               [ECSpawnProbe]))"

definition probe_finished :: "role_executor \<Rightarrow> role_executor" where
  "probe_finished st = st\<lparr>ex_self_attach_in_flight := False\<rparr>"

text \<open>The probe's body, over the answers of the local pgpool; the second component says whether an
  attach was issued.\<close>

definition self_attach_probe ::
  "(string, 'f node_info list) result \<Rightarrow> (string, unit) result \<Rightarrow> i32 \<Rightarrow> (string, bool) result \<times> bool" where
  "self_attach_probe info attach local_id =
     (case info of
        Inl e \<Rightarrow> (Inl e, False)
      | Inr nodes \<Rightarrow>
          (case List.find (\<lambda>n. ni_id n = local_id) nodes of
             None \<Rightarrow> (Inl (''local backend '' @ show_int local_id @ '' missing from pcp_node_info output ('' @
                            show_nat (length nodes) @ '' rows)''), False)
           | Some me \<Rightarrow>
               if is_up me then (Inr False, False)
               else case attach of
                   Inl e \<Rightarrow> (Inl (''self-attach of backend '' @ show_int local_id @ '': '' @ e), True)
                 | Inr _ \<Rightarrow> (Inr True, True)))"

section \<open>Promotion\<close>

text \<open>The slot loop stops at the first failure.\<close>

fun create_slots :: "exec_answers \<Rightarrow> string list \<Rightarrow> exec_call list" where
  "create_slots an [] = []"
| "create_slots an (s # ss) =
     ECCreateSlot s # (if is_ok (xa_create_slot an s) then create_slots an ss else [])"

definition ensure_primary ::
  "role_cfg \<Rightarrow> exec_answers \<Rightarrow> u64 \<Rightarrow> role_executor \<Rightarrow> role_executor \<times> exec_call list" where
  "ensure_primary cfg an t st =
     (if xa_state an = Primary then (st, [ECState])
      else
        let local_id = np_local_node_id (rx_pool cfg);
            op_id = ok_opt (xa_begin an);
            pre = [ECState, ECJournalBegin local_id t, ECPromoteAndWait (rx_promote_deadline cfg)]
        in case xa_promote an of
             Inr _ \<Rightarrow>
               let st = st\<lparr>ex_confirmed_upstream := None\<rparr>;
                   slots = create_slots an (other_slots (rx_pool cfg));
                   done = (case op_id of Some i \<Rightarrow> [ECJournalComplete i] | None \<Rightarrow> []);
                   (st, qc) = ensure_quorum_commit cfg an True st;
                   (st, sa) = ensure_self_attached an st
               in (st, pre @ slots @ done @ qc @ sa)
           | Inl _ \<Rightarrow>
               (st, pre @ (case op_id of Some i \<Rightarrow> [ECJournalAbandon i] | None \<Rightarrow> [])))"

section \<open>Following\<close>

text \<open>The errors a follow ends with: a node the pool does not know, or a collaborator's message.\<close>

datatype follow_error = FNode agent_error | FMessage string

definition exec_follow ::
  "role_cfg \<Rightarrow> exec_answers \<Rightarrow> i32 \<Rightarrow> (follow_error, unit) result \<times> exec_call list" where
  "exec_follow cfg an holder =
     (case local_node (rx_pool cfg) of
        Inl e \<Rightarrow> (Inl (FNode e), [])
      | Inr me \<Rightarrow>
     (case node_by_id (rx_pool cfg) holder of
        Inl e \<Rightarrow> (Inl (FNode e), [])
      | Inr hn \<Rightarrow>
          let slot = slot_name me in
          case xa_peer_client an of
            Inl e \<Rightarrow> (Inl (FMessage e), [ECPeerClient holder])
          | Inr _ \<Rightarrow>
              (case xa_peer_create_slot an of
                 Inl e \<Rightarrow> (Inl (FMessage (''create slot '' @ slot @ '' on holder: '' @ e)),
                           [ECPeerClient holder, ECPeerCreateSlot holder slot])
               | Inr _ \<Rightarrow>
                   (map_sum FMessage id (xa_follow an),
                    [ECPeerClient holder, ECPeerCreateSlot holder slot,
                     ECFollow \<lparr>up_host = nc_hostname hn, up_port = rx_pg_port cfg,
                               up_repl_user = rx_repl_user cfg, up_slot_name = slot\<rparr>]))))"

definition converge_follow ::
  "role_cfg \<Rightarrow> exec_answers \<Rightarrow> i32 \<Rightarrow> role_executor \<Rightarrow> role_executor \<times> exec_call list" where
  "converge_follow cfg an holder st =
     (case xa_state an of
        Primary \<Rightarrow> (case fence st of (st, cs) \<Rightarrow> (st, ECState # cs))
      | Standby streaming \<Rightarrow>
          if ex_confirmed_upstream st = Some holder then
            if streaming
            then (st\<lparr>ex_follow_stalled_since := None, ex_follow_wedged := False\<rparr>, [ECState])
            else
              let since = unwrap_or (ex_follow_stalled_since st) (xa_now an);
                  st = st\<lparr>ex_follow_stalled_since := Some since\<rparr>
              in if rx_promote_deadline cfg \<le> xa_now an - since
                 then (st\<lparr>ex_follow_wedged := True, ex_confirmed_upstream := None,
                          ex_follow_stalled_since := None\<rparr>, [ECState])
                 else (st, [ECState])
          else
            (case exec_follow cfg an holder of
               (Inr _, cs) \<Rightarrow>
                 (st\<lparr>ex_confirmed_upstream := Some holder, ex_follow_stalled_since := None\<rparr>,
                  ECState # cs)
             | (Inl _, cs) \<Rightarrow> (st, ECState # cs))
      | Down \<Rightarrow> (st, [ECState])
      | Unknown \<Rightarrow> (st, [ECState]))"

section \<open>One decision\<close>

definition exec_apply ::
  "role_cfg \<Rightarrow> exec_answers \<Rightarrow> ha_decision \<Rightarrow> role_executor \<Rightarrow> role_executor \<times> exec_call list" where
  "exec_apply cfg an d st =
     (let primary_steady =
            (let st = st\<lparr>ex_confirmed_upstream := None, ex_follow_stalled_since := None,
                        ex_follow_wedged := False\<rparr>;
                 (st, qc) = ensure_quorum_commit cfg an False st;
                 (st, sa) = ensure_self_attached an st
             in (st, qc @ sa))
      in case d of
           TookOver t already \<Rightarrow> if already then primary_steady else ensure_primary cfg an t st
         | AwaitingPromotion t _ \<Rightarrow> ensure_primary cfg an t st
         | WouldDemote _ \<Rightarrow> fence st
         | Following holder \<Rightarrow> converge_follow cfg an holder st
         | WouldFollowNewHolder _ holder \<Rightarrow> converge_follow cfg an holder st
         | DetachingFromDeposed _ \<Rightarrow>
             (st\<lparr>ex_confirmed_upstream := None, ex_follow_stalled_since := None\<rparr>, [ECStopReceiving])
         | RetainedLease _ \<Rightarrow> primary_steady
         | Paused \<Rightarrow> (st, [])
         | StoreUnknown _ \<Rightarrow> (st, [])
         | HolderUnhealthy _ _ \<Rightarrow> (st, [])
         | StoodDown _ \<Rightarrow> (st, [])
         | LostTakeover _ \<Rightarrow> (st, []))"

section \<open>What each part can call\<close>

definition quorum_call :: "node_pool \<Rightarrow> exec_call \<Rightarrow> bool" where
  "quorum_call pool c \<longleftrightarrow>
     c = ECSetting sync_names_setting \<or> c = ECConnectedStandbys \<or>
     c = ECSetSyncNames (desired_sync_names pool) \<and> other_slots pool \<noteq> []"

lemma quorum_calls:
  "ensure_quorum_commit cfg an f st = (st', cs) \<Longrightarrow> list_all (quorum_call (rx_pool cfg)) cs"
  by (auto simp: ensure_quorum_commit_def quorum_call_def Let_def split: if_splits sum.splits)

lemma attach_calls: "ensure_self_attached an st = (st', cs) \<Longrightarrow> cs = [] \<or> cs = [ECSpawnProbe]"
  by (auto simp: ensure_self_attached_def Let_def split: if_splits)

lemma create_slots_calls:
  "c \<in> set (create_slots an ss) \<Longrightarrow> \<exists>s \<in> set ss. c = ECCreateSlot s"
  by (induction ss) (auto split: if_splits)

lemma exec_follow_calls:
  "exec_follow cfg an h = (r, cs) \<Longrightarrow> c \<in> set cs \<Longrightarrow>
     c = ECPeerClient h \<or> (\<exists>s. c = ECPeerCreateSlot h s) \<or> (\<exists>u. c = ECFollow u)"
  by (auto simp: exec_follow_def Let_def split: sum.splits)

lemma fence_calls: "fence st = (st', cs) \<Longrightarrow> cs = [ECEnsureStopped]"
  by (simp add: fence_def)

text \<open>Which decisions promote, and which stop.\<close>

definition promotes :: "ha_decision \<Rightarrow> bool" where
  "promotes d = (case d of TookOver _ already \<Rightarrow> \<not> already | AwaitingPromotion _ _ \<Rightarrow> True | _ \<Rightarrow> False)"

definition follows :: "ha_decision \<Rightarrow> i32 option" where
  "follows d = (case d of Following h \<Rightarrow> Some h | WouldFollowNewHolder _ h \<Rightarrow> Some h | _ \<Rightarrow> None)"

lemma primary_steady_calls:
  assumes "ensure_quorum_commit cfg an f st = (st1, qc)" and "ensure_self_attached an st1 = (st2, sa)"
  shows "\<forall>c \<in> set (qc @ sa). quorum_call (rx_pool cfg) c \<or> c = ECSpawnProbe"
  using quorum_calls [OF assms(1)] attach_calls [OF assms(2)] by (auto simp: list_all_iff)

lemma ensure_primary_set:
  assumes "ensure_primary cfg an t st = (st', cs)" and "c \<in> set cs"
    and q: "ensure_quorum_commit cfg an True (st\<lparr>ex_confirmed_upstream := None\<rparr>) = (st1, qc)"
  shows "c = ECState \<or>
    (xa_state an \<noteq> Primary \<and>
     (c = ECJournalBegin (np_local_node_id (rx_pool cfg)) t \<or> c = ECPromoteAndWait (rx_promote_deadline cfg) \<or>
      (\<exists>i. c = ECJournalComplete i) \<or> (\<exists>i. c = ECJournalAbandon i) \<or> (\<exists>s. c = ECCreateSlot s) \<or>
      c \<in> set qc \<or> c = ECSpawnProbe))"
proof (cases "xa_state an = Primary")
  case True
  with assms show ?thesis by (auto simp: ensure_primary_def)
next
  case False
  obtain st2 sa where a: "ensure_self_attached an st1 = (st2, sa)" by fastforce
  have sl: "\<exists>s. c = ECCreateSlot s" if "c \<in> set (create_slots an (other_slots (rx_pool cfg)))"
    using create_slots_calls [OF that] by blast
  show ?thesis
  proof (cases "xa_promote an")
    case (Inl e)
    with False assms(1,2) show ?thesis
      by (cases "ok_opt (xa_begin an)") (auto simp: ensure_primary_def)
  next
    case (Inr u)
    with False assms(1) q a
    have "set cs \<subseteq> {ECState, ECJournalBegin (np_local_node_id (rx_pool cfg)) t,
                     ECPromoteAndWait (rx_promote_deadline cfg)} \<union>
             set (create_slots an (other_slots (rx_pool cfg))) \<union> range ECJournalComplete \<union> set qc \<union> set sa"
      by (cases "ok_opt (xa_begin an)") (auto simp: ensure_primary_def Let_def)
    with assms(2) sl attach_calls [OF a] False show ?thesis by auto
  qed
qed

lemma ensure_primary_calls:
  assumes "ensure_primary cfg an t st = (st', cs)"
  shows "ECPromoteAndWait (rx_promote_deadline cfg) \<in> set cs \<longleftrightarrow> xa_state an \<noteq> Primary"
    and "ECEnsureStopped \<notin> set cs" and "ECStopReceiving \<notin> set cs"
    and "ECSetSyncNames v \<in> set cs \<Longrightarrow>
           \<exists>st0 st1 qc. ensure_quorum_commit cfg an True st0 = (st1, qc) \<and> ECSetSyncNames v \<in> set qc"
proof -
  obtain st1 qc where q: "ensure_quorum_commit cfg an True (st\<lparr>ex_confirmed_upstream := None\<rparr>) = (st1, qc)"
    by fastforce
  note el = ensure_primary_set [OF assms _ q] and ql = quorum_calls [OF q, unfolded list_all_iff quorum_call_def]
  show "ECPromoteAndWait (rx_promote_deadline cfg) \<in> set cs \<longleftrightarrow> xa_state an \<noteq> Primary"
  proof
    assume "ECPromoteAndWait (rx_promote_deadline cfg) \<in> set cs"
    from el [OF this] show "xa_state an \<noteq> Primary" by auto
  next
    assume "xa_state an \<noteq> Primary"
    with assms show "ECPromoteAndWait (rx_promote_deadline cfg) \<in> set cs"
      by (cases "xa_promote an") (auto simp: ensure_primary_def Let_def split: prod.splits)
  qed
  show "ECEnsureStopped \<notin> set cs" "ECStopReceiving \<notin> set cs"
    using el [of ECEnsureStopped] el [of ECStopReceiving] ql by auto
  show "\<exists>st0 st1 qc. ensure_quorum_commit cfg an True st0 = (st1, qc) \<and> ECSetSyncNames v \<in> set qc"
    if "ECSetSyncNames v \<in> set cs"
    using el [OF that] q by auto
qed

lemma converge_calls:
  assumes "converge_follow cfg an h st = (st', cs)"
  shows "ECEnsureStopped \<in> set cs \<longleftrightarrow> xa_state an = Primary"
    and "c \<in> set cs \<Longrightarrow> c \<noteq> ECStopReceiving \<and> (\<forall>dl. c \<noteq> ECPromoteAndWait dl) \<and>
           (\<forall>v. c \<noteq> ECSetSyncNames v) \<and> (\<forall>u. c = ECFollow u \<longrightarrow> (\<exists>b. xa_state an = Standby b))"
proof -
  obtain r fs where f: "exec_follow cfg an h = (r, fs)" by fastforce
  show "ECEnsureStopped \<in> set cs \<longleftrightarrow> xa_state an = Primary"
    using assms f exec_follow_calls [OF f, of ECEnsureStopped]
    by (auto simp: converge_follow_def fence_def Let_def
        split: instance_state.splits if_splits sum.splits)
  show "c \<in> set cs \<Longrightarrow> c \<noteq> ECStopReceiving \<and> (\<forall>dl. c \<noteq> ECPromoteAndWait dl) \<and>
           (\<forall>v. c \<noteq> ECSetSyncNames v) \<and> (\<forall>u. c = ECFollow u \<longrightarrow> (\<exists>b. xa_state an = Standby b))"
    using assms f exec_follow_calls [OF f, of c]
    by (auto simp: converge_follow_def fence_def Let_def
        split: instance_state.splits if_splits sum.splits)
qed

text \<open>The primary's steady state, as \<open>exec_apply\<close> runs it.\<close>

lemma steady_apply:
  assumes "exec_apply cfg an d st = (st', cs)" and "(\<exists>t. d = RetainedLease t) \<or> (\<exists>t. d = TookOver t True)"
  shows "\<forall>c \<in> set cs. quorum_call (rx_pool cfg) c \<or> c = ECSpawnProbe"
proof -
  let ?st = "st\<lparr>ex_confirmed_upstream := None, ex_follow_stalled_since := None, ex_follow_wedged := False\<rparr>"
  obtain st1 qc where q: "ensure_quorum_commit cfg an False ?st = (st1, qc)" by fastforce
  obtain st2 sa where a: "ensure_self_attached an st1 = (st2, sa)" by fastforce
  have "cs = qc @ sa" using assms q a by (auto simp: exec_apply_def)
  with primary_steady_calls [OF q a] show ?thesis by simp
qed

lemma apply_follow: "follows d = Some h \<Longrightarrow> exec_apply cfg an d st = converge_follow cfg an h st"
  by (cases d) (simp_all add: exec_apply_def follows_def)

lemma apply_promote: "promotes d \<Longrightarrow> \<exists>t. exec_apply cfg an d st = ensure_primary cfg an t st"
  by (cases d) (auto simp: exec_apply_def promotes_def)

section \<open>Properties\<close>

lemma promotes_decision:
  "promotes d \<Longrightarrow> (\<exists>t. d = TookOver t False) \<or> (\<exists>t w. d = AwaitingPromotion t w)"
  by (cases d) (auto simp: promotes_def)

text \<open>
  The destructive acts happen exactly when they should. Whatever the collaborators answer: the
  local PostgreSQL is stopped if and only if the decision is to demote, or the decision is to follow
  another holder while the instance runs as primary; it is promoted if and only if the decision is a
  takeover by a non-primary or a pending promotion, and it is not a primary yet; its walreceiver is
  detached if and only if the decision says so. In particular no answer of the journal, of the
  database or of a peer can prevent the stop or the promotion.
\<close>

theorem destructive_acts_exact:
  "(ECEnsureStopped \<in> set (snd (exec_apply cfg an d st)) \<longleftrightarrow>
      (\<exists>r. d = WouldDemote r) \<or> (follows d \<noteq> None \<and> xa_state an = Primary)) \<and>
   (ECPromoteAndWait (rx_promote_deadline cfg) \<in> set (snd (exec_apply cfg an d st)) \<longleftrightarrow>
      promotes d \<and> xa_state an \<noteq> Primary) \<and>
   (ECStopReceiving \<in> set (snd (exec_apply cfg an d st)) \<longleftrightarrow> (\<exists>h. d = DetachingFromDeposed h))"
proof -
  obtain st' cs where x: "exec_apply cfg an d st = (st', cs)" by fastforce
  consider (follow) h where "follows d = Some h" | (prom) "promotes d" "follows d = None"
    | (steady) "(\<exists>t. d = RetainedLease t) \<or> (\<exists>t. d = TookOver t True)"
    | (other) "follows d = None" "\<not> promotes d" "\<not> ((\<exists>t. d = RetainedLease t) \<or> (\<exists>t. d = TookOver t True))"
    by fastforce
  thus ?thesis
  proof cases
    case follow
    hence c: "converge_follow cfg an h st = (st', cs)" using x by (simp add: apply_follow)
    from follow have "\<not> promotes d" "\<forall>r. d \<noteq> WouldDemote r" "\<forall>h. d \<noteq> DetachingFromDeposed h"
      by (cases d; simp add: follows_def promotes_def)+
    with follow converge_calls [OF c] x show ?thesis by auto
  next
    case prom
    obtain t where e: "ensure_primary cfg an t st = (st', cs)"
      using x apply_promote [OF prom(1), of cfg an st] by auto
    note d = promotes_decision [OF prom(1)]
    from d prom ensure_primary_calls(1,2,3) [OF e] x show ?thesis by (auto simp: follows_def)
  next
    case steady
    have "ECEnsureStopped \<notin> set cs" "ECStopReceiving \<notin> set cs" "\<forall>dl. ECPromoteAndWait dl \<notin> set cs"
      using steady_apply [OF x steady] by (auto simp: quorum_call_def)
    with steady x show ?thesis by (auto simp: follows_def promotes_def)
  next
    case other
    with x show ?thesis
      by (cases d) (auto simp: exec_apply_def follows_def promotes_def fence_def split: if_splits)
  qed
qed

lemma quorum_arms_on_evidence:
  assumes "ensure_quorum_commit cfg an f st = (st', cs)" and "ECSetSyncNames v \<in> set cs"
  shows "xa_setting an = Inr [] \<Longrightarrow> \<exists>names. xa_connected an = Inr names \<and> names \<noteq> []"
    and "v = desired_sync_names (rx_pool cfg)" and "xa_setting an \<noteq> Inr v" and "other_slots (rx_pool cfg) \<noteq> []"
  using assms
  by (auto simp: ensure_quorum_commit_def Let_def split: if_splits sum.splits)

lemma sync_names_from_quorum:
  assumes "exec_apply cfg an d st = (st', cs)" and "ECSetSyncNames v \<in> set cs"
  shows "\<exists>f st0 st1 qc. ensure_quorum_commit cfg an f st0 = (st1, qc) \<and> ECSetSyncNames v \<in> set qc"
proof (cases "follows d")
  case (Some h)
  with assms have "converge_follow cfg an h st = (st', cs)" by (simp add: apply_follow)
  from converge_calls(2) [OF this assms(2)] show ?thesis by simp
next
  case None
  show ?thesis
  proof (cases "promotes d")
    case True
    then obtain t where "ensure_primary cfg an t st = (st', cs)"
      using apply_promote [of d cfg an st] assms(1) by auto
    from ensure_primary_calls(4) [OF this assms(2)] show ?thesis by blast
  next
    case False
    let ?st = "st\<lparr>ex_confirmed_upstream := None, ex_follow_stalled_since := None, ex_follow_wedged := False\<rparr>"
    obtain st1 qc where q: "ensure_quorum_commit cfg an False ?st = (st1, qc)" by fastforce
    obtain st2 sa where a: "ensure_self_attached an st1 = (st2, sa)" by fastforce
    have "ECSetSyncNames v \<in> set qc"
      using assms None False q a attach_calls [OF a]
      by (cases d) (auto simp: exec_apply_def follows_def promotes_def fence_def split: if_splits)
    with q show ?thesis by blast
  qed
qed

text \<open>
  Quorum commit is never disarmed by the agent. Whatever the decision and the answers, the only
  value ever written to \<open>synchronous_standby_names\<close> is \<open>ANY 1\<close> over the slots of the other members,
  with at least one member in it; and when the setting was empty, it is written only after a standby
  was seen connected.
\<close>

theorem quorum_commit_never_disarmed:
  assumes "ECSetSyncNames v \<in> set (snd (exec_apply cfg an d st))"
  shows "v = desired_sync_names (rx_pool cfg) \<and> v \<noteq> [] \<and> other_slots (rx_pool cfg) \<noteq> [] \<and>
         xa_setting an \<noteq> Inr v \<and>
         (xa_setting an = Inr [] \<longrightarrow> (\<exists>names. xa_connected an = Inr names \<and> names \<noteq> []))"
proof -
  obtain f st0 st1 qc where q: "ensure_quorum_commit cfg an f st0 = (st1, qc)" "ECSetSyncNames v \<in> set qc"
    using sync_names_from_quorum [OF prod.collapse [symmetric] assms] by blast
  from quorum_arms_on_evidence [OF q] show ?thesis by (auto simp: desired_sync_names_def)
qed

definition rx_cfg :: role_cfg where
  "rx_cfg = \<lparr>rx_pool = ha_pool, rx_promote_deadline = secs 30, rx_pg_port = 5432, rx_repl_user = ''repl''\<rparr>"

definition rx_answers :: exec_answers where
  "rx_answers = \<lparr>xa_now = secs 100, xa_state = Standby True, xa_begin = Inl ''disk full'',
     xa_complete = Inr (), xa_abandon = Inr (), xa_promote = Inr (), xa_create_slot = (\<lambda>_. Inr ()),
     xa_stop = Inr (), xa_stop_receiving = Inr (), xa_setting = Inr [],
     xa_connected = Inr [''node1''], xa_set_sync = Inr (), xa_peer_client = Inr (),
     xa_peer_create_slot = Inr (), xa_follow = Inr ()\<rparr>"

lemma rx_promotion:
  "snd (exec_apply rx_cfg rx_answers (TookOver 8 False) (role_executor_new False)) =
     [ECState, ECJournalBegin 2 8, ECPromoteAndWait (secs 30), ECCreateSlot ''node1'',
      ECCreateSlot ''node3'', ECSetting sync_names_setting, ECConnectedStandbys,
      ECSetSyncNames ''ANY 1 (node1, node3)'', ECSpawnProbe]"
  by (simp add: exec_apply_def ensure_primary_def rx_cfg_def rx_answers_def ha_pool_def other_slots_def
      slot_name_def ensure_quorum_commit_def ensure_self_attached_def role_executor_new_def
      desired_sync_names_def Let_def show_int_def show_nat_def show_radix.simps)

theorem quorum_commit_never_disarmed_witness:
  "''ANY 1 (node1, node3)'' = desired_sync_names ha_pool \<and>
   (\<exists>names. xa_connected rx_answers = Inr names \<and> names \<noteq> [])"
proof -
  have "ECSetSyncNames ''ANY 1 (node1, node3)'' \<in>
      set (snd (exec_apply rx_cfg rx_answers (TookOver 8 False) (role_executor_new False)))"
    unfolding rx_promotion by simp
  from quorum_commit_never_disarmed [OF this] show ?thesis by (simp add: rx_cfg_def rx_answers_def)
qed

text \<open>
  Following converges and then costs nothing. Once a follow of the holder has succeeded, every
  later tick on a streaming standby only reads the instance state and clears the wedge flag; and if
  the stream does not come up, the first tick at or after the grace raises the wedge flag and forgets
  the confirmation, so that the following tick runs the follow again.
\<close>

theorem follow_converges:
  assumes "xa_state an1 = Standby b" and "ex_confirmed_upstream st \<noteq> Some h"
    and "exec_follow cfg an1 h = (Inr (), cs1)"
    and "converge_follow cfg an1 h st = (st1, calls1)"
  shows "ex_confirmed_upstream st1 = Some h \<and> calls1 = ECState # cs1 \<and>
    (xa_state an2 = Standby True \<longrightarrow>
       converge_follow cfg an2 h st1 =
         (st1\<lparr>ex_follow_stalled_since := None, ex_follow_wedged := False\<rparr>, [ECState])) \<and>
    (xa_state an2 = Standby False \<and> xa_state an3 = Standby False \<and>
     0 < rx_promote_deadline cfg \<and> xa_now an2 + rx_promote_deadline cfg \<le> xa_now an3 \<longrightarrow>
       (let (st2, c2) = converge_follow cfg an2 h st1; (st3, c3) = converge_follow cfg an3 h st2
        in \<not> list_ex (\<lambda>c. c = ECEnsureStopped) (c2 @ c3) \<and> ex_follow_wedged st3 \<and>
           ex_confirmed_upstream st3 = None))"
proof -
  have st1: "st1 = st\<lparr>ex_confirmed_upstream := Some h, ex_follow_stalled_since := None\<rparr>"
    "calls1 = ECState # cs1"
    using assms by (simp_all add: converge_follow_def)
  have w: "rx_promote_deadline cfg \<le> xa_now an3 - xa_now an2" if
    "xa_now an2 + rx_promote_deadline cfg \<le> xa_now an3" using that by simp
  show ?thesis
    using w by (simp add: st1 converge_follow_def Let_def)
qed

theorem follow_converges_witness:
  "ex_confirmed_upstream (fst (converge_follow rx_cfg rx_answers 1 (role_executor_new False))) = Some 1"
proof -
  let ?f = "exec_follow rx_cfg rx_answers 1"
  have f: "?f = (Inr (), snd ?f)"
    by (simp add: exec_follow_def local_node_def node_by_id_def find_by_id_def rx_cfg_def ha_pool_def
        rx_answers_def Let_def)
  have "xa_state rx_answers = Standby True" "ex_confirmed_upstream (role_executor_new False) \<noteq> Some 1"
    by (simp_all add: rx_answers_def role_executor_new_def)
  from follow_converges [OF this f prod.collapse [symmetric]] show ?thesis by blast
qed

end
