(* ===== verification/AgentLoop.thy ===== *)
theory AgentLoop
  imports RaftConsensus RoleExec
begin

text \<open>
  The HA loop with its executor attached (\<open>run\<close> in \<open>crates/pg-agent-core/src/ha.rs\<close>), on one node
  and on a whole pool.

  \<open>run_step\<close> is one pass of the loop of \<open>run\<close>: tick, log, act. \<open>node_step\<close> is the same pass on a node
  whose store is the Raft-backed one, and \<open>cluster_run\<close> interleaves the passes of the nodes of a pool
  over one shared Raft world. Each node keeps its own tick state, sightings, cached channels and
  executor. What the world does between two passes, and between the read and the write of one pass,
  is part of the schedule.
\<close>

section \<open>One pass\<close>

definition run_step ::
  "'s consensus_store \<Rightarrow> role_cfg \<Rightarrow> ha_timing \<Rightarrow> 's tick_env \<Rightarrow> exec_answers \<Rightarrow> 's ha_world \<Rightarrow>
     role_executor \<Rightarrow> (ha_decision \<times> log_level \<times> exec_call list) \<times> 's ha_world \<times> role_executor" where
  "run_step ops cfg tm env an hw ex =
     (let (d, hw) = tick_once ops (rx_pool cfg) tm env hw;
          (lvl, ts) = log_decision d (hw_tick hw);
          (ex, calls) = exec_apply cfg an d ex
      in ((d, lvl, calls), hw\<lparr>hw_tick := ts\<rparr>, ex))"

section \<open>A pool of nodes\<close>

record agent_node =
  ag_me :: nat
  ag_cfg :: role_cfg
  ag_timing :: ha_timing
  ag_tick :: tick_state
  ag_seen :: "peer_seen option"
  ag_channels :: "string list"
  ag_exec :: role_executor

definition node_step ::
  "'s raft_world \<Rightarrow> 's rc_state tick_env \<Rightarrow> exec_answers \<Rightarrow> agent_node \<Rightarrow> 's \<Rightarrow>
     (ha_decision \<times> log_level \<times> exec_call list) \<times> agent_node \<times> 's" where
  "node_step w env an n s =
     (let hw = \<lparr>hw_tick = ag_tick n, hw_seen = ag_seen n,
                hw_store = \<lparr>rc_world = s, rc_channels = ag_channels n\<rparr>\<rparr>;
          (out, hw, ex) = run_step (rc_ops w (ag_me n)) (ag_cfg n) (ag_timing n) env an hw (ag_exec n)
      in (out, n\<lparr>ag_tick := hw_tick hw, ag_seen := hw_seen hw,
                 ag_channels := rc_channels (hw_store hw), ag_exec := ex\<rparr>,
          rc_world (hw_store hw)))"

record 's pass =
  ps_node :: nat
  ps_before :: "'s \<Rightarrow> 's"
  ps_env :: "'s rc_state tick_env"
  ps_answers :: exec_answers

fun cluster_run ::
  "'s raft_world \<Rightarrow> 's pass list \<Rightarrow> (nat \<Rightarrow> agent_node) \<Rightarrow> 's \<Rightarrow>
     (i32 \<times> ha_decision \<times> exec_call list) list \<times> (nat \<Rightarrow> agent_node) \<times> 's" where
  "cluster_run w [] nodes s = ([], nodes, s)"
| "cluster_run w (p # ps) nodes s =
     (let n = nodes (ps_node p);
          ((d, lvl, calls), n', s') = node_step w (ps_env p) (ps_answers p) n (ps_before p s);
          (log, nodes', s'') = cluster_run w ps (nodes(ps_node p := n')) s'
      in ((np_local_node_id (rx_pool (ag_cfg n)), d, calls) # log, nodes', s''))"

text \<open>The promotions of a run, each with the node that ran it and the term it ran under.\<close>

definition promote_call :: "exec_call \<Rightarrow> bool" where
  "promote_call c = (case c of ECPromoteAndWait _ \<Rightarrow> True | _ \<Rightarrow> False)"

definition decision_term :: "ha_decision \<Rightarrow> u64" where
  "decision_term d = (case d of TookOver t _ \<Rightarrow> t | AwaitingPromotion t _ \<Rightarrow> t | _ \<Rightarrow> 0)"

definition promotions :: "(i32 \<times> ha_decision \<times> exec_call list) list \<Rightarrow> (i32 \<times> u64) list" where
  "promotions log =
     map (\<lambda>(i, d, calls). (i, decision_term d)) (filter (\<lambda>(i, d, calls). list_ex promote_call calls) log)"

lemma promote_call_iff: "promote_call c \<longleftrightarrow> (\<exists>dl. c = ECPromoteAndWait dl)"
  by (cases c) (simp_all add: promote_call_def)

section \<open>When a tick promotes\<close>

lemma candidacy_not_awaiting [simp]:
  "consider_candidacy ops tm env i x lv peers ts s \<noteq> (AwaitingPromotion t w, r)"
  by (auto simp: consider_candidacy_def propose_takeover_def early_gates_def backoff_gate_def
      witness_gate_def freeze_gate_def Let_def
      split: option.splits if_splits prod.splits sum.splits takeover_outcome.splits)

lemma own_lease_awaiting:
  assumes "own_lease_arm ops tm env i l lv ts s = (AwaitingPromotion t w, ts', s')"
  shows "t = lease_term l \<and> w < leader_ttl tm \<and> s' = s"
  using assms
  by (auto simp: own_lease_arm_def promotion_grace_def Let_def
      split: option.splits bool.splits if_splits prod.splits)

lemma lease_arm_awaiting:
  assumes "lease_arm ops tm env i le lv peers ts s = (AwaitingPromotion t w, ts', s')"
  shows "\<exists>l. le = Some l \<and> lease_holder l = i \<and> lease_term l = t \<and> w < leader_ttl tm \<and> s' = s"
proof (cases le)
  case None
  with assms show ?thesis
    by (auto simp: lease_arm_def vacant_arm_def split: list.splits if_splits)
next
  case (Some l)
  have "\<not> lease_holder l \<noteq> i"
    using assms Some
    by (auto simp: lease_arm_def other_lease_arm_def Let_def case_prod_beta
        split: option.splits if_splits)
  hence h: "lease_holder l = i" by simp
  with assms Some have "own_lease_arm ops tm env i l lv ts s = (AwaitingPromotion t w, ts', s')"
    by (simp add: lease_arm_def)
  from own_lease_awaiting [OF this] Some h show ?thesis by auto
qed

lemma tick_awaiting:
  assumes "tick_once ops pool tm env hw = (AwaitingPromotion t w, hw')"
  shows "\<exists>st l. st_read_state ops (hw_store hw) = (Inr st, hw_store hw') \<and> cs_lease st = Some l \<and>
    lease_holder l = np_local_node_id pool \<and> lease_term l = t \<and> w < leader_ttl tm"
proof -
  obtain r s where r: "st_read_state ops (hw_store hw) = (r, s)" by fastforce
  obtain peers seen where p: "observe_peers pool env (hw_seen hw) = (peers, seen)" by fastforce
  have nu: "fst (store_unknown_arm tm i now x) \<noteq> AwaitingPromotion t w" for i now x
    by (simp add: store_unknown_arm_def Let_def)
  from assms nu obtain st where st: "r = Inr st" "cs_paused st = None" "env_read_in_time env"
    unfolding tick_once_eq [OF r p]
    by (cases r) (auto split: if_splits prod.splits, (metis fst_conv)+)
  with assms obtain ts' where "lease_arm ops tm env (np_local_node_id pool) (cs_lease st)
      (observe_local (env_db env)) peers ((hw_tick hw)\<lparr>ts_store_unknown_since := None\<rparr>) s =
      (AwaitingPromotion t w, ts', hw_store hw')"
    unfolding tick_once_eq [OF r p] by (auto split: prod.splits)
  from lease_arm_awaiting [OF this] r st show ?thesis by auto
qed

lemma promote_call_promotes:
  assumes "exec_apply cfg an d ex = (ex', calls)" and "list_ex promote_call calls"
  shows "promotes d"
proof (rule ccontr)
  assume np: "\<not> promotes d"
  from assms(2) obtain dl where c: "ECPromoteAndWait dl \<in> set calls"
    by (auto simp: list_ex_iff promote_call_iff)
  show False
  proof (cases "follows d")
    case (Some h)
    with assms(1) have "converge_follow cfg an h ex = (ex', calls)" by (simp add: apply_follow)
    from converge_calls(2) [OF this c] show False by simp
  next
    case None
    show False
    proof (cases "(\<exists>t. d = RetainedLease t) \<or> (\<exists>t. d = TookOver t True)")
      case True
      from steady_apply [OF assms(1) True] c show False by (auto simp: quorum_call_def)
    next
      case False
      with None np assms(1) c show False
        by (cases d) (auto simp: exec_apply_def follows_def promotes_def fence_def split: if_splits)
    qed
  qed
qed

text \<open>A promotion runs under a lease that was won, or read as one's own, during the pass.\<close>

lemma pass_promotes:
  assumes "tick_once ops pool tm env hw = (d, hw')" and "promotes d"
  shows "(\<exists>x s l. st_try_takeover ops (np_local_node_id pool) x (env_wall env) (env_between env s) =
             (Inr (Won l), hw_store hw') \<and> lease_term l = decision_term d \<and>
             (\<exists>st. st_read_state ops (hw_store hw) = (Inr st, s))) \<or>
         (\<exists>st l. st_read_state ops (hw_store hw) = (Inr st, hw_store hw') \<and> cs_lease st = Some l \<and>
             lease_holder l = np_local_node_id pool \<and> lease_term l = decision_term d)"
  using promotes_decision [OF assms(2)]
proof (elim disjE exE)
  fix t assume d: "d = TookOver t False"
  from assms(1) [unfolded d] show ?thesis
  proof (rule tick_took_over)
    fix st s peers seen ts ts'
    assume r: "st_read_state ops (hw_store hw) = (Inr st, s)"
      and cc: "consider_candidacy ops tm env (np_local_node_id pool) (map_option lease_key (cs_lease st))
        (observe_local (env_db env)) peers ts s = (TookOver t False, ts', hw_store hw')"
    from candidacy_took_over(2) [OF cc] r d show ?thesis by (auto simp: decision_term_def)
  qed
next
  fix t w assume d: "d = AwaitingPromotion t w"
  from tick_awaiting [OF assms(1) [unfolded d]] d show ?thesis by (auto simp: decision_term_def)
qed

section \<open>What a tick does to the store\<close>

text \<open>Any preorder on stores that the store's operations and the interference keep is kept by a
  tick.\<close>

lemma candidacy_keeps:
  assumes refl: "\<And>s. R s s" and trans: "\<And>a b c. R a b \<Longrightarrow> R b c \<Longrightarrow> R a c"
    and takeover: "\<And>c x now s r s'. st_try_takeover ops c x now s = (r, s') \<Longrightarrow> R s s'"
    and between: "\<And>s. R s (env_between env s)"
    and "consider_candidacy ops tm env i x lv peers ts s = (d, ts', s')"
  shows "R s s'"
proof (cases rule: consider_candidacy_cases [where ops = ops and tm = tm and env = env and i = i
      and x = x and lv = lv and peers = peers and ts = ts and s = s])
  case (proposed my)
  let ?t = "st_try_takeover ops i x (env_wall env) (env_between env s)"
  have "R s (snd ?t)" using trans [OF between takeover [of i x _ _ "fst ?t"]] by simp
  moreover from proposed(3) assms(5) have "s' = snd ?t"
    by (auto simp: propose_takeover_def split: prod.splits sum.splits takeover_outcome.splits)
  ultimately show ?thesis by simp
qed (use refl assms(5) in auto)

lemma own_lease_keeps:
  assumes refl: "\<And>s. R s s" and trans: "\<And>a b c. R a b \<Longrightarrow> R b c \<Longrightarrow> R a c"
    and release: "\<And>h t s r s'. st_release ops h t s = (r, s') \<Longrightarrow> R s s'"
    and between: "\<And>s. R s (env_between env s)"
    and "own_lease_arm ops tm env i l lv ts s = (d, ts', s')"
  shows "R s s'"
proof -
  have "s' = s \<or> s' = snd (st_release ops i (lease_term l) (env_between env s))"
    using assms(5) by (auto simp: own_lease_arm_def Let_def split: option.splits bool.splits if_splits prod.splits)
  moreover have "R s (snd (st_release ops i (lease_term l) (env_between env s)))"
    by (rule trans [OF between release]) (rule prod.collapse [symmetric])
  ultimately show ?thesis using refl by auto
qed

lemma tick_keeps:
  assumes refl: "\<And>s. R s s" and trans: "\<And>a b c. R a b \<Longrightarrow> R b c \<Longrightarrow> R a c"
    and read: "\<And>s r s'. st_read_state ops s = (r, s') \<Longrightarrow> R s s'"
    and takeover: "\<And>c x now s r s'. st_try_takeover ops c x now s = (r, s') \<Longrightarrow> R s s'"
    and release: "\<And>h t s r s'. st_release ops h t s = (r, s') \<Longrightarrow> R s s'"
    and between: "\<And>s. R s (env_between env s)"
    and "tick_once ops pool tm env hw = (d, hw')"
  shows "R (hw_store hw) (hw_store hw')"
proof -
  obtain r s where r: "st_read_state ops (hw_store hw) = (r, s)" by fastforce
  obtain peers seen where p: "observe_peers pool env (hw_seen hw) = (peers, seen)" by fastforce
  note ck = candidacy_keeps [where R = R, OF refl trans takeover between]
  note ok = own_lease_keeps [where R = R, OF refl trans release between]
  have arm: "R s s'" if "lease_arm ops tm env i le lv peers ts s = (e, ts', s')" for i le lv ts e ts' s'
    using that by (auto simp: lease_arm_def other_lease_arm_def vacant_arm_def Let_def case_prod_beta
        split: option.splits if_splits list.splits intro: refl ok ck)
  have "hw_store hw' = s \<or> (\<exists>i le lv ts e ts'. lease_arm ops tm env i le lv peers ts s = (e, ts', hw_store hw'))"
    using assms(7) unfolding tick_once_eq [OF r p]
    by (auto split: sum.splits if_splits prod.splits)
  with read [OF r] arm trans refl show ?thesis by metis
qed

section \<open>Leases along the committed log\<close>

lemma apply_command_lease:
  assumes "apply_command cmd st = (r, st')"
  shows "cs_lease st' = cs_lease st \<or> cs_lease st' = None \<or>
         (\<exists>l. cs_lease st' = Some l \<and> lease_term l = cs_generation st + 1)"
  using assms
  by (cases cmd) (auto simp: apply_command_spec spec_takeover_def spec_release_def spec_set_paused_def
      spec_set_switchover_def Let_def simp del: apply_command.simps split: if_splits)

lemma run_cmds_lease:
  assumes "gen_n st + length cs < 2 ^ 64" and "g \<le> gen_n st"
    and "cs_lease st = le \<or> (\<forall>l. cs_lease st = Some l \<longrightarrow> g < unat (lease_term l))"
  shows "cs_lease (run_cmds cs st) = le \<or> (\<forall>l. cs_lease (run_cmds cs st) = Some l \<longrightarrow> g < unat (lease_term l))"
  using assms
proof (induction cs arbitrary: st)
  case (Cons c cs)
  let ?st = "snd (apply_command c st)"
  have run: "run_cmds (c # cs) st = run_cmds cs ?st" by (simp add: run_cmds_def)
  have a: "apply_command c st = (fst (apply_command c st), ?st)" by simp
  from Cons.prems have s: "Suc (gen_n st) < 2 ^ 64" by simp
  have "cs_lease ?st = le \<or> (\<forall>l. cs_lease ?st = Some l \<longrightarrow> g < unat (lease_term l))"
    using apply_command_lease [OF a] gen_inc [OF s] Cons.prems(2,3) by auto
  with Cons.IH [of ?st] apply_command_gen [OF a s] Cons.prems(1,2) show ?case unfolding run by simp
qed (simp add: run_cmds_def)

text \<open>A lease is held at some moment while the log grows from \<open>l0\<close> to \<open>l1\<close>.\<close>

definition held_during :: "consensus_command list \<Rightarrow> consensus_command list \<Rightarrow> i32 \<Rightarrow> u64 \<Rightarrow> bool" where
  "held_during l0 l1 i t \<longleftrightarrow>
     (\<exists>l le. prefix l0 l \<and> prefix l l1 \<and> cs_lease (doc_of l) = Some le \<and> lease_holder le = i \<and>
        lease_term le = t)"

lemma held_during_widen:
  "held_during l0 l1 i t \<Longrightarrow> prefix k l0 \<Longrightarrow> prefix l1 m \<Longrightarrow> held_during k m i t"
  unfolding held_during_def by (blast intro: prefix_order.trans)

text \<open>Of two leases held one after the other, the later has the higher term, or it is the same.\<close>

lemma held_in_order:
  assumes "held_during l0 l1 i t" and "held_during l1 l2 j u" and "length l2 < 2 ^ 64"
  shows "t \<le> u \<and> (t = u \<longrightarrow> i = j)"
proof -
  from assms(1) obtain l le where l: "prefix l l1" "cs_lease (doc_of l) = Some le"
    "lease_holder le = i" "lease_term le = t" by (auto simp: held_during_def)
  from assms(2) obtain m me where m: "prefix l1 m" "prefix m l2" "cs_lease (doc_of m) = Some me"
    "lease_holder me = j" "lease_term me = u" by (auto simp: held_during_def)
  from l(1) m(1) obtain k where k: "m = l @ k" by (meson prefix_order.trans prefixE)
  have len: "length m < 2 ^ 64" using prefix_length_le [OF m(2)] assms(3) by simp
  hence b: "gen_n (doc_of l) \<le> length l" "lease_wf (doc_of l)"
    using doc_of_bounds [of l] k by simp_all
  have "gen_n (doc_of l) + length k < 2 ^ 64" using b(1) len k by simp
  from run_cmds_lease [OF this order_refl, of "Some le"] l(2) m(3)
  have "me = le \<or> gen_n (doc_of l) < unat u" unfolding k doc_of_append using m(5) by auto
  moreover have "unat t \<le> gen_n (doc_of l)" using b(2) l(2,4) by (auto simp: lease_wf_def)
  ultimately show ?thesis using l(3,4) m(4,5) by (auto simp: word_le_nat_alt)
qed

section \<open>A pass over the Raft store\<close>

lemma rc_grows:
  assumes "raft_cluster w clog"
  shows "st_read_state (rc_ops w me) s = (r, s') \<Longrightarrow> prefix (clog (rc_world s)) (clog (rc_world s'))"
    and "st_try_takeover (rc_ops w me) c x now s = (q, s') \<Longrightarrow> prefix (clog (rc_world s)) (clog (rc_world s'))"
    and "st_release (rc_ops w me) h t s = (p, s') \<Longrightarrow> prefix (clog (rc_world s)) (clog (rc_world s'))"
  using raft_cluster.rc_read_reads [OF assms, of me s r s'] raft_cluster.rc_ops_grow(1,2) [OF assms]
  by (auto simp: rc_ops_def reads_def)

definition growing :: "('s \<Rightarrow> consensus_command list) \<Rightarrow> 's rc_state tick_env \<Rightarrow> bool" where
  "growing clog env \<longleftrightarrow>
     (\<forall>st. prefix (clog (rc_world st)) (clog (rc_world (env_between env st))))"

lemma pass_held:
  assumes rc: "raft_cluster w clog" and gr: "growing clog env"
    and tick: "tick_once (rc_ops w me) pool tm env hw = (d, hw')" and "promotes d"
  shows "held_during (clog (rc_world (hw_store hw))) (clog (rc_world (hw_store hw')))
           (np_local_node_id pool) (decision_term d)"
  using pass_promotes [OF tick assms(4)]
proof (elim disjE exE conjE)
  fix x s l st
  assume t: "st_try_takeover (rc_ops w me) (np_local_node_id pool) x (env_wall env) (env_between env s) =
      (Inr (Won l), hw_store hw')" "lease_term l = decision_term d"
    and r: "st_read_state (rc_ops w me) (hw_store hw) = (Inr st, s)"
  let ?c = "Takeover (np_local_node_id pool) x (env_wall env)"
  from t(1) have "rc_try_takeover w me (np_local_node_id pool) x (env_wall env) (env_between env s) =
      (Inr (Won l), hw_store hw')" by (simp add: rc_ops_def)
  from raft_cluster.rc_takeover_placed [OF rc this] obtain m where
    m: "prefix (clog (rc_world (env_between env s))) m" "prefix (m @ [?c]) (clog (rc_world (hw_store hw')))"
      "apply_command ?c (doc_of m) = (RTakeover (Won l), doc_of (m @ [?c]))"
    by blast
  have "prefix (clog (rc_world (hw_store hw))) (m @ [?c])"
    using rc_grows(1) [OF rc r] gr m(1) unfolding growing_def by (meson prefix_order.trans prefix_prefix)
  with m(2) apply_takeover_won(2,4) [OF m(3)] t(2) show ?thesis unfolding held_during_def by blast
next
  fix st l
  assume r: "st_read_state (rc_ops w me) (hw_store hw) = (Inr st, hw_store hw')"
    and l: "cs_lease st = Some l" "lease_holder l = np_local_node_id pool" "lease_term l = decision_term d"
  from raft_cluster.rc_read_reads [OF rc, of me "hw_store hw" "Inr st" "hw_store hw'"] r obtain m where
    "prefix (clog (rc_world (hw_store hw))) m" "prefix m (clog (rc_world (hw_store hw')))" "st = doc_of m"
    by (auto simp: reads_def rc_ops_def)
  with l show ?thesis unfolding held_during_def by blast
qed

lemma node_step_held:
  assumes rc: "raft_cluster w clog" and gr: "growing clog env"
    and "node_step w env an n s = ((d, lvl, calls), n', s')"
  shows "prefix (clog s) (clog s')"
    and "list_ex promote_call calls \<Longrightarrow>
           held_during (clog s) (clog s') (np_local_node_id (rx_pool (ag_cfg n))) (decision_term d)"
    and "ag_cfg n' = ag_cfg n"
proof -
  let ?hw = "\<lparr>hw_tick = ag_tick n, hw_seen = ag_seen n,
                hw_store = \<lparr>rc_world = s, rc_channels = ag_channels n\<rparr>\<rparr>"
  obtain hw1 where t: "tick_once (rc_ops w (ag_me n)) (rx_pool (ag_cfg n)) (ag_timing n) env ?hw = (d, hw1)"
    and s': "s' = rc_world (hw_store hw1)" and x: "calls = snd (exec_apply (ag_cfg n) an d (ag_exec n))"
    and c: "ag_cfg n' = ag_cfg n"
    using assms(3) by (auto simp: node_step_def run_step_def Let_def split: prod.splits)
  have "prefix (clog (rc_world (hw_store ?hw))) (clog (rc_world (hw_store hw1)))"
    by (rule tick_keeps [where R = "\<lambda>a b. prefix (clog (rc_world a)) (clog (rc_world b))", OF _ _ _ _ _ _ t])
      (use gr in \<open>auto simp: growing_def intro: rc_grows [OF rc] prefix_order.trans\<close>)
  thus "prefix (clog s) (clog s')" by (simp add: s')
  show "ag_cfg n' = ag_cfg n" by (rule c)
  assume p: "list_ex promote_call calls"
  have "promotes d" by (rule promote_call_promotes [OF _ p]) (simp add: x prod_eq_iff)
  from pass_held [OF rc gr t this] show
    "held_during (clog s) (clog s') (np_local_node_id (rx_pool (ag_cfg n))) (decision_term d)"
    by (simp add: s')
qed

definition fair_pass :: "('s \<Rightarrow> consensus_command list) \<Rightarrow> 's pass \<Rightarrow> bool" where
  "fair_pass clog p \<longleftrightarrow>
     (\<forall>s. prefix (clog s) (clog (ps_before p s))) \<and> growing clog (ps_env p)"

lemma cluster_run_held:
  assumes "raft_cluster w clog" and "list_all (fair_pass clog) ps"
    and "cluster_run w ps nodes s = (log, nodes', s')" and "length (clog s') < 2 ^ 64"
  shows "prefix (clog s) (clog s') \<and>
    (\<forall>(i, t) \<in> set (promotions log). held_during (clog s) (clog s') i t) \<and>
    sorted_wrt (\<lambda>(i, t) (j, u). t \<le> u \<and> (t = u \<longrightarrow> i = j)) (promotions log)"
  using assms(2-)
proof (induction ps arbitrary: nodes s log nodes')
  case (Cons p ps)
  let ?n = "nodes (ps_node p)" and ?i = "np_local_node_id (rx_pool (ag_cfg (nodes (ps_node p))))"
  obtain d lvl calls n' s1 where st: "node_step w (ps_env p) (ps_answers p) ?n (ps_before p s) =
      ((d, lvl, calls), n', s1)" by (metis surj_pair)
  obtain log1 nodes1 s2 where run: "cluster_run w ps (nodes(ps_node p := n')) s1 = (log1, nodes1, s2)"
    by (metis surj_pair)
  have e: "s2 = s'" "log = (?i, d, calls) # log1" using Cons.prems(2) st run by (simp_all add: Let_def)
  from Cons.prems(1) have pb: "prefix (clog s) (clog (ps_before p s))" and gr: "growing clog (ps_env p)"
    and fair: "list_all (fair_pass clog) ps"
    by (simp_all add: fair_pass_def [of clog p])
  note IH = Cons.IH [OF fair run [unfolded e] Cons.prems(3)]
  note ns = node_step_held [OF assms(1) gr st]
  have s01: "prefix (clog s) (clog s1)" using pb ns(1) by (rule prefix_order.trans)
  from IH have tail: "prefix (clog s1) (clog s')"
    "\<And>j u. (j, u) \<in> set (promotions log1) \<Longrightarrow> held_during (clog s1) (clog s') j u"
    "sorted_wrt (\<lambda>(i, t) (j, u). t \<le> u \<and> (t = u \<longrightarrow> i = j)) (promotions log1)" by auto
  have wide: "held_during (clog s) (clog s') j u" if "(j, u) \<in> set (promotions log1)" for j u
    using held_during_widen [OF tail(2) [OF that] s01] by simp
  show ?case
  proof (cases "list_ex promote_call calls")
    case False
    hence "promotions log = promotions log1" by (simp add: e promotions_def)
    with wide tail(3) prefix_order.trans [OF s01 tail(1)] show ?thesis by auto
  next
    case True
    hence pl: "promotions log = (?i, decision_term d) # promotions log1" by (simp add: e promotions_def)
    have h: "held_during (clog s) (clog s1) ?i (decision_term d)"
      using held_during_widen [OF ns(2) [OF True] pb] by simp
    from held_in_order [OF h tail(2) Cons.prems(3)] wide tail(3) held_during_widen [OF h _ tail(1)]
      prefix_order.trans [OF s01 tail(1)]
    show ?thesis unfolding pl by auto
  qed
qed (simp add: promotions_def)

end
