(* ===== verification/FileStore.thy ===== *)
theory FileStore
  imports Config "HOL-Library.AList"
begin

text \<open>
  The directory of JSON files under the three durable stores (\<open>inflight_ops.rs\<close>, \<open>maintenance.rs\<close>,
  \<open>replay_markers.rs\<close>): each writes one file per document with the same write-to-temporary-and-rename
  and reads the directory with the same scan.

  A directory is an association list from file names to what reading the file yields: \<open>Inr a\<close> for a
  file that parses as the document \<open>a\<close>, \<open>Inl e\<close> for one that cannot be read or parsed. Writing a
  document and reading it back gives the same document (\<open>serde_json\<close>). What the file system refuses
  during an operation is the record \<open>io_faults\<close>. A missing directory is the empty one, which is how the
  scan reads it. A name with a slash in it is a name outside the
  directory and is never found there.
\<close>

section \<open>Directories and faults\<close>

type_synonym 'a doc_dir = "(string \<times> (string, 'a) result) list"

record io_faults =
  io_read_dir :: "string option"
  io_next_entry :: "(nat \<times> string) option"
  io_write :: "string option"
  io_partial :: bool
  io_rename :: "string option"
  io_remove :: "string \<Rightarrow> string option"

definition no_faults :: io_faults where
  "no_faults = \<lparr>io_read_dir = None, io_next_entry = None, io_write = None, io_partial = False,
     io_rename = None, io_remove = (\<lambda>_. None)\<rparr>"

definition json_name :: "string \<Rightarrow> string" where
  "json_name i = i @ ''.json''"

definition tmp_name :: "string \<Rightarrow> string" where
  "tmp_name i = i @ ''.json.tmp''"

text \<open>\<open>Path::extension() == Some("json")\<close>: a name that is only \<open>.json\<close> has no extension.\<close>

definition is_json :: "string \<Rightarrow> bool" where
  "is_json n = (ends_with n ''.json'' \<and> 5 < length n)"

definition read_one :: "'a doc_dir \<Rightarrow> string \<Rightarrow> (string, 'a) result" where
  "read_one d n = (case map_of d n of None \<Rightarrow> Inl ''No such file or directory'' | Some r \<Rightarrow> r)"

definition write_atomic ::
  "string \<Rightarrow> io_faults \<Rightarrow> string \<Rightarrow> 'a \<Rightarrow> 'a doc_dir \<Rightarrow> (string, unit) result \<times> 'a doc_dir" where
  "write_atomic tag io i a d =
     (let tmp = tmp_name i in
      case io_write io of
        Some e \<Rightarrow>
          (Inl (tag @ '': write tmp '' @ tmp @ '': '' @ e),
           if io_partial io then AList.update tmp (Inl ''EOF while parsing'') d else d)
      | None \<Rightarrow>
          let d1 = AList.update tmp (Inr a) d in
          case io_rename io of
            Some e \<Rightarrow>
              (Inl (tag @ '': rename '' @ tmp @ '' -> '' @ json_name i @ '': '' @ e),
               if io_remove io tmp = None then AList.delete tmp d1 else d1)
          | None \<Rightarrow> (Inr (), AList.update (json_name i) (Inr a) (AList.delete tmp d1)))"

text \<open>The directory as a crash leaves it: before the write, in the middle of it, after it, and after
  the rename.\<close>

definition crash_states :: "string \<Rightarrow> 'a \<Rightarrow> 'a doc_dir \<Rightarrow> 'a doc_dir list" where
  "crash_states i a d =
     [d, AList.update (tmp_name i) (Inl ''EOF while parsing'') d, AList.update (tmp_name i) (Inr a) d,
      AList.update (json_name i) (Inr a) (AList.delete (tmp_name i) d)]"

text \<open>The scan: the documents by file name, and the files that do not parse.\<close>

definition entries :: "'a doc_dir \<Rightarrow> (string \<times> 'a) list" where
  "entries d =
     List.map_filter (\<lambda>(n, c). if is_json n then map_option (Pair n) (ok_opt c) else None) d"

definition skipped :: "'a doc_dir \<Rightarrow> (string \<times> string) list" where
  "skipped d =
     List.map_filter (\<lambda>(n, c). case c of Inl e \<Rightarrow> if is_json n then Some (n, e) else None | Inr _ \<Rightarrow> None) d"

definition read_all ::
  "string \<Rightarrow> io_faults \<Rightarrow> 'a doc_dir \<Rightarrow> (string, 'a list \<times> (string \<times> string) list) result" where
  "read_all tag io d =
     (case io_read_dir io of
        Some m \<Rightarrow> Inl (tag @ '': read_dir '' @ m)
      | None \<Rightarrow>
          (case io_next_entry io of
             Some (_, m) \<Rightarrow> Inl (tag @ '': next_entry: '' @ m)
           | None \<Rightarrow> Inr (map snd (entries d), skipped d)))"

definition remove_file :: "io_faults \<Rightarrow> string \<Rightarrow> 'a doc_dir \<Rightarrow> (string, unit) result \<times> 'a doc_dir" where
  "remove_file io n d =
     (case io_remove io n of
        Some e \<Rightarrow> (Inl e, d)
      | None \<Rightarrow>
          if map_of d n = None then (Inl ''No such file or directory'', d)
          else (Inr (), AList.delete n d))"

definition get_doc :: "string \<Rightarrow> string \<Rightarrow> 'a doc_dir \<Rightarrow> (string, 'a) result" where
  "get_doc tag i d =
     (if i = [] then Inl (tag @ '': id is required'') else read_one d (json_name i))"

text \<open>The read-modify-write the stores use for every change of a document; a change may refuse. The
  document is written under the identifier it carries.\<close>

definition modify_doc ::
  "string \<Rightarrow> ('a \<Rightarrow> string) \<Rightarrow> io_faults \<Rightarrow> string \<Rightarrow> ('a \<Rightarrow> (string, 'a) result) \<Rightarrow> 'a doc_dir \<Rightarrow>
     (string, unit) result \<times> 'a doc_dir" where
  "modify_doc tag ident io i f d =
     (case get_doc tag i d of
        Inl e \<Rightarrow> (Inl e, d)
      | Inr a \<Rightarrow> (case f a of Inl e \<Rightarrow> (Inl e, d) | Inr b \<Rightarrow> write_atomic tag io (ident b) b d))"

text \<open>The pruning loop over the documents of a scan.\<close>

fun prune_docs :: "('a \<Rightarrow> string) \<Rightarrow> ('a \<Rightarrow> bool) \<Rightarrow> io_faults \<Rightarrow> 'a list \<Rightarrow> 'a doc_dir \<Rightarrow> 'a doc_dir" where
  "prune_docs ident P io [] d = d"
| "prune_docs ident P io (a # as) d =
     (if P a then prune_docs ident P io as (snd (remove_file io (json_name (ident a)) d))
      else prune_docs ident P io as d)"

section \<open>Names\<close>

lemma json_name_inj [simp]: "json_name i = json_name j \<longleftrightarrow> i = j"
  by (simp add: json_name_def)

lemma tmp_not_json [simp]: "\<not> is_json (tmp_name i)"
proof -
  have "last (tmp_name i) = CHR ''p''" by (simp add: tmp_name_def)
  moreover have "last n = CHR ''n''" if "is_json n" for n
    using that by (auto simp: is_json_def ends_with_iff)
  ultimately show ?thesis by fastforce
qed

lemma is_json_name [simp]: "is_json (json_name i) \<longleftrightarrow> i \<noteq> []"
  by (simp add: is_json_def json_name_def ends_with_iff)

lemma json_name_not_tmp [simp]: "json_name i \<noteq> tmp_name j" "tmp_name j \<noteq> json_name i"
proof -
  have "last (json_name i) \<noteq> last (tmp_name j)" by (simp add: json_name_def tmp_name_def)
  thus "json_name i \<noteq> tmp_name j" "tmp_name j \<noteq> json_name i" by metis+
qed

lemma is_json_cases:
  assumes "is_json n"
  obtains i where "n = json_name i" "i \<noteq> []"
proof -
  from assms obtain t where "n = t @ ''.json''" "5 < length n" unfolding is_json_def ends_with_iff by blast
  thus thesis by (intro that [of t]) (auto simp: json_name_def)
qed

section \<open>What a scan sees\<close>

definition dir_names :: "'a doc_dir \<Rightarrow> bool" where
  "dir_names d = distinct (map fst d)"

lemma dir_names_ops [simp]:
  "dir_names d \<Longrightarrow> dir_names (AList.update n c d)" "dir_names d \<Longrightarrow> dir_names (AList.delete n d)"
  by (simp_all add: dir_names_def distinct_update distinct_delete)

lemma entries_Cons:
  "entries ((n, c) # d) = (case c of Inr a \<Rightarrow> if is_json n then [(n, a)] else [] | Inl _ \<Rightarrow> []) @ entries d"
  by (simp add: entries_def List.map_filter_def split: sum.split)

lemma in_entries:
  assumes "dir_names d"
  shows "(n, a) \<in> set (entries d) \<longleftrightarrow> is_json n \<and> map_of d n = Some (Inr a)"
proof -
  have "(n, a) \<in> set (entries d) \<longleftrightarrow> is_json n \<and> (n, Inr a) \<in> set d"
  proof (induction d)
    case (Cons p d)
    obtain m c where "p = (m, c)" by fastforce
    with Cons show ?case by (cases c) (auto simp: entries_Cons)
  qed (simp add: entries_def List.map_filter_def)
  with assms show ?thesis by (simp add: dir_names_def map_of_eq_Some_iff)
qed

lemma write_atomic_names: "dir_names d \<Longrightarrow> write_atomic tag io i a d = (r, d') \<Longrightarrow> dir_names d'"
  by (auto simp: write_atomic_def Let_def split: option.splits if_splits)

text \<open>A successful write changes one document; a failed one changes none.\<close>

lemma write_atomic_ok:
  assumes "write_atomic tag io i a d = (Inr u, d')" and "is_json n"
  shows "map_of d' n = (if n = json_name i then Some (Inr a) else map_of d n)"
  using assms by (auto simp: write_atomic_def Let_def update_conv' delete_conv' split: option.splits if_splits)

lemma write_atomic_err:
  assumes "write_atomic tag io i a d = (Inl e, d')" and "is_json n"
  shows "map_of d' n = map_of d n"
  using assms by (auto simp: write_atomic_def Let_def update_conv' delete_conv' split: option.splits if_splits)

lemma remove_file_doc:
  assumes "remove_file io m d = (r, d')"
  shows "map_of d' n = (if is_ok r \<and> n = m then None else map_of d n)" and "dir_names d \<Longrightarrow> dir_names d'"
  using assms by (auto simp: remove_file_def delete_conv' split: option.splits if_splits)

section \<open>Documents under their own name\<close>

text \<open>Every document that parses is filed under its own identifier.\<close>

definition filed :: "('a \<Rightarrow> string) \<Rightarrow> 'a doc_dir \<Rightarrow> bool" where
  "filed ident d \<longleftrightarrow> dir_names d \<and> list_all (\<lambda>(n, a). n = json_name (ident a)) (entries d)"

lemma filedD: "filed ident d \<Longrightarrow> is_json n \<Longrightarrow> map_of d n = Some (Inr a) \<Longrightarrow> n = json_name (ident a)"
  by (auto simp: filed_def list_all_iff in_entries)

lemma filedI:
  assumes "dir_names d" and "\<And>n a. is_json n \<Longrightarrow> map_of d n = Some (Inr a) \<Longrightarrow> n = json_name (ident a)"
  shows "filed ident d"
  using assms by (auto simp: filed_def list_all_iff in_entries)

lemma filed_entries:
  assumes "filed ident d"
  shows "(n, a) \<in> set (entries d) \<longleftrightarrow> n = json_name (ident a) \<and> ident a \<noteq> [] \<and> map_of d n = Some (Inr a)"
  using assms filedD [OF assms, of n a] by (auto simp: filed_def in_entries)

lemma filed_distinct:
  assumes "filed ident d"
  shows "distinct (map ident (map snd (entries d)))"
proof -
  have "set (map fst (entries d)) \<subseteq> set (map fst d) \<and> (dir_names d \<longrightarrow> distinct (map fst (entries d)))"
  proof (induction d)
    case (Cons p d)
    obtain m c where "p = (m, c)" by fastforce
    with Cons show ?case by (cases c) (auto simp: entries_Cons dir_names_def)
  qed (simp add: entries_def List.map_filter_def)
  moreover have "map fst (entries d) = map json_name (map ident (map snd (entries d)))"
    using assms by (auto simp: filed_def list_all_iff)
  ultimately have "distinct (map json_name (map ident (map snd (entries d))))"
    using assms by (simp add: filed_def del: map_map)
  thus ?thesis by (simp only: distinct_map)
qed

lemma docs_in: "a \<in> set (map snd (entries d)) \<longleftrightarrow> (\<exists>n. (n, a) \<in> set (entries d))"
  by force

lemma filed_write:
  assumes "filed ident d" and "write_atomic tag io (ident a) a d = (r, d')"
  shows "filed ident d'"
proof (rule filedI)
  show "dir_names d'" using assms write_atomic_names by (auto simp: filed_def)
  fix n b assume n: "is_json n" "map_of d' n = Some (Inr b)"
  show "n = json_name (ident b)"
  proof (cases r)
    case (Inl e)
    from write_atomic_err [OF assms(2) [unfolded Inl] n(1)] n filedD [OF assms(1)] show ?thesis by simp
  next
    case (Inr u)
    from write_atomic_ok [OF assms(2) [unfolded Inr] n(1)] n filedD [OF assms(1), of n b]
    show ?thesis by (auto split: if_splits)
  qed
qed

lemma filed_remove: "filed ident d \<Longrightarrow> remove_file io n d = (r, d') \<Longrightarrow> filed ident d'"
  by (rule filedI)
    (auto simp: remove_file_doc(1) filed_def intro: remove_file_doc(2)
      dest: filedD [unfolded filed_def, rotated 1] split: if_splits)

lemma read_all_Inr: "read_all tag io d = Inr (ops, sk) \<Longrightarrow> ops = map snd (entries d) \<and> sk = skipped d"
  by (auto simp: read_all_def split: option.splits)

lemma prune_docs_names: "dir_names d \<Longrightarrow> dir_names (prune_docs ident P io as d)"
  by (induction ident P io as d rule: prune_docs.induct) (auto simp: remove_file_doc(2) [OF prod.collapse [symmetric]])

lemma prune_docs_doc:
  "map_of (prune_docs ident P io as d) n =
     (if list_ex (\<lambda>a. P a \<and> n = json_name (ident a)) as \<and> io_remove io n = None then None else map_of d n)"
proof (induction as arbitrary: d)
  case (Cons a as)
  have "map_of (snd (remove_file io (json_name (ident a)) d)) n =
      (if n = json_name (ident a) \<and> io_remove io n = None then None else map_of d n)"
    by (auto simp: remove_file_def delete_conv' split: option.splits)
  with Cons show ?case by auto
qed simp

text \<open>Pruning what a scan found removes exactly the documents chosen.\<close>

lemma prune_scan:
  assumes "filed ident d" and "is_json n"
  shows "map_of (prune_docs ident P io (map snd (entries d)) d) n =
    (case map_of d n of
       Some (Inr a) \<Rightarrow> if P a \<and> io_remove io n = None then None else Some (Inr a)
     | x \<Rightarrow> x)"
proof -
  have "list_ex (\<lambda>a. P a \<and> n = json_name (ident a)) (map snd (entries d)) \<longleftrightarrow>
      (\<exists>m a. (m, a) \<in> set (entries d) \<and> P a \<and> n = json_name (ident a))"
    unfolding list_ex_iff using docs_in [of _ d] by metis
  also have "\<dots> \<longleftrightarrow> (\<exists>a. map_of d n = Some (Inr a) \<and> P a)"
    using assms(2) filedD [OF assms] unfolding filed_entries [OF assms(1)] by (metis is_json_name)
  finally show ?thesis unfolding prune_docs_doc by (auto split: option.split sum.split)
qed

lemma prune_filed:
  assumes "filed ident d"
  shows "filed ident (prune_docs ident P io (map snd (entries d)) d)"
proof (rule filedI)
  show "dir_names (prune_docs ident P io (map snd (entries d)) d)"
    using assms by (simp add: filed_def prune_docs_names)
  fix n a assume "is_json n" "map_of (prune_docs ident P io (map snd (entries d)) d) n = Some (Inr a)"
  thus "n = json_name (ident a)"
    using prune_scan [OF assms, of n P io] filedD [OF assms] by (auto split: option.splits sum.splits if_splits)
qed

text \<open>
  The interface of a store over such a directory: its changes of a document keep the identifier. The
  client lemmas are those of a keyed store.
\<close>

locale doc_journal =
  fixes tag :: string and ident :: "'a \<Rightarrow> string" and change :: "'u \<Rightarrow> 'a \<Rightarrow> (string, 'a) result"
  assumes change_ident: "change u a = Inr b \<Longrightarrow> ident b = ident a"
begin

text \<open>A change that reaches the write leaves the document under the name it was read from.\<close>

lemma modify_cases [consumes 2]:
  assumes "filed ident d" and "modify_doc tag ident io i (change u) d = (r, d')"
  obtains (refused) e where "d' = d" "r = Inl e"
  | (written) a b where "i \<noteq> []" "map_of d (json_name i) = Some (Inr a)" "change u a = Inr b" "ident b = i"
      "write_atomic tag io i b d = (r, d')"
proof -
  consider e where "d' = d" "r = Inl e"
    | a b where "i \<noteq> []" "map_of d (json_name i) = Some (Inr a)" "change u a = Inr b"
        "write_atomic tag io (ident b) b d = (r, d')"
    using assms(2) by (auto simp: modify_doc_def get_doc_def read_one_def split: sum.splits if_splits option.splits)
  thus thesis
  proof cases
    case (2 a b)
    have "ident b = i" using change_ident [OF 2(3)] filedD [OF assms(1) _ 2(2)] 2(1) by simp
    with 2 show thesis by (intro written) simp_all
  qed (rule refused)
qed

lemma modify_filed:
  assumes "filed ident d" and "modify_doc tag ident io i (change u) d = (r, d')"
  shows "filed ident d'"
  using assms
proof (cases rule: modify_cases)
  case (written a b)
  with filed_write [OF assms(1), of tag io b] show ?thesis by simp
qed (use assms(1) in simp)

text \<open>What a document looks like after a change of any document.\<close>

lemma modify_effect [consumes 3]:
  assumes "filed ident d" and "modify_doc tag ident io i (change u) d = (r, d')" and "is_json n"
  obtains (same) "map_of d' n = map_of d n"
  | (changed) a b where "n = json_name i" "map_of d n = Some (Inr a)" "change u a = Inr b"
      "map_of d' n = Some (Inr b)" "r = Inr ()"
  using assms(1,2)
proof (cases rule: modify_cases)
  case (written a b)
  show thesis
  proof (cases r)
    case (Inl e)
    from write_atomic_err [OF written(5) [unfolded Inl] assms(3)] show thesis by (rule same)
  next
    case (Inr v)
    from write_atomic_ok [OF written(5) [unfolded Inr] assms(3)] written Inr show thesis
      by (cases "n = json_name i") (auto intro: same changed)
  qed
qed (simp add: same)

lemma modify_get:
  assumes "filed ident d" and "modify_doc tag ident io i (change u) d = (Inr v, d')"
  shows "\<exists>a b. get_doc tag i d = Inr a \<and> change u a = Inr b \<and> get_doc tag i d' = Inr b"
  using assms
proof (cases rule: modify_cases)
  case (written a b)
  hence j: "is_json (json_name i)" by simp
  from write_atomic_ok [OF written(5) j] written show ?thesis by (auto simp: get_doc_def read_one_def)
qed simp

text \<open>A change succeeds whenever the document is there, the change is allowed and the disk takes it.\<close>

lemma modify_succeeds:
  assumes "filed ident d" and "get_doc tag i d = Inr a" and "change u a = Inr b"
    and "io_write io = None" "io_rename io = None"
  shows "\<exists>d'. modify_doc tag ident io i (change u) d = (Inr (), d') \<and> get_doc tag i d' = Inr b"
proof -
  obtain d' where m: "modify_doc tag ident io i (change u) d = (Inr (), d')"
    using assms by (auto simp: modify_doc_def write_atomic_def Let_def)
  with modify_get [OF assms(1) m] assms(2,3) show ?thesis by auto
qed

end

section \<open>Crashes\<close>

lemma scan_ignores:
  assumes "\<not> is_json n"
  shows "entries (AList.update n c d) = entries d" "skipped (AList.update n c d) = skipped d"
    and "entries (AList.delete n d) = entries d" "skipped (AList.delete n d) = skipped d"
proof -
  show "entries (AList.update n c d) = entries d" "skipped (AList.update n c d) = skipped d"
    using assms by (induction d) (auto simp: entries_def skipped_def List.map_filter_def split: sum.splits)
  show "entries (AList.delete n d) = entries d" "skipped (AList.delete n d) = skipped d"
    using assms by (induction d) (auto simp: entries_def skipped_def List.map_filter_def split: sum.splits)
qed

text \<open>
  A crash never tears a document. Whenever a write is cut off (before it, in the middle of the
  temporary file, between the write and the rename, or after the rename), a restart either reads for
  every document what was there before, by name and by the scan alike, or finds the directory the
  completed write leaves. A half-written file is never among the files the scan parses or reports.
\<close>

theorem crash_never_tears:
  "list_all (\<lambda>s.
     (entries s = entries d \<and> skipped s = skipped d \<and> (\<forall>j. get_doc tag j s = get_doc tag j d)) \<or>
     (Inr (), s) = write_atomic tag no_faults i a d) (crash_states i a d)"
  by (simp add: crash_states_def scan_ignores get_doc_def read_one_def update_conv' write_atomic_def
      no_faults_def delete_update_same)

end
