(* ===== verification/InflightOps.thy ===== *)
theory InflightOps
  imports FileStore
begin

text \<open>
  The journal of multi-phase orchestrations, \<open>crates/pg-agent-core/src/inflight_ops.rs\<close>: its data, the
  file-backed store, and the ownership queries other handlers ask before they destroy anything.

  The clock is an argument \<open>now\<close>; the in-process mutex around \<open>begin\<close> makes that operation one step.
\<close>

section \<open>Data\<close>

datatype inflight_status = InProgress | Done | Abandoned

definition status_as_wire :: "inflight_status \<Rightarrow> string" where
  "status_as_wire s =
     (case s of InProgress \<Rightarrow> ''in_progress'' | Done \<Rightarrow> ''done'' | Abandoned \<Rightarrow> ''abandoned'')"

definition is_terminal :: "inflight_status \<Rightarrow> bool" where
  "is_terminal s = (s = Done \<or> s = Abandoned)"

datatype inflight_payload =
    Handoff i32 i32 string string bool
  | FollowPrimary i32 string i32 string
  | Recovery i32 i32 string string
  | Promote i32 u64
  | AllowAsync i32

definition op_name :: "inflight_payload \<Rightarrow> string" where
  "op_name p =
     (case p of
        Handoff _ _ _ _ _ \<Rightarrow> ''handoff''
      | FollowPrimary _ _ _ _ \<Rightarrow> ''follow_primary''
      | Recovery _ _ _ _ \<Rightarrow> ''recovery''
      | Promote _ _ \<Rightarrow> ''promote''
      | AllowAsync _ \<Rightarrow> ''allow_async'')"

definition op_key :: "inflight_payload \<Rightarrow> string" where
  "op_key p =
     (case p of
        Handoff from to _ _ _ \<Rightarrow> ''from='' @ show_int from @ '',to='' @ show_int to
      | FollowPrimary det _ prim _ \<Rightarrow> ''detached='' @ show_int det @ '',new_primary='' @ show_int prim
      | Recovery prim stb _ _ \<Rightarrow> ''primary='' @ show_int prim @ '',standby='' @ show_int stb
      | Promote n t \<Rightarrow> ''node='' @ show_int n @ '',term='' @ show_nat (unat t)
      | AllowAsync n \<Rightarrow> ''node='' @ show_int n)"

definition target_node_id :: "inflight_payload \<Rightarrow> i32 option" where
  "target_node_id p =
     (case p of
        Handoff _ to _ _ _ \<Rightarrow> Some to
      | FollowPrimary det _ _ _ \<Rightarrow> Some det
      | Recovery _ stb _ _ \<Rightarrow> Some stb
      | Promote _ _ \<Rightarrow> None
      | AllowAsync _ \<Rightarrow> None)"

record inflight_op =
  op_id :: string
  op_status :: inflight_status
  op_payload :: inflight_payload
  op_phase :: string
  op_started_at :: datetime
  op_updated_at :: datetime
  op_completed_at :: "datetime option"
  op_discharged_at :: "datetime option"
  op_last_error :: "string option"

datatype begin_error =
    DuplicateInProgress string string
  | ExclusiveBlocked string string string
  | BeginIo string

section \<open>The store\<close>

record inflight_store =
  is_dir :: "inflight_op doc_dir"
  is_seq :: u64
  is_retention :: int

definition inflight_store_new :: "inflight_op doc_dir \<Rightarrow> int \<Rightarrow> inflight_store" where
  "inflight_store_new d retention = \<lparr>is_dir = d, is_seq = 0, is_retention = retention\<rparr>"

definition itag :: string where
  "itag = ''inflight_ops''"

text \<open>\<open>DateTime::timestamp_nanos_opt\<close> answers only within the range of \<open>i64\<close>.\<close>

definition timestamp_nanos :: "datetime \<Rightarrow> int" where
  "timestamp_nanos t = (if - (2 ^ 63) \<le> t \<and> t < 2 ^ 63 then t else 0)"

definition make_id :: "string \<Rightarrow> datetime \<Rightarrow> u64 \<Rightarrow> string" where
  "make_id name now s = show_int (timestamp_nanos now) @ ''-'' @ name @ ''-'' @ show_nat (unat s)"

fun begin_gate :: "inflight_payload \<Rightarrow> bool \<Rightarrow> inflight_op list \<Rightarrow> (begin_error, unit) result" where
  "begin_gate p exclusive [] = Inr ()"
| "begin_gate p exclusive (o' # os) =
     (if op_status o' \<noteq> InProgress then begin_gate p exclusive os
      else if op_name (op_payload o') = op_name p \<and> op_key (op_payload o') = op_key p
      then Inl (DuplicateInProgress (op_id o') (op_phase o'))
      else if exclusive
      then Inl (ExclusiveBlocked (op_id o') (op_name (op_payload o')) (op_phase o'))
      else begin_gate p exclusive os)"

definition begin_op ::
  "io_faults \<Rightarrow> datetime \<Rightarrow> inflight_payload \<Rightarrow> string \<Rightarrow> bool \<Rightarrow> inflight_store \<Rightarrow>
     (begin_error, inflight_op) result \<times> inflight_store" where
  "begin_op io now p phase exclusive st =
     (case read_all itag io (is_dir st) of
        Inl e \<Rightarrow> (Inl (BeginIo e), st)
      | Inr (existing, _) \<Rightarrow>
     (case begin_gate p exclusive existing of
        Inl e \<Rightarrow> (Inl e, st)
      | Inr _ \<Rightarrow>
          let i = make_id (op_name p) now (is_seq st);
              st = st\<lparr>is_seq := is_seq st + 1\<rparr>;
              op = \<lparr>op_id = i, op_status = InProgress, op_payload = p, op_phase = phase,
                    op_started_at = now, op_updated_at = now, op_completed_at = None,
                    op_discharged_at = None, op_last_error = None\<rparr>
          in case write_atomic itag io i op (is_dir st) of
               (Inl e, d) \<Rightarrow> (Inl (BeginIo e), st\<lparr>is_dir := d\<rparr>)
             | (Inr _, d) \<Rightarrow> (Inr op, st\<lparr>is_dir := d\<rparr>)))"

text \<open>The changes of a journal entry; all but \<open>UpdatePhase\<close> and \<open>Discharge\<close> are unconditional.\<close>

datatype op_change =
    UpdatePhase string datetime string "string option"
  | Complete datetime
  | Abandon datetime string
  | Discharge datetime

definition change_op :: "op_change \<Rightarrow> inflight_op \<Rightarrow> (string, inflight_op) result" where
  "change_op u op =
     (case u of
        UpdatePhase i now phase err \<Rightarrow>
          if is_terminal (op_status op)
          then Inl (''inflight_ops: update_phase on terminal op '' @ i @ '' (status='' @
                    status_as_wire (op_status op) @ '')'')
          else Inr (op\<lparr>op_phase := phase, op_updated_at := now, op_last_error := err\<rparr>)
      | Complete now \<Rightarrow>
          Inr (op\<lparr>op_status := Done, op_phase := ''done'', op_updated_at := now,
                  op_completed_at := Some now, op_last_error := None\<rparr>)
      | Abandon now reason \<Rightarrow>
          Inr (op\<lparr>op_status := Abandoned, op_updated_at := now, op_completed_at := Some now,
                  op_last_error := Some reason\<rparr>)
      | Discharge now \<Rightarrow> Inr (op\<lparr>op_discharged_at := Some now\<rparr>))"

definition change_in ::
  "io_faults \<Rightarrow> string \<Rightarrow> op_change \<Rightarrow> inflight_store \<Rightarrow> (string, unit) result \<times> inflight_store" where
  "change_in io i u st =
     (case modify_doc itag op_id io i (change_op u) (is_dir st) of (r, d) \<Rightarrow> (r, st\<lparr>is_dir := d\<rparr>))"

definition update_phase ::
  "io_faults \<Rightarrow> datetime \<Rightarrow> string \<Rightarrow> string \<Rightarrow> string option \<Rightarrow> inflight_store \<Rightarrow>
     (string, unit) result \<times> inflight_store" where
  "update_phase io now i phase err st = change_in io i (UpdatePhase i now phase err) st"

definition complete_op ::
  "io_faults \<Rightarrow> datetime \<Rightarrow> string \<Rightarrow> inflight_store \<Rightarrow> (string, unit) result \<times> inflight_store" where
  "complete_op io now i st = change_in io i (Complete now) st"

definition abandon_op ::
  "io_faults \<Rightarrow> datetime \<Rightarrow> string \<Rightarrow> string \<Rightarrow> inflight_store \<Rightarrow>
     (string, unit) result \<times> inflight_store" where
  "abandon_op io now i reason st = change_in io i (Abandon now reason) st"

text \<open>\<open>discharge\<close> returns before writing when it was recorded already.\<close>

definition discharge_op ::
  "io_faults \<Rightarrow> datetime \<Rightarrow> string \<Rightarrow> inflight_store \<Rightarrow> (string, unit) result \<times> inflight_store" where
  "discharge_op io now i st =
     (case get_doc itag i (is_dir st) of
        Inl e \<Rightarrow> (Inl e, st)
      | Inr op \<Rightarrow>
          if op_discharged_at op \<noteq> None then (Inr (), st) else change_in io i (Discharge now) st)"

definition find_op :: "io_faults \<Rightarrow> string \<Rightarrow> string \<Rightarrow> inflight_store \<Rightarrow> (string, inflight_op option) result" where
  "find_op io name key st =
     (case read_all itag io (is_dir st) of
        Inl e \<Rightarrow> Inl e
      | Inr (ops, _) \<Rightarrow>
          Inr (max_by_key op_started_at
                 (filter (\<lambda>o'. op_name (op_payload o') = name \<and> op_key (op_payload o') = key) ops)))"

definition get_op :: "string \<Rightarrow> inflight_store \<Rightarrow> (string, inflight_op) result" where
  "get_op i st = get_doc itag i (is_dir st)"

definition list_ops ::
  "io_faults \<Rightarrow> inflight_status list \<Rightarrow> inflight_store \<Rightarrow>
     (string, inflight_op list \<times> (string \<times> string) list) result" where
  "list_ops io statuses st =
     (case read_all itag io (is_dir st) of
        Inl e \<Rightarrow> Inl e
      | Inr (ops, sk) \<Rightarrow>
          let ops = (if statuses = [] then ops else filter (\<lambda>o'. op_status o' \<in> set statuses) ops)
          in Inr (sort_key (\<lambda>o'. (op_started_at o', op_id o')) ops, sort_key fst sk))"

fun sweep_ops :: "io_faults \<Rightarrow> datetime \<Rightarrow> int \<Rightarrow> inflight_op list \<Rightarrow> inflight_op doc_dir \<Rightarrow> inflight_op doc_dir"
where
  "sweep_ops io now retention [] d = d"
| "sweep_ops io now retention (o' # os) d =
     (if \<not> is_terminal (op_status o') then sweep_ops io now retention os d
      else if now - unwrap_or (op_completed_at o') (op_updated_at o') \<le> retention
      then sweep_ops io now retention os d
      else sweep_ops io now retention os (snd (remove_file io (json_name (op_id o')) d)))"

definition sweep :: "io_faults \<Rightarrow> datetime \<Rightarrow> inflight_store \<Rightarrow> inflight_store" where
  "sweep io now st =
     (case read_all itag io (is_dir st) of
        Inl _ \<Rightarrow> st
      | Inr (ops, _) \<Rightarrow> st\<lparr>is_dir := sweep_ops io now (is_retention st) ops (is_dir st)\<rparr>)"

section \<open>Ownership\<close>

definition node_id_from_slot :: "string \<Rightarrow> i32 option" where
  "node_id_from_slot s = (case strip_prefix ''node'' s of None \<Rightarrow> None | Some r \<Rightarrow> parse_i32 r)"

definition owns :: "datetime \<Rightarrow> int \<Rightarrow> inflight_op \<Rightarrow> bool" where
  "owns now grace op =
     (case op_status op of
        InProgress \<Rightarrow> True
      | _ \<Rightarrow> op_discharged_at op = None \<and>
             (case op_completed_at op of Some t \<Rightarrow> now - t < grace | None \<Rightarrow> False))"

definition owner_of_node ::
  "io_faults \<Rightarrow> datetime \<Rightarrow> i32 \<Rightarrow> int \<Rightarrow> inflight_store \<Rightarrow> inflight_op option" where
  "owner_of_node io now n grace st =
     (case list_ops io [InProgress, Done] st of
        Inl _ \<Rightarrow> None
      | Inr (ops, _) \<Rightarrow>
          max_by_key op_started_at
            (filter (owns now grace) (filter (\<lambda>o'. target_node_id (op_payload o') = Some n) ops)))"

definition owner_of_slot ::
  "io_faults \<Rightarrow> datetime \<Rightarrow> string \<Rightarrow> int \<Rightarrow> inflight_store \<Rightarrow> inflight_op option" where
  "owner_of_slot io now slot grace st =
     (case node_id_from_slot slot of None \<Rightarrow> None | Some n \<Rightarrow> owner_of_node io now n grace st)"

definition owner_of_slot_observing ::
  "io_faults \<Rightarrow> datetime \<Rightarrow> string \<Rightarrow> int \<Rightarrow> (string, bool) result \<Rightarrow> inflight_store \<Rightarrow>
     inflight_op option \<times> inflight_store" where
  "owner_of_slot_observing io now slot grace slot_active st =
     (case owner_of_slot io now slot grace st of
        None \<Rightarrow> (None, st)
      | Some own \<Rightarrow>
          if op_status own = InProgress then (Some own, st)
          else case slot_active of
              Inr True \<Rightarrow> (None, snd (discharge_op io now (op_id own) st))
            | Inr False \<Rightarrow> (Some own, st)
            | Inl _ \<Rightarrow> (Some own, st))"

section \<open>Invariant of the journal\<close>

lemma change_op_ident: "change_op u a = Inr b \<Longrightarrow> op_id b = op_id a \<and> op_payload b = op_payload a"
  by (auto simp: change_op_def split: op_change.splits if_splits)

text \<open>A change never puts an entry back in progress.\<close>

lemma change_op_progress: "change_op u a = Inr b \<Longrightarrow> op_status b = InProgress \<Longrightarrow> op_status a = InProgress"
  by (auto simp: change_op_def split: op_change.splits if_splits)

interpretation journal: doc_journal itag op_id change_op
  by unfold_locales (simp add: change_op_ident)

definition conflict :: "inflight_op \<Rightarrow> inflight_op \<Rightarrow> bool" where
  "conflict a b \<longleftrightarrow>
     op_status a = InProgress \<and> op_status b = InProgress \<and>
     op_name (op_payload a) = op_name (op_payload b) \<and> op_key (op_payload a) = op_key (op_payload b)"

definition single_flight :: "inflight_op doc_dir \<Rightarrow> bool" where
  "single_flight d =
     list_all (\<lambda>(n, a). list_all (\<lambda>(m, b). n = m \<or> \<not> conflict a b) (entries d)) (entries d)"

definition journal_ok :: "inflight_store \<Rightarrow> bool" where
  "journal_ok st \<longleftrightarrow> filed op_id (is_dir st) \<and> single_flight (is_dir st)"

lemma single_flight_iff:
  assumes "filed op_id d"
  shows "single_flight d \<longleftrightarrow>
    (\<forall>n m a b. is_json n \<longrightarrow> is_json m \<longrightarrow> map_of d n = Some (Inr a) \<longrightarrow> map_of d m = Some (Inr b) \<longrightarrow>
       n = m \<or> \<not> conflict a b)"
proof -
  have "single_flight d \<longleftrightarrow>
      (\<forall>n a m b. (n, a) \<in> set (entries d) \<longrightarrow> (m, b) \<in> set (entries d) \<longrightarrow> n = m \<or> \<not> conflict a b)"
    unfolding single_flight_def list_all_iff by fast
  moreover have "dir_names d" using assms by (simp add: filed_def)
  ultimately show ?thesis unfolding in_entries [OF \<open>dir_names d\<close>] by blast
qed

text \<open>Single flight carries over to a directory whose entries in progress are old ones.\<close>

lemma single_flight_mono:
  assumes "filed op_id d" "filed op_id d'" "single_flight d"
    and "\<And>n b. is_json n \<Longrightarrow> map_of d' n = Some (Inr b) \<Longrightarrow> op_status b = InProgress \<Longrightarrow>
      \<exists>a. map_of d n = Some (Inr a) \<and> op_status a = InProgress \<and> op_payload a = op_payload b"
  shows "single_flight d'"
  unfolding single_flight_iff [OF assms(2)]
proof (intro allI impI)
  fix n m a b
  assume n: "is_json n" "is_json m" "map_of d' n = Some (Inr a)" "map_of d' m = Some (Inr b)"
  show "n = m \<or> \<not> conflict a b"
  proof (cases "conflict a b")
    case True
    hence "op_status a = InProgress" "op_status b = InProgress" by (simp_all add: conflict_def)
    with assms(4) n obtain a' b' where
      "map_of d n = Some (Inr a')" "op_status a' = InProgress" "op_payload a' = op_payload a"
      "map_of d m = Some (Inr b')" "op_status b' = InProgress" "op_payload b' = op_payload b" by metis
    with True n(1,2) assms(3) [unfolded single_flight_iff [OF assms(1)]] show ?thesis
      unfolding conflict_def by metis
  qed simp
qed

lemma change_in_ok:
  assumes "journal_ok st" and "change_in io i u st = (r, st')"
  shows "journal_ok st'"
proof -
  from assms(2) have m: "modify_doc itag op_id io i (change_op u) (is_dir st) = (r, is_dir st')"
    by (auto simp: change_in_def split: prod.splits)
  from assms(1) have ok: "filed op_id (is_dir st)" "single_flight (is_dir st)" by (simp_all add: journal_ok_def)
  note f = journal.modify_filed [OF ok(1) m]
  have "single_flight (is_dir st')"
  proof (rule single_flight_mono [OF ok(1) f ok(2)])
    fix n b assume "is_json n" and b: "map_of (is_dir st') n = Some (Inr b)" "op_status b = InProgress"
    from ok(1) m this(1) show "\<exists>a. map_of (is_dir st) n = Some (Inr a) \<and> op_status a = InProgress \<and> op_payload a = op_payload b"
    proof (cases rule: journal.modify_effect)
      case same
      with b show ?thesis by auto
    next
      case (changed a c)
      with b change_op_ident [of u a c] change_op_progress [of u a c] show ?thesis by auto
    qed
  qed
  with f show ?thesis by (simp add: journal_ok_def)
qed

lemma discharge_ok: "journal_ok st \<Longrightarrow> discharge_op io now i st = (r, st') \<Longrightarrow> journal_ok st'"
  by (auto simp: discharge_op_def intro: change_in_ok split: sum.splits if_splits)

lemma begin_gate_open:
  "begin_gate p ex ops = Inr () \<longleftrightarrow>
     (\<forall>o' \<in> set ops. op_status o' = InProgress \<longrightarrow>
        \<not> ex \<and> \<not> (op_name (op_payload o') = op_name p \<and> op_key (op_payload o') = op_key p))"
  by (induction p ex ops rule: begin_gate.induct) auto

lemma begin_cases:
  assumes "begin_op io now p phase ex st = (r, st')"
  obtains (refused) e where "r = Inl e" "st' = st"
  | (written) w i op where "begin_gate p ex (map snd (entries (is_dir st))) = Inr ()"
      "i = make_id (op_name p) now (is_seq st)" "op_id op = i" "op_status op = InProgress" "op_payload op = p"
      "write_atomic itag io i op (is_dir st) = (w, is_dir st')"
      "is_ok w \<longleftrightarrow> r = Inr op" "is_ok r \<longleftrightarrow> is_ok w"
proof (cases "read_all itag io (is_dir st)")
  case (Inl e)
  with assms show thesis by (intro refused) (auto simp: begin_op_def)
next
  case (Inr x)
  obtain ops sk where x: "x = (ops, sk)" by fastforce
  note ops = read_all_Inr [OF Inr [unfolded x]]
  show thesis
  proof (cases "begin_gate p ex ops")
    case (Inl e)
    with assms Inr x show thesis by (intro refused) (auto simp: begin_op_def)
  next
    case (Inr u)
    let ?i = "make_id (op_name p) now (is_seq st)"
    let ?op = "\<lparr>op_id = ?i, op_status = InProgress, op_payload = p, op_phase = phase,
                    op_started_at = now, op_updated_at = now, op_completed_at = None,
                    op_discharged_at = None, op_last_error = None\<rparr>"
    obtain w d where w: "write_atomic itag io ?i ?op (is_dir st) = (w, d)" by fastforce
    have "is_dir st' = d \<and> (is_ok w \<longleftrightarrow> r = Inr ?op) \<and> (is_ok r \<longleftrightarrow> is_ok w)"
      using assms \<open>read_all _ _ _ = _\<close> x Inr w by (cases w) (auto simp: begin_op_def Let_def)
    with w Inr ops show thesis by (intro written [of ?i ?op w]) auto
  qed
qed

lemma begin_ok:
  assumes "journal_ok st" and "begin_op io now p phase ex st = (r, st')"
  shows "journal_ok st'"
  using assms(2)
proof (cases rule: begin_cases)
  case (written w i op)
  from assms(1) have ok: "filed op_id (is_dir st)" "single_flight (is_dir st)" by (simp_all add: journal_ok_def)
  have f: "filed op_id (is_dir st')" using filed_write [OF ok(1)] written(3,6) by blast
  have gate: "\<not> conflict op b" if "is_json n" "map_of (is_dir st) n = Some (Inr b)" for n b
  proof -
    from that ok(1) have "b \<in> set (map snd (entries (is_dir st)))"
      unfolding docs_in by (auto simp: filed_def in_entries)
    with written(1) [unfolded begin_gate_open] written(5) show ?thesis by (auto simp: conflict_def)
  qed
  have sym: "conflict a b \<Longrightarrow> conflict b a" for a b by (auto simp: conflict_def)
  have "single_flight (is_dir st')"
  proof (cases w)
    case (Inl e)
    from write_atomic_err [OF written(6) [unfolded Inl]] ok(2)
    show ?thesis unfolding single_flight_iff [OF f] single_flight_iff [OF ok(1)] by auto
  next
    case (Inr u)
    note eff = write_atomic_ok [OF written(6) [unfolded Inr]]
    show ?thesis
      unfolding single_flight_iff [OF f]
    proof (intro allI impI)
      fix n m a b
      assume n: "is_json n" "is_json m" "map_of (is_dir st') n = Some (Inr a)" "map_of (is_dir st') m = Some (Inr b)"
      consider "n = m" | "n = json_name i" "m \<noteq> json_name i" | "n \<noteq> json_name i" "m = json_name i"
        | "n \<noteq> json_name i" "m \<noteq> json_name i" by blast
      thus "n = m \<or> \<not> conflict a b"
        using n eff [OF n(1)] eff [OF n(2)] gate [OF n(1)] gate [OF n(2)] sym
          ok(2) [unfolded single_flight_iff [OF ok(1)]]
        by cases auto
    qed
  qed
  with f show ?thesis by (simp add: journal_ok_def)
qed (use assms in auto)

section \<open>Sweeping\<close>

definition prunable :: "datetime \<Rightarrow> int \<Rightarrow> inflight_op \<Rightarrow> bool" where
  "prunable now retention o' \<longleftrightarrow>
     is_terminal (op_status o') \<and> retention < now - unwrap_or (op_completed_at o') (op_updated_at o')"

lemma sweep_ops_prune: "sweep_ops io now ret ops d = prune_docs op_id (prunable now ret) io ops d"
  by (induction io now ret ops d rule: sweep_ops.induct) (auto simp: prunable_def)

lemma sweep_ok: "journal_ok st \<Longrightarrow> journal_ok (sweep io now st)"
proof (cases "read_all itag io (is_dir st)")
  case (Inr x)
  assume ok: "journal_ok st"
  obtain ops sk where x: "x = (ops, sk)" by fastforce
  have d: "is_dir (sweep io now st) =
      prune_docs op_id (prunable now (is_retention st)) io (map snd (entries (is_dir st))) (is_dir st)"
    using Inr x read_all_Inr [OF Inr [unfolded x]] by (simp add: sweep_def sweep_ops_prune)
  from ok have f: "filed op_id (is_dir st)" and sf: "single_flight (is_dir st)" by (simp_all add: journal_ok_def)
  have "single_flight (is_dir (sweep io now st))"
  proof (rule single_flight_mono [OF f _ sf])
    show "filed op_id (is_dir (sweep io now st))" unfolding d by (rule prune_filed [OF f])
  qed (auto simp: d prune_scan [OF f] split: option.splits sum.splits if_splits)
  with prune_filed [OF f] d show ?thesis by (simp add: journal_ok_def)
qed (simp add: sweep_def)

section \<open>Runs of the journal\<close>

datatype journal_call =
    CBegin inflight_payload string bool
  | CUpdate string string "string option"
  | CComplete string
  | CAbandon string string
  | CDischarge string
  | CSweep

fun journal_step :: "io_faults \<times> datetime \<times> journal_call \<Rightarrow> inflight_store \<Rightarrow> inflight_store" where
  "journal_step (io, now, CBegin p phase ex) st = snd (begin_op io now p phase ex st)"
| "journal_step (io, now, CUpdate i phase err) st = snd (update_phase io now i phase err st)"
| "journal_step (io, now, CComplete i) st = snd (complete_op io now i st)"
| "journal_step (io, now, CAbandon i reason) st = snd (abandon_op io now i reason st)"
| "journal_step (io, now, CDischarge i) st = snd (discharge_op io now i st)"
| "journal_step (io, now, CSweep) st = sweep io now st"

lemma journal_step_ok: "journal_ok st \<Longrightarrow> journal_ok (journal_step c st)"
  by (cases "(c, st)" rule: journal_step.cases)
    (auto simp: update_phase_def complete_op_def abandon_op_def
      intro: begin_ok change_in_ok discharge_ok sweep_ok prod.collapse [symmetric])

section \<open>Properties\<close>

text \<open>
  (C32) Single flight. From an empty journal, whatever sequence of calls is made, at whatever times and
  with whatever file-system faults: every entry is filed under its own id and no two entries in
  progress are the same orchestration. A \<open>begin\<close> that succeeds then found no entry in progress for the
  same orchestration, and none at all when it was exclusive, and its entry is read back by its id.
\<close>

theorem journal_single_flight:
  assumes "st = fold journal_step calls (inflight_store_new [] retention)"
    and "begin_op io now p phase ex st = (Inr op, st')"
  shows "journal_ok st \<and> journal_ok st' \<and> get_op (op_id op) st' = Inr op \<and>
    list_all (\<lambda>(n, a). op_status a = InProgress \<longrightarrow> \<not> ex \<and> \<not> conflict op a) (entries (is_dir st))"
proof -
  have 0: "journal_ok (inflight_store_new [] retention)"
    by (simp add: journal_ok_def inflight_store_new_def filed_def dir_names_def single_flight_def entries_def
        List.map_filter_def)
  have "journal_ok x \<Longrightarrow> journal_ok (fold journal_step calls x)" for x
    by (induction calls arbitrary: x) (simp_all add: journal_step_ok)
  with 0 assms(1) have st: "journal_ok st" by blast
  from assms(2) show ?thesis
  proof (cases rule: begin_cases)
    case (written w i op')
    hence w: "is_ok w" "op' = op" by simp_all
    have ne: "i \<noteq> []" using written(2) by (simp add: make_id_def)
    from w(1) obtain u where "w = Inr u" by (auto simp: is_ok_def split: sum.splits)
    from write_atomic_ok [OF written(6) [unfolded this], of "json_name i"] ne written(3) w(2)
    have "get_op (op_id op) st' = Inr op" by (simp add: get_op_def get_doc_def read_one_def)
    moreover have "list_all (\<lambda>(n, a). op_status a = InProgress \<longrightarrow> \<not> ex \<and> \<not> conflict op a) (entries (is_dir st))"
      using written(1,5) w(2) unfolding begin_gate_open by (auto simp: list_all_iff conflict_def)
    ultimately show ?thesis using st begin_ok [OF st assms(2)] by blast
  qed simp
qed

definition ex_journal :: inflight_store where
  "ex_journal = fold journal_step
     [(no_faults, 5, CBegin (Recovery 0 2 ''db2'' ''node2'') ''checkpoint'' True),
      (no_faults, 9, CComplete ''5-recovery-0'')]
     (inflight_store_new [] (csecs 604800))"

lemmas journal_eval = inflight_store_new_def begin_op_def complete_op_def change_in_def modify_doc_def
  get_doc_def read_one_def write_atomic_def read_all_def no_faults_def entries_def skipped_def
  List.map_filter_def json_name_def tmp_name_def make_id_def timestamp_nanos_def change_op_def
  op_name_def op_key_def Let_def

lemma show_digit: "n < 10 \<Longrightarrow> show_nat n = [digit_char n]"
  by (simp add: show_nat_def show_radix.simps)

lemma ex_journal_dir:
  "ex_journal = \<lparr>is_dir = [(''5-recovery-0.json'', Inr \<lparr>op_id = ''5-recovery-0'', op_status = Done,
     op_payload = Recovery 0 2 ''db2'' ''node2'', op_phase = ''done'', op_started_at = 5, op_updated_at = 9,
     op_completed_at = Some 9, op_discharged_at = None, op_last_error = None\<rparr>)],
     is_seq = 1, is_retention = csecs 604800\<rparr>"
  by (simp add: ex_journal_def journal_eval show_int_def show_digit)

lemma ex_begin:
  "\<exists>op st'. begin_op no_faults 12 (Promote 0 7) ''promoting'' True ex_journal = (Inr op, st') \<and>
     op_id op = ''12-promote-1''"
  by (simp add: ex_journal_dir journal_eval show_int_def show_nat_def show_radix.simps is_json_def
      ends_with_def)

theorem journal_single_flight_witness:
  "\<exists>op. get_op ''12-promote-1'' (snd (begin_op no_faults 12 (Promote 0 7) ''promoting'' True ex_journal)) = Inr op"
proof -
  obtain op st' where b: "begin_op no_faults 12 (Promote 0 7) ''promoting'' True ex_journal = (Inr op, st')"
    "op_id op = ''12-promote-1''" using ex_begin by blast
  from journal_single_flight [OF ex_journal_def b(1)] b show ?thesis by auto
qed

section \<open>Who owns a node\<close>

lemma node_id_from_slot_name:
  assumes "i32_range (nc_id n)"
  shows "node_id_from_slot (slot_name n) = Some (nc_id n)"
  using parse_i32_show [OF assms] by (simp add: node_id_from_slot_def slot_name_def)

lemma list_ops_Inr:
  assumes "list_ops io ss st = Inr (ops, sk)" and "ss \<noteq> []"
  shows "set ops = {a. (\<exists>n. (n, a) \<in> set (entries (is_dir st))) \<and> op_status a \<in> set ss}"
proof -
  from assms obtain os sk' where r: "read_all itag io (is_dir st) = Inr (os, sk')"
    and o: "set ops = {a \<in> set os. op_status a \<in> set ss}"
    by (auto simp: list_ops_def Let_def split: sum.splits)
  show ?thesis using read_all_Inr [OF r] docs_in [of _ "is_dir st"] unfolding o by blast
qed

lemma owner_of_node_Some:
  assumes "owner_of_node io now n grace st = Some own"
  shows "(\<exists>m. (m, own) \<in> set (entries (is_dir st))) \<and> target_node_id (op_payload own) = Some n \<and>
    op_status own \<in> {InProgress, Done} \<and> owns now grace own"
proof -
  from assms obtain ops sk where l: "list_ops io [InProgress, Done] st = Inr (ops, sk)"
    and m: "max_by_key op_started_at
      (filter (owns now grace) (filter (\<lambda>o'. target_node_id (op_payload o') = Some n) ops)) = Some own"
    by (auto simp: owner_of_node_def split: sum.splits)
  from max_by_key_in [OF m] list_ops_Inr [OF l] show ?thesis by auto
qed

lemma owner_of_node_None:
  assumes "owner_of_node io now n grace st = None" and "is_ok (read_all itag io (is_dir st))"
    and "(m, a) \<in> set (entries (is_dir st))" "op_status a \<in> {InProgress, Done}"
    and "target_node_id (op_payload a) = Some n"
  shows "\<not> owns now grace a"
proof -
  from assms(2) obtain ops sk where l: "list_ops io [InProgress, Done] st = Inr (ops, sk)"
    by (auto simp: list_ops_def is_ok_def Let_def split: sum.splits)
  with assms(1) have "filter (owns now grace) (filter (\<lambda>o'. target_node_id (op_payload o') = Some n) ops) = []"
    by (simp add: owner_of_node_def)
  moreover have "a \<in> set ops" using list_ops_Inr [OF l] assms(3,4) by auto
  ultimately show ?thesis using assms(5) by (auto simp: filter_empty_conv)
qed

text \<open>
  (C33) Ownership ends by evidence. A node is protected exactly while a journal entry that rebuilds it
  is in progress, or is done, not discharged and younger than the grace; an abandoned entry protects
  nothing. The observing query withdraws the protection only of a completed entry, and only when the
  slot was seen active; it then records the discharge, after which that entry never protects the node
  again, at any later time and under any grace.
\<close>

theorem ownership_ends_by_evidence:
  assumes "journal_ok st" and "is_ok (read_all itag io (is_dir st))" and "node_id_from_slot slot = Some n"
    and "owner_of_slot_observing io now slot grace act st = (res, st')"
  shows "(owner_of_slot io now slot grace st = None \<longleftrightarrow>
           list_all (\<lambda>(m, a). target_node_id (op_payload a) = Some n \<and> op_status a \<in> {InProgress, Done} \<longrightarrow>
             \<not> owns now grace a) (entries (is_dir st))) \<and>
    (case owner_of_slot io now slot grace st of
       None \<Rightarrow> res = None \<and> st' = st
     | Some own \<Rightarrow>
         target_node_id (op_payload own) = Some n \<and>
         (if op_status own = Done \<and> act = Inr True
          then res = None \<and>
            (io_write io = None \<and> io_rename io = None \<longrightarrow>
              (\<exists>b. get_op (op_id own) st' = Inr b \<and> (\<forall>now' grace'. \<not> owns now' grace' b)))
          else res = Some own \<and> st' = st))"
proof -
  have o: "owner_of_slot io now slot grace st = owner_of_node io now n grace st"
    by (simp add: owner_of_slot_def assms(3))
  have none: "owner_of_node io now n grace st = None \<longleftrightarrow>
      list_all (\<lambda>(m, a). target_node_id (op_payload a) = Some n \<and> op_status a \<in> {InProgress, Done} \<longrightarrow>
             \<not> owns now grace a) (entries (is_dir st))"
  proof
    show "owner_of_node io now n grace st = None \<Longrightarrow>
      list_all (\<lambda>(m, a). target_node_id (op_payload a) = Some n \<and> op_status a \<in> {InProgress, Done} \<longrightarrow>
             \<not> owns now grace a) (entries (is_dir st))"
      using owner_of_node_None [OF _ assms(2)] unfolding list_all_iff by blast
  next
    assume "list_all (\<lambda>(m, a). target_node_id (op_payload a) = Some n \<and> op_status a \<in> {InProgress, Done} \<longrightarrow>
             \<not> owns now grace a) (entries (is_dir st))"
    thus "owner_of_node io now n grace st = None"
      using owner_of_node_Some [of io now n grace st] by (cases "owner_of_node io now n grace st") (auto simp: list_all_iff)
  qed
  show ?thesis
  proof (cases "owner_of_node io now n grace st")
    case None
    with assms(4) none o show ?thesis by (auto simp: owner_of_slot_observing_def)
  next
    case (Some own)
    note own = owner_of_node_Some [OF Some]
    from own obtain m where m: "(m, own) \<in> set (entries (is_dir st))" by blast
    have f: "filed op_id (is_dir st)" using assms(1) by (simp add: journal_ok_def)
    from m f have g: "get_doc itag (op_id own) (is_dir st) = Inr own" "op_id own \<noteq> []"
      by (auto simp: filed_entries get_doc_def read_one_def)
    show ?thesis
    proof (cases "op_status own = Done \<and> act = Inr True")
      case True
      have nd: "op_discharged_at own = None" using own True by (auto simp: owns_def)
      have st': "st' = snd (change_in io (op_id own) (Discharge now) st)" "res = None"
        using assms(4) o Some True g nd by (auto simp: owner_of_slot_observing_def discharge_op_def)
      have "get_op (op_id own) st' = Inr (own\<lparr>op_discharged_at := Some now\<rparr>)"
        if "io_write io = None" "io_rename io = None"
        using that g st' by (auto simp: change_in_def modify_doc_def change_op_def write_atomic_def
            get_op_def get_doc_def read_one_def update_conv' Let_def)
      moreover have "\<not> owns now' grace' (own\<lparr>op_discharged_at := Some now\<rparr>)" for now' grace'
        using True by (simp add: owns_def)
      ultimately show ?thesis using none o Some own True st'(2) by auto
    next
      case False
      hence "res = Some own \<and> st' = st"
        using assms(4) o Some own by (auto simp: owner_of_slot_observing_def split: sum.splits bool.splits)
      with none o Some own False show ?thesis by auto
    qed
  qed
qed

definition ex_done :: inflight_op where
  "ex_done = \<lparr>op_id = ''5-recovery-0'', op_status = Done, op_payload = Recovery 0 2 ''db2'' ''node2'',
     op_phase = ''done'', op_started_at = 5, op_updated_at = 9, op_completed_at = Some 9,
     op_discharged_at = None, op_last_error = None\<rparr>"

lemma ex_journal_entries: "entries (is_dir ex_journal) = [(''5-recovery-0.json'', ex_done)]"
  by (simp add: ex_journal_dir ex_done_def entries_def List.map_filter_def is_json_def ends_with_def)

lemma ex_journal_ok: "journal_ok ex_journal"
  by (simp add: journal_ok_def filed_def dir_names_def single_flight_def ex_journal_entries)
    (simp add: ex_journal_dir ex_done_def json_name_def)

lemma ex_read: "read_all itag no_faults (is_dir ex_journal) = Inr ([ex_done], skipped (is_dir ex_journal))"
  by (simp add: read_all_def no_faults_def ex_journal_entries)

lemma ex_slot: "node_id_from_slot ''node2'' = Some 2"
  by (simp add: node_id_from_slot_def parse_i32_def parse_i32_radix_def digits_val_def digit_val_def)

lemma ex_owner: "owner_of_slot no_faults 10 ''node2'' (csecs 120) ex_journal = Some ex_done"
  by (simp add: owner_of_slot_def ex_slot owner_of_node_def list_ops_def ex_read Let_def)
    (simp add: ex_done_def target_node_id_def owns_def csecs_def)

theorem ownership_ends_by_evidence_witness:
  "\<exists>b. get_op ''5-recovery-0''
     (snd (owner_of_slot_observing no_faults 10 ''node2'' (csecs 120) (Inr True) ex_journal)) = Inr b \<and>
     \<not> owns 11 (csecs 120) b"
proof -
  obtain res st' where r: "owner_of_slot_observing no_faults 10 ''node2'' (csecs 120) (Inr True) ex_journal = (res, st')"
    by fastforce
  have "is_ok (read_all itag no_faults (is_dir ex_journal))" by (simp add: ex_read)
  from ownership_ends_by_evidence [OF ex_journal_ok this ex_slot r, THEN conjunct2]
  have "\<exists>b. get_op (op_id ex_done) st' = Inr b \<and> (\<forall>now' grace'. \<not> owns now' grace' b)"
    by (simp add: ex_owner) (simp add: ex_done_def no_faults_def)
  with r show ?thesis by (auto simp: ex_done_def)
qed

text \<open>
  Only the newest entry is looked at: a completed entry that started later hides an older one still in
  progress on the same node, and the query that sees the slot active then answers that nobody owns it.
\<close>

definition ex_older :: inflight_op where
  "ex_older = \<lparr>op_id = ''1-recovery-0'', op_status = InProgress, op_payload = Recovery 0 2 ''db2'' ''node2'',
     op_phase = ''basebackup'', op_started_at = 1, op_updated_at = 1, op_completed_at = None,
     op_discharged_at = None, op_last_error = None\<rparr>"

definition ex_masked :: inflight_store where
  "ex_masked = inflight_store_new [(''1-recovery-0.json'', Inr ex_older), (''5-recovery-0.json'', Inr ex_done)]
     (csecs 604800)"

lemma newer_completed_masks_in_progress:
  "owner_of_slot no_faults 10 ''node2'' (csecs 120) ex_masked = Some ex_done \<and>
   fst (owner_of_slot_observing no_faults 10 ''node2'' (csecs 120) (Inr True) ex_masked) = None \<and>
   owns 10 (csecs 120) ex_older"
proof -
  have e: "read_all itag no_faults (is_dir ex_masked) = Inr ([ex_older, ex_done], [])"
    by (simp add: read_all_def no_faults_def ex_masked_def inflight_store_new_def entries_def skipped_def
        List.map_filter_def is_json_def ends_with_def)
  have o: "owner_of_slot no_faults 10 ''node2'' (csecs 120) ex_masked = Some ex_done"
    by (simp add: owner_of_slot_def ex_slot owner_of_node_def list_ops_def e Let_def)
      (simp add: ex_done_def ex_older_def target_node_id_def owns_def csecs_def)
  thus ?thesis by (simp add: owner_of_slot_observing_def ex_done_def owns_def ex_older_def)
qed

end
