(* ===== verification/ReplayMarkers.thy ===== *)
theory ReplayMarkers
  imports FileStore
begin

text \<open>
  The idempotency markers of hooks, \<open>crates/pg-agent-core/src/replay_markers.rs\<close>: one file per completed
  operation, named by a digest of the operation and its key, consulted before a hook does any work and
  pruned after the retention.

  The digest (\<open>sha2\<close> and \<open>hex\<close>) is the argument \<open>sha\<close>. The scan of a sweep stops at the entry where the
  directory stream fails, which is the first component of \<open>io_next_entry\<close>.
\<close>

section \<open>The store\<close>

record marker_file =
  mf_op :: string
  mf_key :: string
  mf_completed_at :: datetime

record replay_store =
  rs_dir :: "marker_file doc_dir"
  rs_retention :: int

definition replay_store_new :: "marker_file doc_dir \<Rightarrow> int \<Rightarrow> replay_store" where
  "replay_store_new d retention = \<lparr>rs_dir = d, rs_retention = retention\<rparr>"

definition replay_default_retention :: int where
  "replay_default_retention = csecs (24 * 3600)"

definition code_between :: "nat \<Rightarrow> nat \<Rightarrow> char \<Rightarrow> bool" where
  "code_between lo hi c = (lo \<le> of_char c \<and> of_char c \<le> hi)"

definition to_ascii_lowercase :: "char \<Rightarrow> char" where
  "to_ascii_lowercase c = (if code_between 65 90 c then char_of (of_char c + 32 :: nat) else c)"

definition is_ascii_alphanumeric :: "char \<Rightarrow> bool" where
  "is_ascii_alphanumeric c = (code_between 48 57 c \<or> code_between 65 90 c \<or> code_between 97 122 c)"

definition sanitize_char :: "char \<Rightarrow> string" where
  "sanitize_char c =
     (let lower = to_ascii_lowercase c in
      if is_ascii_alphanumeric lower \<or> lower = CHR ''_'' \<or> lower = CHR ''-'' then [lower]
      else if c = CHR '' '' then ''-''
      else [])"

definition sanitize_op :: "string \<Rightarrow> string" where
  "sanitize_op op =
     (let out = concat (map sanitize_char (trim op)) in if out = [] then ''op'' else out)"

definition marker_id :: "(string \<Rightarrow> string) \<Rightarrow> string \<Rightarrow> string \<Rightarrow> string" where
  "marker_id sha op key = sanitize_op op @ ''_'' @ sha (op @ ''|'' @ key)"

definition marker_path :: "(string \<Rightarrow> string) \<Rightarrow> string \<Rightarrow> string \<Rightarrow> string" where
  "marker_path sha op key = json_name (marker_id sha op key)"

text \<open>\<open>has\<close> asks for the file's metadata only; \<open>stat\<close> is an error other than \<open>NotFound\<close>.\<close>

definition has_marker ::
  "(string \<Rightarrow> string) \<Rightarrow> string option \<Rightarrow> string \<Rightarrow> string \<Rightarrow> replay_store \<Rightarrow> (string, bool) result" where
  "has_marker sha stat op key st =
     (case stat of
        Some e \<Rightarrow> Inl (''replay: stat '' @ marker_path sha op key @ '': '' @ e)
      | None \<Rightarrow> Inr (map_of (rs_dir st) (marker_path sha op key) \<noteq> None))"

definition mark_done_marker ::
  "(string \<Rightarrow> string) \<Rightarrow> io_faults \<Rightarrow> datetime \<Rightarrow> string \<Rightarrow> string \<Rightarrow> replay_store \<Rightarrow>
     (string, unit) result \<times> replay_store" where
  "mark_done_marker sha io now op key st =
     (case write_atomic ''replay'' io (marker_id sha op key)
             \<lparr>mf_op = op, mf_key = key, mf_completed_at = now\<rparr> (rs_dir st) of
        (r, d) \<Rightarrow> (r, st\<lparr>rs_dir := d\<rparr>))"

definition sweep_one :: "io_faults \<Rightarrow> datetime \<Rightarrow> int \<Rightarrow> string \<Rightarrow> marker_file doc_dir \<Rightarrow> marker_file doc_dir" where
  "sweep_one io now retention n d =
     (case map_of d n of
        None \<Rightarrow> d
      | Some (Inl _) \<Rightarrow> d
      | Some (Inr m) \<Rightarrow>
          if now - mf_completed_at m \<le> retention then d else snd (remove_file io n d))"

fun sweep_names ::
  "io_faults \<Rightarrow> datetime \<Rightarrow> int \<Rightarrow> string list \<Rightarrow> marker_file doc_dir \<Rightarrow> marker_file doc_dir" where
  "sweep_names io now retention [] d = d"
| "sweep_names io now retention (n # ns) d =
     (if \<not> is_json n then sweep_names io now retention ns d
      else sweep_names io now retention ns (sweep_one io now retention n d))"

definition replay_sweep :: "io_faults \<Rightarrow> datetime \<Rightarrow> replay_store \<Rightarrow> replay_store" where
  "replay_sweep io now st =
     (case io_read_dir io of
        Some _ \<Rightarrow> st
      | None \<Rightarrow>
          let ns = map fst (rs_dir st);
              ns = (case io_next_entry io of Some (k, _) \<Rightarrow> take k ns | None \<Rightarrow> ns)
          in st\<lparr>rs_dir := sweep_names io now (rs_retention st) ns (rs_dir st)\<rparr>)"

section \<open>What a sweep removes\<close>

lemma is_json_marker [simp]: "is_json (marker_path sha op key)"
  by (simp add: marker_path_def marker_id_def)

definition stale :: "datetime \<Rightarrow> int \<Rightarrow> (string, marker_file) result \<Rightarrow> bool" where
  "stale now retention r = (case r of Inl _ \<Rightarrow> False | Inr m \<Rightarrow> retention < now - mf_completed_at m)"

lemma sweep_one_doc:
  "map_of (sweep_one io now ret m d) n =
     (case map_of d n of
        Some r \<Rightarrow> if n = m \<and> stale now ret r \<and> io_remove io n = None then None else Some r
      | None \<Rightarrow> None)"
  by (auto simp: sweep_one_def remove_file_def stale_def delete_conv' split: option.splits sum.splits)

lemma sweep_names_doc:
  "map_of (sweep_names io now ret ns d) n =
     (case map_of d n of
        Some r \<Rightarrow> if n \<in> set ns \<and> is_json n \<and> stale now ret r \<and> io_remove io n = None then None else Some r
      | None \<Rightarrow> None)"
  by (induction io now ret ns d rule: sweep_names.induct) (auto simp: sweep_one_doc split: option.splits)

text \<open>What the sweep leaves is what was there, less stale markers of the part that was scanned.\<close>

lemma replay_sweep_doc:
  "map_of (rs_dir (replay_sweep io now st)) n =
     (case map_of (rs_dir st) n of
        Some r \<Rightarrow>
          if io_read_dir io = None \<and> is_json n \<and> stale now (rs_retention st) r \<and> io_remove io n = None \<and>
            n \<in> set (case io_next_entry io of Some (k, _) \<Rightarrow> take k (map fst (rs_dir st))
                      | None \<Rightarrow> map fst (rs_dir st))
          then None else Some r
      | None \<Rightarrow> None)"
  by (auto simp: replay_sweep_def sweep_names_doc Let_def split: option.splits)

lemma replay_sweep_retention [simp]: "rs_retention (replay_sweep io now st) = rs_retention st"
  by (simp add: replay_sweep_def Let_def split: option.split)

lemma mark_done_retention [simp]: "rs_retention (snd (mark_done_marker sha io now op key st)) = rs_retention st"
  by (simp add: mark_done_marker_def split: prod.split)

lemma mark_done_doc:
  assumes "mark_done_marker sha io now op key st = (r, st')" and "is_json n"
  shows "map_of (rs_dir st') n =
    (if is_ok r \<and> n = marker_path sha op key
     then Some (Inr \<lparr>mf_op = op, mf_key = key, mf_completed_at = now\<rparr>) else map_of (rs_dir st) n)"
proof -
  from assms(1) have w: "write_atomic ''replay'' io (marker_id sha op key)
      \<lparr>mf_op = op, mf_key = key, mf_completed_at = now\<rparr> (rs_dir st) = (r, rs_dir st')"
    by (auto simp: mark_done_marker_def split: prod.splits)
  show ?thesis
  proof (cases r)
    case (Inl e)
    from write_atomic_err [OF w [unfolded Inl] assms(2)] Inl show ?thesis by simp
  next
    case (Inr u)
    from write_atomic_ok [OF w [unfolded Inr] assms(2)] Inr show ?thesis by (simp add: marker_path_def)
  qed
qed

section \<open>Runs of the store\<close>

datatype replay_call = RMark string string | RSweep

fun replay_step :: "(string \<Rightarrow> string) \<Rightarrow> io_faults \<times> datetime \<times> replay_call \<Rightarrow> replay_store \<Rightarrow> replay_store" where
  "replay_step sha (io, now, RMark op key) st = snd (mark_done_marker sha io now op key st)"
| "replay_step sha (io, now, RSweep) st = replay_sweep io now st"

definition fresh_since :: "datetime \<Rightarrow> string \<Rightarrow> replay_store \<Rightarrow> bool" where
  "fresh_since t n st = (case map_of (rs_dir st) n of Some (Inr m) \<Rightarrow> t \<le> mf_completed_at m | _ \<Rightarrow> False)"

text \<open>A marker survives a step at a time when it is still within the retention.\<close>

lemma fresh_step:
  assumes "fresh_since t (marker_path sha op key) st"
    and "t \<le> now" "now \<le> t + rs_retention st"
  shows "fresh_since t (marker_path sha op key) (replay_step sha (io, now, c) st) \<and>
    rs_retention (replay_step sha (io, now, c) st) = rs_retention st"
proof (cases c)
  case (RMark op' key')
  obtain r st' where m: "mark_done_marker sha io now op' key' st = (r, st')" by fastforce
  from mark_done_doc [OF m is_json_marker [of sha op key]] assms(1,2) m RMark
    mark_done_retention [of sha io now op' key' st]
  show ?thesis by (auto simp: fresh_since_def split: option.splits sum.splits)
next
  case RSweep
  with assms show ?thesis
    by (auto simp: fresh_since_def replay_sweep_doc stale_def split: option.splits sum.splits)
qed

lemma fresh_run:
  assumes "fresh_since t (marker_path sha op key) st"
    and "list_all (\<lambda>(io, now, c). t \<le> now \<and> now \<le> t + rs_retention st) calls"
  shows "fresh_since t (marker_path sha op key) (fold (replay_step sha) calls st)"
  using assms
proof (induction calls arbitrary: st)
  case (Cons c calls)
  obtain io now k where c: "c = (io, now, k)" using prod_cases3 by blast
  from fresh_step [OF Cons.prems(1), of now io k] Cons.prems(2) c Cons.IH [of "replay_step sha c st"]
  show ?case by simp
qed simp

lemma marker_path_inj:
  assumes "marker_path sha op key = marker_path sha op' key'"
    and "CHR ''|'' \<notin> set op" "CHR ''|'' \<notin> set op'"
    and "sanitize_op op = sanitize_op op' \<Longrightarrow> sha (op @ ''|'' @ key) = sha (op' @ ''|'' @ key') \<Longrightarrow>
      op @ ''|'' @ key = op' @ ''|'' @ key'"
    and "length (sha (op @ ''|'' @ key)) = length (sha (op' @ ''|'' @ key'))"
  shows "op = op' \<and> key = key'"
proof -
  have "op @ ''|'' @ key = op' @ ''|'' @ key'"
    using assms(1,4,5) by (auto simp: marker_path_def marker_id_def)
  hence "split_once CHR ''|'' (op @ CHR ''|'' # key) = split_once CHR ''|'' (op' @ CHR ''|'' # key')" by simp
  with assms(2,3) show ?thesis by (simp add: split_once_append)
qed

text \<open>
  A marker stands for completed work. Once \<open>mark_done\<close> has succeeded at time \<open>t\<close>, \<open>has\<close> answers yes
  after any sequence of marks and sweeps up to \<open>t\<close> plus the retention, whatever the disk refuses. A
  mark changes the answer for no other operation and key (names contain no bar, and the two inputs do
  not collide under the digest), a refused mark changes no answer, and a sweep with no faults at a
  time past the retention removes exactly the readable stale markers: a file that does not parse
  stays.
\<close>

theorem marker_stands_for_completed_work:
  assumes "mark_done_marker sha io t op key st = (r, st')"
    and "CHR ''|'' \<notin> set op" "CHR ''|'' \<notin> set op'"
    and collision_free: "sha (op @ ''|'' @ key) = sha (op' @ ''|'' @ key') \<Longrightarrow>
      op @ ''|'' @ key = op' @ ''|'' @ key'"
    and digest_length: "length (sha (op @ ''|'' @ key)) = length (sha (op' @ ''|'' @ key'))"
  shows "(r = Inr () \<longrightarrow>
      (\<forall>calls. list_all (\<lambda>(io, now, c). t \<le> now \<and> now \<le> t + rs_retention st) calls \<longrightarrow>
        has_marker sha None op key (fold (replay_step sha) calls st') = Inr True)) \<and>
    has_marker sha None op' key' st' =
      (if (op', key') = (op, key) \<and> r = Inr () then Inr True else has_marker sha None op' key' st) \<and>
    (\<forall>now n. is_json n \<longrightarrow>
      map_of (rs_dir (replay_sweep no_faults now st')) n =
        opt_filter (\<lambda>c. \<not> stale now (rs_retention st) c) (map_of (rs_dir st') n))"
proof (intro conjI impI allI)
  note doc = mark_done_doc [OF assms(1)]
  have ret: "rs_retention st' = rs_retention st" using mark_done_retention [of sha io t op key st] assms(1) by simp
  fix calls :: "(io_faults \<times> datetime \<times> replay_call) list"
  assume "r = Inr ()" and c: "list_all (\<lambda>(io, now, c). t \<le> now \<and> now \<le> t + rs_retention st) calls"
  with doc [OF is_json_marker [of sha op key]] have "fresh_since t (marker_path sha op key) st'"
    by (simp add: fresh_since_def)
  from fresh_run [OF this, of calls] c ret
  show "has_marker sha None op key (fold (replay_step sha) calls st') = Inr True"
    by (auto simp: fresh_since_def has_marker_def split: option.splits)
next
  have r: "is_ok r \<longleftrightarrow> r = Inr ()" by (cases r) simp_all
  have "marker_path sha op' key' = marker_path sha op key \<longleftrightarrow> op' = op \<and> key' = key"
    using marker_path_inj [OF _ assms(2,3) collision_free digest_length] by metis
  with mark_done_doc [OF assms(1) is_json_marker [of sha op' key']] r
  show "has_marker sha None op' key' st' =
      (if (op', key') = (op, key) \<and> r = Inr () then Inr True else has_marker sha None op' key' st)"
    by (simp add: has_marker_def)
next
  fix now n assume j: "is_json n"
  have ret: "rs_retention st' = rs_retention st" using mark_done_retention [of sha io t op key st] assms(1) by simp
  have dom: "map_of (rs_dir st') n = Some r' \<Longrightarrow> n \<in> set (map fst (rs_dir st'))" for r'
    by (force dest: map_of_SomeD)
  show "map_of (rs_dir (replay_sweep no_faults now st')) n =
        opt_filter (\<lambda>c. \<not> stale now (rs_retention st) c) (map_of (rs_dir st') n)"
    using j ret dom by (cases "map_of (rs_dir st') n") (auto simp: replay_sweep_doc no_faults_def)
qed

definition ex_replay :: replay_store where
  "ex_replay = replay_store_new [(''bad.json'', Inl ''EOF'')] replay_default_retention"

theorem marker_stands_for_completed_work_witness:
  "has_marker (\<lambda>s. s) None ''follow_primary'' ''a''
     (replay_sweep no_faults 2 (snd (mark_done_marker (\<lambda>s. s) no_faults 1 ''follow_primary'' ''a'' ex_replay))) = Inr True"
proof -
  obtain r st' where m: "mark_done_marker (\<lambda>s. s) no_faults 1 ''follow_primary'' ''a'' ex_replay = (r, st')" by fastforce
  hence r: "r = Inr ()" by (auto simp: mark_done_marker_def write_atomic_def no_faults_def Let_def)
  have "1 \<le> csecs (24 * 3600)" by (simp add: csecs_def)
  hence "list_all (\<lambda>(io, now, c). 1 \<le> now \<and> now \<le> 1 + rs_retention ex_replay) [(no_faults, 2, RSweep)]"
    by (simp add: ex_replay_def replay_store_new_def replay_default_retention_def)
  with marker_stands_for_completed_work [OF m, of "''follow_primary''" "''b''"] r
  have "has_marker (\<lambda>s. s) None ''follow_primary'' ''a'' (fold (replay_step (\<lambda>s. s)) [(no_faults, 2, RSweep)] st') = Inr True"
    by (fastforce dest: spec)
  with m show ?thesis by simp
qed

end
