(* ===== verification/Maintenance.thy ===== *)
theory Maintenance
  imports InflightOps ReplayMarkers "HOL-Library.Multiset"
begin

text \<open>
  The durable retry queue for failed slot clean-ups, \<open>crates/pg-agent-core/src/maintenance.rs\<close>: the
  intents, the file-backed store and the worker that sweeps it.

  What the collaborators of one intent's processing answer (the local database, the peer registry, the
  clock, the two disks) is the record \<open>drop_answers\<close>, given per intent; the calls the worker makes are
  recorded in order. A timeout of the operation is the number of calls made before it fired.
\<close>

section \<open>Data\<close>

datatype maintenance_status = MPending | MDone | MAbandoned

definition mstatus_as_wire :: "maintenance_status \<Rightarrow> string" where
  "mstatus_as_wire s = (case s of MPending \<Rightarrow> ''pending'' | MDone \<Rightarrow> ''done'' | MAbandoned \<Rightarrow> ''abandoned'')"

definition mstatus_debug :: "maintenance_status \<Rightarrow> string" where
  "mstatus_debug s = (case s of MPending \<Rightarrow> ''Pending'' | MDone \<Rightarrow> ''Done'' | MAbandoned \<Rightarrow> ''Abandoned'')"

text \<open>Slot, target host, cause and initial error.\<close>

datatype maintenance_payload = DropSlotCleanup string string string string

definition mop_name :: "maintenance_payload \<Rightarrow> string" where
  "mop_name p = (case p of DropSlotCleanup _ _ _ _ \<Rightarrow> ''drop_slot_cleanup'')"

record maintenance_intent =
  mi_id :: string
  mi_status :: maintenance_status
  mi_payload :: maintenance_payload
  mi_attempts :: u32
  mi_last_error :: string
  mi_created_at :: datetime
  mi_updated_at :: datetime
  mi_next_retry_at :: "datetime option"

section \<open>The store\<close>

record maintenance_store =
  ms_dir :: "maintenance_intent doc_dir"
  ms_seq :: u64
  ms_retention :: int

definition maintenance_store_new :: "maintenance_intent doc_dir \<Rightarrow> int \<Rightarrow> maintenance_store" where
  "maintenance_store_new d retention = \<lparr>ms_dir = d, ms_seq = 0, ms_retention = retention\<rparr>"

definition mtag :: string where
  "mtag = ''maintenance''"

definition append_intent ::
  "io_faults \<Rightarrow> datetime \<Rightarrow> maintenance_payload \<Rightarrow> maintenance_store \<Rightarrow>
     (string, maintenance_intent) result \<times> maintenance_store" where
  "append_intent io now p ms =
     (let i = make_id (mop_name p) now (ms_seq ms);
          ms = ms\<lparr>ms_seq := ms_seq ms + 1\<rparr>;
          it = \<lparr>mi_id = i, mi_status = MPending, mi_payload = p, mi_attempts = 0, mi_last_error = [],
                mi_created_at = now, mi_updated_at = now, mi_next_retry_at = None\<rparr>
      in case write_atomic mtag io i it (ms_dir ms) of
           (Inl e, d) \<Rightarrow> (Inl e, ms\<lparr>ms_dir := d\<rparr>)
         | (Inr _, d) \<Rightarrow> (Inr it, ms\<lparr>ms_dir := d\<rparr>))"

definition expired :: "datetime \<Rightarrow> int \<Rightarrow> maintenance_intent \<Rightarrow> bool" where
  "expired now retention it =
     (case mi_status it of MPending \<Rightarrow> False | _ \<Rightarrow> retention < now - mi_updated_at it)"

definition list_pending ::
  "io_faults \<Rightarrow> datetime \<Rightarrow> maintenance_store \<Rightarrow> (string, maintenance_intent list) result \<times> maintenance_store"
where
  "list_pending io now ms =
     (case read_all mtag io (ms_dir ms) of
        Inl e \<Rightarrow> (Inl e, ms)
      | Inr (its, _) \<Rightarrow>
          (Inr (sort_key (\<lambda>it. (mi_created_at it, mi_id it)) (filter (\<lambda>it. mi_status it = MPending) its)),
           ms\<lparr>ms_dir := prune_docs mi_id (expired now (ms_retention ms)) io its (ms_dir ms)\<rparr>))"

definition list_intents ::
  "io_faults \<Rightarrow> maintenance_status list \<Rightarrow> maintenance_store \<Rightarrow>
     (string, maintenance_intent list \<times> (string \<times> string) list) result" where
  "list_intents io statuses ms =
     (case read_all mtag io (ms_dir ms) of
        Inl e \<Rightarrow> Inl e
      | Inr (its, sk) \<Rightarrow>
          let its = (if statuses = [] then its else filter (\<lambda>it. mi_status it \<in> set statuses) its)
          in Inr (sort_key (\<lambda>it. (mi_created_at it, mi_id it)) its, sort_key fst sk))"

definition get_intent :: "string \<Rightarrow> maintenance_store \<Rightarrow> (string, maintenance_intent) result" where
  "get_intent i ms = get_doc mtag i (ms_dir ms)"

datatype intent_change =
    MarkAttempt datetime string datetime
  | MarkDone datetime
  | MarkAbandoned datetime string
  | Reschedule string datetime datetime

definition change_intent :: "intent_change \<Rightarrow> maintenance_intent \<Rightarrow> (string, maintenance_intent) result" where
  "change_intent u it =
     (case u of
        MarkAttempt now err next \<Rightarrow>
          Inr (it\<lparr>mi_attempts := mi_attempts it + 1, mi_last_error := err, mi_updated_at := now,
                  mi_next_retry_at := Some next, mi_status := MPending\<rparr>)
      | MarkDone now \<Rightarrow>
          Inr (it\<lparr>mi_status := MDone, mi_updated_at := now, mi_next_retry_at := None, mi_last_error := []\<rparr>)
      | MarkAbandoned now err \<Rightarrow>
          Inr (it\<lparr>mi_status := MAbandoned, mi_updated_at := now, mi_last_error := err,
                  mi_next_retry_at := None\<rparr>)
      | Reschedule i now when \<Rightarrow>
          if mi_status it \<noteq> MPending
          then Inl (''maintenance: cannot reschedule intent '' @ i @ '' in status '' @ mstatus_debug (mi_status it))
          else Inr (it\<lparr>mi_updated_at := now, mi_next_retry_at := Some when\<rparr>))"

definition change_queue ::
  "io_faults \<Rightarrow> string \<Rightarrow> intent_change \<Rightarrow> maintenance_store \<Rightarrow> (string, unit) result \<times> maintenance_store" where
  "change_queue io i u ms =
     (case modify_doc mtag mi_id io i (change_intent u) (ms_dir ms) of (r, d) \<Rightarrow> (r, ms\<lparr>ms_dir := d\<rparr>))"

definition mark_attempt ::
  "io_faults \<Rightarrow> datetime \<Rightarrow> string \<Rightarrow> string \<Rightarrow> datetime \<Rightarrow> maintenance_store \<Rightarrow>
     (string, unit) result \<times> maintenance_store" where
  "mark_attempt io now i err next ms = change_queue io i (MarkAttempt now err next) ms"

definition mark_done ::
  "io_faults \<Rightarrow> datetime \<Rightarrow> string \<Rightarrow> maintenance_store \<Rightarrow> (string, unit) result \<times> maintenance_store" where
  "mark_done io now i ms = change_queue io i (MarkDone now) ms"

definition mark_abandoned ::
  "io_faults \<Rightarrow> datetime \<Rightarrow> string \<Rightarrow> string \<Rightarrow> maintenance_store \<Rightarrow>
     (string, unit) result \<times> maintenance_store" where
  "mark_abandoned io now i err ms = change_queue io i (MarkAbandoned now err) ms"

definition reschedule ::
  "io_faults \<Rightarrow> datetime \<Rightarrow> string \<Rightarrow> datetime \<Rightarrow> maintenance_store \<Rightarrow>
     (string, unit) result \<times> maintenance_store" where
  "reschedule io now i when ms = change_queue io i (Reschedule i now when) ms"

section \<open>Backoff\<close>

definition max_attempts :: u32 where
  "max_attempts = 5"

definition base_backoff :: duration where
  "base_backoff = secs 30"

definition max_backoff :: duration where
  "max_backoff = secs 600"

text \<open>The loop over \<open>1..next_attempt\<close>, by the number of rounds left.\<close>

fun backoff_loop :: "nat \<Rightarrow> duration \<Rightarrow> duration" where
  "backoff_loop 0 d = min d max_backoff"
| "backoff_loop (Suc k) d = (if max_backoff div 2 \<le> d then max_backoff else backoff_loop k (d * 2))"

definition backoff :: "u32 \<Rightarrow> duration" where
  "backoff next_attempt =
     (if next_attempt \<le> 1 then base_backoff else backoff_loop (unat next_attempt - 1) base_backoff)"

section \<open>The worker\<close>

definition cross_op_grace :: int where
  "cross_op_grace = csecs 120"

record drop_answers =
  da_now :: datetime
  da_queue_io :: io_faults
  da_journal_io :: io_faults
  da_slot_active :: "(string, bool) result"
  da_local_drop :: "(string, unit) result"
  da_client :: "(string, unit) result"
  da_peer_drop :: "(string, unit) result"
  da_timeout :: "nat option"

datatype worker_call =
    WSlotActive string "(string, bool) result"
  | WDropSlot string
  | WPeerClient node_config
  | WPeerDropSlot node_config string

definition fail_intent ::
  "drop_answers \<Rightarrow> maintenance_intent \<Rightarrow> string \<Rightarrow> maintenance_store \<Rightarrow>
     (string, unit) result \<times> maintenance_store" where
  "fail_intent da it err ms =
     (let next_attempt = mi_attempts it + 1 in
      if max_attempts \<le> next_attempt
      then (case mark_abandoned (da_queue_io da) (da_now da) (mi_id it) err ms of
              (Inl e, ms) \<Rightarrow> (Inl (''mark abandoned: '' @ e), ms)
            | (Inr u, ms) \<Rightarrow> (Inr u, ms))
      else (case mark_attempt (da_queue_io da) (da_now da) (mi_id it) err
                   (da_now da + int (backoff next_attempt)) ms of
              (Inl e, ms) \<Rightarrow> (Inl (''mark attempt: '' @ e), ms)
            | (Inr u, ms) \<Rightarrow> (Inr u, ms)))"

definition finish_intent ::
  "drop_answers \<Rightarrow> maintenance_intent \<Rightarrow> maintenance_store \<Rightarrow> (string, unit) result \<times> maintenance_store" where
  "finish_intent da it ms =
     (case mark_done (da_queue_io da) (da_now da) (mi_id it) ms of
        (Inl e, ms) \<Rightarrow> (Inl (''mark maintenance intent done: '' @ e), ms)
      | (Inr u, ms) \<Rightarrow> (Inr u, ms))"

definition drop_op ::
  "node_pool \<Rightarrow> drop_answers \<Rightarrow> node_config \<Rightarrow> string \<Rightarrow> string \<Rightarrow> (string, unit) result \<times> worker_call list" where
  "drop_op pool da node slot host =
     (if is_local pool node then (da_local_drop da, [WDropSlot slot])
      else case da_client da of
          Inl e \<Rightarrow> (Inl (''peer client for '' @ debug_str host @ '': '' @ e), [WPeerClient node])
        | Inr _ \<Rightarrow>
            (case da_peer_drop da of
               Inl e \<Rightarrow> Inl (''drop slot rpc '' @ debug_str slot @ '' on '' @ debug_str host @ '': '' @ e)
             | Inr u \<Rightarrow> Inr u,
             [WPeerClient node, WPeerDropSlot node slot]))"

definition evidence_calls :: "bool \<Rightarrow> drop_answers \<Rightarrow> string \<Rightarrow> inflight_store \<Rightarrow> worker_call list" where
  "evidence_calls local da slot js =
     (case owner_of_slot (da_journal_io da) (da_now da) slot cross_op_grace js of
        None \<Rightarrow> []
      | Some own \<Rightarrow> if op_status own = InProgress \<or> \<not> local then [] else [WSlotActive slot (da_slot_active da)])"

definition process_drop_slot ::
  "node_pool \<Rightarrow> drop_answers \<Rightarrow> maintenance_intent \<Rightarrow> string \<Rightarrow> string \<Rightarrow>
     maintenance_store \<times> inflight_store \<Rightarrow>
     (string, unit) result \<times> (maintenance_store \<times> inflight_store) \<times> worker_call list" where
  "process_drop_slot pool da it slot host s =
     (case s of (ms, js) \<Rightarrow>
      case node_by_hostname pool host of
        Inl e \<Rightarrow>
          (case fail_intent da it (''resolve target host '' @ debug_str host @ '': '' @ show_agent_error e) ms of
             (r, ms) \<Rightarrow> (r, (ms, js), []))
      | Inr node \<Rightarrow>
          let local = is_local pool node;
              seen = evidence_calls local da slot js
          in case owner_of_slot_observing (da_journal_io da) (da_now da) slot cross_op_grace
                    (if local then da_slot_active da else Inr False) js of
               (Some _, js) \<Rightarrow> (case finish_intent da it ms of (r, ms) \<Rightarrow> (r, (ms, js), seen))
             | (None, js) \<Rightarrow>
                 (case drop_op pool da node slot host of
                    (res, calls) \<Rightarrow>
                      (case da_timeout da of
                         Some k \<Rightarrow>
                           (case fail_intent da it (''drop slot '' @ debug_str slot @ '' on '' @ debug_str host @
                                    '': per-op timeout 30s'') ms of
                              (r, ms) \<Rightarrow> (r, (ms, js), seen @ take k calls))
                       | None \<Rightarrow>
                           (case (case res of Inr _ \<Rightarrow> finish_intent da it ms | Inl e \<Rightarrow> fail_intent da it e ms) of
                              (r, ms) \<Rightarrow> (r, (ms, js), seen @ calls)))))"

definition process_intent ::
  "node_pool \<Rightarrow> drop_answers \<Rightarrow> maintenance_intent \<Rightarrow> maintenance_store \<times> inflight_store \<Rightarrow>
     (string, unit) result \<times> (maintenance_store \<times> inflight_store) \<times> worker_call list" where
  "process_intent pool da it s =
     (case mi_payload it of DropSlotCleanup slot host _ _ \<Rightarrow> process_drop_slot pool da it slot host s)"

definition due :: "datetime \<Rightarrow> maintenance_intent \<Rightarrow> bool" where
  "due now it = (case mi_next_retry_at it of Some t \<Rightarrow> \<not> now < t | None \<Rightarrow> True)"

fun sweep_intents ::
  "node_pool \<Rightarrow> datetime \<Rightarrow> (string \<Rightarrow> drop_answers) \<Rightarrow> maintenance_intent list \<Rightarrow>
     maintenance_store \<times> inflight_store \<Rightarrow> (maintenance_store \<times> inflight_store) \<times> worker_call list" where
  "sweep_intents pool now env [] s = (s, [])"
| "sweep_intents pool now env (it # its) s =
     (if \<not> due now it then sweep_intents pool now env its s
      else case process_intent pool (env (mi_id it)) it s of
             (_, s, calls) \<Rightarrow> (case sweep_intents pool now env its s of (s, cs) \<Rightarrow> (s, calls @ cs)))"

definition process_sweep ::
  "node_pool \<Rightarrow> io_faults \<Rightarrow> datetime \<Rightarrow> datetime \<Rightarrow> (string \<Rightarrow> drop_answers) \<Rightarrow>
     maintenance_store \<times> inflight_store \<Rightarrow> (maintenance_store \<times> inflight_store) \<times> worker_call list" where
  "process_sweep pool io listed now env s =
     (case s of (ms, js) \<Rightarrow>
      case list_pending io listed ms of
        (Inl _, ms) \<Rightarrow> ((ms, js), [])
      | (Inr its, ms) \<Rightarrow> sweep_intents pool now env its (ms, js))"

text \<open>One round of \<open>run\<close>: the queue, then the replay markers on the same cadence. \<open>run\<close> is the list of
  rounds until the token is cancelled.\<close>

record sweep_round =
  sr_io :: io_faults
  sr_listed :: datetime
  sr_now :: datetime
  sr_env :: "string \<Rightarrow> drop_answers"
  sr_replay_io :: io_faults
  sr_replay_now :: datetime

fun worker_run ::
  "node_pool \<Rightarrow> sweep_round list \<Rightarrow> (maintenance_store \<times> inflight_store) \<times> replay_store \<Rightarrow>
     ((maintenance_store \<times> inflight_store) \<times> replay_store) \<times> worker_call list" where
  "worker_run pool [] st = (st, [])"
| "worker_run pool (x # xs) (s, rs) =
     (case process_sweep pool (sr_io x) (sr_listed x) (sr_now x) (sr_env x) s of
        (s, calls) \<Rightarrow>
          (case worker_run pool xs (s, replay_sweep (sr_replay_io x) (sr_replay_now x) rs) of
             (st, cs) \<Rightarrow> (st, calls @ cs)))"

section \<open>Backoff values\<close>

lemma backoff_bounds: "base_backoff \<le> backoff n \<and> backoff n \<le> max_backoff"
proof -
  have "base_backoff \<le> d \<Longrightarrow> base_backoff \<le> backoff_loop k d \<and> backoff_loop k d \<le> max_backoff" for k d
    by (induction k d rule: backoff_loop.induct) (auto simp: base_backoff_def max_backoff_def secs_def)
  thus ?thesis by (auto simp: backoff_def base_backoff_def max_backoff_def secs_def)
qed

lemma backoff_loop_exact:
  "d * 2 ^ k \<le> max_backoff \<Longrightarrow> backoff_loop k d = d * 2 ^ k"
proof (induction k d rule: backoff_loop.induct)
  case (2 k d)
  show ?case
  proof (cases "max_backoff div 2 \<le> d")
    case True
    have "max_backoff = 2 * (max_backoff div 2)" by (simp add: max_backoff_def secs_def)
    with True have "max_backoff \<le> 2 * d" by linarith
    moreover have "2 * d \<le> d * 2 ^ Suc k" by simp
    ultimately have "d * 2 ^ Suc k = max_backoff" using 2(2) by linarith
    with True show ?thesis by simp
  next
    case False
    with 2 show ?thesis by (simp add: mult.assoc)
  qed
qed simp

text \<open>The attempts of the queue never reach the cap: they wait 30, 60, 120 and 240 seconds.\<close>

lemma backoff_exact:
  assumes "0 < unat n" "unat n < 5"
  shows "backoff n = secs (30 * 2 ^ (unat n - 1))"
proof (cases "n \<le> 1")
  case True
  hence "unat n = 1" using assms(1) by (simp add: word_le_nat_alt)
  with True show ?thesis by (simp add: backoff_def base_backoff_def)
next
  case False
  have "(2::nat) ^ (unat n - 1) \<le> 2 ^ 3" using assms(2) by (intro power_increasing) auto
  with False show ?thesis
    by (simp add: backoff_def backoff_loop_exact base_backoff_def max_backoff_def secs_def)
qed

section \<open>Invariant of the queue\<close>

lemma change_intent_ident: "change_intent u a = Inr b \<Longrightarrow> mi_id b = mi_id a"
  by (auto simp: change_intent_def split: intent_change.splits if_splits)

interpretation queue: doc_journal mtag mi_id change_intent
  by unfold_locales (rule change_intent_ident)

definition queue_ok :: "maintenance_store \<Rightarrow> bool" where
  "queue_ok ms \<longleftrightarrow>
     filed mi_id (ms_dir ms) \<and> list_all (\<lambda>(n, a). mi_attempts a < max_attempts) (entries (ms_dir ms))"

lemma queue_ok_iff:
  "queue_ok ms \<longleftrightarrow> filed mi_id (ms_dir ms) \<and>
     (\<forall>n a. is_json n \<longrightarrow> map_of (ms_dir ms) n = Some (Inr a) \<longrightarrow> mi_attempts a < max_attempts)"
  by (auto simp: queue_ok_def list_all_iff in_entries filed_def)

lemma get_docD:
  "get_doc tag i d = Inr a \<Longrightarrow> i \<noteq> [] \<and> map_of d (json_name i) = Some (Inr a)"
  by (auto simp: get_doc_def read_one_def split: if_splits option.splits)

lemma change_queue_dir:
  "change_queue io i u ms = (q, ms') \<Longrightarrow>
     modify_doc mtag mi_id io i (change_intent u) (ms_dir ms) = (q, ms_dir ms')"
  by (auto simp: change_queue_def split: prod.splits)

section \<open>What a sweep does to the journal\<close>

definition active_node :: "worker_call \<Rightarrow> i32 option" where
  "active_node c = (case c of WSlotActive s (Inr True) \<Rightarrow> node_id_from_slot s | _ \<Rightarrow> None)"

definition dropped_node :: "worker_call \<Rightarrow> i32 option" where
  "dropped_node c =
     (case c of WDropSlot s \<Rightarrow> node_id_from_slot s | WPeerDropSlot _ s \<Rightarrow> node_id_from_slot s | _ \<Rightarrow> None)"

definition readable :: "io_faults \<Rightarrow> bool" where
  "readable io \<longleftrightarrow> io_read_dir io = None \<and> io_next_entry io = None"

text \<open>Entries are only discharged, and only completed ones of the nodes given.\<close>

definition discharged_only :: "i32 option set \<Rightarrow> inflight_op doc_dir \<Rightarrow> inflight_op doc_dir \<Rightarrow> bool" where
  "discharged_only N d d' \<longleftrightarrow> filed op_id d' \<and> (\<forall>n. is_json n \<longrightarrow> map_of d' n = map_of d n \<or>
     (\<exists>a t. map_of d n = Some (Inr a) \<and> op_status a = Done \<and> target_node_id (op_payload a) \<in> N \<and>
        map_of d' n = Some (Inr (a\<lparr>op_discharged_at := Some t\<rparr>))))"

lemma discharged_only_refl: "filed op_id d \<Longrightarrow> discharged_only N d d"
  by (simp add: discharged_only_def)

lemma discharged_only_trans:
  assumes "discharged_only N d d1" "discharged_only M d1 d2"
  shows "discharged_only (N \<union> M) d d2"
  unfolding discharged_only_def
proof (intro conjI allI impI)
  show "filed op_id d2" using assms(2) by (simp add: discharged_only_def)
  fix n assume "is_json n"
  with assms have
    "map_of d1 n = map_of d n \<or> (\<exists>a t. map_of d n = Some (Inr a) \<and> op_status a = Done \<and>
       target_node_id (op_payload a) \<in> N \<and> map_of d1 n = Some (Inr (a\<lparr>op_discharged_at := Some t\<rparr>)))"
    "map_of d2 n = map_of d1 n \<or> (\<exists>a t. map_of d1 n = Some (Inr a) \<and> op_status a = Done \<and>
       target_node_id (op_payload a) \<in> M \<and> map_of d2 n = Some (Inr (a\<lparr>op_discharged_at := Some t\<rparr>)))"
    unfolding discharged_only_def by blast+
  thus "map_of d2 n = map_of d n \<or> (\<exists>a t. map_of d n = Some (Inr a) \<and> op_status a = Done \<and>
       target_node_id (op_payload a) \<in> N \<union> M \<and> map_of d2 n = Some (Inr (a\<lparr>op_discharged_at := Some t\<rparr>)))"
    by (elim disjE exE conjE) force+
qed

text \<open>An entry that protects its node after discharges did so before; entries of other nodes stay.\<close>

lemma discharged_only_entries:
  assumes "filed op_id d" "discharged_only N d d'"
  shows "(m, b) \<in> set (entries d') \<Longrightarrow> owns t g b \<Longrightarrow> (m, b) \<in> set (entries d)"
    and "(m, b) \<in> set (entries d) \<Longrightarrow> target_node_id (op_payload b) \<notin> N \<Longrightarrow> (m, b) \<in> set (entries d')"
    and "(m, b) \<in> set (entries d) \<Longrightarrow> op_status b = InProgress \<Longrightarrow> (m, b) \<in> set (entries d')"
proof -
  have n: "dir_names d" "dir_names d'" using assms by (simp_all add: filed_def discharged_only_def)
  have c: "map_of d' m = map_of d m \<or> (\<exists>a t. map_of d m = Some (Inr a) \<and> op_status a = Done \<and>
       target_node_id (op_payload a) \<in> N \<and> map_of d' m = Some (Inr (a\<lparr>op_discharged_at := Some t\<rparr>)))"
    if "is_json m"
    using that assms(2) unfolding discharged_only_def by blast
  show "(m, b) \<in> set (entries d') \<Longrightarrow> owns t g b \<Longrightarrow> (m, b) \<in> set (entries d)"
    unfolding in_entries [OF n(1)] in_entries [OF n(2)] using c by (auto simp: owns_def)
  show "(m, b) \<in> set (entries d) \<Longrightarrow> target_node_id (op_payload b) \<notin> N \<Longrightarrow> (m, b) \<in> set (entries d')"
    unfolding in_entries [OF n(1)] in_entries [OF n(2)] using c by auto
  show "(m, b) \<in> set (entries d) \<Longrightarrow> op_status b = InProgress \<Longrightarrow> (m, b) \<in> set (entries d')"
    unfolding in_entries [OF n(1)] in_entries [OF n(2)] using c by auto
qed

lemma readable_all: "readable io \<Longrightarrow> is_ok (read_all tag io d)"
  by (simp add: readable_def read_all_def)

text \<open>A slot with no owner has none after discharges.\<close>

lemma unowned_mono:
  assumes "filed op_id (is_dir js)" "discharged_only N (is_dir js) (is_dir js1)" "readable io"
    and "owner_of_slot io now slot g js = None"
  shows "owner_of_slot io now slot g js1 = None"
proof (cases "node_id_from_slot slot")
  case (Some n)
  show ?thesis
  proof (rule ccontr)
    assume "owner_of_slot io now slot g js1 \<noteq> None"
    with Some obtain own where "owner_of_node io now n g js1 = Some own" by (auto simp: owner_of_slot_def)
    from owner_of_node_Some [OF this] obtain m where o: "(m, own) \<in> set (entries (is_dir js1))"
      "target_node_id (op_payload own) = Some n" "op_status own \<in> {InProgress, Done}" "owns now g own" by blast
    from discharged_only_entries(1) [OF assms(1,2) o(1,4)] have "(m, own) \<in> set (entries (is_dir js))" .
    moreover have "owner_of_node io now n g js = None" using assms(4) Some by (simp add: owner_of_slot_def)
    ultimately show False using owner_of_node_None readable_all [OF assms(3)] o by blast
  qed
qed (simp add: owner_of_slot_def)

lemma observing_journal:
  assumes "filed op_id (is_dir js)"
    and "owner_of_slot_observing io now slot g act js = (res, js')"
  shows "discharged_only {node_id_from_slot slot} (is_dir js) (is_dir js')"
    and "js' \<noteq> js \<or> res = None \<Longrightarrow> owner_of_slot io now slot g js = None \<or>
      (\<exists>own. owner_of_slot io now slot g js = Some own \<and> op_status own \<noteq> InProgress \<and> act = Inr True)"
proof -
  show "js' \<noteq> js \<or> res = None \<Longrightarrow> owner_of_slot io now slot g js = None \<or>
      (\<exists>own. owner_of_slot io now slot g js = Some own \<and> op_status own \<noteq> InProgress \<and> act = Inr True)"
    using assms(2) by (auto simp: owner_of_slot_observing_def split: option.splits if_splits sum.splits bool.splits)
  show "discharged_only {node_id_from_slot slot} (is_dir js) (is_dir js')"
  proof (cases "js' = js")
    case False
    with assms(2) obtain own where own: "owner_of_slot io now slot g js = Some own" "op_status own \<noteq> InProgress"
      and js': "js' = snd (discharge_op io now (op_id own) js)"
      by (auto simp: owner_of_slot_observing_def split: option.splits if_splits sum.splits bool.splits)
    from own(1) obtain n where n: "node_id_from_slot slot = Some n" "owner_of_node io now n g js = Some own"
      by (auto simp: owner_of_slot_def split: option.splits)
    note o = owner_of_node_Some [OF n(2)]
    with own(2) have o': "op_status own = Done" "target_node_id (op_payload own) = Some n" by auto
    from o assms(1) have d: "map_of (is_dir js) (json_name (op_id own)) = Some (Inr own)"
      by (auto simp: filed_entries)
    from js' False obtain r where c: "change_in io (op_id own) (Discharge now) js = (r, js')"
      by (auto simp: discharge_op_def split: sum.splits if_splits) (metis prod.collapse)
    hence m: "modify_doc itag op_id io (op_id own) (change_op (Discharge now)) (is_dir js) = (r, is_dir js')"
      by (auto simp: change_in_def split: prod.splits)
    show ?thesis
      unfolding discharged_only_def
    proof (intro conjI allI impI)
      show "filed op_id (is_dir js')" by (rule journal.modify_filed [OF assms(1) m])
      fix k assume "is_json k"
      with assms(1) m show "map_of (is_dir js') k = map_of (is_dir js) k \<or>
        (\<exists>a t. map_of (is_dir js) k = Some (Inr a) \<and> op_status a = Done \<and>
          target_node_id (op_payload a) \<in> {node_id_from_slot slot} \<and>
          map_of (is_dir js') k = Some (Inr (a\<lparr>op_discharged_at := Some t\<rparr>)))"
        by (cases rule: journal.modify_effect) (use d o' n(1) in \<open>auto simp: change_op_def\<close>)
    qed
  qed (simp add: discharged_only_refl assms(1))
qed

section \<open>What a sweep does to an intent\<close>

text \<open>Done, which needs an owner of the slot or a drop that succeeded; one more attempt; or abandoned
  at the last one.\<close>

definition may_finish :: "node_pool \<Rightarrow> drop_answers \<Rightarrow> inflight_store \<Rightarrow> maintenance_intent \<Rightarrow> bool" where
  "may_finish pool da js it =
     (case mi_payload it of DropSlotCleanup slot host _ _ \<Rightarrow>
        (case node_by_hostname pool host of
           Inl _ \<Rightarrow> False
         | Inr node \<Rightarrow>
             owner_of_slot (da_journal_io da) (da_now da) slot cross_op_grace js \<noteq> None \<or>
             da_timeout da = None \<and> is_ok (fst (drop_op pool da node slot host))))"

definition verdict ::
  "node_pool \<Rightarrow> drop_answers \<Rightarrow> inflight_store \<Rightarrow> maintenance_intent \<Rightarrow> intent_change \<Rightarrow> bool" where
  "verdict pool da js it u \<longleftrightarrow> u = MarkDone (da_now da) \<and> may_finish pool da js it \<or>
     (\<exists>err. u = (if max_attempts \<le> mi_attempts it + 1 then MarkAbandoned (da_now da) err
                 else MarkAttempt (da_now da) err (da_now da + int (backoff (mi_attempts it + 1)))))"

lemma verdict_mono:
  assumes "filed op_id (is_dir js)" "discharged_only N (is_dir js) (is_dir js1)" "readable (da_journal_io da)"
    and "verdict pool da js1 it u"
  shows "verdict pool da js it u"
  using assms(4) unowned_mono [OF assms(1-3)]
  by (fastforce simp: verdict_def may_finish_def split: maintenance_payload.splits sum.splits)

lemma fail_intent_change:
  assumes "fail_intent da it err ms = (r, ms')"
  shows "\<exists>u q. verdict pool da js it u \<and> change_queue (da_queue_io da) (mi_id it) u ms = (q, ms')"
proof -
  define u where "u = (if max_attempts \<le> mi_attempts it + 1 then MarkAbandoned (da_now da) err
    else MarkAttempt (da_now da) err (da_now da + int (backoff (mi_attempts it + 1))))"
  have "snd (change_queue (da_queue_io da) (mi_id it) u ms) = ms'"
    using assms by (auto simp: fail_intent_def u_def mark_abandoned_def mark_attempt_def Let_def
        split: prod.splits sum.splits if_splits)
  moreover have "verdict pool da js it u" by (auto simp: verdict_def u_def)
  ultimately show ?thesis by (metis prod.collapse)
qed

lemma finish_intent_change:
  assumes "finish_intent da it ms = (r, ms')" and "may_finish pool da js it"
  shows "\<exists>u q. verdict pool da js it u \<and> change_queue (da_queue_io da) (mi_id it) u ms = (q, ms')"
proof -
  have "snd (change_queue (da_queue_io da) (mi_id it) (MarkDone (da_now da)) ms) = ms'"
    using assms by (auto simp: finish_intent_def mark_done_def split: prod.splits sum.splits)
  moreover have "verdict pool da js it (MarkDone (da_now da))" using assms(2) by (simp add: verdict_def)
  ultimately show ?thesis by (metis prod.collapse)
qed

text \<open>The four ways one intent's processing ends.\<close>

lemma process_cases:
  assumes "process_intent pool da it (ms, js) = (r, (ms', js'), calls)"
    and "mi_payload it = DropSlotCleanup slot host cause err0"
  obtains (unresolved) err where "fail_intent da it err ms = (r, ms')" "js' = js" "calls = []"
  | (owned) node own where "node_by_hostname pool host = Inr node" "finish_intent da it ms = (r, ms')"
      "owner_of_slot_observing (da_journal_io da) (da_now da) slot cross_op_grace
         (if is_local pool node then da_slot_active da else Inr False) js = (Some own, js')"
      "calls = evidence_calls (is_local pool node) da slot js"
  | (dropped) node k where "node_by_hostname pool host = Inr node"
      "owner_of_slot_observing (da_journal_io da) (da_now da) slot cross_op_grace
         (if is_local pool node then da_slot_active da else Inr False) js = (None, js')"
      "calls = evidence_calls (is_local pool node) da slot js @ take k (snd (drop_op pool da node slot host))"
      "(\<exists>err. fail_intent da it err ms = (r, ms')) \<or>
         finish_intent da it ms = (r, ms') \<and> da_timeout da = None \<and> is_ok (fst (drop_op pool da node slot host))"
proof (cases "node_by_hostname pool host")
  case (Inl e)
  with assms show thesis
    by (intro unresolved) (auto simp: process_intent_def process_drop_slot_def split: prod.splits)
next
  case (Inr node)
  let ?seen = "evidence_calls (is_local pool node) da slot js"
  obtain own js1 where o: "owner_of_slot_observing (da_journal_io da) (da_now da) slot cross_op_grace
     (if is_local pool node then da_slot_active da else Inr False) js = (own, js1)" by fastforce
  obtain res cs where d: "drop_op pool da node slot host = (res, cs)" by fastforce
  show thesis
  proof (cases own)
    case (Some a)
    with assms Inr o show thesis
      by (intro owned) (auto simp: process_intent_def process_drop_slot_def Let_def split: prod.splits)
  next
    case None
    show thesis
    proof (cases "da_timeout da")
      case t: None
      with assms Inr o None d have
        "(case res of Inr _ \<Rightarrow> finish_intent da it ms | Inl e \<Rightarrow> fail_intent da it e ms) = (r, ms')"
        "js' = js1" "calls = ?seen @ cs"
        by (auto simp: process_intent_def process_drop_slot_def Let_def split: prod.splits)
      thus thesis using Inr o None d t
        by (intro dropped [of node "length cs"]) (auto split: sum.splits)
    next
      case (Some k)
      with assms Inr o None d show thesis
        by (intro dropped [of node k]) (auto simp: process_intent_def process_drop_slot_def Let_def split: prod.splits)
    qed
  qed
qed

lemma process_change:
  assumes "process_intent pool da it (ms, js) = (r, (ms', js'), calls)"
  shows "\<exists>u q. verdict pool da js it u \<and> change_queue (da_queue_io da) (mi_id it) u ms = (q, ms')"
proof -
  obtain slot host c e where p: "mi_payload it = DropSlotCleanup slot host c e"
    by (cases "mi_payload it") simp
  from assms p show ?thesis
  proof (cases rule: process_cases)
    case (owned node own)
    hence "owner_of_slot (da_journal_io da) (da_now da) slot cross_op_grace js \<noteq> None"
      by (auto simp: owner_of_slot_observing_def split: option.splits)
    with owned(1,2) p show ?thesis by (intro finish_intent_change) (simp_all add: may_finish_def)
  next
    case (dropped node k)
    from dropped(4) show ?thesis
    proof (elim disjE exE conjE)
      assume f: "finish_intent da it ms = (r, ms')"
        and "da_timeout da = None" "is_ok (fst (drop_op pool da node slot host))"
      with dropped(1) p show ?thesis by (intro finish_intent_change [OF f]) (simp add: may_finish_def)
    qed (rule fail_intent_change)
  qed (rule fail_intent_change)
qed

lemma discharged_only_mono: "discharged_only N d d' \<Longrightarrow> N \<subseteq> M \<Longrightarrow> discharged_only M d d'"
  unfolding discharged_only_def by blast

lemma process_journal:
  assumes "process_intent pool da it (ms, js) = (r, (ms', js'), calls)" and "filed op_id (is_dir js)"
  shows "discharged_only (active_node ` set calls) (is_dir js) (is_dir js')"
proof -
  obtain slot host c e where p: "mi_payload it = DropSlotCleanup slot host c e"
    by (cases "mi_payload it") simp
  have obs: "discharged_only (active_node ` set (evidence_calls local da slot js @ cs)) (is_dir js) (is_dir js')"
    if o: "owner_of_slot_observing (da_journal_io da) (da_now da) slot cross_op_grace
      (if local then da_slot_active da else Inr False) js = (res, js')" for local res cs
  proof (cases "js' = js")
    case False
    have "owner_of_slot (da_journal_io da) (da_now da) slot cross_op_grace js \<noteq> None"
    proof
      assume "owner_of_slot (da_journal_io da) (da_now da) slot cross_op_grace js = None"
      with False o show False by (simp add: owner_of_slot_observing_def)
    qed
    with observing_journal(2) [OF assms(2) o] False obtain own
      where "owner_of_slot (da_journal_io da) (da_now da) slot cross_op_grace js = Some own"
        "op_status own \<noteq> InProgress" "(if local then da_slot_active da else Inr False) = Inr True" by blast
    moreover from this(3) have "local" "da_slot_active da = Inr True" by (cases local; simp)+
    ultimately have "WSlotActive slot (Inr True) \<in> set (evidence_calls local da slot js)"
      by (simp add: evidence_calls_def)
    hence "active_node (WSlotActive slot (Inr True)) \<in> active_node ` set (evidence_calls local da slot js @ cs)"
      unfolding set_append by blast
    hence "{node_id_from_slot slot} \<subseteq> active_node ` set (evidence_calls local da slot js @ cs)"
      by (simp add: active_node_def)
    with observing_journal(1) [OF assms(2) o] show ?thesis by (rule discharged_only_mono)
  qed (simp add: discharged_only_refl assms(2))
  from assms(1) p show ?thesis
  proof (cases rule: process_cases)
    case (owned node own)
    from obs [OF owned(3), of "[]"] owned(4) show ?thesis by simp
  next
    case (dropped node k)
    from obs [OF dropped(2)] dropped(3) show ?thesis by simp
  qed (simp add: discharged_only_refl assms(2))
qed

definition disk_ok :: "io_faults \<Rightarrow> bool" where
  "disk_ok io \<longleftrightarrow> io_write io = None \<and> io_rename io = None"

definition settled ::
  "node_pool \<Rightarrow> drop_answers \<Rightarrow> inflight_store \<Rightarrow> maintenance_intent \<Rightarrow> maintenance_intent \<Rightarrow> bool" where
  "settled pool da js it b \<longleftrightarrow> (\<exists>u. verdict pool da js it u \<and> change_intent u it = Inr b)"

lemma process_doc:
  assumes "filed mi_id (ms_dir ms)" and "map_of (ms_dir ms) (json_name (mi_id it)) = Some (Inr it)"
    and "process_intent pool da it (ms, js) = (r, (ms', js'), calls)" and "mi_id it \<noteq> []"
  shows "filed mi_id (ms_dir ms')"
    and "is_json n \<Longrightarrow> n \<noteq> json_name (mi_id it) \<Longrightarrow> map_of (ms_dir ms') n = map_of (ms_dir ms) n"
    and "(\<exists>b. settled pool da js it b \<and> map_of (ms_dir ms') (json_name (mi_id it)) = Some (Inr b)) \<or>
      map_of (ms_dir ms') (json_name (mi_id it)) = Some (Inr it) \<and> \<not> disk_ok (da_queue_io da)"
proof -
  from process_change [OF assms(3)] obtain u q where u: "verdict pool da js it u"
    and c: "modify_doc mtag mi_id (da_queue_io da) (mi_id it) (change_intent u) (ms_dir ms) = (q, ms_dir ms')"
    using change_queue_dir by blast
  show "filed mi_id (ms_dir ms')" by (rule queue.modify_filed [OF assms(1) c])
  show "map_of (ms_dir ms') n = map_of (ms_dir ms) n" if "is_json n" "n \<noteq> json_name (mi_id it)"
    using assms(1) c that(1) by (cases rule: queue.modify_effect) (use that(2) in auto)
  have j: "is_json (json_name (mi_id it))" using assms(4) by simp
  show "(\<exists>b. settled pool da js it b \<and> map_of (ms_dir ms') (json_name (mi_id it)) = Some (Inr b)) \<or>
      map_of (ms_dir ms') (json_name (mi_id it)) = Some (Inr it) \<and> \<not> disk_ok (da_queue_io da)"
  proof (cases "disk_ok (da_queue_io da)")
    case True
    have g: "get_doc mtag (mi_id it) (ms_dir ms) = Inr it" using assms(2,4) by (simp add: get_doc_def read_one_def)
    obtain b where b: "change_intent u it = Inr b"
      using u by (auto simp: verdict_def change_intent_def split: if_splits)
    from queue.modify_succeeds [OF assms(1) g b, of "da_queue_io da"] True c
    have "get_doc mtag (mi_id it) (ms_dir ms') = Inr b" by (auto simp: disk_ok_def)
    from get_docD [OF this] u b show ?thesis by (auto simp: settled_def)
  next
    case False
    from assms(1) c j show ?thesis
      by (cases rule: queue.modify_effect) (use assms(2) False u in \<open>auto simp: settled_def\<close>)
  qed
qed

text \<open>The same, decided on the journal as discharges may have left it.\<close>

definition settled_after ::
  "node_pool \<Rightarrow> drop_answers \<Rightarrow> inflight_store \<Rightarrow> maintenance_intent \<Rightarrow> maintenance_intent \<Rightarrow> bool" where
  "settled_after pool da js it b \<longleftrightarrow>
     (\<exists>js1. (filed op_id (is_dir js) \<longrightarrow> discharged_only UNIV (is_dir js) (is_dir js1)) \<and>
        settled pool da js1 it b)"

lemma settled_afterI: "settled pool da js it b \<Longrightarrow> settled_after pool da js it b"
  unfolding settled_after_def using discharged_only_refl by blast

lemma settled_after_trans:
  assumes "settled_after pool da js1 it b"
    and "filed op_id (is_dir js) \<Longrightarrow> discharged_only N (is_dir js) (is_dir js1)"
  shows "settled_after pool da js it b"
proof -
  from assms(1) obtain js2 where
    js2: "filed op_id (is_dir js1) \<longrightarrow> discharged_only UNIV (is_dir js1) (is_dir js2)" "settled pool da js2 it b"
    by (auto simp: settled_after_def)
  have "discharged_only UNIV (is_dir js) (is_dir js2)" if "filed op_id (is_dir js)"
  proof -
    from assms(2) [OF that] have "filed op_id (is_dir js1)" by (simp add: discharged_only_def)
    with js2(1) have "discharged_only UNIV (is_dir js1) (is_dir js2)" by blast
    from discharged_only_trans [OF assms(2) [OF that] this] show ?thesis by simp
  qed
  with js2(2) show ?thesis by (auto simp: settled_after_def)
qed

lemma settled_after_journal:
  assumes "settled_after pool da js it b" and "filed op_id (is_dir js)" and "readable (da_journal_io da)"
  shows "settled pool da js it b"
proof -
  from assms(1,2) obtain js1 u where "discharged_only UNIV (is_dir js) (is_dir js1)"
    "verdict pool da js1 it u" and c: "change_intent u it = Inr b" by (auto simp: settled_after_def settled_def)
  from verdict_mono [OF assms(2) this(1) assms(3) this(2)] c show ?thesis by (auto simp: settled_def)
qed

lemma settled_facts:
  assumes "settled_after pool da js it b"
  shows "mi_id b = mi_id it"
    and "mi_attempts it < max_attempts \<Longrightarrow> mi_attempts b < max_attempts"
proof -
  from assms show "mi_id b = mi_id it" by (auto simp: settled_after_def settled_def change_intent_ident)
  assume a: "mi_attempts it < max_attempts"
  from assms show "mi_attempts b < max_attempts"
    by (auto simp: settled_after_def settled_def verdict_def change_intent_def a split: if_splits)
qed

text \<open>The loop settles every due intent of its list once and leaves every other file alone.\<close>

lemma sweep_intents_doc:
  assumes "filed mi_id (ms_dir ms)" and "distinct (map mi_id its)"
    and "list_all (\<lambda>it. mi_id it \<noteq> [] \<and> map_of (ms_dir ms) (json_name (mi_id it)) = Some (Inr it)) its"
    and "sweep_intents pool now env its (ms, js) = ((ms', js'), calls)"
  shows "filed mi_id (ms_dir ms')"
    and "is_json n \<Longrightarrow> (\<exists>it b. it \<in> set its \<and> due now it \<and> n = json_name (mi_id it) \<and>
        settled_after pool (env (mi_id it)) js it b \<and> map_of (ms_dir ms') n = Some (Inr b)) \<or>
      map_of (ms_dir ms') n = map_of (ms_dir ms) n \<and>
        list_all (\<lambda>it. n = json_name (mi_id it) \<and> due now it \<longrightarrow> \<not> disk_ok (da_queue_io (env (mi_id it)))) its"
proof -
  have "filed mi_id (ms_dir ms') \<and> (\<forall>n. is_json n \<longrightarrow>
      (\<exists>it b. it \<in> set its \<and> due now it \<and> n = json_name (mi_id it) \<and>
        settled_after pool (env (mi_id it)) js it b \<and> map_of (ms_dir ms') n = Some (Inr b)) \<or>
      map_of (ms_dir ms') n = map_of (ms_dir ms) n \<and>
        list_all (\<lambda>it. n = json_name (mi_id it) \<and> due now it \<longrightarrow> \<not> disk_ok (da_queue_io (env (mi_id it)))) its)"
    using assms
  proof (induction its arbitrary: ms js calls)
    case (Cons it its)
    show ?case
    proof (cases "due now it")
      case False
      with Cons.prems have s: "sweep_intents pool now env its (ms, js) = ((ms', js'), calls)" by simp
      from Cons.IH [OF Cons.prems(1) _ _ s] Cons.prems(2,3) False show ?thesis by fastforce
    next
      case True
      obtain r ms1 js1 c1 where p: "process_intent pool (env (mi_id it)) it (ms, js) = (r, (ms1, js1), c1)"
        by (metis prod.collapse)
      from Cons.prems(4) True p obtain c2
        where s: "sweep_intents pool now env its (ms1, js1) = ((ms', js'), c2)"
        by (auto split: prod.splits)
      have it: "mi_id it \<noteq> []" "map_of (ms_dir ms) (json_name (mi_id it)) = Some (Inr it)"
        using Cons.prems(3) by simp_all
      note doc = process_doc [OF Cons.prems(1) it(2) p it(1)]
      have other: "x \<in> set its \<Longrightarrow> mi_id x \<noteq> mi_id it" for x
        using Cons.prems(2) by (metis distinct.simps(2) image_eqI list.set_map list.simps(9))
      have "mi_id x \<noteq> [] \<and> map_of (ms_dir ms1) (json_name (mi_id x)) = Some (Inr x)" if "x \<in> set its" for x
        using that Cons.prems(3) doc(2) [of "json_name (mi_id x)"] other [OF that] by (simp add: list_all_iff)
      hence rest: "list_all (\<lambda>x. mi_id x \<noteq> [] \<and> map_of (ms_dir ms1) (json_name (mi_id x)) = Some (Inr x)) its"
        by (simp add: list_all_iff)
      have d: "distinct (map mi_id its)" using Cons.prems(2) by simp
      note IH = Cons.IH [OF doc(1) d rest s]
      show ?thesis
      proof (intro conjI allI impI)
        show "filed mi_id (ms_dir ms')" using IH by blast
        fix n assume j: "is_json n"
        show "(\<exists>x b. x \<in> set (it # its) \<and> due now x \<and> n = json_name (mi_id x) \<and>
            settled_after pool (env (mi_id x)) js x b \<and> map_of (ms_dir ms') n = Some (Inr b)) \<or>
          map_of (ms_dir ms') n = map_of (ms_dir ms) n \<and>
          list_all (\<lambda>x. n = json_name (mi_id x) \<and> due now x \<longrightarrow> \<not> disk_ok (da_queue_io (env (mi_id x)))) (it # its)"
        proof (cases "n = json_name (mi_id it)")
          case n: True
          with IH j other have same: "map_of (ms_dir ms') n = map_of (ms_dir ms1) n" by (metis json_name_inj)
          have "list_all (\<lambda>x. n = json_name (mi_id x) \<and> due now x \<longrightarrow> \<not> disk_ok (da_queue_io (env (mi_id x)))) its"
            using other n unfolding list_all_iff by (metis json_name_inj)
          with same doc(3) n it(2) True settled_afterI [of pool "env (mi_id it)" js it] show ?thesis by auto
        next
          case False
          from IH [THEN conjunct2, THEN spec, THEN mp, OF j] doc(2) [OF j False] False
            settled_after_trans [OF _ process_journal [OF p]]
          show ?thesis by (elim disjE exE conjE) auto
        qed
      qed
    qed
  qed simp
  thus "filed mi_id (ms_dir ms')"
    and "is_json n \<Longrightarrow> (\<exists>it b. it \<in> set its \<and> due now it \<and> n = json_name (mi_id it) \<and>
        settled_after pool (env (mi_id it)) js it b \<and> map_of (ms_dir ms') n = Some (Inr b)) \<or>
      map_of (ms_dir ms') n = map_of (ms_dir ms) n \<and>
        list_all (\<lambda>it. n = json_name (mi_id it) \<and> due now it \<longrightarrow> \<not> disk_ok (da_queue_io (env (mi_id it)))) its"
    by blast+
qed

text \<open>The list a sweep works on: every pending intent once, as it stands on disk after the pruning.\<close>

lemma list_pending_ok:
  assumes "filed mi_id (ms_dir ms)" and "list_pending io now ms = (Inr its, ms1)"
  shows "filed mi_id (ms_dir ms1)" and "distinct (map mi_id its)"
    and "list_all (\<lambda>it. mi_id it \<noteq> [] \<and> map_of (ms_dir ms1) (json_name (mi_id it)) = Some (Inr it)) its"
    and "is_json n \<Longrightarrow> map_of (ms_dir ms1) n = Some (Inr a) \<Longrightarrow> map_of (ms_dir ms) n = Some (Inr a)"
    and "is_json n \<Longrightarrow> map_of (ms_dir ms) n = Some (Inr a) \<Longrightarrow> mi_status a = MPending \<Longrightarrow>
      a \<in> set its \<and> map_of (ms_dir ms1) n = Some (Inr a)"
proof -
  from assms(2) have its: "its = sort_key (\<lambda>it. (mi_created_at it, mi_id it))
        (filter (\<lambda>it. mi_status it = MPending) (map snd (entries (ms_dir ms))))"
    and ms1: "ms_dir ms1 = prune_docs mi_id (expired now (ms_retention ms)) io
      (map snd (entries (ms_dir ms))) (ms_dir ms)"
    by (auto simp: list_pending_def dest!: read_all_Inr split: sum.splits)
  show "filed mi_id (ms_dir ms1)" unfolding ms1 by (rule prune_filed [OF assms(1)])
  have "mset (map mi_id its) = mset (map mi_id (filter (\<lambda>it. mi_status it = MPending) (map snd (entries (ms_dir ms)))))"
    unfolding its mset_map by simp
  with filed_distinct [OF assms(1)] show "distinct (map mi_id its)"
    using mset_eq_imp_distinct_iff distinct_map_filter by blast
  note scan = prune_scan [OF assms(1), of _ "expired now (ms_retention ms)" io, folded ms1]
  show keep: "a \<in> set its \<and> map_of (ms_dir ms1) n = Some (Inr a)"
    if "is_json n" "map_of (ms_dir ms) n = Some (Inr a)" "mi_status a = MPending" for n a
  proof -
    from that assms(1) have "a \<in> set (map snd (entries (ms_dir ms)))"
      unfolding docs_in by (auto simp: filed_def in_entries)
    with that scan [OF that(1)] show ?thesis by (auto simp: its expired_def)
  qed
  have "mi_id it \<noteq> [] \<and> map_of (ms_dir ms) (json_name (mi_id it)) = Some (Inr it)" and "mi_status it = MPending"
    if "it \<in> set its" for it
  proof -
    from that have "it \<in> set (map snd (entries (ms_dir ms)))" and "mi_status it = MPending" by (auto simp: its)
    thus "mi_id it \<noteq> [] \<and> map_of (ms_dir ms) (json_name (mi_id it)) = Some (Inr it)" "mi_status it = MPending"
      unfolding docs_in filed_entries [OF assms(1)] by auto
  qed
  with keep show "list_all (\<lambda>it. mi_id it \<noteq> [] \<and> map_of (ms_dir ms1) (json_name (mi_id it)) = Some (Inr it)) its"
    unfolding list_all_iff by simp
  show "map_of (ms_dir ms) n = Some (Inr a)" if "is_json n" "map_of (ms_dir ms1) n = Some (Inr a)"
    using that(2) scan [OF that(1)] by (auto split: option.splits sum.splits if_splits)
qed

lemma process_sweep_cases:
  assumes "process_sweep pool io listed now env (ms, js) = ((ms', js'), calls)"
  obtains (failed) "ms' = ms" "js' = js" "calls = []" "\<not> is_ok (read_all mtag io (ms_dir ms))"
  | (listed) its ms1 where "list_pending io listed ms = (Inr its, ms1)"
      "sweep_intents pool now env its (ms1, js) = ((ms', js'), calls)"
proof (cases "list_pending io listed ms")
  case (Pair r ms1)
  with assms show thesis
    by (cases r) (auto simp: process_sweep_def list_pending_def intro: failed listed split: sum.splits)
qed

lemma process_sweep_ok:
  assumes "queue_ok ms" and "process_sweep pool io listed now env (ms, js) = ((ms', js'), calls)"
  shows "queue_ok ms'"
  using assms(2)
proof (cases rule: process_sweep_cases)
  case (listed its ms1)
  from assms(1) have f: "filed mi_id (ms_dir ms)" by (simp add: queue_ok_def)
  note lp = list_pending_ok [OF f listed(1)]
  note sw = sweep_intents_doc [OF lp(1-3) listed(2)]
  have old: "mi_attempts a < max_attempts" if "is_json n" "map_of (ms_dir ms1) n = Some (Inr a)" for n a
    using assms(1) lp(4) [OF that] that(1) by (simp add: queue_ok_iff)
  have "mi_attempts a < max_attempts" if a: "is_json n" "map_of (ms_dir ms') n = Some (Inr a)" for n a
    using sw(2) [OF a(1)]
  proof (elim disjE exE conjE)
    fix it b assume "it \<in> set its" "settled_after pool (env (mi_id it)) js it b" "map_of (ms_dir ms') n = Some (Inr b)"
    moreover from this(1) lp(3) have "mi_attempts it < max_attempts"
      using old [of "json_name (mi_id it)" it] by (simp add: list_all_iff)
    ultimately show ?thesis using a(2) settled_facts(2) by auto
  qed (use a old in auto)
  with sw(1) show ?thesis by (simp add: queue_ok_iff)
qed (use assms(1) in simp)

lemma append_ok: "queue_ok ms \<Longrightarrow> queue_ok (snd (append_intent io now p ms))"
proof -
  assume ok: "queue_ok ms"
  define i where "i = make_id (mop_name p) now (ms_seq ms)"
  define it where "it = \<lparr>mi_id = i, mi_status = MPending, mi_payload = p, mi_attempts = 0, mi_last_error = [],
    mi_created_at = now, mi_updated_at = now, mi_next_retry_at = None\<rparr>"
  obtain r d where w: "write_atomic mtag io i it (ms_dir ms) = (r, d)" by fastforce
  have d: "ms_dir (snd (append_intent io now p ms)) = d"
    using w by (cases r) (simp_all add: append_intent_def Let_def i_def it_def)
  from ok have f: "filed mi_id (ms_dir ms)" by (simp add: queue_ok_def)
  have "filed mi_id d" using filed_write [OF f, of mtag io it] w by (simp add: it_def)
  moreover have "mi_attempts a < max_attempts" if a: "is_json n" "map_of d n = Some (Inr a)" for n a
  proof (cases r)
    case (Inl e)
    with write_atomic_err [OF w [unfolded Inl] a(1)] a ok show ?thesis by (auto simp: queue_ok_iff)
  next
    case (Inr u)
    with write_atomic_ok [OF w [unfolded Inr] a(1)] a ok show ?thesis
      by (auto simp: queue_ok_iff it_def max_attempts_def split: if_splits)
  qed
  ultimately show ?thesis by (simp add: queue_ok_iff d)
qed

lemma reschedule_ok: "queue_ok ms \<Longrightarrow> queue_ok (snd (reschedule io now i when ms))"
proof -
  assume ok: "queue_ok ms"
  then have f: "filed mi_id (ms_dir ms)" by (simp add: queue_ok_def)
  obtain r ms' where c: "change_queue io i (Reschedule i now when) ms = (r, ms')" by fastforce
  note m = change_queue_dir [OF c]
  have "mi_attempts a < max_attempts" if a: "is_json n" "map_of (ms_dir ms') n = Some (Inr a)" for n a
    using f m a(1)
  proof (cases rule: queue.modify_effect)
    case (changed x y)
    have "mi_attempts x < max_attempts" using ok changed(2) a(1) by (simp add: queue_ok_iff)
    with changed a(2) show ?thesis by (auto simp: change_intent_def split: if_splits)
  qed (use a ok in \<open>simp add: queue_ok_iff\<close>)
  with queue.modify_filed [OF f m] c show ?thesis by (simp add: reschedule_def queue_ok_iff)
qed

section \<open>Runs of the queue\<close>

datatype queue_call =
    QAppend maintenance_payload
  | QReschedule string datetime
  | QSweep node_pool datetime "string \<Rightarrow> drop_answers" inflight_store

fun queue_step :: "io_faults \<times> datetime \<times> queue_call \<Rightarrow> maintenance_store \<Rightarrow> maintenance_store" where
  "queue_step (io, now, QAppend p) ms = snd (append_intent io now p ms)"
| "queue_step (io, now, QReschedule i when) ms = snd (reschedule io now i when ms)"
| "queue_step (io, now, QSweep pool listed env js) ms =
     fst (fst (process_sweep pool io listed now env (ms, js)))"

lemma queue_run_ok: "queue_ok (fold queue_step calls (maintenance_store_new [] retention))"
proof -
  have "queue_ok (queue_step c ms)" if "queue_ok ms" for c ms
    using that by (cases "(c, ms)" rule: queue_step.cases)
      (simp_all add: append_ok reschedule_ok, metis process_sweep_ok prod.collapse)
  hence "queue_ok ms \<Longrightarrow> queue_ok (fold queue_step calls ms)" for ms
    by (induction calls arbitrary: ms) simp_all
  moreover have "queue_ok (maintenance_store_new [] retention)"
    by (simp add: queue_ok_def maintenance_store_new_def filed_def dir_names_def entries_def List.map_filter_def)
  ultimately show ?thesis by blast
qed

section \<open>Properties\<close>

text \<open>The drops of one intent's processing, on the journal it found.\<close>

definition unprotected :: "datetime \<Rightarrow> i32 \<Rightarrow> inflight_op doc_dir \<Rightarrow> bool" where
  "unprotected now n d = list_all (\<lambda>(m, a). target_node_id (op_payload a) = Some n \<and>
     op_status a \<in> {InProgress, Done} \<longrightarrow> \<not> owns now cross_op_grace a) (entries d)"

lemma process_drops:
  assumes "process_intent pool da it (ms, js) = (r, (ms', js'), calls)" and "filed op_id (is_dir js)"
    and "readable (da_journal_io da)" and "c \<in> set calls" "dropped_node c = Some n"
  shows "Some n \<in> active_node ` set calls \<or> unprotected (da_now da) n (is_dir js)"
proof -
  obtain slot host x e where p: "mi_payload it = DropSlotCleanup slot host x e"
    by (cases "mi_payload it") simp
  have ev: "dropped_node c = None" if "c \<in> set (evidence_calls l da slot js)" for l
    using that by (auto simp: evidence_calls_def dropped_node_def split: option.splits if_splits)
  from assms(1) p show ?thesis
  proof (cases rule: process_cases)
    case (dropped node k)
    let ?l = "is_local pool node"
    have "c \<in> set (snd (drop_op pool da node slot host))"
      using dropped(3) assms(4,5) ev by (auto dest: in_set_takeD)
    with assms(5) have n: "node_id_from_slot slot = Some n"
      by (auto simp: drop_op_def dropped_node_def split: if_splits sum.splits)
    from observing_journal(2) [OF assms(2) dropped(2) disjI2 [OF refl]] show ?thesis
    proof (elim disjE exE conjE)
      assume "owner_of_slot (da_journal_io da) (da_now da) slot cross_op_grace js = None"
      with n have "owner_of_node (da_journal_io da) (da_now da) n cross_op_grace js = None"
        by (simp add: owner_of_slot_def)
      from owner_of_node_None [OF this readable_all [OF assms(3)]] show ?thesis
        by (auto simp: unprotected_def list_all_iff)
    next
      fix own assume own: "owner_of_slot (da_journal_io da) (da_now da) slot cross_op_grace js = Some own"
        "op_status own \<noteq> InProgress" and a: "(if ?l then da_slot_active da else Inr False) = Inr True"
      from a have ?l "da_slot_active da = Inr True" by (cases ?l; simp)+
      with own dropped(3) have "WSlotActive slot (Inr True) \<in> set calls" by (simp add: evidence_calls_def)
      hence "active_node (WSlotActive slot (Inr True)) \<in> active_node ` set calls" by blast
      thus ?thesis using n by (simp add: active_node_def)
    qed
  next
    case (owned node own)
    from ev [of "is_local pool node"] owned(4) assms(4,5) show ?thesis by simp
  next
    case (unresolved err)
    with assms(4) show ?thesis by simp
  qed
qed

lemma unprotected_back:
  assumes "filed op_id d" "discharged_only N d d1" "Some n \<notin> N" "unprotected now n d1"
  shows "unprotected now n d"
  using assms(3,4) discharged_only_entries(2) [OF assms(1,2)] unfolding unprotected_def list_all_iff by fastforce

lemma sweep_intents_drops:
  assumes "sweep_intents pool now env its (ms, js) = ((ms', js'), calls)" and "filed op_id (is_dir js)"
    and "\<And>i. readable (da_journal_io (env i))"
  shows "discharged_only (active_node ` set calls) (is_dir js) (is_dir js') \<and>
    (\<forall>c n. c \<in> set calls \<longrightarrow> dropped_node c = Some n \<longrightarrow>
       Some n \<in> active_node ` set calls \<or> (\<exists>i. unprotected (da_now (env i)) n (is_dir js)))"
  using assms(1,2)
proof (induction its arbitrary: ms js calls)
  case (Cons it its)
  show ?case
  proof (cases "due now it")
    case True
    obtain r ms1 js1 c1 where p: "process_intent pool (env (mi_id it)) it (ms, js) = (r, (ms1, js1), c1)"
      by (metis prod.collapse)
    from Cons.prems(1) True p obtain c2
      where s: "sweep_intents pool now env its (ms1, js1) = ((ms', js'), c2)" and c: "calls = c1 @ c2"
      by (auto split: prod.splits)
    note j = process_journal [OF p Cons.prems(2)]
    hence f: "filed op_id (is_dir js1)" by (simp add: discharged_only_def)
    note IH = Cons.IH [OF s f]
    have "discharged_only (active_node ` set calls) (is_dir js) (is_dir js')"
      using discharged_only_trans [OF j IH [THEN conjunct1]] c by (simp add: image_Un)
    moreover have "Some n \<in> active_node ` set calls \<or> (\<exists>i. unprotected (da_now (env i)) n (is_dir js))"
      if "x \<in> set calls" "dropped_node x = Some n" for x n
    proof (cases "x \<in> set c1")
      case True
      from process_drops [OF p Cons.prems(2) assms(3) True that(2)] c show ?thesis by auto
    next
      case False
      with that c IH have "Some n \<in> active_node ` set c2 \<or> (\<exists>i. unprotected (da_now (env i)) n (is_dir js1))"
        by auto
      with unprotected_back [OF Cons.prems(2) j, of n] c show ?thesis by auto
    qed
    ultimately show ?thesis by blast
  qed (use Cons in simp)
qed (simp add: discharged_only_refl)

text \<open>
  (C34) A queued drop never removes a slot an orchestration owns. Whatever the collaborators answer
  during a sweep, a call that drops the slot of node \<open>n\<close>, locally or on a peer, is made only if no
  journal entry that rebuilds \<open>n\<close> protects it at that time (in progress, or completed recently and not
  seen alive), or if the slot of \<open>n\<close> was asked for in the local database during the sweep and was
  active. The sweep changes nothing in the journal but discharging completed entries of nodes it saw
  active; every entry in progress stays as it is.
\<close>

theorem queued_drop_respects_owner:
  assumes "journal_ok js" and "\<And>i. readable (da_journal_io (env i))"
    and "process_sweep pool io listed now env (ms, js) = ((ms', js'), calls)"
  shows "list_all (\<lambda>c. case dropped_node c of None \<Rightarrow> True | Some n \<Rightarrow>
        Some n \<in> active_node ` set calls \<or> (\<exists>i. unprotected (da_now (env i)) n (is_dir js))) calls \<and>
    discharged_only (active_node ` set calls) (is_dir js) (is_dir js') \<and>
    filter (\<lambda>(m, a). op_status a = InProgress \<and> (m, a) \<notin> set (entries (is_dir js'))) (entries (is_dir js)) = []"
proof -
  from assms(1) have f: "filed op_id (is_dir js)" by (simp add: journal_ok_def)
  have "discharged_only (active_node ` set calls) (is_dir js) (is_dir js') \<and>
    (\<forall>c n. c \<in> set calls \<longrightarrow> dropped_node c = Some n \<longrightarrow>
       Some n \<in> active_node ` set calls \<or> (\<exists>i. unprotected (da_now (env i)) n (is_dir js)))"
    using assms(3)
  proof (cases rule: process_sweep_cases)
    case (listed its ms1)
    from sweep_intents_drops [OF listed(2) f assms(2)] show ?thesis .
  qed (simp add: discharged_only_refl f)
  with discharged_only_entries(3) [OF f] show ?thesis
    by (auto simp: list_all_iff filter_empty_conv split: option.split)
qed

lemma settled_outcome:
  assumes "settled pool da js it b" and att: "unat (mi_attempts it) < 5"
  shows "mi_id b = mi_id it \<and> mi_payload b = mi_payload it \<and>
    (case mi_status b of
       MDone \<Rightarrow> mi_attempts b = mi_attempts it \<and> may_finish pool da js it
     | MAbandoned \<Rightarrow> mi_attempts b = mi_attempts it \<and> unat (mi_attempts it) = 4
     | MPending \<Rightarrow> unat (mi_attempts b) = unat (mi_attempts it) + 1 \<and> unat (mi_attempts b) < 5 \<and>
         mi_next_retry_at b = Some (da_now da + int (secs (30 * 2 ^ unat (mi_attempts it)))))"
proof -
  have u: "unat (mi_attempts it + 1) = unat (mi_attempts it) + 1" using att by (simp add: unat_word_ariths)
  hence m: "max_attempts \<le> mi_attempts it + 1 \<longleftrightarrow> unat (mi_attempts it) = 4"
    using att by (simp add: max_attempts_def word_le_nat_alt) linarith
  have bo: "backoff (mi_attempts it + 1) = secs (30 * 2 ^ unat (mi_attempts it))"
    if "unat (mi_attempts it) \<noteq> 4" using backoff_exact [of "mi_attempts it + 1"] u att that by simp
  from assms(1) show ?thesis
    by (auto simp: settled_def verdict_def change_intent_def m u bo split: if_splits) (use att in linarith)
qed

definition ex_intent :: maintenance_intent where
  "ex_intent = \<lparr>mi_id = ''5-drop_slot_cleanup-0'', mi_status = MPending,
     mi_payload = DropSlotCleanup ''node2'' ''db0'' ''failover'' ''timeout'', mi_attempts = 0, mi_last_error = [],
     mi_created_at = 5, mi_updated_at = 5, mi_next_retry_at = None\<rparr>"

definition ex_queue :: maintenance_store where
  "ex_queue = fold queue_step
     [(no_faults, 5, QAppend (DropSlotCleanup ''node2'' ''db0'' ''failover'' ''timeout''))]
     (maintenance_store_new [] (csecs 3600))"

definition ex_pool :: node_pool where
  "ex_pool = \<lparr>np_members = [\<lparr>nc_id = 0, nc_hostname = ''db0''\<rparr>, \<lparr>nc_id = 2, nc_hostname = ''db2''\<rparr>],
     np_local_node_id = 0\<rparr>"

definition ex_answers :: "(string, unit) result \<Rightarrow> drop_answers" where
  "ex_answers r = \<lparr>da_now = 10, da_queue_io = no_faults, da_journal_io = no_faults,
     da_slot_active = Inr False, da_local_drop = r, da_client = Inl ''refused'', da_peer_drop = Inl ''refused'',
     da_timeout = None\<rparr>"

lemma ex_queue_dir: "ms_dir ex_queue = [(''5-drop_slot_cleanup-0.json'', Inr ex_intent)]"
  by (simp add: ex_queue_def maintenance_store_new_def append_intent_def make_id_def timestamp_nanos_def
      mop_name_def write_atomic_def no_faults_def json_name_def tmp_name_def ex_intent_def Let_def show_int_def
      show_digit)

lemma ex_queue_pending: "list_pending no_faults 9 ex_queue = (Inr [ex_intent], ex_queue)"
proof -
  have "entries (ms_dir ex_queue) = [(''5-drop_slot_cleanup-0.json'', ex_intent)]"
    by (simp add: ex_queue_dir entries_def List.map_filter_def is_json_def ends_with_def)
  thus ?thesis
    by (simp add: list_pending_def read_all_def no_faults_def expired_def)
      (simp add: ex_intent_def)
qed

lemma ex_unowned:
  "owner_of_slot no_faults now ''node2'' g (inflight_store_new [] ret) = None"
  by (simp add: owner_of_slot_def ex_slot owner_of_node_def list_ops_def read_all_def no_faults_def
      inflight_store_new_def entries_def List.map_filter_def Let_def)

lemma ex_sweep_calls:
  "snd (process_sweep ex_pool no_faults 9 9 (\<lambda>i. ex_answers r) (ex_queue, inflight_store_new [] 1)) =
     [WDropSlot ''node2'']"
  by (simp add: process_sweep_def ex_queue_pending due_def process_intent_def)
    (simp add: ex_intent_def process_drop_slot_def node_by_hostname_def ex_pool_def is_local_def
      owner_of_slot_observing_def ex_answers_def ex_unowned evidence_calls_def drop_op_def Let_def
      split: prod.split sum.split)

lemma ex_journal_empty: "journal_ok (inflight_store_new [] ret)"
  by (simp add: journal_ok_def inflight_store_new_def filed_def dir_names_def single_flight_def entries_def
      List.map_filter_def)

theorem queued_drop_respects_owner_witness:
  "unprotected 10 2 (is_dir (inflight_store_new [] 1)) \<and>
   snd (process_sweep ex_pool no_faults 9 9 (\<lambda>i. ex_answers (Inr ())) (ex_queue, inflight_store_new [] 1)) =
     [WDropSlot ''node2'']"
proof -
  obtain ms' js' calls where p: "process_sweep ex_pool no_faults 9 9 (\<lambda>i. ex_answers (Inr ()))
      (ex_queue, inflight_store_new [] 1) = ((ms', js'), calls)" by (metis prod.collapse)
  with ex_sweep_calls [of "Inr ()"] have c: "calls = [WDropSlot ''node2'']" by simp
  have "readable (da_journal_io (ex_answers (Inr ())))" by (simp add: readable_def ex_answers_def no_faults_def)
  from queued_drop_respects_owner [OF ex_journal_empty this p, THEN conjunct1]
  have "unprotected 10 2 (is_dir (inflight_store_new [] 1))"
    by (simp add: c dropped_node_def active_node_def ex_slot ex_answers_def)
  with p c show ?thesis by simp
qed

text \<open>
  (C35) Retries are bounded and nothing is forgotten. Over any sequence of appends, reschedules and
  sweeps from an empty queue, with whatever disk faults and answers, every intent has made fewer than
  five attempts. A sweep then settles every pending intent that is due (its file can be written): it is
  done, and then an orchestration owned the slot or the drop succeeded in time; or it is abandoned, and
  then this was the fifth attempt; or one more attempt is recorded and the next is due 30, 60, 120 or
  240 seconds after it. The 32-bit attempt counter never wraps.
\<close>

theorem retries_bounded:
  assumes "ms = fold queue_step calls (maintenance_store_new [] retention)"
    and "journal_ok js" and "readable (da_journal_io (env i))"
    and "get_intent i ms = Inr it" "mi_status it = MPending" "due now it"
    and "readable io" and "disk_ok (da_queue_io (env i))"
    and "process_sweep pool io listed now env (ms, js) = ((ms', js'), cs)"
  shows "queue_ok ms \<and> unat (mi_attempts it) < 5 \<and>
    (\<exists>it'. get_intent i ms' = Inr it' \<and> mi_id it' = i \<and> mi_payload it' = mi_payload it \<and>
      (case mi_status it' of
         MDone \<Rightarrow> mi_attempts it' = mi_attempts it \<and> may_finish pool (env i) js it
       | MAbandoned \<Rightarrow> mi_attempts it' = mi_attempts it \<and> unat (mi_attempts it) = 4
       | MPending \<Rightarrow> unat (mi_attempts it') = unat (mi_attempts it) + 1 \<and> unat (mi_attempts it') < 5 \<and>
           mi_next_retry_at it' = Some (da_now (env i) + int (secs (30 * 2 ^ unat (mi_attempts it))))))"
proof -
  have ok: "queue_ok ms" unfolding assms(1) by (rule queue_run_ok)
  hence f: "filed mi_id (ms_dir ms)" by (simp add: queue_ok_def)
  from get_docD [OF assms(4) [unfolded get_intent_def]]
  have i: "i \<noteq> []" "map_of (ms_dir ms) (json_name i) = Some (Inr it)" by simp_all
  from filedD [OF f _ i(2)] i(1) have id: "mi_id it = i" by simp
  have "mi_attempts it < max_attempts" using ok i by (simp add: queue_ok_iff) (metis is_json_name)
  hence att: "unat (mi_attempts it) < 5" by (simp add: max_attempts_def word_less_nat_alt)
  from assms(9) have "\<exists>b. settled pool (env i) js it b \<and> map_of (ms_dir ms') (json_name i) = Some (Inr b)"
  proof (cases rule: process_sweep_cases)
    case failed
    with readable_all [OF assms(7), of mtag "ms_dir ms"] show ?thesis by simp
  next
    case (listed its ms1)
    note lp = list_pending_ok [OF f listed(1)]
    have j: "is_json (json_name i)" using i(1) by simp
    have it: "it \<in> set its" using lp(5) [OF j i(2) assms(5)] by blast
    from sweep_intents_doc(2) [OF lp(1-3) listed(2) j]
    obtain x b where x: "x \<in> set its" "json_name i = json_name (mi_id x)"
      "settled_after pool (env (mi_id x)) js x b" "map_of (ms_dir ms') (json_name i) = Some (Inr b)"
    proof (elim disjE exE conjE)
      assume "list_all (\<lambda>it. json_name i = json_name (mi_id it) \<and> due now it \<longrightarrow>
        \<not> disk_ok (da_queue_io (env (mi_id it)))) its"
      with it id assms(6,8) show thesis by (auto simp: list_all_iff)
    qed
    have "map_of (ms_dir ms1) (json_name i) = Some (Inr x)" using lp(3) x(1,2) by (auto simp: list_all_iff)
    with lp(5) [OF j i(2) assms(5)] have "x = it" by simp
    with x id settled_after_journal [of pool "env i" js it b] assms(2,3) show ?thesis
      by (auto simp: journal_ok_def)
  qed
  then obtain b where b: "settled pool (env i) js it b" "map_of (ms_dir ms') (json_name i) = Some (Inr b)" by blast
  from b(2) i(1) have "get_intent i ms' = Inr b" by (simp add: get_intent_def get_doc_def read_one_def)
  with ok att settled_outcome [OF b(1) att] id show ?thesis by blast
qed

theorem retries_bounded_witness:
  "\<exists>it'. get_intent ''5-drop_slot_cleanup-0'' (fst (fst (process_sweep ex_pool no_faults 9 9
       (\<lambda>i. ex_answers (Inl ''slot is busy'')) (ex_queue, inflight_store_new [] 1)))) = Inr it' \<and>
     mi_status it' \<noteq> MDone \<and> unat (mi_attempts it') < 5"
proof -
  let ?i = "''5-drop_slot_cleanup-0''" and ?da = "ex_answers (Inl ''slot is busy'')"
  obtain ms' js' cs where p: "process_sweep ex_pool no_faults 9 9 (\<lambda>i. ?da)
      (ex_queue, inflight_store_new [] 1) = ((ms', js'), cs)" by (metis prod.collapse)
  have r: "readable (da_journal_io ?da)" "readable no_faults" "disk_ok (da_queue_io ?da)"
    by (simp_all add: readable_def disk_ok_def ex_answers_def no_faults_def)
  have g: "get_intent ?i ex_queue = Inr ex_intent"
    by (simp add: get_intent_def get_doc_def read_one_def json_name_def ex_queue_dir)
  have s: "mi_status ex_intent = MPending" "due 9 ex_intent" by (simp_all add: ex_intent_def due_def)
  have nf: "\<not> may_finish ex_pool ?da (inflight_store_new [] 1) ex_intent"
    by (simp add: may_finish_def ex_intent_def node_by_hostname_def ex_pool_def ex_unowned ex_answers_def
        drop_op_def is_local_def)
  from retries_bounded [OF ex_queue_def ex_journal_empty r(1) g s r(2,3) p] nf obtain it'
    where "get_intent ?i ms' = Inr it'" "mi_status it' \<noteq> MDone" "unat (mi_attempts it') < 5"
    by (auto split: maintenance_status.splits) (metis maintenance_status.exhaust)
  with p show ?thesis by auto
qed

end
