(* ===== verification/Timeline.thy ===== *)
theory Timeline
  imports PgPrelude
begin

unbundle bit_operations_syntax

text \<open>
  Timelines, \<open>crates/pgman/src/timeline.rs\<close>: the control point, LSN text, history files, and whether an
  instance may follow a timeline. Text is ASCII; the byte slice \<open>get(..8)\<close> is the first eight characters.
\<close>

section \<open>Definitions\<close>

record control_point =
  cp_timeline_id :: i32
  cp_checkpoint_lsn :: u64

definition cp_unknown :: control_point where
  "cp_unknown = \<lparr>cp_timeline_id = 0, cp_checkpoint_lsn = 0\<rparr>"

definition is_known :: "control_point \<Rightarrow> bool" where
  "is_known p \<longleftrightarrow> 0 < cp_timeline_id p \<and> 0 < cp_checkpoint_lsn p"

record timeline_switch =
  sw_tli :: i32
  sw_switchpoint :: u64

datatype reachability = Reachable | Diverged u64 | NotADescendant | LineageUnknown

definition timeline_of :: "string \<Rightarrow> i32 option" where
  "timeline_of wal_file =
     (if length wal_file < 8 then None
      else opt_filter (\<lambda>t. 0 < t) (parse_i32_radix 16 (take 8 wal_file)))"

definition is_history_file :: "string \<Rightarrow> bool" where
  "is_history_file wal_file = ends_with wal_file ''.history''"

definition parse_lsn :: "string \<Rightarrow> u64 option" where
  "parse_lsn s =
     (case split_once CHR ''/'' (trim s) of
        None \<Rightarrow> None
      | Some (hi, lo) \<Rightarrow>
          (case parse_unsigned 16 32 (trim hi) of
             None \<Rightarrow> None
           | Some hi \<Rightarrow>
               (case parse_unsigned 16 32 (trim lo) of
                  None \<Rightarrow> None
                | Some lo \<Rightarrow> Some (push_bit 32 (word_of_nat hi) OR word_of_nat lo))))"

definition format_lsn :: "u64 \<Rightarrow> string" where
  "format_lsn lsn = show_hex (unat (drop_bit 32 lsn)) @ ''/'' @ show_hex (unat (take_bit 32 lsn))"

definition parse_history_line :: "string \<Rightarrow> timeline_switch option" where
  "parse_history_line line =
     (let line = trim line in
      if line = [] \<or> starts_with line ''#'' then None
      else case split_whitespace line of
          tli # lsn # _ \<Rightarrow>
            (case (parse_i32 tli, parse_lsn lsn) of
               (Some tli, Some switchpoint) \<Rightarrow> Some \<lparr>sw_tli = tli, sw_switchpoint = switchpoint\<rparr>
             | _ \<Rightarrow> None)
        | _ \<Rightarrow> None)"

definition parse_history :: "string \<Rightarrow> timeline_switch list" where
  "parse_history text = List.map_filter parse_history_line (lines text)"

definition reachable :: "control_point \<Rightarrow> i32 \<Rightarrow> timeline_switch list \<Rightarrow> reachability" where
  "reachable local requested history =
     (if \<not> is_known local then LineageUnknown
      else if requested \<le> cp_timeline_id local then Reachable
      else case List.find (\<lambda>e. sw_tli e = cp_timeline_id local) history of
          None \<Rightarrow> NotADescendant
        | Some e \<Rightarrow>
            if sw_switchpoint e < cp_checkpoint_lsn local then Diverged (sw_switchpoint e) else Reachable)"

section \<open>LSN text\<close>

lemma show_hex_chars: "set (show_hex n) \<subseteq> set ''0123456789ABCDEF''"
  unfolding show_hex_def by (rule show_radix_chars) simp_all

lemma hex_not_ws: "c \<in> set ''0123456789ABCDEF'' \<Longrightarrow> \<not> is_ws c \<and> c \<noteq> CHR ''/''"
  by (auto simp: is_ws_def)

lemma format_lsn_word: "word_like (format_lsn l)"
proof -
  have "set (format_lsn l) \<subseteq> set ''0123456789ABCDEF'' \<union> {CHR ''/''}"
    using show_hex_chars unfolding format_lsn_def by fastforce
  moreover have "\<not> is_ws CHR ''/''" by (simp add: is_ws_def)
  ultimately have "\<forall>c \<in> set (format_lsn l). \<not> is_ws c" using hex_not_ws by blast
  thus ?thesis by (simp add: word_like_def list_all_iff format_lsn_def)
qed

lemma join_halves: "push_bit 32 (drop_bit 32 w) OR take_bit 32 w = (w :: 64 word)"
  by (rule bit_word_eqI) (auto simp: bit_simps)

lemma parse_format_lsn: "parse_lsn (format_lsn l) = Some l"
proof -
  have hi: "unat (drop_bit 32 l) < 2 ^ 32"
  proof -
    have "unat (drop_bit 32 l) = unat l div 2 ^ 32" by (simp add: drop_bit_eq_div unat_div)
    also have "\<dots> < 2 ^ 32"
    proof -
      have "unat l < 2 ^ LENGTH(64)" by (rule unsigned_less)
      thus ?thesis by (simp add: less_mult_imp_div_less)
    qed
    finally show ?thesis .
  qed
  have lo: "unat (take_bit 32 l) < 2 ^ 32"
    unfolding unsigned_take_bit_eq by (rule take_bit_nat_less_exp)
  have hex: "trim (show_hex n) = show_hex n" "CHR ''/'' \<notin> set (show_hex n)" for n
    using show_hex_chars [of n] hex_not_ws by (auto intro!: trim_id)
  have p: "n < 2 ^ 32 \<Longrightarrow> parse_unsigned 16 32 (show_hex n) = Some n" for n
    unfolding show_hex_def by (rule parse_unsigned_show) simp_all
  have "trim (format_lsn l) = format_lsn l"
    using format_lsn_word by (intro trim_id) (simp add: word_like_def list_all_iff)
  moreover have "split_once CHR ''/'' (format_lsn l) =
      Some (show_hex (unat (drop_bit 32 l)), show_hex (unat (take_bit 32 l)))"
    using hex(2) by (simp add: format_lsn_def split_once_append)
  ultimately show ?thesis
    using p [OF hi] p [OF lo] by (simp add: parse_lsn_def hex(1) join_halves)
qed

section \<open>History files\<close>

lemma split_ws_trim: "split_whitespace (trim s) = split_whitespace s"
proof -
  have lead: "split_ws_from [] (dropWhile is_ws t) = split_ws_from [] t" for t
    by (induction t) simp_all
  have all: "list_all is_ws ws \<Longrightarrow> split_ws_from acc ws = (if acc = [] then [] else [rev acc])" for acc ws
  proof (induction ws arbitrary: acc)
    case (Cons c ws)
    from Cons.prems Cons.IH [of "[]"] show ?case by simp
  qed simp
  have tail: "list_all is_ws ws \<Longrightarrow> split_ws_from acc (t @ ws) = split_ws_from acc t" for acc t ws
    by (induction acc t rule: split_ws_from.induct) (simp_all add: all)
  let ?t = "dropWhile is_ws s"
  have "?t = rev (dropWhile is_ws (rev ?t)) @ rev (takeWhile is_ws (rev ?t))"
    by (metis rev_append rev_rev_ident takeWhile_dropWhile_id)
  moreover have "list_all is_ws (rev (takeWhile is_ws (rev ?t)))"
    by (auto simp: list_all_iff dest: set_takeWhileD)
  ultimately show ?thesis
    unfolding split_whitespace_def trim_def using tail lead by metis
qed

lemma split_ws_first: "\<not> is_ws c \<Longrightarrow> \<exists>x xs. split_whitespace (c # s) = (c # x) # xs"
proof -
  have "acc \<noteq> [] \<Longrightarrow> \<exists>x xs. split_ws_from acc t = (rev acc @ x) # xs" for acc t
    by (induction acc t rule: split_ws_from.induct) auto
  from this [of "[c]" s] show "\<not> is_ws c \<Longrightarrow> \<exists>x xs. split_whitespace (c # s) = (c # x) # xs"
    by (simp add: split_whitespace_def)
qed

text \<open>A line as PostgreSQL writes it: the timeline that ended, where, and the reason, with tabs.\<close>

definition history_line :: "timeline_switch \<times> string \<Rightarrow> string" where
  "history_line e =
     show_int (sw_tli (fst e)) @ [CHR 0x09] @ format_lsn (sw_switchpoint (fst e)) @ [CHR 0x09] @ snd e"

lemma show_int_word: "word_like (show_int i)"
proof -
  have "\<forall>c \<in> set ''-0123456789ABCDEF''. \<not> is_ws c" by (simp add: is_ws_def)
  with show_int_chars [of i] have "\<forall>c \<in> set (show_int i). \<not> is_ws c" by blast
  thus ?thesis by (simp add: word_like_def list_all_iff show_int_def show_nat_def)
qed

lemma parse_history_line_render:
  assumes "i32_range (sw_tli s)"
  shows "parse_history_line (history_line (s, reason)) = Some s"
proof -
  let ?l = "history_line (s, reason)"
  let ?a = "show_int (sw_tli s)" and ?b = "format_lsn (sw_switchpoint s)"
  have tab: "is_ws CHR 0x09" by (simp add: is_ws_def)
  have a: "list_all (\<lambda>c. \<not> is_ws c) ?a" "?a \<noteq> []" and b: "list_all (\<lambda>c. \<not> is_ws c) ?b" "?b \<noteq> []"
    using show_int_word [of "sw_tli s"] format_lsn_word [of "sw_switchpoint s"] by (simp_all add: word_like_def)
  have "split_ws_from [] ?l = ?a # split_ws_from [] (?b @ [CHR 0x09] @ reason)"
    using a tab by (simp add: history_line_def split_ws_word)
  also have "split_ws_from [] (?b @ [CHR 0x09] @ reason) = ?b # split_ws_from [] reason"
    using b tab by (simp add: split_ws_word)
  finally have sp: "split_whitespace (trim ?l) = ?a # ?b # split_ws_from [] reason"
    by (simp add: split_ws_trim) (simp add: split_whitespace_def)
  hence ne: "trim ?l \<noteq> []" by (auto simp: split_whitespace_def)
  have "\<not> starts_with (trim ?l) ''#''"
  proof
    assume "starts_with (trim ?l) ''#''"
    then obtain r where "trim ?l = CHR ''#'' # r" by (auto simp: starts_with_iff)
    moreover have "\<not> is_ws CHR ''#''" by (simp add: is_ws_def)
    ultimately obtain x where "?a = CHR ''#'' # x" using split_ws_first [of "CHR ''#''" r] sp by auto
    hence "CHR ''#'' \<in> set ?a" by simp
    with show_int_chars [of "sw_tli s"] show False by auto
  qed
  with ne sp parse_i32_show [OF assms] parse_format_lsn show ?thesis
    by (simp add: parse_history_line_def)
qed



end
