(* ===== verification/WalStore.thy ===== *)
theory WalStore
  imports PgPrelude "HOL-Library.Sublist"
begin

text \<open>
  The movement of WAL segments, \<open>crates/pgman/src/walstore.rs\<close>: serving a segment from the archive and
  restoring one into the data directory.

  A path is what \<open>Path::components\<close> sees of its text: whether it is rooted, and its components, with
  repeated slashes and inner dots gone. \<open>canon\<close> stands for \<open>fs::canonicalize\<close>. A file is its bytes and
  whether they have reached the disk. \<open>write_restore\<close> returns the file systems after each of its steps,
  the last being the one it leaves, so that a crash anywhere is one of them.
\<close>

section \<open>Paths\<close>

type_synonym wpath = "bool \<times> string list"

fun split_slash :: "string \<Rightarrow> string \<Rightarrow> string list" where
  "split_slash acc [] = [rev acc]"
| "split_slash acc (c # s) = (if c = CHR ''/'' then rev acc # split_slash [] s else split_slash (c # acc) s)"

definition is_absolute :: "string \<Rightarrow> bool" where
  "is_absolute s = starts_with s ''/''"

text \<open>A leading dot of a relative path is a component; every other dot is not.\<close>

definition components :: "string \<Rightarrow> wpath" where
  "components s =
     (let cs = split_slash [] s;
          keep = filter (\<lambda>c. c \<noteq> [] \<and> c \<noteq> ''.'')
      in if is_absolute s then (True, keep cs)
         else (False, (if hd cs = ''.'' then [''.''] else []) @ keep cs))"

definition path_join :: "string \<Rightarrow> string \<Rightarrow> string" where
  "path_join dir s = (if is_absolute s then s else if dir = [] \<or> ends_with dir ''/'' then dir @ s else dir @ ''/'' @ s)"

definition parent :: "wpath \<Rightarrow> wpath option" where
  "parent p = (if snd p = [] then None else Some (fst p, butlast (snd p)))"

definition file_name :: "wpath \<Rightarrow> string option" where
  "file_name p =
     (if snd p = [] \<or> last (snd p) = ''..'' \<or> last (snd p) = ''.'' then None else Some (last (snd p)))"

definition path_starts_with :: "wpath \<Rightarrow> wpath \<Rightarrow> bool" where
  "path_starts_with p q = (fst p = fst q \<and> prefix (snd q) (snd p))"

definition child :: "wpath \<Rightarrow> string \<Rightarrow> wpath" where
  "child p n = (fst p, snd p @ [n])"

section \<open>The store\<close>

datatype wal_store_error =
    DestOutsidePgData
  | WalNotFound string
  | WalInvalid string string
  | WalIo string
  | WalOther string

record file_wal_store =
  fw_pg_data_dir :: string
  fw_archive_dir :: string

definition is_upper_hex :: "char \<Rightarrow> bool" where
  "is_upper_hex c = (c \<in> set ''0123456789ABCDEF'')"

text \<open>\<open>^([0-9A-F]{24}|[0-9A-F]{8}\.history)$\<close>.\<close>

definition wal_filename_re :: "string \<Rightarrow> bool" where
  "wal_filename_re s =
     (length s = 24 \<and> list_all is_upper_hex s \<or>
      length s = 16 \<and> list_all is_upper_hex (take 8 s) \<and> drop 8 s = ''.history'')"

definition validate_wal_filename :: "string \<Rightarrow> (wal_store_error, unit) result" where
  "validate_wal_filename name =
     (if name = [] \<or> name = ''.'' \<or> name = ''..'' \<or> CHR ''/'' \<in> set name
      then Inl (WalInvalid name ''contains path component'')
      else if \<not> wal_filename_re name
      then Inl (WalInvalid name (''must match ^([0-9A-F]{24}|[0-9A-F]{8}'' @ [CHR 0x5C] @ ''.history)$''))
      else Inr ())"

type_synonym wal_fs = "wpath \<Rightarrow> (string \<times> bool) option"

text \<open>\<open>fault\<close> is an error of \<open>File::open\<close> other than \<open>NotFound\<close>.\<close>

definition open_archive ::
  "file_wal_store \<Rightarrow> string option \<Rightarrow> string \<Rightarrow> wal_fs \<Rightarrow> (wal_store_error, string) result" where
  "open_archive w fault wal_file fs =
     (case validate_wal_filename wal_file of
        Inl e \<Rightarrow> Inl e
      | Inr _ \<Rightarrow>
          (case fault of
             Some e \<Rightarrow> Inl (WalIo e)
           | None \<Rightarrow>
               (case fs (components (path_join (fw_archive_dir w) wal_file)) of
                  None \<Rightarrow> Inl (WalNotFound wal_file)
                | Some (bytes, _) \<Rightarrow> Inr bytes)))"

definition resolve_dest_path ::
  "(wpath \<Rightarrow> wpath option) \<Rightarrow> file_wal_store \<Rightarrow> string \<Rightarrow> (wal_store_error, wpath) result" where
  "resolve_dest_path canon w dest =
     (let absolute = components (if is_absolute dest then dest else path_join (fw_pg_data_dir w) dest) in
      case parent absolute of
        None \<Rightarrow> Inl DestOutsidePgData
      | Some par \<Rightarrow>
      (case file_name absolute of
        None \<Rightarrow> Inl DestOutsidePgData
      | Some base \<Rightarrow>
      (case canon par of
        None \<Rightarrow> Inl DestOutsidePgData
      | Some par_canonical \<Rightarrow>
      (case canon (components (fw_pg_data_dir w)) of
        None \<Rightarrow> Inl DestOutsidePgData
      | Some root_canonical \<Rightarrow>
          if \<not> path_starts_with par_canonical root_canonical then Inl DestOutsidePgData
          else Inr (child par_canonical base)))))"

text \<open>What the disk refuses: the random source, the exclusive open, the copy (with the bytes that got
  through), the sync, the rename, the removal.\<close>

record restore_faults =
  rf_open :: "string option"
  rf_copy :: "(string \<times> string) option"
  rf_sync :: "string option"
  rf_rename :: "string option"
  rf_remove :: bool

definition tmp_path :: "wpath \<Rightarrow> string \<Rightarrow> string \<Rightarrow> wpath" where
  "tmp_path dir base sfx = child dir (CHR ''.'' # base @ ''-'' @ sfx)"

text \<open>The body between the open and the clean-up, with the file systems it passes through.\<close>

definition restore_body ::
  "restore_faults \<Rightarrow> string \<Rightarrow> wpath \<Rightarrow> wpath \<Rightarrow> wal_fs \<Rightarrow> (wal_store_error, unit) result \<times> wal_fs list" where
  "restore_body rf src tmp resolved fs =
     (case rf_copy rf of
        Some (got, e) \<Rightarrow> (Inl (WalIo e), [fs(tmp \<mapsto> (got, False))])
      | None \<Rightarrow>
          let fs1 = fs(tmp \<mapsto> (src, False)) in
          case rf_sync rf of
            Some e \<Rightarrow> (Inl (WalIo e), [fs1])
          | None \<Rightarrow>
              let fs2 = fs1(tmp \<mapsto> (src, True)) in
              case rf_rename rf of
                Some e \<Rightarrow> (Inl (WalIo e), [fs1, fs2])
              | None \<Rightarrow> (Inr (), [fs1, fs2, (fs2(resolved := fs2 tmp))(tmp := None)]))"

definition write_restore ::
  "(wpath \<Rightarrow> wpath option) \<Rightarrow> file_wal_store \<Rightarrow> (string, string) result \<Rightarrow> restore_faults \<Rightarrow>
     string \<Rightarrow> string \<Rightarrow> wal_fs \<Rightarrow> (wal_store_error, unit) result \<times> wal_fs list" where
  "write_restore canon w rng rf dest src fs =
     (case resolve_dest_path canon w dest of
        Inl e \<Rightarrow> (Inl e, [fs])
      | Inr resolved \<Rightarrow>
      (case parent resolved of
        None \<Rightarrow> (Inl DestOutsidePgData, [fs])
      | Some dir \<Rightarrow>
      (case file_name resolved of
        None \<Rightarrow> (Inl DestOutsidePgData, [fs])
      | Some base \<Rightarrow>
      (case rng of
        Inl e \<Rightarrow> (Inl (WalOther (''walstore: OS RNG: '' @ e)), [fs])
      | Inr sfx \<Rightarrow>
          let tmp = tmp_path dir base sfx in
          case rf_open rf of
            Some e \<Rightarrow> (Inl (WalIo e), [fs])
          | None \<Rightarrow>
              if fs tmp \<noteq> None then (Inl (WalIo ''File exists''), [fs])
              else
                let fs0 = fs(tmp \<mapsto> ([], False)) in
                (case restore_body rf src tmp resolved fs0 of
                   (Inr u, ss) \<Rightarrow> (Inr u, fs # fs0 # ss)
                 | (Inl e, ss) \<Rightarrow>
                     (Inl e, fs # fs0 # ss @
                        [if rf_remove rf then last ss else (last ss)(tmp := None)]))))))"

section \<open>Containment\<close>

lemma split_slash_no_slash: "c \<in> set (split_slash acc s) \<Longrightarrow> CHR ''/'' \<notin> set acc \<Longrightarrow> CHR ''/'' \<notin> set c"
  by (induction acc s arbitrary: c rule: split_slash.induct) (auto split: if_splits)

lemma split_slash_plain: "CHR ''/'' \<notin> set s \<Longrightarrow> split_slash acc s = [rev acc @ s]"
  by (induction acc s rule: split_slash.induct) auto

lemma split_slash_append:
  "split_slash acc (d @ CHR ''/'' # s) = split_slash acc d @ split_slash [] s"
  by (induction acc d rule: split_slash.induct) auto

text \<open>A name the archive serves stays in the archive: it adds exactly one component.\<close>

lemma archive_path:
  assumes "validate_wal_filename name = Inr u" and "dir \<noteq> []"
  shows "components (path_join dir name) = child (components dir) name"
proof -
  from assms(1) have n: "name \<noteq> []" "name \<noteq> ''.''" "CHR ''/'' \<notin> set name"
    by (auto simp: validate_wal_filename_def split: if_splits)
  hence rel: "\<not> is_absolute name" by (cases name) (auto simp: is_absolute_def starts_with_def)
  note sp = split_slash_plain [OF n(3), of "[]"]
  have abs: "is_absolute (dir @ s) = is_absolute dir" for s
    using assms(2) by (cases dir) (auto simp: is_absolute_def starts_with_def)
  have hdne: "split_slash acc t \<noteq> []" for acc t by (induction acc t rule: split_slash.induct) auto
  show ?thesis
  proof (cases "ends_with dir ''/''")
    case True
    then obtain d where d: "dir = d @ ''/''" by (auto simp: ends_with_iff)
    from split_slash_append [of "[]" d name] split_slash_append [of "[]" d "[]"] sp d
    have "split_slash [] (dir @ name) = split_slash [] d @ [name]" "split_slash [] dir = split_slash [] d @ [[]]"
      by simp_all
    with True rel assms(2) n abs [of name] hdne [of "[]" d] show ?thesis
      by (auto simp: path_join_def components_def child_def Let_def)
  next
    case False
    from split_slash_append [of "[]" dir name] sp
    have "split_slash [] (dir @ ''/'' @ name) = split_slash [] dir @ [name]" by simp
    with False rel assms(2) n abs [of "''/'' @ name"] hdne [of "[]" dir] show ?thesis
      by (auto simp: path_join_def components_def child_def Let_def)
  qed
qed

lemma resolve_cases:
  assumes "resolve_dest_path canon w dest = Inr p"
  obtains par base root dir where "file_name (components (if is_absolute dest then dest else path_join (fw_pg_data_dir w) dest)) = Some base"
    "canon par = Some dir" "canon (components (fw_pg_data_dir w)) = Some root" "path_starts_with dir root"
    "p = child dir base" "parent p = Some dir" "file_name p = Some base"
proof -
  from assms obtain par base root dir where *: "file_name (components (if is_absolute dest then dest else path_join (fw_pg_data_dir w) dest)) = Some base"
    "canon par = Some dir" "canon (components (fw_pg_data_dir w)) = Some root" "path_starts_with dir root"
    "p = child dir base"
    unfolding resolve_dest_path_def Let_def by (auto split: option.splits if_splits)
  moreover from *(1,5) have "parent p = Some dir" "file_name p = Some base"
    by (auto simp: child_def parent_def file_name_def split: if_splits)
  ultimately show thesis by (rule that)
qed

text \<open>The body touches the two paths only; the destination changes by the rename of a synced file.\<close>

lemma restore_body_states:
  assumes "restore_body rf src tmp resolved fs = (r, ss)" and "tmp \<noteq> resolved"
  shows "ss \<noteq> []" and "s \<in> set ss \<Longrightarrow> p \<noteq> tmp \<Longrightarrow> p \<noteq> resolved \<Longrightarrow> s p = fs p"
    and "s \<in> set ss \<Longrightarrow> s resolved = fs resolved \<or> s resolved = Some (src, True)"
    and "r = Inr u \<Longrightarrow> last ss resolved = Some (src, True) \<and> last ss tmp = None"
    and "r = Inl e \<Longrightarrow> s \<in> set ss \<Longrightarrow> s resolved = fs resolved"
  using assms by (auto simp: restore_body_def Let_def split: option.splits prod.splits)

text \<open>Either nothing is begun, or the instants are the new temporary file, those of the body and the removal.\<close>

lemma restore_shape:
  assumes "write_restore canon w rng rf dest src fs = (r, states)"
  obtains (refused) "states = [fs]" "\<not> is_ok r"
  | (begun) resolved dir base sfx tmp b ss root where "resolve_dest_path canon w dest = Inr resolved"
    "canon (components (fw_pg_data_dir w)) = Some root" "path_starts_with dir root" "resolved = child dir base"
    "base \<noteq> ''..''" "tmp = child dir (CHR ''.'' # base @ ''-'' @ sfx)" "tmp \<noteq> resolved" "fs tmp = None"
    "restore_body rf src tmp resolved (fs(tmp \<mapsto> ([], False))) = (b, ss)"
    "states = fs # fs(tmp \<mapsto> ([], False)) # ss @
       (if is_ok b then [] else [if rf_remove rf then last ss else (last ss)(tmp := None)])"
    "is_ok r = is_ok b"
proof (cases "states = [fs]")
  case True
  have "\<not> is_ok r"
    using assms True by (auto simp: write_restore_def Let_def restore_body_def split: sum.splits option.splits if_splits prod.splits)
  with True show thesis by (rule refused)
next
  case False
  with assms obtain resolved dir base sfx where res: "resolve_dest_path canon w dest = Inr resolved"
    and par: "parent resolved = Some dir" "file_name resolved = Some base" and rng: "rng = Inr sfx"
    and new: "rf_open rf = None" "fs (tmp_path dir base sfx) = None"
    by (auto simp: write_restore_def Let_def simp del: not_None_eq split_paired_All split_paired_Ex
        split: sum.splits option.splits if_splits)
  define tmp where "tmp = tmp_path dir base sfx"
  define fs0 where "fs0 = fs(tmp \<mapsto> ([], False))"
  obtain b ss where b: "restore_body rf src tmp resolved fs0 = (b, ss)" by fastforce
  from res obtain root where r: "canon (components (fw_pg_data_dir w)) = Some root" "path_starts_with dir root"
    "resolved = child dir base"
    using par by (elim resolve_cases) auto
  have base: "base \<noteq> ''..''" using par(2) by (auto simp: file_name_def split: if_splits)
  have ne: "tmp \<noteq> resolved" unfolding tmp_def tmp_path_def r(3)
    by (auto simp: child_def dest!: arg_cong [where f = length])
  have "(r, states) = (case (b, ss) of
      (Inr u, ss) \<Rightarrow> (Inr u, fs # fs0 # ss)
    | (Inl e, ss) \<Rightarrow> (Inl e, fs # fs0 # ss @ [if rf_remove rf then last ss else (last ss)(tmp := None)]))"
    using assms [symmetric] res par rng new b by (cases b) (simp_all add: write_restore_def Let_def tmp_def fs0_def)
  hence "states = fs # fs0 # ss @ (if is_ok b then [] else [if rf_remove rf then last ss else (last ss)(tmp := None)])"
    "is_ok r = is_ok b" by (cases b; simp)+
  with begun [OF res r base _ ne _ b [unfolded fs0_def]] new show thesis
    by (simp add: tmp_def tmp_path_def fs0_def)
qed

lemma restore_dest_whole:
  assumes "write_restore canon w rng rf dest src fs = (r, states)" and "resolve_dest_path canon w dest = Inr p"
    and "s \<in> set states"
  shows "s p = fs p \<or> s p = Some (src, True)"
  using assms(1)
proof (cases rule: restore_shape)
  case (begun resolved dir base sfx tmp b ss root)
  note body = restore_body_states [OF begun(9,7)]
  from assms(2) begun(1) have p: "p = resolved" by simp
  show ?thesis
    using assms(3) body(3) [of s] body(3) [of "last ss"] last_in_set [OF body(1)] begun(7) unfolding begun(10) p
    by (auto split: if_splits)
qed (use assms(3) in simp)

lemma restore_instants:
  assumes "write_restore canon w rng rf dest src fs = (r, states)"
  shows "states \<noteq> [] \<and> list_all (\<lambda>s. \<forall>p. s p \<noteq> fs p \<longrightarrow>
      (\<exists>root dir n. canon (components (fw_pg_data_dir w)) = Some root \<and> path_starts_with dir root \<and>
         p = child dir n \<and> n \<noteq> ''..'' \<and>
         (starts_with n ''.'' \<and> fs p = None \<or> resolve_dest_path canon w dest = Inr p \<and> s p = Some (src, True)))) states \<and>
    (case r of
       Inr _ \<Rightarrow> (\<exists>p. resolve_dest_path canon w dest = Inr p \<and> last states = fs(p \<mapsto> (src, True)))
     | Inl _ \<Rightarrow> (\<forall>p. resolve_dest_path canon w dest = Inr p \<longrightarrow> last states p = fs p) \<and>
         (\<not> rf_remove rf \<longrightarrow> last states = fs))"
  using assms
proof (cases rule: restore_shape)
  case refused
  thus ?thesis by (auto split: sum.split)
next
  case (begun resolved dir base sfx tmp b ss root)
  note body = restore_body_states [OF begun(9,7)] and res = begun(1) and st = begun(10) and ne = begun(7)
  have other: "s p = fs p" if "s \<in> set states" "p \<noteq> tmp" "p \<noteq> resolved" for s p
    using that body(2) [of s p] body(2) [of "last ss" p] last_in_set [OF body(1)] unfolding st
    by (auto split: if_splits)
  note tmp = begun(6,8)
  have "\<exists>root dir n. canon (components (fw_pg_data_dir w)) = Some root \<and> path_starts_with dir root \<and>
         p = child dir n \<and> n \<noteq> ''..'' \<and>
         (starts_with n ''.'' \<and> fs p = None \<or> resolve_dest_path canon w dest = Inr p \<and> s p = Some (src, True))"
    if "s \<in> set states" "s p \<noteq> fs p" for s p
  proof (cases "p = tmp")
    case True
    have "starts_with (CHR ''.'' # base @ ''-'' @ sfx) ''.''" by (simp add: starts_with_def)
    moreover have "CHR ''.'' # base @ ''-'' @ sfx \<noteq> ''..''"
      using begun(5) by (cases base) auto
    ultimately show ?thesis using True tmp begun(2,3) by blast
  next
    case False
    with other that have "p = resolved" by blast
    with restore_dest_whole [OF assms res that(1)] that(2) begun(2-5) res show ?thesis by blast
  qed
  moreover have "case r of
       Inr _ \<Rightarrow> (\<exists>p. resolve_dest_path canon w dest = Inr p \<and> last states = fs(p \<mapsto> (src, True)))
     | Inl _ \<Rightarrow> (\<forall>p. resolve_dest_path canon w dest = Inr p \<longrightarrow> last states p = fs p) \<and>
         (\<not> rf_remove rf \<longrightarrow> last states = fs)"
  proof (cases r)
    case (Inr u)
    with begun(11) obtain v where v: "b = Inr v" by (cases b) simp_all
    hence l: "last states = last ss" using st body(1) by simp
    have "last ss p = (fs(resolved \<mapsto> (src, True))) p" for p
      using body(4) [OF v] other [of "last ss" p] last_in_set [OF body(1)] tmp(2) ne
      by (cases "p = tmp"; cases "p = resolved") (auto simp: st)
    with l Inr res show ?thesis by auto
  next
    case (Inl e)
    with begun(11) obtain e' where v: "b = Inl e'" by (cases b) simp_all
    hence l: "last states = (if rf_remove rf then last ss else (last ss)(tmp := None))" using st by simp
    have s: "last ss resolved = fs resolved"
      using body(5) [OF v last_in_set [OF body(1)]] ne by simp
    have "\<not> rf_remove rf \<Longrightarrow> last states p = fs p" for p
      using l s tmp(2) other [of "last ss" p] last_in_set [OF body(1)]
      by (cases "p = tmp"; cases "p = resolved") (auto simp: st)
    with l s ne Inl res show ?thesis by auto
  qed
  ultimately show ?thesis unfolding list_all_iff using st by blast
qed

text \<open>
  (C36) A restore stays in the data directory and is all or nothing. Whatever the destination, the
  links of the file system, the random suffix and the faults, at every instant of the call (a crash
  leaves one of them) the only paths whose contents differ from before are files directly in a
  directory under the canonical data directory: the destination, which then holds exactly the bytes
  sent, already on disk, and a hidden temporary file. The call succeeds exactly when the destination
  holds them at the end, and then nothing else is left; when it fails the destination is as it was, and
  the temporary file is left only if it could not be removed.
\<close>

theorem restore_contained_and_atomic:
  assumes "write_restore canon w rng rf dest src fs = (r, states)"
  shows "states \<noteq> [] \<and> list_all (\<lambda>s. \<forall>p. s p \<noteq> fs p \<longrightarrow>
      (\<exists>root dir n. canon (components (fw_pg_data_dir w)) = Some root \<and> path_starts_with dir root \<and>
         p = child dir n \<and> n \<noteq> ''..'' \<and>
         (starts_with n ''.'' \<and> fs p = None \<or> resolve_dest_path canon w dest = Inr p \<and> s p = Some (src, True)))) states \<and>
    (case r of
       Inr _ \<Rightarrow> (\<exists>p. resolve_dest_path canon w dest = Inr p \<and> last states = fs(p \<mapsto> (src, True)))
     | Inl _ \<Rightarrow> (\<forall>p. resolve_dest_path canon w dest = Inr p \<longrightarrow> last states p = fs p) \<and>
         (\<not> rf_remove rf \<longrightarrow> last states = fs))"
  by (rule restore_instants [OF assms])

theorem restore_contained_and_atomic_witness:
  "\<exists>states. write_restore Some \<lparr>fw_pg_data_dir = ''/data'', fw_archive_dir = ''/wal''\<rparr> (Inr ''0a'')
       \<lparr>rf_open = None, rf_copy = None, rf_sync = None, rf_rename = None, rf_remove = False\<rparr>
       ''pg_wal/X'' ''bytes'' Map.empty = (Inr (), states) \<and>
     last states = Map.empty((True, [''data'', ''pg_wal'', ''X'']) \<mapsto> (''bytes'', True))"
proof -
  let ?w = "\<lparr>fw_pg_data_dir = ''/data'', fw_archive_dir = ''/wal''\<rparr>"
  let ?rf = "\<lparr>rf_open = None, rf_copy = None, rf_sync = None, rf_rename = None, rf_remove = False\<rparr>"
  have c: "components ''/data/pg_wal/X'' = (True, [''data'', ''pg_wal'', ''X''])"
    "components ''/data'' = (True, [''data''])"
    by (simp_all add: components_def is_absolute_def starts_with_def)
  have res: "resolve_dest_path Some ?w ''pg_wal/X'' = Inr (True, [''data'', ''pg_wal'', ''X''])"
    by (simp add: resolve_dest_path_def path_join_def is_absolute_def starts_with_def ends_with_def c
        parent_def file_name_def path_starts_with_def child_def)
  obtain states where w: "write_restore Some ?w (Inr ''0a'') ?rf ''pg_wal/X'' ''bytes'' Map.empty = (Inr (), states)"
    by (auto simp: write_restore_def res parent_def file_name_def restore_body_def Let_def)
  from restore_contained_and_atomic [OF w] res w show ?thesis by auto
qed

end
