(* ===== verification/PgpoolSupervisor.thy ===== *)
theory PgpoolSupervisor
  imports PgPrelude
begin

text \<open>
  The supervisor of pgpool, \<open>crates/pg-agent-core/src/pgpool_supervisor.rs\<close>: the start-up probe and the
  loop that starts an inactive unit under a cooldown and a cap on consecutive failures.

  What systemd answers is an argument of each step; the counters are natural numbers. \<open>run\<close> is the list
  of its ticks up to the cancellation.
\<close>

section \<open>Definitions\<close>

definition sup_default_tick :: duration where
  "sup_default_tick = secs 5"

definition min_attempt_gap :: duration where
  "min_attempt_gap = secs 30"

definition max_consecutive_failures :: nat where
  "max_consecutive_failures = 10"

record supervisor =
  sup_tick :: duration
  sup_gap :: duration
  sup_cap :: nat
  sup_last_attempt :: "instant option"
  sup_failures :: nat
  sup_started :: nat

definition with_params :: "duration \<Rightarrow> duration \<Rightarrow> nat \<Rightarrow> supervisor" where
  "with_params tick gap cap = \<lparr>sup_tick = tick, sup_gap = gap, sup_cap = cap, sup_last_attempt = None,
     sup_failures = 0, sup_started = 0\<rparr>"

definition supervisor_new :: supervisor where
  "supervisor_new = with_params sup_default_tick min_attempt_gap max_consecutive_failures"

definition attempt_start :: "instant \<Rightarrow> (string, unit) result \<Rightarrow> supervisor \<Rightarrow> supervisor" where
  "attempt_start now start s =
     (let s = s\<lparr>sup_last_attempt := Some now, sup_started := sup_started s + 1\<rparr> in
      case start of Inr _ \<Rightarrow> s | Inl _ \<Rightarrow> s\<lparr>sup_failures := sup_failures s + 1\<rparr>)"

definition ensure_running_once ::
  "(string, bool) result \<Rightarrow> instant \<Rightarrow> (string, unit) result \<Rightarrow> supervisor \<Rightarrow>
     (string, bool) result \<times> supervisor" where
  "ensure_running_once status now start s =
     (case status of
        Inl e \<Rightarrow> (Inl e, s)
      | Inr True \<Rightarrow> (Inr False, s)
      | Inr False \<Rightarrow> (Inr True, attempt_start now start s))"

text \<open>The second component tells whether a start was issued.\<close>

definition sup_tick_once ::
  "(string, bool) result \<Rightarrow> instant \<Rightarrow> (string, unit) result \<Rightarrow> supervisor \<Rightarrow> supervisor \<times> bool" where
  "sup_tick_once status now start s =
     (case status of
        Inl _ \<Rightarrow> (s, False)
      | Inr True \<Rightarrow> (s\<lparr>sup_failures := 0\<rparr>, False)
      | Inr False \<Rightarrow>
          if sup_cap s \<le> sup_failures s then (s, False)
          else (case sup_last_attempt s of
                  Some prev \<Rightarrow>
                    if now - prev < sup_gap s then (s, False) else (attempt_start now start s, True)
                | None \<Rightarrow> (attempt_start now start s, True)))"

type_synonym sup_input = "(string, bool) result \<times> instant \<times> (string, unit) result"

text \<open>The run with the starts it issued: when, and what systemd answered.\<close>

fun sup_run :: "sup_input list \<Rightarrow> supervisor \<Rightarrow> supervisor \<times> (instant \<times> (string, unit) result) list" where
  "sup_run [] s = (s, [])"
| "sup_run ((status, now, start) # ts) s =
     (case sup_tick_once status now start s of
        (s, issued) \<Rightarrow>
          (case sup_run ts s of (s, as) \<Rightarrow> (s, (if issued then [(now, start)] else []) @ as)))"

section \<open>Spacing and the cap\<close>

lemma attempt_start_fields [simp]:
  "sup_gap (attempt_start now start s) = sup_gap s" "sup_cap (attempt_start now start s) = sup_cap s"
  "sup_last_attempt (attempt_start now start s) = Some now"
  "sup_started (attempt_start now start s) = sup_started s + 1"
  "sup_failures (attempt_start now start s) = sup_failures s + (if is_ok start then 0 else 1)"
  by (simp_all add: attempt_start_def Let_def split: sum.split)

lemma tick_cases:
  obtains (idle) "sup_tick_once status now start s = (s, False)"
  | (active) "status = Inr True" "sup_tick_once status now start s = (s\<lparr>sup_failures := 0\<rparr>, False)"
  | (start) "status = Inr False" "sup_failures s < sup_cap s"
      "case sup_last_attempt s of None \<Rightarrow> True | Some t \<Rightarrow> sup_gap s \<le> now - t"
      "sup_tick_once status now start s = (attempt_start now start s, True)"
proof (cases status)
  case (Inl e)
  thus thesis by (intro idle) (simp add: sup_tick_once_def)
next
  case (Inr b)
  show thesis
  proof (cases b)
    case True
    with Inr show thesis by (intro active) (simp_all add: sup_tick_once_def)
  next
    case False
    show thesis
    proof (cases "sup_failures s < sup_cap s \<and> (case sup_last_attempt s of None \<Rightarrow> True | Some t \<Rightarrow> sup_gap s \<le> now - t)")
      case True
      with Inr False show thesis
        by (intro start) (auto simp: sup_tick_once_def split: option.splits)
    next
      case no: False
      with Inr False show thesis
        by (intro idle) (auto simp: sup_tick_once_def not_less split: option.splits)
    qed
  qed
qed

definition spaced :: "duration \<Rightarrow> instant option \<Rightarrow> instant list \<Rightarrow> bool" where
  "spaced gap prev ts =
     (successively (\<lambda>a b. a + gap \<le> b) ts \<and>
      (case (prev, ts) of (Some t, u # _) \<Rightarrow> 0 < gap \<longrightarrow> t + gap \<le> u | _ \<Rightarrow> True))"

lemma sup_run_invariant:
  assumes "sup_run ts s = (s', as)" and "sup_failures s \<le> sup_cap s"
  shows "sup_started s' = sup_started s + length as \<and> sup_failures s' \<le> sup_cap s \<and>
    (0 < sup_gap s \<longrightarrow> spaced (sup_gap s) (sup_last_attempt s) (map fst as)) \<and>
    (list_all (\<lambda>(st, _). st \<noteq> Inr True) ts \<longrightarrow>
       sup_failures s' = sup_failures s + length (filter (\<lambda>a. \<not> is_ok (snd a)) as))"
  using assms
proof (induction ts s arbitrary: s' as rule: sup_run.induct)
  case (2 status now start ts s)
  obtain s1 i where t: "sup_tick_once status now start s = (s1, i)" by fastforce
  obtain as1 where r: "sup_run ts s1 = (s', as1)" and as: "as = (if i then [(now, start)] else []) @ as1"
    using 2(2) t by (auto split: prod.splits)
  show ?case
  proof (cases rule: tick_cases [of status now start s])
    case idle
    with t r as 2(1) [OF t [symmetric] r] 2(3) show ?thesis by auto
  next
    case active
    with t r as 2(1) [OF t [symmetric] r] show ?thesis by auto
  next
    case start
    with t have s1: "s1 = attempt_start now start s" "i" by auto
    have "sup_failures s1 \<le> sup_cap s1" using start(2) s1 by simp
    note IH = 2(1) [OF t [symmetric] r this]
    have "spaced (sup_gap s) (sup_last_attempt s) (now # map fst as1)"
      if g: "0 < sup_gap s"
    proof -
      have "spaced (sup_gap s) (Some now) (map fst as1)" using IH g s1 by simp
      with g start(3) show ?thesis
        by (auto simp: spaced_def successively_Cons neq_Nil_conv split: list.splits option.splits)
    qed
    with IH s1 as show ?thesis by auto
  qed
qed (auto simp: spaced_def split: option.split)

text \<open>At the cap nothing is started until a tick sees the unit active.\<close>

lemma sup_run_at_cap:
  assumes "sup_cap s \<le> sup_failures s" and "list_all (\<lambda>(st, _). st \<noteq> Inr True) ts"
  shows "sup_run ts s = (s, [])"
  using assms
proof (induction ts)
  case (Cons x ts)
  obtain st now a where x: "x = (st, now, a)" using prod_cases3 by blast
  have "sup_tick_once st now a s = (s, False)"
    using tick_cases [of st now a s] Cons.prems x by (cases rule: tick_cases [of st now a s]) auto
  with Cons x show ?case by simp
qed simp

text \<open>
  The supervisor neither hammers systemd nor fights for ever. Over any sequence of ticks every
  start is counted, consecutive starts are at least the gap apart, and the counter of consecutive
  failures never passes the cap. While no tick sees the unit active at most \<open>cap\<close> starts fail; once the
  cap is reached nothing more is started, however long the ticks go on, until one sees it active.
\<close>

theorem supervisor_backs_off:
  assumes "sup_run ts (with_params tick gap cap) = (s', as)" and "0 < gap"
  shows "sup_started s' = length as \<and> sup_failures s' \<le> cap \<and>
    successively (\<lambda>a b. a + gap \<le> b) (map fst as) \<and>
    (list_all (\<lambda>(st, _). st \<noteq> Inr True) ts \<longrightarrow> length (filter (\<lambda>a. \<not> is_ok (snd a)) as) \<le> cap) \<and>
    (sup_failures s' = cap \<longrightarrow>
       (\<forall>us. list_all (\<lambda>(st, _). st \<noteq> Inr True) us \<longrightarrow> sup_run us s' = (s', [])))"
proof -
  have "sup_cap s2 = sup_cap s1" if "sup_run us s1 = (s2, bs)" for us s1 s2 bs
    using that
  proof (induction us s1 arbitrary: s2 bs rule: sup_run.induct)
    case (2 status now start ts s)
    obtain s1 i where t: "sup_tick_once status now start s = (s1, i)" by fastforce
    from t have c: "sup_cap s1 = sup_cap s" by (cases rule: tick_cases [of status now start s]) auto
    from 2(2) t obtain bs1 where "sup_run ts s1 = (s2, bs1)" by (auto split: prod.splits)
    from 2(1) [OF t [symmetric] this] c show ?case by simp
  qed simp
  from this [OF assms(1)] have c: "sup_cap s' = cap" by (simp add: with_params_def)
  have "sup_failures (with_params tick gap cap) \<le> sup_cap (with_params tick gap cap)"
    by (simp add: with_params_def)
  from sup_run_invariant [OF assms(1) this] assms(2) sup_run_at_cap [of s'] c show ?thesis
    by (auto simp: with_params_def spaced_def)
qed

theorem supervisor_backs_off_witness:
  "length (snd (sup_run (replicate 40 (Inr False, 0, Inl ''failed'')) (with_params 5 30 10))) = 1 \<and>
   length (filter (\<lambda>a. \<not> is_ok (snd a))
     (snd (sup_run (replicate 40 (Inr False, 0, Inl ''failed'')) (with_params 5 30 10)))) \<le> 10"
proof -
  obtain s' as where r: "sup_run (replicate 40 (Inr False, 0, Inl ''failed'')) (with_params 5 30 10) = (s', as)"
    by fastforce
  have "list_all (\<lambda>(st :: (string, bool) result, _). st \<noteq> Inr True)
      (replicate 40 (Inr False, 0 :: nat, Inl ''failed'' :: (string, unit) result))"
    by (simp add: list_all_iff)
  with supervisor_backs_off [OF r] have "length (filter (\<lambda>a. \<not> is_ok (snd a)) as) \<le> 10" by simp
  moreover have "as = [(0, Inl ''failed'')]"
    using r by (simp add: numeral_eq_Suc with_params_def sup_tick_once_def attempt_start_def)
  ultimately show ?thesis using r by simp
qed

text \<open>The start-up probe looks at the status only: it starts the unit also when the cap is reached.\<close>

lemma startup_probe_ignores_cap:
  "ensure_running_once (Inr False) now start s = (Inr True, attempt_start now start s)"
  by (simp add: ensure_running_once_def)

end
