(* ===== verification/Healthz.thy ===== *)
theory Healthz
  imports Pcp
begin

text \<open>
  The health endpoint, \<open>crates/pg-agent-core/src/healthz.rs\<close>: the probes of the background snapshotter
  and the verdict computed from the latest snapshot on the request path.

  What the database and pgpool answer under the probe's deadline is an argument: \<open>None\<close> is a timeout.
  The router's method check is \<open>axum\<close>'s.
\<close>

section \<open>Snapshot\<close>

type_synonym 'a timed = "(string, 'a) result option"

datatype health_role = RoleUnknown | RolePrimary | RoleReplica

record postgres_probe =
  pp_reachable :: bool
  pp_in_recovery :: bool

record backend_status =
  bs_id :: i32
  bs_hostname :: string
  bs_role :: string
  bs_status :: string
  bs_replication_state :: string

record pgpool_probe =
  gp_reachable :: bool
  gp_backends :: "backend_status list"

record replication_probe =
  rp_lag_bytes :: int
  rp_wal_receiver_state :: string

datatype sync_commit_state = SyncNotApplicable | SyncDisarmed | SyncArmed | SyncBlocked

record health_snapshot =
  hs_timestamp :: datetime
  hs_role :: health_role
  hs_postgres :: postgres_probe
  hs_pgpool :: pgpool_probe
  hs_replication :: replication_probe
  hs_sync_commit :: sync_commit_state
  hs_follow_wedged :: bool

definition from_node_info :: "'f node_info \<Rightarrow> backend_status" where
  "from_node_info n = \<lparr>bs_id = ni_id n, bs_hostname = ni_hostname n, bs_role = ni_role n,
     bs_status = ni_status_name n, bs_replication_state = ni_replication_state n\<rparr>"

definition postgres_probe_default :: postgres_probe where
  "postgres_probe_default = \<lparr>pp_reachable = False, pp_in_recovery = False\<rparr>"

definition pgpool_probe_default :: pgpool_probe where
  "pgpool_probe_default = \<lparr>gp_reachable = False, gp_backends = []\<rparr>"

definition replication_probe_default :: replication_probe where
  "replication_probe_default = \<lparr>rp_lag_bytes = 0, rp_wal_receiver_state = []\<rparr>"

section \<open>Probes\<close>

definition probe_sync_commit :: "string timed \<Rightarrow> string list timed \<Rightarrow> sync_commit_state" where
  "probe_sync_commit setting connected =
     (case setting of
        Some (Inr names) \<Rightarrow>
          if trim names = [] then SyncDisarmed
          else (case connected of
                  Some (Inr cs) \<Rightarrow> if cs \<noteq> [] then SyncArmed else SyncBlocked
                | _ \<Rightarrow> SyncNotApplicable)
      | _ \<Rightarrow> SyncNotApplicable)"

definition probe_postgres ::
  "bool timed \<Rightarrow> (int \<times> string) timed \<Rightarrow> health_role \<times> postgres_probe \<times> replication_probe" where
  "probe_postgres in_recovery lag =
     (case in_recovery of
        Some (Inr r) \<Rightarrow>
          let role = (if r then RoleReplica else RolePrimary);
              l = (case lag of Some (Inr l) \<Rightarrow> l | _ \<Rightarrow> (0, []))
          in (role, \<lparr>pp_reachable = True, pp_in_recovery = r\<rparr>,
              \<lparr>rp_lag_bytes = fst l, rp_wal_receiver_state = snd l\<rparr>)
      | _ \<Rightarrow> (RoleUnknown, \<lparr>pp_reachable = False, pp_in_recovery = False\<rparr>, replication_probe_default))"

definition probe_pgpool :: "'f node_info list timed \<Rightarrow> pgpool_probe" where
  "probe_pgpool nodes =
     (case nodes of
        Some (Inr ns) \<Rightarrow> \<lparr>gp_reachable = True, gp_backends = map from_node_info ns\<rparr>
      | _ \<Rightarrow> \<lparr>gp_reachable = False, gp_backends = []\<rparr>)"

record 'f probe_answers =
  pa_in_recovery :: "bool timed"
  pa_lag :: "(int \<times> string) timed"
  pa_nodes :: "'f node_info list timed"
  pa_setting :: "string timed"
  pa_connected :: "string list timed"
  pa_now :: datetime
  pa_wedged :: bool

definition hz_build_snapshot :: "'f probe_answers \<Rightarrow> health_snapshot" where
  "hz_build_snapshot pa =
     (case probe_postgres (pa_in_recovery pa) (pa_lag pa) of
        (role, postgres, replication) \<Rightarrow>
          \<lparr>hs_timestamp = pa_now pa, hs_role = role, hs_postgres = postgres,
           hs_pgpool = probe_pgpool (pa_nodes pa), hs_replication = replication,
           hs_sync_commit =
             (if role = RolePrimary then probe_sync_commit (pa_setting pa) (pa_connected pa) else SyncNotApplicable),
           hs_follow_wedged = pa_wedged pa\<rparr>)"

section \<open>The handler\<close>

record health_state =
  hst_snap :: "health_snapshot option"
  hst_stale_after :: duration
  hst_startup_verified :: bool

definition probe_once :: "'f probe_answers \<Rightarrow> health_state \<Rightarrow> health_state" where
  "probe_once pa st = st\<lparr>hst_snap := Some (hz_build_snapshot pa)\<rparr>"

record health_body =
  hb_ready :: bool
  hb_snapshot_age_ms :: int
  hb_role :: health_role
  hb_postgres :: postgres_probe
  hb_pgpool :: pgpool_probe
  hb_replication :: replication_probe
  hb_sync_commit :: sync_commit_state
  hb_follow_wedged :: bool

definition empty_body :: health_body where
  "empty_body = \<lparr>hb_ready = False, hb_snapshot_age_ms = 0, hb_role = RoleUnknown,
     hb_postgres = postgres_probe_default, hb_pgpool = pgpool_probe_default,
     hb_replication = replication_probe_default, hb_sync_commit = SyncNotApplicable, hb_follow_wedged = False\<rparr>"

definition backend_is_up :: "string \<Rightarrow> bool" where
  "backend_is_up status = (status = ''up'' \<or> status = ''waiting'')"

text \<open>\<open>chrono::Duration::from_std\<close> refuses what does not fit its range in milliseconds.\<close>

definition stale_limit :: "duration \<Rightarrow> int" where
  "stale_limit d = (if d \<le> (2 ^ 63 - 1) * 1000000 then int d else csecs 30)"

definition compute_health :: "health_snapshot option \<Rightarrow> duration \<Rightarrow> datetime \<Rightarrow> nat \<times> health_body" where
  "compute_health snap stale_after now =
     (case snap of
        None \<Rightarrow> (503, empty_body)
      | Some s \<Rightarrow>
          let age = now - hs_timestamp s;
              age_ms = max 0 (age div 1000000);
              fresh = age < stale_limit stale_after;
              any_up = gp_reachable (hs_pgpool s) \<and>
                list_ex (\<lambda>b. backend_is_up (bs_status b)) (gp_backends (hs_pgpool s));
              ready = (fresh \<and> any_up)
          in (if ready then 200 else 503,
              \<lparr>hb_ready = ready, hb_snapshot_age_ms = age_ms, hb_role = hs_role s, hb_postgres = hs_postgres s,
               hb_pgpool = hs_pgpool s, hb_replication = hs_replication s, hb_sync_commit = hs_sync_commit s,
               hb_follow_wedged = hs_follow_wedged s\<rparr>))"

definition handle_healthz :: "datetime \<Rightarrow> health_state \<Rightarrow> nat \<times> health_body" where
  "handle_healthz now st =
     (if \<not> hst_startup_verified st then (503, empty_body)
      else compute_health (hst_snap st) (hst_stale_after st) now)"

section \<open>Runs of the endpoint\<close>

datatype 'f health_event = HProbe "'f probe_answers" | HVerified

fun health_step :: "'f health_event \<Rightarrow> health_state \<Rightarrow> health_state" where
  "health_step (HProbe pa) st = probe_once pa st"
| "health_step HVerified st = st\<lparr>hst_startup_verified := True\<rparr>"

fun last_probe :: "'f health_event list \<Rightarrow> 'f probe_answers option" where
  "last_probe [] = None"
| "last_probe (e # es) = (case last_probe es of Some pa \<Rightarrow> Some pa | None \<Rightarrow> (case e of HProbe pa \<Rightarrow> Some pa | HVerified \<Rightarrow> None))"

definition health_start :: health_state where
  "health_start = \<lparr>hst_snap = None, hst_stale_after = secs 30, hst_startup_verified = False\<rparr>"

lemma health_run:
  "hst_stale_after (fold health_step es st) = hst_stale_after st \<and>
   (hst_startup_verified (fold health_step es st) \<longleftrightarrow> hst_startup_verified st \<or> HVerified \<in> set es) \<and>
   hst_snap (fold health_step es st) =
     (case last_probe es of Some pa \<Rightarrow> Some (hz_build_snapshot pa) | None \<Rightarrow> hst_snap st)"
proof (induction es arbitrary: st)
  case (Cons e es)
  show ?case by (cases e) (auto simp: Cons.IH probe_once_def split: option.split)
qed simp

lemma routable:
  "(gp_reachable (probe_pgpool x) \<and> list_ex (\<lambda>b. backend_is_up (bs_status b)) (gp_backends (probe_pgpool x))) =
     (case x of Some (Inr ns) \<Rightarrow> list_ex (\<lambda>n. ni_status_name n \<in> {''up'', ''waiting''}) ns | _ \<Rightarrow> False)"
  by (auto simp: probe_pgpool_def from_node_info_def backend_is_up_def list_ex_iff split: option.splits sum.splits)

lemma snapshot_fields:
  "hs_pgpool (hz_build_snapshot pa) = probe_pgpool (pa_nodes pa)"
  "hs_timestamp (hz_build_snapshot pa) = pa_now pa"
  by (simp_all add: hz_build_snapshot_def split: prod.split)

text \<open>
  The status code is exact. After any sequence of probes and the start-up verification, a request
  answers 200 exactly when the start-up verdict is in, the last probe is less than thirty seconds old,
  pgpool answered that probe in time and named at least one backend up or waiting; in every other case,
  no probe yet included, it answers 503. What PostgreSQL answered has no influence on the code.
\<close>

theorem health_status_exact:
  "fst (handle_healthz now (fold health_step es health_start)) =
     (if HVerified \<in> set es \<and>
         (case last_probe es of
            None \<Rightarrow> False
          | Some pa \<Rightarrow> now - pa_now pa < csecs 30 \<and>
              (case pa_nodes pa of
                 Some (Inr ns) \<Rightarrow> list_ex (\<lambda>n. ni_status_name n \<in> {''up'', ''waiting''}) ns
               | _ \<Rightarrow> False))
      then 200 else 503)"
proof (cases "last_probe es")
  case None
  with health_run [of es health_start] show ?thesis
    by (simp add: handle_healthz_def health_start_def compute_health_def)
next
  case (Some pa)
  have lim: "stale_limit (secs 30) = csecs 30" by (simp add: stale_limit_def secs_def csecs_def)
  from Some health_run [of es health_start] show ?thesis
    by (auto simp: handle_healthz_def health_start_def compute_health_def lim Let_def snapshot_fields
        routable [symmetric])
qed

end
