(* ===== verification/Guards.thy ===== *)
theory Guards
  imports ClusterView
begin

text \<open>
  Two helpers of the handlers: the check of a destructive intent against the live status of the node it
  presumes dead (\<open>crates/pg-agent-core/src/preconditions.rs\<close>), and the retry with a fixed delay
  (\<open>crates/pg-agent-core/src/retry.rs\<close>).
\<close>

section \<open>Preconditions\<close>

definition precondition_timeout :: duration where
  "precondition_timeout = secs 5"

datatype cluster_intent = DropSlotBecauseStandbyDown node_config

datatype precondition_outcome = PrePass | PreRefuse string | PreUnverifiable string

text \<open>The dial, the status call, and whether both came within the deadline.\<close>

definition validate_cluster_preconditions ::
  "(string, unit) result \<Rightarrow> (string, node_status) result \<Rightarrow> bool \<Rightarrow> cluster_intent \<Rightarrow> precondition_outcome" where
  "validate_cluster_preconditions dial get_status in_time intent =
     (case intent of DropSlotBecauseStandbyDown detached \<Rightarrow>
        let probe = (case dial of
                Inl e \<Rightarrow> Inl (''dial '' @ nc_hostname detached @ '': '' @ e)
              | Inr _ \<Rightarrow>
                  (case get_status of
                     Inl e \<Rightarrow> Inl (''get_status('' @ nc_hostname detached @ ''): '' @ e)
                   | Inr s \<Rightarrow> Inr s))
        in if \<not> in_time
           then PreUnverifiable (nc_hostname detached @ '' did not answer within 5s'')
           else case probe of
               Inl reason \<Rightarrow> PreUnverifiable reason
             | Inr s \<Rightarrow>
                 if is_postgres_running s \<and> is_in_recovery s \<and> replication_state s = ''streaming''
                 then PreRefuse (''failover: refusing to drop slot '' @ slot_name detached @
                   '': announced-failed standby node '' @ show_int (nc_id detached) @ '' ('' @ nc_hostname detached @
                   '') is reachable, running, and streaming '' @ [CHR 0xE2, CHR 0x80, CHR 0x94] @
                   '' the failure report is wrong, and dropping its slot would break healthy replication. '' @
                   ''No action taken.'')
                 else PrePass)"

text \<open>A refusal needs positive evidence, and positive evidence is refused.\<close>

lemma refuse_iff_evidence:
  "(\<exists>m. validate_cluster_preconditions dial get in_time intent = PreRefuse m) \<longleftrightarrow>
     in_time \<and> is_ok dial \<and>
     (\<exists>s. get = Inr s \<and> is_postgres_running s \<and> is_in_recovery s \<and> replication_state s = ''streaming'')"
  by (cases intent; cases dial; cases get) (simp_all add: validate_cluster_preconditions_def Let_def)

section \<open>Retry\<close>

text \<open>Attempt \<open>k\<close> of the operation answers \<open>op k\<close>; the loop runs from \<open>k\<close> with \<open>left\<close> attempts left.\<close>

fun retry_loop ::
  "nat \<Rightarrow> nat \<Rightarrow> (nat \<Rightarrow> (string, 'a) result) \<Rightarrow> string list \<Rightarrow> (string list, 'a) result" where
  "retry_loop k 0 op errors = Inl errors"
| "retry_loop k (Suc left) op errors =
     (case op k of
        Inr v \<Rightarrow> Inr v
      | Inl e \<Rightarrow> retry_loop (Suc k) left op (errors @ [''attempt '' @ show_nat k @ '': '' @ e]))"

definition retry_result :: "string \<Rightarrow> nat \<Rightarrow> (nat \<Rightarrow> (string, 'a) result) \<Rightarrow> (string, 'a) result" where
  "retry_result desc attempts op =
     (let attempts = max attempts 1 in
      case retry_loop 1 attempts op [] of
        Inr v \<Rightarrow> Inr v
      | Inl errors \<Rightarrow>
          Inl (desc @ '' failed after '' @ show_nat attempts @ '' attempts: '' @ join ''; '' errors))"

lemma retry_loop_spec:
  "retry_loop k left op errors =
     (case List.find (\<lambda>i. is_ok (op i)) [k..<k + left] of
        Some i \<Rightarrow> (case op i of Inr v \<Rightarrow> Inr v | Inl _ \<Rightarrow> Inl [])
      | None \<Rightarrow> Inl (errors @ map (\<lambda>i. ''attempt '' @ show_nat i @ '': '' @
          (case op i of Inl e \<Rightarrow> e | Inr _ \<Rightarrow> [])) [k..<k + left]))"
proof (induction left arbitrary: k errors)
  case (Suc left)
  have u: "[k..<k + Suc left] = k # [Suc k..<Suc k + left]" by (simp add: upt_conv_Cons)
  show ?case unfolding u using Suc [of "Suc k"] by (cases "op k") (simp_all split: option.split)
qed simp

text \<open>The first success is returned; otherwise the error lists every attempt.\<close>

lemma retry_result_spec:
  "retry_result desc attempts op =
     (case List.find (\<lambda>i. is_ok (op i)) [1..<1 + max attempts 1] of
        Some i \<Rightarrow> (case op i of Inr v \<Rightarrow> Inr v | Inl e \<Rightarrow> Inl e)
      | None \<Rightarrow> Inl (desc @ '' failed after '' @ show_nat (max attempts 1) @ '' attempts: '' @
          join ''; '' (map (\<lambda>i. ''attempt '' @ show_nat i @ '': '' @
            (case op i of Inl e \<Rightarrow> e | Inr _ \<Rightarrow> [])) [1..<1 + max attempts 1])))"
  unfolding retry_result_def Let_def retry_loop_spec
  by (auto split: option.splits sum.splits dest: List_find_SomeD(2))

end
