(* ===== verification/AgentStartup.thy ===== *)
theory AgentStartup
  imports Consensus ClusterView Guards Instance
begin

text \<open>
  The start-up of the daemon and its status report, \<open>crates/pg-agent-core/src/agent.rs\<close>: the answer to
  \<open>GetStatus\<close>, the check that a running primary is the one the cluster knows (with its retries), the
  reconciliation after a cold start, and the sequence \<open>serve\<close> goes through up to and after \<open>READY\<close>.

  The collaborators are given by their answers. The steps of \<open>serve\<close> that matter for ordering are
  recorded as events; spawning a subsystem is one event. A polling loop is a recursion over the
  readings it sees and answers \<open>None\<close> when they end before it does.
\<close>

section \<open>Status report\<close>

record status_answers =
  sa_pg_status :: "(string, bool) result"
  sa_pgpool_status :: "(string, bool) result"
  sa_in_recovery :: "(string, bool) result"
  sa_lag :: "(string, int \<times> string) result"
  sa_timeline :: "(string, i32) result"
  sa_wal_lsn :: "(string, u64) result"
  sa_flush_lsn :: "(string, u64) result"
  sa_control_timeline :: "(string, i32) result"

definition map_or :: "'b \<Rightarrow> ('a \<Rightarrow> 'b) \<Rightarrow> ('e, 'a) result \<Rightarrow> 'b" where
  "map_or d f r = (case r of Inl _ \<Rightarrow> d | Inr a \<Rightarrow> f a)"

definition agent_get_status :: "status_answers \<Rightarrow> instant \<Rightarrow> peer_seen \<Rightarrow> node_status" where
  "agent_get_status sa now seen =
     (let (pg_running, pg_ok) = map_or (False, False) (\<lambda>r. (r, True)) (sa_pg_status sa);
          (pgpool_running, pgpool_ok) = map_or (False, False) (\<lambda>r. (r, True)) (sa_pgpool_status sa);
          (in_recovery, recovery_ok) = map_or (False, False) (\<lambda>v. (v, True)) (sa_in_recovery sa);
          (lag, lag_ok) = map_or ((0, []), False) (\<lambda>l. (l, True)) (sa_lag sa);
          timeline = map_or 0 (\<lambda>t. t) (sa_timeline sa);
          timeline = (if timeline = 0
                      then map_or timeline (\<lambda>t. if 0 < t then t else timeline) (sa_control_timeline sa)
                      else timeline)
      in \<lparr>is_running = pg_running, is_in_recovery = in_recovery,
          is_ready = (recovery_ok \<and> lag_ok \<and> pg_ok \<and> pgpool_ok),
          replication_lag_bytes = fst lag, replication_state = snd lag,
          is_postgres_running = pg_running, is_pgpool_running = pgpool_running,
          is_postgres_status_ok = pg_ok, is_pgpool_status_ok = pgpool_ok,
          timeline_id = timeline, current_wal_lsn = map_or 0 (\<lambda>l. l) (sa_wal_lsn sa),
          last_flush_lsn = map_or 0 (\<lambda>l. l) (sa_flush_lsn sa),
          peer_primary_seen_age_ms = ages_ms now seen\<rparr>)"

section \<open>Phantom-primary check\<close>

definition startup_check_timeout :: duration where
  "startup_check_timeout = secs 5"

definition startup_check_retries :: nat where
  "startup_check_retries = 3"

record peer_observation =
  po_id :: i32
  po_hostname :: string
  po_timeline_id :: i32
  po_is_in_recovery :: bool
  po_asserting_primary :: bool

datatype primary_verdict =
    Confirmed
  | NotApplicable
  | PhantomPrimary i32 "peer_observation list"
  | SplitBrain i32 "peer_observation list"
  | Unverifiable string

definition observation_of :: "peer_status_view \<Rightarrow> peer_observation option" where
  "observation_of v =
     (case psv_status v of
        Inl _ \<Rightarrow> None
      | Inr s \<Rightarrow>
          if 0 < timeline_id s
          then Some \<lparr>po_id = nc_id (psv_node v), po_hostname = nc_hostname (psv_node v),
                     po_timeline_id = timeline_id s, po_is_in_recovery = is_in_recovery s,
                     po_asserting_primary =
                       (is_postgres_status_ok s \<and> is_postgres_running s \<and> \<not> is_in_recovery s)\<rparr>
          else None)"

definition classify :: "i32 \<Rightarrow> nat \<Rightarrow> peer_observation list \<Rightarrow> primary_verdict" where
  "classify local_tl required obs =
     (let phantom = filter (\<lambda>p. local_tl < po_timeline_id p) obs;
          split = filter (\<lambda>p. po_timeline_id p = local_tl \<and> po_asserting_primary p) obs
      in if phantom \<noteq> [] then PhantomPrimary local_tl phantom
         else if split \<noteq> [] then SplitBrain local_tl split
         else if length obs < required
         then Unverifiable (''only '' @ show_nat (length obs) @ ''/'' @ show_nat required @
                '' peers answered with a known timeline'')
         else Confirmed)"

record check_answers =
  ca_pg_status :: "(string, bool) result"
  ca_in_recovery :: "(string, bool) result"
  ca_timeline :: "(string, i32) result"
  ca_start :: instant
  ca_completions :: "completion list"
  ca_done :: instant

definition startup_peers :: "node_pool \<Rightarrow> node_config list" where
  "startup_peers pool = filter (\<lambda>n. nc_id n \<noteq> np_local_node_id pool) (np_members pool)"

definition verify_primary_at_startup ::
  "node_pool \<Rightarrow> nat \<Rightarrow> check_answers \<Rightarrow> peer_seen \<Rightarrow> primary_verdict \<times> peer_seen" where
  "verify_primary_at_startup pool required ca seen =
     (case ca_pg_status ca of
        Inl e \<Rightarrow> (Unverifiable (''systemd status_postgres: '' @ e), seen)
      | Inr False \<Rightarrow> (NotApplicable, seen)
      | Inr True \<Rightarrow>
     (case ca_in_recovery ca of
        Inl e \<Rightarrow> (Unverifiable (''is_in_recovery: '' @ e), seen)
      | Inr True \<Rightarrow> (NotApplicable, seen)
      | Inr False \<Rightarrow>
     (case ca_timeline ca of
        Inl e \<Rightarrow> (Unverifiable (''timeline_id: '' @ e), seen)
      | Inr local_tl \<Rightarrow>
          if \<not> 0 < local_tl then (Unverifiable ''local timeline_id resolved to 0'', seen)
          else
            (case collect_statuses (startup_peers pool) startup_check_timeout (ca_start ca)
                    (ca_completions ca) (ca_done ca) (Some seen) of
               (views, seen') \<Rightarrow>
                 (classify local_tl required (List.map_filter observation_of views),
                  unwrap_or seen' seen)))))"

text \<open>The retries: attempt \<open>k\<close> sees \<open>answers k\<close>.\<close>

fun verify_retry_loop ::
  "node_pool \<Rightarrow> nat \<Rightarrow> (nat \<Rightarrow> check_answers) \<Rightarrow> nat \<Rightarrow> nat \<Rightarrow> primary_verdict \<times> peer_seen \<Rightarrow>
     primary_verdict \<times> peer_seen" where
  "verify_retry_loop pool required answers k 0 r = r"
| "verify_retry_loop pool required answers k (Suc left) r =
     (case fst r of
        Unverifiable _ \<Rightarrow>
          verify_retry_loop pool required answers (Suc k) left
            (verify_primary_at_startup pool required (answers k) (snd r))
      | _ \<Rightarrow> r)"

definition verify_primary_with_retries_params ::
  "nat \<Rightarrow> node_pool \<Rightarrow> nat \<Rightarrow> (nat \<Rightarrow> check_answers) \<Rightarrow> peer_seen \<Rightarrow> primary_verdict \<times> peer_seen" where
  "verify_primary_with_retries_params max_retries pool required answers seen =
     verify_retry_loop pool required answers 1 max_retries
       (verify_primary_at_startup pool required (answers 0) seen)"

definition verify_primary_with_retries ::
  "node_pool \<Rightarrow> nat \<Rightarrow> (nat \<Rightarrow> check_answers) \<Rightarrow> peer_seen \<Rightarrow> primary_verdict \<times> peer_seen" where
  "verify_primary_with_retries = verify_primary_with_retries_params startup_check_retries"

section \<open>Cold start\<close>

definition cold_start_quorum_budget :: duration where
  "cold_start_quorum_budget = secs 10"

text \<open>The lease poll: whether to start PostgreSQL as primary; \<open>None\<close> while still polling.\<close>

fun cold_poll :: "i32 \<Rightarrow> instant \<Rightarrow> (instant \<times> (string, cluster_state) result) list \<Rightarrow> bool option" where
  "cold_poll local_id deadline [] = None"
| "cold_poll local_id deadline ((now, r) # rs) =
     (case r of
        Inr st \<Rightarrow>
          (case cs_lease st of
             Some l \<Rightarrow> Some (lease_holder l = local_id)
           | None \<Rightarrow> Some False)
      | Inl _ \<Rightarrow> if deadline \<le> now then Some False else cold_poll local_id deadline rs)"

record cold_answers =
  co_state :: instance_state
  co_pg_version :: bool
  co_standby_signal :: bool
  co_begin :: instant
  co_reads :: "(instant \<times> (string, cluster_state) result) list"

text \<open>Whether \<open>start_postgres\<close> is called; its own failure is only logged.\<close>

definition cold_start_reconcile :: "i32 \<Rightarrow> cold_answers \<Rightarrow> bool option" where
  "cold_start_reconcile local_id co =
     (if co_state co \<noteq> Down then Some False
      else if \<not> co_pg_version co then Some False
      else if co_standby_signal co then Some True
      else cold_poll local_id (co_begin co + cold_start_quorum_budget) (co_reads co))"

section \<open>The sequence of \<open>serve\<close>\<close>

datatype serve_event =
    SvSpawnSubsystems
  | SvEnsureMembership
  | SvStopPostgres "(string, unit) result"
  | SvVerified
  | SvStartPostgres
  | SvSpawnHaLoop
  | SvPgpoolProbe
  | SvSpawnSupervisor
  | SvReady

definition stop_postgres_with_retry :: "(nat \<Rightarrow> (string, unit) result) \<Rightarrow> (string, unit) result" where
  "stop_postgres_with_retry answers = retry_result ''stop_postgres'' 2 answers"

definition verdict_stop_error :: "primary_verdict \<Rightarrow> string \<Rightarrow> string" where
  "verdict_stop_error v e =
     (case v of
        PhantomPrimary ltl _ \<Rightarrow> ''phantom-primary detected on local TL '' @ show_int ltl @ ''; stop_postgres failed: '' @ e @
          ''; refusing to mark daemon ready with PG still up''
      | SplitBrain ltl _ \<Rightarrow> ''split brain detected on local TL '' @ show_int ltl @ ''; stop_postgres failed: '' @ e @
          ''; refusing to mark daemon ready with PG still up''
      | Unverifiable reason \<Rightarrow> ''phantom-primary unverifiable ('' @ reason @ ''); stop_postgres failed: '' @ e @
          ''; refusing to mark daemon ready with PG still up''
      | _ \<Rightarrow> [])"

definition needs_stop :: "primary_verdict \<Rightarrow> bool" where
  "needs_stop v = (case v of Confirmed \<Rightarrow> False | NotApplicable \<Rightarrow> False | _ \<Rightarrow> True)"

record serve_inputs =
  si_insecure :: bool
  si_ha :: bool
  si_supervisor :: bool
  si_verdict :: primary_verdict
  si_stop :: "nat \<Rightarrow> (string, unit) result"
  si_cold :: "bool option"

text \<open>Up to \<open>READY\<close>; \<open>None\<close> is a start-up that has not got past the lease poll yet.\<close>

definition serve_startup :: "serve_inputs \<Rightarrow> (string, unit) result option \<times> serve_event list" where
  "serve_startup si =
     (if si_insecure si then (Some (Inl ''InsecureRemotePeer''), [])
      else
        let ev = [SvSpawnSubsystems] @ (if si_ha si then [SvEnsureMembership] else []);
            v = si_verdict si;
            stop = stop_postgres_with_retry (si_stop si);
            ev = ev @ (if needs_stop v then [SvStopPostgres stop] else [])
        in if needs_stop v \<and> \<not> is_ok stop
           then (case stop of Inl e \<Rightarrow> (Some (Inl (verdict_stop_error v e)), ev) | Inr _ \<Rightarrow> (None, ev))
           else
             let ev = ev @ [SvVerified] in
             case (if si_ha si then si_cold si else Some False) of
               None \<Rightarrow> (None, ev)
             | Some start \<Rightarrow>
                 (Some (Inr ()),
                  ev @ (if start then [SvStartPostgres] else []) @
                  (if si_ha si then [SvSpawnHaLoop] else []) @
                  (if si_supervisor si \<and> \<not> needs_stop v then [SvPgpoolProbe, SvSpawnSupervisor] else []) @
                  [SvReady]))"

text \<open>How \<open>serve\<close> ends: \<open>None\<close> for the shutdown arm, otherwise what the first subsystem to return
  returned, a panic or an abort being an error of the join.\<close>

definition serve_outcome :: "(string, unit) result option \<Rightarrow> bool \<Rightarrow> (string, unit) result" where
  "serve_outcome first_exit cancelled =
     (case first_exit of
        None \<Rightarrow> Inr ()
      | Some (Inr _) \<Rightarrow>
          if cancelled then Inr () else Inl ''subsystem exited unexpectedly before shutdown''
      | Some (Inl e) \<Rightarrow> Inl e)"

section \<open>What a verdict says\<close>

definition observations :: "node_pool \<Rightarrow> check_answers \<Rightarrow> peer_observation list" where
  "observations pool ca =
     List.map_filter observation_of (fst (collect_statuses (startup_peers pool) startup_check_timeout
       (ca_start ca) (ca_completions ca) (ca_done ca) None))"

lemma views_same:
  "fst (collect_statuses ns b s cs d seen) = fst (collect_statuses ns b s cs d None)"
  by (simp add: collect_statuses_def Let_def)

lemma verify_exact:
  "fst (verify_primary_at_startup pool required ca seen) =
     (case (ca_pg_status ca, ca_in_recovery ca, ca_timeline ca) of
        (Inr True, Inr False, Inr ltl) \<Rightarrow>
          if 0 < ltl then classify ltl required (observations pool ca)
          else Unverifiable ''local timeline_id resolved to 0''
      | (Inr False, _, _) \<Rightarrow> NotApplicable
      | (Inr True, Inr True, _) \<Rightarrow> NotApplicable
      | (Inl e, _, _) \<Rightarrow> Unverifiable (''systemd status_postgres: '' @ e)
      | (Inr True, Inl e, _) \<Rightarrow> Unverifiable (''is_in_recovery: '' @ e)
      | (Inr True, Inr False, Inl e) \<Rightarrow> Unverifiable (''timeline_id: '' @ e))"
  unfolding verify_primary_at_startup_def observations_def
  using views_same [of "startup_peers pool" startup_check_timeout "ca_start ca" "ca_completions ca" "ca_done ca" "Some seen"]
  by (auto split: sum.split bool.split prod.split)

definition verdict_of :: "node_pool \<Rightarrow> nat \<Rightarrow> check_answers \<Rightarrow> primary_verdict" where
  "verdict_of pool required ca = fst (verify_primary_at_startup pool required ca [])"

lemma verdict_of_any: "fst (verify_primary_at_startup pool required ca seen) = verdict_of pool required ca"
  unfolding verdict_of_def verify_exact ..

definition unverifiable :: "primary_verdict \<Rightarrow> bool" where
  "unverifiable v = (case v of Unverifiable _ \<Rightarrow> True | _ \<Rightarrow> False)"

text \<open>The retries return the first attempt that says something, or the last one.\<close>

lemma verify_retry_loop_first:
  assumes "fst r = verdict_of pool required (answers k)"
  shows "\<exists>j. k \<le> j \<and> j \<le> k + left \<and>
    fst (verify_retry_loop pool required answers (Suc k) left r) = verdict_of pool required (answers j) \<and>
    (\<forall>i. k \<le> i \<and> i < j \<longrightarrow> unverifiable (verdict_of pool required (answers i))) \<and>
    (j < k + left \<longrightarrow> \<not> unverifiable (verdict_of pool required (answers j)))"
  using assms
proof (induction left arbitrary: k r)
  case 0
  thus ?case by (intro exI [of _ k]) auto
next
  case (Suc left)
  show ?case
  proof (cases "unverifiable (fst r)")
    case True
    let ?r = "verify_primary_at_startup pool required (answers (Suc k)) (snd r)"
    from True have step: "verify_retry_loop pool required answers (Suc k) (Suc left) r =
        verify_retry_loop pool required answers (Suc (Suc k)) left ?r"
      by (auto simp: unverifiable_def split: primary_verdict.splits)
    from Suc.IH [of ?r "Suc k", OF verdict_of_any] obtain j where j: "Suc k \<le> j" "j \<le> Suc k + left"
      "fst (verify_retry_loop pool required answers (Suc (Suc k)) left ?r) = verdict_of pool required (answers j)"
      "\<forall>i. Suc k \<le> i \<and> i < j \<longrightarrow> unverifiable (verdict_of pool required (answers i))"
      "j < Suc k + left \<longrightarrow> \<not> unverifiable (verdict_of pool required (answers j))" by blast
    from j(4) True Suc.prems have "\<forall>i. k \<le> i \<and> i < j \<longrightarrow> unverifiable (verdict_of pool required (answers i))"
      by (metis Suc_leI le_neq_implies_less)
    with j step show ?thesis by (intro exI [of _ j]) auto
  next
    case False
    hence "verify_retry_loop pool required answers (Suc k) (Suc left) r = r"
      by (auto simp: unverifiable_def split: primary_verdict.splits)
    with False Suc.prems show ?thesis by (intro exI [of _ k]) auto
  qed
qed

lemma verify_with_retries_first:
  "\<exists>j \<le> startup_check_retries.
    fst (verify_primary_with_retries pool required answers seen) = verdict_of pool required (answers j) \<and>
    (\<forall>i < j. unverifiable (verdict_of pool required (answers i))) \<and>
    (j < startup_check_retries \<longrightarrow> \<not> unverifiable (verdict_of pool required (answers j)))"
  using verify_retry_loop_first [of "verify_primary_at_startup pool required (answers 0) seen" pool required answers 0
      startup_check_retries, OF verdict_of_any]
  by (simp add: verify_primary_with_retries_def verify_primary_with_retries_params_def)

lemma confirmed_iff:
  "verdict_of pool required ca = Confirmed \<longleftrightarrow>
     ca_pg_status ca = Inr True \<and> ca_in_recovery ca = Inr False \<and>
     (\<exists>ltl. ca_timeline ca = Inr ltl \<and> 0 < ltl \<and> required \<le> length (observations pool ca) \<and>
       list_all (\<lambda>p. po_timeline_id p \<le> ltl \<and> (po_timeline_id p = ltl \<longrightarrow> \<not> po_asserting_primary p))
         (observations pool ca))"
  unfolding verdict_of_def verify_exact
  by (auto simp: classify_def Let_def filter_empty_conv list_all_iff not_less split: sum.splits bool.splits if_splits)


definition ex_startup_pool :: node_pool where
  "ex_startup_pool = \<lparr>np_members = [\<lparr>nc_id = 0, nc_hostname = ''db0''\<rparr>, \<lparr>nc_id = 1, nc_hostname = ''db1''\<rparr>],
     np_local_node_id = 0\<rparr>"

definition ex_status :: "i32 \<Rightarrow> (string, bool) result \<Rightarrow> node_status" where
  "ex_status t rec = agent_get_status
     \<lparr>sa_pg_status = Inr True, sa_pgpool_status = Inr True, sa_in_recovery = rec, sa_lag = Inl ''starting up'',
      sa_timeline = Inl ''starting up'', sa_wal_lsn = Inl ''starting up'', sa_flush_lsn = Inl ''starting up'',
      sa_control_timeline = Inr t\<rparr> 0 []"

definition ex_check :: "i32 \<Rightarrow> (string, bool) result \<Rightarrow> check_answers" where
  "ex_check t rec = \<lparr>ca_pg_status = Inr True, ca_in_recovery = Inr False, ca_timeline = Inr 4, ca_start = 0,
     ca_completions = [(1, Some \<lparr>psv_node = \<lparr>nc_id = 1, nc_hostname = ''db1''\<rparr>, psv_status = Inr (ex_status t rec)\<rparr>)],
     ca_done = 1\<rparr>"

definition ex_observation :: "i32 \<Rightarrow> bool \<Rightarrow> peer_observation" where
  "ex_observation t rec = \<lparr>po_id = 1, po_hostname = ''db1'', po_timeline_id = t, po_is_in_recovery = rec,
     po_asserting_primary = (\<not> rec)\<rparr>"

lemma ex_observations:
  "0 < t \<Longrightarrow> observations ex_startup_pool (ex_check t rec) = [ex_observation t (map_or False (\<lambda>r. r) rec)]"
  by (cases rec)
    (simp_all add: observations_def startup_peers_def ex_startup_pool_def ex_check_def collect_statuses_def
      startup_check_timeout_def secs_def observation_of_def ex_status_def agent_get_status_def map_or_def
      ex_observation_def List.map_filter_def Let_def)

lemma ex_verdict:
  "0 < t \<Longrightarrow> verdict_of ex_startup_pool 1 (ex_check t rec) =
     classify 4 1 [ex_observation t (map_or False (\<lambda>r. r) rec)]"
  using ex_observations [of t rec] unfolding verdict_of_def verify_exact by (simp add: ex_check_def)


text \<open>
  A peer whose PostgreSQL is up but does not answer queries (a standby still starting) reports itself
  out of recovery, with the timeline of its control file. A healthy primary on the same timeline then
  takes it for a rival and is stopped.
\<close>

lemma unknown_recovery_reads_as_rival:
  "verdict_of ex_startup_pool 1 (ex_check 4 (Inl ''the database system is starting up'')) =
     SplitBrain 4 [ex_observation 4 False] \<and>
   verdict_of ex_startup_pool 1 (ex_check 4 (Inr True)) = Confirmed"
  by (simp add: ex_verdict map_or_def classify_def ex_observation_def del: One_nat_def)

section \<open>Cold start\<close>

lemma cold_poll_first:
  "cold_poll i dl rs = map_option (\<lambda>(_, r). case r of
       Inr st \<Rightarrow> map_option lease_holder (cs_lease st) = Some i
     | Inl _ \<Rightarrow> False) (List.find (\<lambda>(now, r). is_ok r \<or> dl \<le> now) rs)"
  by (induction i dl rs rule: cold_poll.induct) (auto split: sum.splits option.splits)

text \<open>
  (C5) After a cold start a primary-shaped data directory is started only on the lease. PostgreSQL is
  started exactly when it is down and initialised, and either is shaped as a standby or the first
  reading that decides (an answer of the store, or a failure once the ten seconds are over) is an
  answer that gives this node the lease; a lease of another node, a vacant lease and an unreadable
  store leave it down. The poll ends with the first such reading.
\<close>

theorem cold_start_needs_the_lease:
  "(cold_start_reconcile i co = Some True \<longleftrightarrow>
     co_state co = Down \<and> co_pg_version co \<and>
     (co_standby_signal co \<or>
       (case List.find (\<lambda>(now, r). is_ok r \<or> co_begin co + secs 10 \<le> now) (co_reads co) of
          Some (_, Inr st) \<Rightarrow> (\<exists>l. cs_lease st = Some l \<and> lease_holder l = i)
        | _ \<Rightarrow> False))) \<and>
   (cold_start_reconcile i co = None \<longleftrightarrow>
     co_state co = Down \<and> co_pg_version co \<and> \<not> co_standby_signal co \<and>
     list_all (\<lambda>(now, r). \<not> is_ok r \<and> now < co_begin co + secs 10) (co_reads co))"
proof -
  let ?d = "\<lambda>(now, r). is_ok r \<or> co_begin co + secs 10 \<le> now"
  have "List.find ?d (co_reads co) = None \<longleftrightarrow>
      list_all (\<lambda>(now, r). \<not> is_ok r \<and> now < co_begin co + secs 10) (co_reads co)"
    by (auto simp: find_None_iff list_all_iff not_le)
  thus ?thesis
    unfolding cold_start_reconcile_def cold_start_quorum_budget_def cold_poll_first
    by (cases "List.find ?d (co_reads co)") (auto split: sum.splits)
qed

end
