(* ===== verification/Orchestrator.thy ===== *)
theory Orchestrator
  imports Consensus InflightOps Maintenance ReplayMarkers Guards Instance
begin

text \<open>
  What the orchestrations of the local server share (\<open>crates/pg-agent-core/src/localserver.rs\<close>): the calls
  they make on their collaborators, the journal, the maintenance queue and the replay markers they
  write, their two ways to return early, and their clean-up helpers.

  A handler is a state transformer that either goes on with a value or exits. Every call that changes
  anything is an event of the world with its success; call number \<open>n\<close> is answered by the environment
  as a function of \<open>n\<close>, and the environment may let the process die instead of making it, so that a
  theorem over all environments covers a crash between any two calls. (A crash in the middle of a
  journal write is one before or after it, see \<open>FileStore\<close>.) Reads change nothing and are answered
  by the number of calls made so far.
\<close>

section \<open>Answers of a handler\<close>

datatype status =
    InvalidArgument string
  | NotFoundStatus string
  | FailedPrecondition string
  | Internal string

record op_result =
  or_ok :: bool
  or_message :: string

type_synonym reply = "(status, op_result) result"

abbreviation refused :: "string \<Rightarrow> reply" where
  "refused m \<equiv> Inr \<lparr>or_ok = False, or_message = m\<rparr>"

abbreviation succeeded :: "string \<Rightarrow> reply" where
  "succeeded m \<equiv> Inr \<lparr>or_ok = True, or_message = m\<rparr>"

abbreviation internal :: "string \<Rightarrow> reply" where
  "internal m \<equiv> Inl (Internal m)"

section \<open>Calls\<close>

record rewind_opts =
  rwo_primary_host :: string
  rwo_primary_port :: nat
  rwo_repl_user :: string

record basebackup_opts =
  bbo_primary_host :: string
  bbo_primary_port :: nat
  bbo_repl_user :: string
  bbo_slot_name :: string

datatype orch_call =
    OcCheckpoint
  | OcCreateSlot string
  | OcDropSlot string
  | OcStopLocal
  | OcStartLocal
  | OcRewindLocal rewind_opts
  | OcBasebackupLocal basebackup_opts
  | OcWriteConfLocal recovery_conf_opts
  | OcAttach i32
  | OcSetSyncNames string
  | OcPeerPromote i32
  | OcPeerStop i32
  | OcPeerStart i32
  | OcPeerCreateSlot i32 string
  | OcPeerDropSlot i32 string
  | OcPeerRewind i32 rewind_opts
  | OcPeerBasebackup i32 basebackup_opts
  | OcPeerConfigure i32 recovery_conf_opts
  | OcBegin inflight_payload string
  | OcUpdatePhase string string
  | OcComplete string
  | OcAbandon string string
  | OcQueue maintenance_payload
  | OcMark string string
  | OcConsult string
  | OcReschedule string
  | OcCreateRole string
  | OcBootstrap
  | OcTakeover i32
  | OcSetPaused "paused option"
  | OcPeerStartPgpool i32
  | OcPeerAttach i32 i32 i32
  | OcStatusFanOut

type_synonym orch_event = "orch_call \<times> bool"

record orch_world =
  ow_journal :: inflight_store
  ow_queue :: maintenance_store
  ow_markers :: replay_store
  ow_events :: "orch_event list"

record orch_env =
  oe_pool :: node_pool
  oe_rt :: postgres_runtime
  oe_call :: "nat \<Rightarrow> orch_call \<Rightarrow> (string, unit) result"
  oe_dial :: "nat \<Rightarrow> i32 \<Rightarrow> (string, unit) result"
  oe_status :: "nat \<Rightarrow> i32 \<Rightarrow> (string, node_status) result"
  oe_in_time :: "nat \<Rightarrow> bool"
  oe_in_recovery :: "nat \<Rightarrow> (string, bool) result"
  oe_pg_running :: "nat \<Rightarrow> (string, bool) result"
  oe_wal_lsn :: "nat \<Rightarrow> (string, u64) result"
  oe_slot_active :: "nat \<Rightarrow> string \<Rightarrow> (string, bool) result"
  oe_marker_stat :: "nat \<Rightarrow> string option"
  oe_sha :: "string \<Rightarrow> string"
  oe_io :: "nat \<Rightarrow> io_faults"
  oe_now :: "nat \<Rightarrow> datetime"
  oe_dies :: "nat option"

section \<open>Handlers as state transformers\<close>

datatype 'x orch_exit = Crashed | Finished 'x

type_synonym ('x, 'a) orch = "orch_world \<Rightarrow> ('x orch_exit, 'a) result \<times> orch_world"

definition orch_return :: "'a \<Rightarrow> ('x, 'a) orch" where
  "orch_return a = (\<lambda>w. (Inr a, w))"

definition orch_bind :: "('x, 'a) orch \<Rightarrow> ('a \<Rightarrow> ('x, 'b) orch) \<Rightarrow> ('x, 'b) orch" where
  "orch_bind m f = (\<lambda>w. case m w of (Inl x, w') \<Rightarrow> (Inl x, w') | (Inr a, w') \<Rightarrow> f a w')"

definition orch_seq :: "('x, unit) orch \<Rightarrow> ('x, 'b) orch \<Rightarrow> ('x, 'b) orch" where
  "orch_seq m n = orch_bind m (\<lambda>_. n)"

definition orch_finish :: "'x \<Rightarrow> ('x, 'a) orch" where
  "orch_finish x = (\<lambda>w. (Inl (Finished x), w))"

definition orch_when :: "bool \<Rightarrow> ('x, unit) orch \<Rightarrow> ('x, unit) orch" where
  "orch_when b m = (if b then m else orch_return ())"

text \<open>The number of calls made so far, by which reads are answered.\<close>

definition calls_made :: "('x, nat) orch" where
  "calls_made = (\<lambda>w. (Inr (length (ow_events w)), w))"

definition orch_perform ::
  "orch_env \<Rightarrow> orch_call \<Rightarrow> (nat \<Rightarrow> orch_world \<Rightarrow> ('e, 'r) result \<times> orch_world) \<Rightarrow> ('x, ('e, 'r) result) orch" where
  "orch_perform e c f =
     (\<lambda>w. let n = length (ow_events w) in
          if oe_dies e = Some n then (Inl Crashed, w)
          else case f n w of (r, w') \<Rightarrow> (Inr r, w'\<lparr>ow_events := ow_events w @ [(c, is_ok r)]\<rparr>))"

definition orch_do :: "orch_env \<Rightarrow> orch_call \<Rightarrow> ('x, (string, unit) result) orch" where
  "orch_do e c = orch_perform e c (\<lambda>n w. (oe_call e n c, w))"

text \<open>\<open>map_err(..)?\<close>: leave the handler on an error.\<close>

definition orch_try :: "('x, ('e, 'a) result) orch \<Rightarrow> ('e \<Rightarrow> 'x) \<Rightarrow> ('x, 'a) orch" where
  "orch_try m f = orch_bind m (\<lambda>r. case r of Inl e \<Rightarrow> orch_finish (f e) | Inr a \<Rightarrow> orch_return a)"

definition orch_read :: "(nat \<Rightarrow> ('e, 'a) result) \<Rightarrow> ('e \<Rightarrow> 'x) \<Rightarrow> ('x, 'a) orch" where
  "orch_read q f = orch_bind calls_made (\<lambda>n. case q n of Inl e \<Rightarrow> orch_finish (f e) | Inr a \<Rightarrow> orch_return a)"

text \<open>Run a part of the handler to its own result; a crash goes through.\<close>

definition orch_catch :: "('y, 'a) orch \<Rightarrow> (('y, 'a) result \<Rightarrow> ('x, 'b) orch) \<Rightarrow> ('x, 'b) orch" where
  "orch_catch m f =
     (\<lambda>w. case m w of
            (Inr a, w') \<Rightarrow> f (Inr a) w'
          | (Inl (Finished y), w') \<Rightarrow> f (Inl y) w'
          | (Inl Crashed, w') \<Rightarrow> (Inl Crashed, w'))"

text \<open>The position of a phase in its ladder.\<close>

definition phase_index :: "string list \<Rightarrow> string \<Rightarrow> nat option" where
  "phase_index phases ph =
     (let k = length (takeWhile (\<lambda>p. p \<noteq> ph) phases) in if k < length phases then Some k else None)"

section \<open>The stores\<close>

definition show_begin_error :: "begin_error \<Rightarrow> string" where
  "show_begin_error be =
     (case be of
        DuplicateInProgress i phase \<Rightarrow>
          ''an instance of this op is already in flight (id='' @ i @ '', phase='' @ phase @
          ''); resume with `pg_agentctl ops resume '' @ i @ ''` or abandon with `pg_agentctl ops abandon '' @ i @ ''`''
      | ExclusiveBlocked i name phase \<Rightarrow>
          ''blocked by in-flight `'' @ name @ ''` op (id='' @ i @ '', phase='' @ phase @
          ''); wait for it to finish or abandon it with `pg_agentctl ops abandon '' @ i @ ''`''
      | BeginIo m \<Rightarrow> m)"

definition journal_begin ::
  "orch_env \<Rightarrow> inflight_payload \<Rightarrow> string \<Rightarrow> bool \<Rightarrow> ('x, (begin_error, inflight_op) result) orch" where
  "journal_begin e p phase exclusive =
     orch_perform e (OcBegin p phase) (\<lambda>n w.
       case begin_op (oe_io e n) (oe_now e n) p phase exclusive (ow_journal w) of
         (r, j) \<Rightarrow> (r, w\<lparr>ow_journal := j\<rparr>))"

definition journal_phase :: "orch_env \<Rightarrow> string \<Rightarrow> string \<Rightarrow> ('x, (string, unit) result) orch" where
  "journal_phase e i phase =
     orch_perform e (OcUpdatePhase i phase) (\<lambda>n w.
       case update_phase (oe_io e n) (oe_now e n) i phase None (ow_journal w) of
         (r, j) \<Rightarrow> (r, w\<lparr>ow_journal := j\<rparr>))"

definition journal_complete :: "orch_env \<Rightarrow> string \<Rightarrow> ('x, (string, unit) result) orch" where
  "journal_complete e i =
     orch_perform e (OcComplete i) (\<lambda>n w.
       case complete_op (oe_io e n) (oe_now e n) i (ow_journal w) of (r, j) \<Rightarrow> (r, w\<lparr>ow_journal := j\<rparr>))"

definition journal_abandon :: "orch_env \<Rightarrow> string \<Rightarrow> string \<Rightarrow> ('x, (string, unit) result) orch" where
  "journal_abandon e i reason =
     orch_perform e (OcAbandon i reason) (\<lambda>n w.
       case abandon_op (oe_io e n) (oe_now e n) i reason (ow_journal w) of (r, j) \<Rightarrow> (r, w\<lparr>ow_journal := j\<rparr>))"

definition journal_find :: "orch_env \<Rightarrow> string \<Rightarrow> string \<Rightarrow> ('x, (string, inflight_op option) result) orch" where
  "journal_find e name key =
     (\<lambda>w. (Inr (find_op (oe_io e (length (ow_events w))) name key (ow_journal w)), w))"

definition journal_get :: "string \<Rightarrow> ('x, (string, inflight_op) result) orch" where
  "journal_get i = (\<lambda>w. (Inr (get_op i (ow_journal w)), w))"

definition queue_append :: "orch_env \<Rightarrow> maintenance_payload \<Rightarrow> ('x, (string, maintenance_intent) result) orch" where
  "queue_append e p =
     orch_perform e (OcQueue p) (\<lambda>n w.
       case append_intent (oe_io e n) (oe_now e n) p (ow_queue w) of (r, q) \<Rightarrow> (r, w\<lparr>ow_queue := q\<rparr>))"

definition marker_has :: "orch_env \<Rightarrow> string \<Rightarrow> string \<Rightarrow> ('x, (string, bool) result) orch" where
  "marker_has e op key =
     (\<lambda>w. (Inr (has_marker (oe_sha e) (oe_marker_stat e (length (ow_events w))) op key (ow_markers w)), w))"

definition marker_write :: "orch_env \<Rightarrow> string \<Rightarrow> string \<Rightarrow> ('x, (string, unit) result) orch" where
  "marker_write e op key =
     orch_perform e (OcMark op key) (\<lambda>n w.
       case mark_done_marker (oe_sha e) (oe_io e n) (oe_now e n) op key (ow_markers w) of
         (r, m) \<Rightarrow> (r, w\<lparr>ow_markers := m\<rparr>))"

section \<open>Helpers of the handlers\<close>

definition rewind_from :: "orch_env \<Rightarrow> node_config \<Rightarrow> rewind_opts" where
  "rewind_from e n = \<lparr>rwo_primary_host = nc_hostname n, rwo_primary_port = rt_port (oe_rt e),
     rwo_repl_user = rt_repl_user (oe_rt e)\<rparr>"

definition basebackup_from :: "orch_env \<Rightarrow> node_config \<Rightarrow> string \<Rightarrow> basebackup_opts" where
  "basebackup_from e n slot = \<lparr>bbo_primary_host = nc_hostname n, bbo_primary_port = rt_port (oe_rt e),
     bbo_repl_user = rt_repl_user (oe_rt e), bbo_slot_name = slot\<rparr>"

definition conf_for :: "orch_env \<Rightarrow> node_config \<Rightarrow> string \<Rightarrow> recovery_conf_opts" where
  "conf_for e n slot = \<lparr>rco_primary_host = nc_hostname n, rco_primary_port = rt_port (oe_rt e),
     rco_repl_user = rt_repl_user (oe_rt e), rco_slot_name = slot\<rparr>"

definition write_replay_marker_then_ok :: "orch_env \<Rightarrow> string \<Rightarrow> string \<Rightarrow> string \<Rightarrow> (reply, 'a) orch" where
  "write_replay_marker_then_ok e op key message =
     orch_seq (orch_try (marker_write e op key) (\<lambda>m. internal (op @ '': idempotency marker write: '' @ m)))
       (orch_finish (succeeded message))"

definition queue_drop_slot_cleanup :: "orch_env \<Rightarrow> string \<Rightarrow> string \<Rightarrow> string \<Rightarrow> string \<Rightarrow> ('x, string) orch" where
  "queue_drop_slot_cleanup e slot host cause drop_err =
     orch_bind (queue_append e (DropSlotCleanup slot host cause drop_err)) (\<lambda>r.
       orch_return (case r of
         Inr _ \<Rightarrow> ''drop slot '' @ slot @ '' on '' @ host @ '' failed, queued maintenance cleanup''
       | Inl _ \<Rightarrow> ''drop slot '' @ slot @ '' on '' @ host @ '' failed; maintenance enqueue also failed''))"

definition cleanup_slot_after_failure :: "orch_env \<Rightarrow> string \<Rightarrow> string \<Rightarrow> string \<Rightarrow> ('x, unit) orch" where
  "cleanup_slot_after_failure e slot host cause =
     orch_bind (orch_do e (OcDropSlot slot)) (\<lambda>r.
       case r of
         Inr _ \<Rightarrow> orch_return ()
       | Inl m \<Rightarrow> orch_bind (queue_append e (DropSlotCleanup slot host cause m)) (\<lambda>_. orch_return ()))"

definition cleanup_peer_slot_after_failure ::
  "orch_env \<Rightarrow> node_config \<Rightarrow> string \<Rightarrow> string \<Rightarrow> ('x, unit) orch" where
  "cleanup_peer_slot_after_failure e primary slot cause =
     orch_bind (orch_do e (OcPeerDropSlot (nc_id primary) slot)) (\<lambda>r.
       case r of
         Inr _ \<Rightarrow> orch_return ()
       | Inl m \<Rightarrow>
           orch_bind (queue_append e (DropSlotCleanup slot (nc_hostname primary) cause m)) (\<lambda>_. orch_return ()))"

section \<open>Weakest preconditions\<close>

text \<open>What must hold before for \<open>Q\<close> to hold if the handler goes on and \<open>X\<close> if it exits.\<close>

definition orch_wp ::
  "('x, 'a) orch \<Rightarrow> ('a \<Rightarrow> orch_world \<Rightarrow> bool) \<Rightarrow> ('x orch_exit \<Rightarrow> orch_world \<Rightarrow> bool) \<Rightarrow> orch_world \<Rightarrow> bool" where
  "orch_wp m Q X w = (case m w of (Inr a, w') \<Rightarrow> Q a w' | (Inl x, w') \<Rightarrow> X x w')"

named_theorems orch_wps

lemma wp_return [orch_wps]: "orch_wp (orch_return a) Q X = Q a"
  by (simp add: fun_eq_iff orch_wp_def orch_return_def)

lemma wp_finish [orch_wps]: "orch_wp (orch_finish x) Q X = X (Finished x)"
  by (simp add: fun_eq_iff orch_wp_def orch_finish_def)

lemma wp_bind [orch_wps]: "orch_wp (orch_bind m f) Q X = orch_wp m (\<lambda>a. orch_wp (f a) Q X) X"
  by (auto simp: fun_eq_iff orch_wp_def orch_bind_def split: prod.split sum.split)

lemma wp_seq [orch_wps]: "orch_wp (orch_seq m n) Q X = orch_wp m (\<lambda>_. orch_wp n Q X) X"
  by (simp add: orch_seq_def wp_bind)

lemma wp_when [orch_wps]: "orch_wp (orch_when b m) Q X = (if b then orch_wp m Q X else Q ())"
  by (simp add: orch_when_def wp_return)

lemma wp_catch [orch_wps]:
  "orch_wp (orch_catch m f) Q X =
     orch_wp m (\<lambda>a. orch_wp (f (Inr a)) Q X)
       (\<lambda>x w. case x of Crashed \<Rightarrow> X Crashed w | Finished y \<Rightarrow> orch_wp (f (Inl y)) Q X w)"
  by (auto simp: fun_eq_iff orch_wp_def orch_catch_def split: prod.split sum.split orch_exit.split)

lemma wp_calls_made [orch_wps]: "orch_wp calls_made Q X = (\<lambda>w. Q (length (ow_events w)) w)"
  by (simp add: fun_eq_iff orch_wp_def calls_made_def)

lemma wp_if [orch_wps]: "orch_wp (if b then m else m') Q X = (if b then orch_wp m Q X else orch_wp m' Q X)"
  by simp

lemma wp_try [orch_wps]:
  "orch_wp (orch_try m f) Q X =
     orch_wp m (\<lambda>r w. case r of Inl e \<Rightarrow> X (Finished (f e)) w | Inr a \<Rightarrow> Q a w) X"
  unfolding orch_try_def wp_bind
  by (rule arg_cong [where f = "\<lambda>q. orch_wp m q X"]) (auto simp: fun_eq_iff orch_wps split: sum.split)

lemma wp_read [orch_wps]:
  "orch_wp (orch_read q f) Q X =
     (\<lambda>w. case q (length (ow_events w)) of Inl e \<Rightarrow> X (Finished (f e)) w | Inr a \<Rightarrow> Q a w)"
  by (simp add: fun_eq_iff orch_read_def orch_wps split: sum.split)

lemma wp_find [orch_wps]:
  "orch_wp (journal_find e name key) Q X =
     (\<lambda>w. Q (find_op (oe_io e (length (ow_events w))) name key (ow_journal w)) w)"
  by (simp add: fun_eq_iff orch_wp_def journal_find_def)

lemma wp_get [orch_wps]: "orch_wp (journal_get i) Q X = (\<lambda>w. Q (get_op i (ow_journal w)) w)"
  by (simp add: fun_eq_iff orch_wp_def journal_get_def)

lemma wp_has [orch_wps]:
  "orch_wp (marker_has e op key) Q X =
     (\<lambda>w. Q (has_marker (oe_sha e) (oe_marker_stat e (length (ow_events w))) op key (ow_markers w)) w)"
  by (simp add: fun_eq_iff orch_wp_def marker_has_def)

lemma wp_perform:
  "orch_wp (orch_perform e c f) Q X w \<longleftrightarrow>
     (if oe_dies e = Some (length (ow_events w)) then X Crashed w
      else case f (length (ow_events w)) w of
        (r, w') \<Rightarrow> Q r (w'\<lparr>ow_events := ow_events w @ [(c, is_ok r)]\<rparr>))"
  by (auto simp: orch_wp_def orch_perform_def Let_def split: prod.split)

lemma wp_mono:
  assumes "orch_wp m Q X w" and "\<And>a w'. Q a w' \<Longrightarrow> Q' a w'" and "\<And>x w'. X x w' \<Longrightarrow> X' x w'"
  shows "orch_wp m Q' X' w"
  using assms by (auto simp: orch_wp_def split: prod.splits sum.splits)

text \<open>Proving a precondition call by call: every answer of the call is to be covered.\<close>

lemma wp_callI:
  assumes "X Crashed w"
    and "\<And>r. Q r (w\<lparr>ow_events := ow_events w @ [(c, is_ok r)]\<rparr>)"
  shows "orch_wp (orch_do e c) Q X w"
  using assms by (simp add: orch_do_def wp_perform)

text \<open>A rung that is passed over when the ladder is entered above it.\<close>

lemma wp_rung:
  assumes "P (max s j) w"
    and "\<And>w. P j w \<Longrightarrow> (\<And>w'. P (Suc j) w' \<Longrightarrow> Q () w') \<Longrightarrow> orch_wp m Q X w"
    and "\<And>w'. P (max s (Suc j)) w' \<Longrightarrow> Q () w'"
  shows "orch_wp (orch_when (s \<le> j) m) Q X w"
proof (cases "s \<le> j")
  case True
  hence "max s j = j" "max s (Suc j) = Suc j" by simp_all
  with True assms show ?thesis by (simp add: wp_when)
next
  case False
  hence "max s (Suc j) = max s j" by simp
  with False assms(1,3) show ?thesis by (simp add: wp_when)
qed

lemma wp_rung_value:
  assumes "P (max s j) w"
    and "\<And>w. P j w \<Longrightarrow> (\<And>a w'. P (Suc j) w' \<Longrightarrow> Q a w') \<Longrightarrow> orch_wp m Q X w"
    and "\<And>a w'. P (max s (Suc j)) w' \<Longrightarrow> Q a w'"
  shows "orch_wp (if s \<le> j then m else orch_return d) Q X w"
proof (cases "s \<le> j")
  case True
  hence "max s j = j" "max s (Suc j) = Suc j" by simp_all
  with True assms show ?thesis by simp
next
  case False
  hence "max s (Suc j) = max s j" by simp
  with False assms(1,3) show ?thesis by (simp add: wp_return)
qed

lemma orch_wp_snd: "orch_wp m (\<lambda>_. P) (\<lambda>_. P) w \<Longrightarrow> P (snd (m w))"
  by (auto simp: orch_wp_def split: prod.splits sum.splits)

section \<open>Ladders\<close>

text \<open>
  The steps of an orchestration are ranked by the order they must succeed in. A step is achieved when
  it succeeded, or was made and its failure is tolerated; calls come in order when all lower steps
  were achieved before.
\<close>

definition achieved :: "(orch_call \<Rightarrow> nat option) \<Rightarrow> (orch_call \<Rightarrow> bool) \<Rightarrow> orch_event list \<Rightarrow> nat \<Rightarrow> bool" where
  "achieved rank tol evs q = list_ex (\<lambda>(c, ok). rank c = Some q \<and> (ok \<or> tol c)) evs"

definition achieved_below :: "(orch_call \<Rightarrow> nat option) \<Rightarrow> (orch_call \<Rightarrow> bool) \<Rightarrow> orch_event list \<Rightarrow> nat \<Rightarrow> bool" where
  "achieved_below rank tol evs n = list_all (achieved rank tol evs) [0..<n]"

fun in_order_from ::
  "(orch_call \<Rightarrow> nat option) \<Rightarrow> (orch_call \<Rightarrow> bool) \<Rightarrow> orch_event list \<Rightarrow> orch_event list \<Rightarrow> bool" where
  "in_order_from rank tol before [] = True"
| "in_order_from rank tol before (ev # evs) =
     ((case rank (fst ev) of None \<Rightarrow> True | Some r \<Rightarrow> achieved_below rank tol before r) \<and>
      in_order_from rank tol (before @ [ev]) evs)"

definition in_order :: "(orch_call \<Rightarrow> nat option) \<Rightarrow> (orch_call \<Rightarrow> bool) \<Rightarrow> orch_event list \<Rightarrow> bool" where
  "in_order rank tol evs = in_order_from rank tol [] evs"

lemma achieved_snoc:
  "achieved rank tol (evs @ [(c, b)]) q \<longleftrightarrow> achieved rank tol evs q \<or> rank c = Some q \<and> (b \<or> tol c)"
  by (simp add: achieved_def)

lemma achieved_below_snoc: "achieved_below rank tol evs n \<Longrightarrow> achieved_below rank tol (evs @ [ev]) n"
  by (cases ev) (auto simp: achieved_below_def list_all_iff achieved_snoc)

lemma achieved_below_Suc:
  "achieved_below rank tol evs (Suc n) \<longleftrightarrow> achieved_below rank tol evs n \<and> achieved rank tol evs n"
  by (simp add: achieved_below_def)

lemma achieved_below_le: "achieved_below rank tol evs n \<Longrightarrow> m \<le> n \<Longrightarrow> achieved_below rank tol evs m"
  by (auto simp: achieved_below_def list_all_iff)

lemma in_order_from_snoc:
  "in_order_from rank tol before (evs @ [ev]) \<longleftrightarrow>
     in_order_from rank tol before evs \<and>
     (case rank (fst ev) of None \<Rightarrow> True | Some r \<Rightarrow> achieved_below rank tol (before @ evs) r)"
  by (induction evs arbitrary: before) (simp_all split: option.split)

lemma in_order_snoc:
  "in_order rank tol (evs @ [ev]) \<longleftrightarrow>
     in_order rank tol evs \<and> (case rank (fst ev) of None \<Rightarrow> True | Some r \<Rightarrow> achieved_below rank tol evs r)"
  by (simp add: in_order_def in_order_from_snoc split: option.split)

lemma in_order_Nil [simp]: "in_order rank tol []"
  by (simp add: in_order_def)

text \<open>A ladder: the ranks, the phases of its journal entry in order, and how many steps a phase stands for.\<close>

record ladder =
  ld_rank :: "orch_call \<Rightarrow> nat option"
  ld_tolerated :: "orch_call \<Rightarrow> bool"
  ld_phases :: "string list"
  ld_certifies :: "nat \<Rightarrow> nat"
  ld_total :: nat

text \<open>The entry \<open>i\<close> is in progress at phase \<open>k\<close>, and the first \<open>n\<close> steps are achieved, in order.\<close>

definition ladder_at :: "ladder \<Rightarrow> string \<Rightarrow> inflight_payload \<Rightarrow> nat \<Rightarrow> nat \<Rightarrow> orch_world \<Rightarrow> bool" where
  "ladder_at L i p k n w \<longleftrightarrow>
     filed op_id (is_dir (ow_journal w)) \<and> k < length (ld_phases L) \<and> ld_certifies L k \<le> n \<and>
     (case get_op i (ow_journal w) of
        Inl _ \<Rightarrow> False
      | Inr op \<Rightarrow> op_payload op = p \<and> op_status op = InProgress \<and> op_phase op = ld_phases L ! k) \<and>
     in_order (ld_rank L) (ld_tolerated L) (ow_events w) \<and>
     achieved_below (ld_rank L) (ld_tolerated L) (ow_events w) n"

text \<open>
  What the journal says is true: an entry in progress is at a known phase whose steps are achieved, a
  finished one has them all, and every step was made after the ones before it.
\<close>

definition ladder_ok :: "ladder \<Rightarrow> string \<Rightarrow> inflight_payload \<Rightarrow> orch_world \<Rightarrow> bool" where
  "ladder_ok L i p w \<longleftrightarrow>
     filed op_id (is_dir (ow_journal w)) \<and>
     in_order (ld_rank L) (ld_tolerated L) (ow_events w) \<and>
     (case get_op i (ow_journal w) of
        Inl _ \<Rightarrow> False
      | Inr op \<Rightarrow>
          op_payload op = p \<and>
          (case op_status op of
             InProgress \<Rightarrow> list_ex (\<lambda>k. op_phase op = ld_phases L ! k \<and>
               achieved_below (ld_rank L) (ld_tolerated L) (ow_events w) (ld_certifies L k))
               [0..<length (ld_phases L)]
           | Done \<Rightarrow> achieved_below (ld_rank L) (ld_tolerated L) (ow_events w) (ld_total L)
           | Abandoned \<Rightarrow> True))"

lemma ladder_at_ok: "ladder_at L i p k n w \<Longrightarrow> ladder_ok L i p w"
  by (auto simp: ladder_at_def ladder_ok_def list_ex_iff split: sum.splits intro: achieved_below_le)

lemma phase_index_nth:
  assumes "phase_index phases ph = Some k"
  shows "k < length phases" "phases ! k = ph"
  using assms nth_length_takeWhile [of "\<lambda>p. p \<noteq> ph" phases] by (auto simp: phase_index_def Let_def split: if_splits)

text \<open>The entry is in progress somewhere on its ladder.\<close>

definition live :: "ladder \<Rightarrow> string \<Rightarrow> inflight_payload \<Rightarrow> orch_world \<Rightarrow> bool" where
  "live L i p w \<longleftrightarrow> (\<exists>k n. ladder_at L i p k n w)"

lemma liveI: "ladder_at L i p k n w \<Longrightarrow> live L i p w"
  by (auto simp: live_def)

lemma live_ok: "live L i p w \<Longrightarrow> ladder_ok L i p w"
  by (auto simp: live_def intro: ladder_at_ok)

text \<open>How a change of the journal shows in \<open>get_op\<close>.\<close>

lemma change_in_get:
  assumes "filed op_id (is_dir st)" and "change_in io i u st = (r, st')" and "get_op i st = Inr op"
  shows "filed op_id (is_dir st')"
    and "r = Inr () \<and> (\<exists>op'. change_op u op = Inr op' \<and> get_op i st' = Inr op') \<or>
         (\<exists>m. r = Inl m) \<and> get_op i st' = Inr op"
proof -
  from assms(2) have m: "modify_doc itag op_id io i (change_op u) (is_dir st) = (r, is_dir st')"
    by (auto simp: change_in_def split: prod.splits)
  show "filed op_id (is_dir st')" by (rule journal.modify_filed [OF assms(1) m])
  from assms(3) have "i \<noteq> []" by (auto simp: get_op_def get_doc_def)
  hence j: "is_json (json_name i)" by simp
  show "r = Inr () \<and> (\<exists>op'. change_op u op = Inr op' \<and> get_op i st' = Inr op') \<or>
         (\<exists>m. r = Inl m) \<and> get_op i st' = Inr op"
  proof (cases r)
    case (Inl e)
    from assms(1) m j show ?thesis
    proof (cases rule: journal.modify_effect)
      case same
      with \<open>i \<noteq> []\<close> assms(3) Inl show ?thesis by (simp add: get_op_def get_doc_def read_one_def)
    qed (simp add: Inl)
  next
    case (Inr v)
    from journal.modify_get [OF assms(1) m [unfolded Inr]] assms(3) Inr show ?thesis
      by (auto simp: get_op_def)
  qed
qed

lemma make_id_nonempty [simp]: "make_id name now s \<noteq> []"
  by (simp add: make_id_def)

lemma begin_written:
  assumes "filed op_id (is_dir j)" and "begin_op io now p ph ex j = (Inr op, j')"
  shows "filed op_id (is_dir j')" and "get_op (op_id op) j' = Inr op"
    and "op_payload op = p" "op_status op = InProgress" "op_phase op = ph"
    and "op_id op = make_id (op_name p) now (is_seq j)"
    and "i \<noteq> op_id op \<Longrightarrow> get_op i j' = get_op i j"
proof -
  let ?i = "make_id (op_name p) now (is_seq j)"
  from assms(2) have w: "write_atomic itag io ?i op (is_dir j) = (Inr (), is_dir j')"
    and op: "op_id op = ?i" "op_payload op = p" "op_status op = InProgress" "op_phase op = ph"
    by (auto simp: begin_op_def Let_def split: sum.splits prod.splits)
  show "filed op_id (is_dir j')" using filed_write [OF assms(1), of itag io op] w op(1) by simp
  show "op_payload op = p" "op_status op = InProgress" "op_phase op = ph" "op_id op = ?i" by (rule op)+
  have j: "is_json (json_name ?i)" by simp
  show "get_op (op_id op) j' = Inr op"
    using write_atomic_ok [OF w j] by (simp add: op get_op_def get_doc_def read_one_def)
  show "get_op i j' = get_op i j" if "i \<noteq> op_id op"
  proof (cases "i = []")
    case False
    hence "is_json (json_name i)" by simp
    from write_atomic_ok [OF w this] that show ?thesis by (simp add: op get_op_def get_doc_def read_one_def)
  qed (simp add: get_op_def get_doc_def)
qed

text \<open>An attempt to begin another operation leaves the other entries as they are.\<close>

lemma begin_other:
  assumes "filed op_id (is_dir j)" and "begin_op io now p ph ex j = (r, j')"
    and "i \<noteq> make_id (op_name p) now (is_seq j)"
  shows "filed op_id (is_dir j')" and "get_op i j' = get_op i j"
proof -
  have "filed op_id (is_dir j') \<and> get_op i j' = get_op i j" using assms(2)
  proof (cases rule: begin_cases)
    case (written w k op)
    have "filed op_id (is_dir j')" using filed_write [OF assms(1)] written(3,6) by blast
    moreover have "map_of (is_dir j') (json_name i) = map_of (is_dir j) (json_name i)" if "i \<noteq> []"
    proof (cases w)
      case (Inl m)
      from write_atomic_err [OF written(6) [unfolded Inl]] that show ?thesis by simp
    next
      case (Inr u)
      from write_atomic_ok [OF written(6) [unfolded Inr]] that written(2) assms(3) show ?thesis by simp
    qed
    ultimately show ?thesis by (auto simp: get_op_def get_doc_def read_one_def)
  qed (use assms(1) in simp)
  thus "filed op_id (is_dir j')" "get_op i j' = get_op i j" by simp_all
qed

locale phase_ladder =
  fixes L :: ladder
  assumes journal_unranked: "ld_rank L (OcUpdatePhase i ph) = None" "ld_rank L (OcComplete i) = None"
    "ld_rank L (OcAbandon i m) = None" "ld_rank L (OcBegin p ph) = None" "ld_rank L (OcQueue mp) = None"
    "ld_rank L (OcPeerDropSlot t s) = None"
    and certified_total: "k < length (ld_phases L) \<Longrightarrow> ld_certifies L k \<le> ld_total L"
begin

text \<open>A step that is due keeps the ladder, and raises it when it is achieved.\<close>

lemma at_step:
  assumes "ladder_at L i p k n w" and "ld_rank L c = Some n"
  shows "ladder_at L i p k (if b \<or> ld_tolerated L c then Suc n else n) (w\<lparr>ow_events := ow_events w @ [(c, b)]\<rparr>)"
  using assms
  by (auto simp: ladder_at_def in_order_snoc achieved_below_Suc achieved_snoc intro: achieved_below_snoc
      split: sum.splits)

lemma at_unranked:
  assumes "ladder_at L i p k n w" and "ld_rank L c = None"
  shows "ladder_at L i p k n (w\<lparr>ow_events := ow_events w @ [(c, b)]\<rparr>)"
  using assms by (auto simp: ladder_at_def in_order_snoc intro: achieved_below_snoc split: sum.splits)

lemma wp_step:
  assumes "ladder_at L i p k n w" and "ld_rank L c = Some n"
    and "\<And>w'. ladder_at L i p k (Suc n) w' \<Longrightarrow> Q (Inr ()) w'"
    and "\<And>m w'. ladder_at L i p k (if ld_tolerated L c then Suc n else n) w' \<Longrightarrow> Q (Inl m) w'"
    and "X Crashed w"
  shows "orch_wp (orch_do e c) Q X w"
proof (rule wp_callI [where X = X, OF assms(5)])
  fix r :: "(string, unit) result"
  show "Q r (w\<lparr>ow_events := ow_events w @ [(c, is_ok r)]\<rparr>)"
    using at_step [OF assms(1,2), of "is_ok r"] assms(3,4) by (cases r) auto
qed

lemma wp_try_step:
  assumes "ladder_at L i p k n w" and "ld_rank L c = Some n"
    and "\<And>w'. ladder_at L i p k (Suc n) w' \<Longrightarrow> Q () w'"
    and "\<And>x w'. live L i p w' \<Longrightarrow> X x w'"
  shows "orch_wp (orch_try (orch_do e c) f) Q X w"
  unfolding orch_wps
  using assms(3,4) liveI [OF assms(1)] by (intro wp_step [OF assms(1,2)]) (auto intro: liveI)

lemma wp_phase:
  assumes "ladder_at L i p k n w" and "k' < length (ld_phases L)" "ph = ld_phases L ! k'" "ld_certifies L k' \<le> n"
    and "\<And>w'. ladder_at L i p k' n w' \<Longrightarrow> Q (Inr ()) w'"
    and "\<And>m w'. ladder_at L i p k n w' \<Longrightarrow> Q (Inl m) w'"
    and "X Crashed w"
  shows "orch_wp (journal_phase e i ph) Q X w"
proof -
  let ?N = "length (ow_events w)"
  obtain r j where u: "update_phase (oe_io e ?N) (oe_now e ?N) i ph None (ow_journal w) = (r, j)" by fastforce
  from assms(1) obtain op where op: "get_op i (ow_journal w) = Inr op" "op_payload op = p" "op_status op = InProgress"
    and f: "filed op_id (is_dir (ow_journal w))"
    by (auto simp: ladder_at_def split: sum.splits)
  note g = change_in_get [OF f u [unfolded update_phase_def] op(1)]
  let ?w = "w\<lparr>ow_journal := j, ow_events := ow_events w @ [(OcUpdatePhase i ph, is_ok r)]\<rparr>"
  have "Q r ?w"
  proof (cases r)
    case (Inl m)
    with g(2) have "get_op i j = get_op i (ow_journal w)" by (simp add: op)
    with assms(1) g(1) have "ladder_at L i p k n (w\<lparr>ow_journal := j\<rparr>)" by (simp add: ladder_at_def)
    from at_unranked [OF this journal_unranked(1)] assms(6) show ?thesis by (simp add: Inl)
  next
    case (Inr v)
    with g(2) obtain op' where "get_op i j = Inr op'" "op_payload op' = p" "op_status op' = InProgress" "op_phase op' = ph"
      by (auto simp: change_op_def is_terminal_def op)
    with assms(1-4) g(1) have "ladder_at L i p k' n (w\<lparr>ow_journal := j\<rparr>)" by (simp add: ladder_at_def)
    from at_unranked [OF this journal_unranked(1)] assms(5) show ?thesis by (simp add: Inr)
  qed
  with assms(7) u show ?thesis by (simp add: journal_phase_def wp_perform)
qed

lemma wp_try_phase:
  assumes "ladder_at L i p k n w" and "k' < length (ld_phases L)" "ph = ld_phases L ! k'" "ld_certifies L k' \<le> n"
    and "\<And>w'. ladder_at L i p k' n w' \<Longrightarrow> Q () w'"
    and "\<And>x w'. live L i p w' \<Longrightarrow> X x w'"
  shows "orch_wp (orch_try (journal_phase e i ph) f) Q X w"
  unfolding wp_try using assms by (intro wp_phase [OF assms(1), of k']) (auto intro: liveI)

lemma wp_complete:
  assumes "ladder_at L i p k n w" and "n = ld_total L"
    and "\<And>w'. ladder_ok L i p w' \<Longrightarrow> achieved_below (ld_rank L) (ld_tolerated L) (ow_events w') (ld_total L) \<Longrightarrow>
      (\<exists>op. get_op i (ow_journal w') = Inr op \<and> op_status op = Done) \<Longrightarrow> Q (Inr ()) w'"
    and "\<And>m w'. ladder_at L i p k n w' \<Longrightarrow> Q (Inl m) w'"
    and "X Crashed w"
  shows "orch_wp (journal_complete e i) Q X w"
proof -
  let ?N = "length (ow_events w)"
  obtain r j where u: "complete_op (oe_io e ?N) (oe_now e ?N) i (ow_journal w) = (r, j)" by fastforce
  from assms(1) obtain op where op: "get_op i (ow_journal w) = Inr op" "op_payload op = p" "op_status op = InProgress"
    and f: "filed op_id (is_dir (ow_journal w))"
    by (auto simp: ladder_at_def split: sum.splits)
  note g = change_in_get [OF f u [unfolded complete_op_def] op(1)]
  let ?w = "w\<lparr>ow_journal := j, ow_events := ow_events w @ [(OcComplete i, is_ok r)]\<rparr>"
  have "Q r ?w"
  proof (cases r)
    case (Inl m)
    with g(2) have "get_op i j = get_op i (ow_journal w)" by (simp add: op)
    with assms(1) g(1) have "ladder_at L i p k n (w\<lparr>ow_journal := j\<rparr>)" by (simp add: ladder_at_def)
    from at_unranked [OF this journal_unranked(2)] assms(4) show ?thesis by (simp add: Inl)
  next
    case (Inr v)
    with g(2) obtain op' where "get_op i j = Inr op'" "op_payload op' = p" "op_status op' = Done"
      by (auto simp: change_op_def op)
    moreover have "in_order (ld_rank L) (ld_tolerated L) (ow_events ?w)"
      "achieved_below (ld_rank L) (ld_tolerated L) (ow_events ?w) (ld_total L)"
      using assms(1,2) by (auto simp: ladder_at_def in_order_snoc journal_unranked intro: achieved_below_snoc)
    ultimately show ?thesis using assms(3) [of ?w] g(1) by (simp add: Inr ladder_ok_def)
  qed
  with assms(5) u show ?thesis by (simp add: journal_complete_def wp_perform)
qed

lemma wp_abandon:
  assumes "ladder_at L i p k n w"
    and "\<And>r w'. ladder_ok L i p w' \<Longrightarrow> Q r w'" and "X Crashed w"
  shows "orch_wp (journal_abandon e i reason) Q X w"
proof -
  let ?N = "length (ow_events w)"
  obtain r j where u: "abandon_op (oe_io e ?N) (oe_now e ?N) i reason (ow_journal w) = (r, j)" by fastforce
  from assms(1) obtain op where op: "get_op i (ow_journal w) = Inr op" "op_payload op = p" "op_status op = InProgress"
    and f: "filed op_id (is_dir (ow_journal w))"
    by (auto simp: ladder_at_def split: sum.splits)
  note g = change_in_get [OF f u [unfolded abandon_op_def] op(1)]
  let ?w = "w\<lparr>ow_journal := j, ow_events := ow_events w @ [(OcAbandon i reason, is_ok r)]\<rparr>"
  have "ladder_ok L i p ?w"
  proof (cases r)
    case (Inl m)
    with g(2) have "get_op i j = get_op i (ow_journal w)" by (simp add: op)
    with assms(1) g(1) have "ladder_at L i p k n (w\<lparr>ow_journal := j\<rparr>)" by (simp add: ladder_at_def)
    from at_unranked [OF this journal_unranked(3)] show ?thesis by (auto intro: ladder_at_ok)
  next
    case (Inr v)
    with g(2) obtain op' where "get_op i j = Inr op'" "op_payload op' = p" "op_status op' = Abandoned"
      by (auto simp: change_op_def op)
    moreover have "in_order (ld_rank L) (ld_tolerated L) (ow_events ?w)"
      using assms(1) by (auto simp: ladder_at_def in_order_snoc journal_unranked)
    ultimately show ?thesis using g(1) by (simp add: Inr ladder_ok_def)
  qed
  with assms u show ?thesis by (simp add: journal_abandon_def wp_perform)
qed

lemma wp_unranked:
  assumes "ladder_at L i p k n w" and "ld_rank L c = None"
    and "\<And>r w'. ladder_at L i p k n w' \<Longrightarrow> Q r w'" and "X Crashed w"
  shows "orch_wp (orch_do e c) Q X w"
  by (rule wp_callI [where X = X, OF assms(4)]) (auto intro: assms(3) at_unranked [OF assms(1,2)])

text \<open>An entry just begun at the first phase.\<close>

lemma at_begin:
  assumes "filed op_id (is_dir j)" and "begin_op io now p (ld_phases L ! k) ex j = (Inr op, j')"
    and "k < length (ld_phases L)" "ld_certifies L k = 0" and "ow_journal w = j'"
    and "in_order (ld_rank L) (ld_tolerated L) (ow_events w)"
  shows "ladder_at L (op_id op) p k 0 w"
  using begin_written [OF assms(1,2)] assms(3-6) by (simp add: ladder_at_def achieved_below_def)

end

section \<open>Runs without faults\<close>

definition flawless :: "orch_env \<Rightarrow> bool" where
  "flawless e \<longleftrightarrow> oe_dies e = None \<and> (\<forall>n c. oe_call e n c = Inr ()) \<and> (\<forall>n. oe_io e n = no_faults)"

text \<open>The entry \<open>i\<close> is in progress.\<close>

definition running_op :: "string \<Rightarrow> orch_world \<Rightarrow> bool" where
  "running_op i w \<longleftrightarrow> filed op_id (is_dir (ow_journal w)) \<and>
     (\<exists>op. get_op i (ow_journal w) = Inr op \<and> op_status op = InProgress)"

lemma flawless_do:
  assumes "flawless e" and "running_op i w" and "\<And>w'. running_op i w' \<Longrightarrow> Q (Inr ()) w'"
  shows "orch_wp (orch_do e c) Q X w"
  using assms by (simp add: flawless_def orch_do_def wp_perform running_op_def)

lemma change_in_flawless:
  assumes "filed op_id (is_dir j)" and "get_op i j = Inr op" and "change_op u op = Inr op'"
  shows "\<exists>j'. change_in no_faults i u j = (Inr (), j') \<and> filed op_id (is_dir j') \<and> get_op i j' = Inr op'"
proof -
  obtain j' where "change_in no_faults i u j = (Inr (), j')"
    using assms by (auto simp: change_in_def modify_doc_def get_op_def write_atomic_def no_faults_def Let_def)
  with change_in_get [OF assms(1) this assms(2)] assms(3) show ?thesis by auto
qed

lemma flawless_phase:
  assumes "flawless e" and "running_op i w" and "\<And>w'. running_op i w' \<Longrightarrow> Q (Inr ()) w'"
  shows "orch_wp (journal_phase e i ph) Q X w"
proof -
  let ?u = "UpdatePhase i (oe_now e (length (ow_events w))) ph None"
  from assms(2) obtain op where op: "get_op i (ow_journal w) = Inr op" "op_status op = InProgress"
    and f: "filed op_id (is_dir (ow_journal w))" by (auto simp: running_op_def)
  then obtain op' where op': "change_op ?u op = Inr op'" "op_status op' = InProgress"
    by (auto simp: change_op_def is_terminal_def)
  from change_in_flawless [OF f op(1) op'(1)] assms(1,3) op'(2) show ?thesis
    by (auto simp: flawless_def journal_phase_def update_phase_def wp_perform running_op_def)
qed

lemma flawless_complete:
  assumes "flawless e" and "running_op i w"
    and "\<And>w'. filed op_id (is_dir (ow_journal w')) \<Longrightarrow> (\<exists>op. get_op i (ow_journal w') = Inr op \<and> op_status op = Done) \<Longrightarrow> Q (Inr ()) w'"
  shows "orch_wp (journal_complete e i) Q X w"
proof -
  let ?u = "Complete (oe_now e (length (ow_events w)))"
  from assms(2) obtain op where op: "get_op i (ow_journal w) = Inr op"
    and f: "filed op_id (is_dir (ow_journal w))" by (auto simp: running_op_def)
  obtain op' where op': "change_op ?u op = Inr op'" "op_status op' = Done" by (simp add: change_op_def)
  from change_in_flawless [OF f op op'(1)] assms(1,3) op'(2) show ?thesis
    by (auto simp: flawless_def journal_complete_def complete_op_def wp_perform)
qed

section \<open>Giving a slot back\<close>

text \<open>
  An orchestration that created a slot owes it back when a guarded step fails: the drop comes directly
  after the failure and nowhere else, and a failed drop is directly followed by queueing it for
  maintenance, which happens nowhere else.
\<close>

definition queues_drop :: "string \<Rightarrow> string \<Rightarrow> orch_call \<Rightarrow> bool" where
  "queues_drop slot host c =
     (case c of OcQueue (DropSlotCleanup s h _ _) \<Rightarrow> s = slot \<and> h = host | _ \<Rightarrow> False)"

definition tidy_pair :: "(orch_call \<Rightarrow> bool) \<Rightarrow> orch_call \<Rightarrow> string \<Rightarrow> string \<Rightarrow> orch_event \<Rightarrow> orch_event \<Rightarrow> bool" where
  "tidy_pair guarded drp slot host a b \<longleftrightarrow>
     (fst b = drp \<longleftrightarrow> guarded (fst a) \<and> \<not> snd a) \<and>
     (queues_drop slot host (fst b) \<longleftrightarrow> a = (drp, False))"

text \<open>The calls of a run are tidy, read after a successful call; they are settled when nothing is owed.\<close>

definition tidy :: "(orch_call \<Rightarrow> bool) \<Rightarrow> orch_call \<Rightarrow> string \<Rightarrow> string \<Rightarrow> orch_event list \<Rightarrow> bool" where
  "tidy guarded drp slot host evs = successively (tidy_pair guarded drp slot host) ((OcCheckpoint, True) # evs)"

definition settled_up :: "(orch_call \<Rightarrow> bool) \<Rightarrow> orch_call \<Rightarrow> orch_event list \<Rightarrow> bool" where
  "settled_up guarded drp evs \<longleftrightarrow>
     (let (c, ok) = last ((OcCheckpoint, True) # evs) in ok \<or> \<not> guarded c \<and> c \<noteq> drp)"

lemma successively_snoc:
  "successively P (xs @ [x]) \<longleftrightarrow> successively P xs \<and> (xs \<noteq> [] \<longrightarrow> P (last xs) x)"
  by (auto simp: successively_append_iff)

lemma tidy_snoc:
  "tidy G drp slot host (evs @ [ev]) \<longleftrightarrow>
     tidy G drp slot host evs \<and> tidy_pair G drp slot host (last ((OcCheckpoint, True) # evs)) ev"
  using successively_snoc [of _ "(OcCheckpoint, True) # evs"] by (simp add: tidy_def)

text \<open>The calls made since \<open>base\<close>.\<close>

definition calls_since :: "nat \<Rightarrow> orch_world \<Rightarrow> orch_event list" where
  "calls_since base w = drop base (ow_events w)"

lemma calls_since_snoc:
  "base \<le> length (ow_events w) \<Longrightarrow> calls_since base (w\<lparr>ow_events := ow_events w @ [ev]\<rparr>) = calls_since base w @ [ev]"
  by (simp add: calls_since_def)

text \<open>All calls since \<open>base\<close> are of an allowed kind.\<close>

definition only_calls :: "(orch_call \<Rightarrow> bool) \<Rightarrow> nat \<Rightarrow> orch_world \<Rightarrow> bool" where
  "only_calls P base w \<longleftrightarrow> base \<le> length (ow_events w) \<and> list_all (\<lambda>ev. P (fst ev)) (calls_since base w)"

lemma only_calls_start: "only_calls P (length (ow_events w)) w"
  by (simp add: only_calls_def calls_since_def)

lemma wp_only_perform:
  assumes "only_calls P base w" and "P c" and "\<And>r w'. only_calls P base w' \<Longrightarrow> Q r w'"
    and "\<And>x w'. only_calls P base w' \<Longrightarrow> X x w'"
  shows "orch_wp (orch_perform e c f) Q X w"
proof -
  have "only_calls P base (w'\<lparr>ow_events := ow_events w @ [(c, b)]\<rparr>)" for w' b
    using assms(1,2) by (auto simp: only_calls_def calls_since_def)
  with assms show ?thesis by (simp add: wp_perform split: prod.split)
qed

lemmas wp_only_defs = orch_do_def journal_phase_def journal_complete_def journal_abandon_def journal_begin_def
  queue_append_def marker_write_def

locale slot_keeper =
  fixes guarded :: "orch_call \<Rightarrow> bool" and drp :: orch_call and slot host :: string
  assumes drop_unguarded: "\<not> guarded drp" "drp \<noteq> OcQueue mp" "\<not> guarded (OcQueue mp)"
begin

definition at_rest :: "nat \<Rightarrow> orch_world \<Rightarrow> bool" where
  "at_rest base w \<longleftrightarrow> base \<le> length (ow_events w) \<and> tidy guarded drp slot host (calls_since base w) \<and>
     settled_up guarded drp (calls_since base w)"

definition in_bounds :: "nat \<Rightarrow> orch_world \<Rightarrow> bool" where
  "in_bounds base w \<longleftrightarrow> tidy guarded drp slot host (calls_since base w)"

lemma at_rest_bounds: "at_rest base w \<Longrightarrow> in_bounds base w"
  by (simp add: at_rest_def in_bounds_def)

lemma at_rest_start: "at_rest (length (ow_events w)) w"
  by (simp add: at_rest_def calls_since_def tidy_def settled_up_def)

lemma at_rest_call:
  assumes "at_rest base w" and "c \<noteq> drp" "\<not> queues_drop slot host c" and "guarded c \<longrightarrow> b"
    and "ow_events w' = ow_events w @ [(c, b)]"
  shows "at_rest base w'"
proof -
  have "calls_since base w' = calls_since base w @ [(c, b)]" using assms(1,5) by (simp add: calls_since_def at_rest_def)
  with assms show ?thesis
    by (cases "last ((OcCheckpoint, True) # calls_since base w)")
      (auto simp: at_rest_def tidy_snoc tidy_pair_def settled_up_def)
qed

text \<open>Any call that is neither the guarded step nor part of the clean-up, whatever it answers.\<close>

lemma rest_perform:
  assumes "at_rest base w" and "\<not> guarded c" "c \<noteq> drp" "\<not> queues_drop slot host c"
    and "\<And>r w'. at_rest base w' \<Longrightarrow> Q r w'" and "\<And>w'. in_bounds base w' \<Longrightarrow> X Crashed w'"
  shows "orch_wp (orch_perform e c f) Q X w"
proof -
  obtain r w' where "f (length (ow_events w)) w = (r, w')" by fastforce
  moreover have "at_rest base (w'\<lparr>ow_events := ow_events w @ [(c, is_ok r)]\<rparr>)"
    by (rule at_rest_call [OF assms(1,3,4), of "is_ok r"]) (use assms(2) in simp_all)
  ultimately show ?thesis using assms(5,6) at_rest_bounds [OF assms(1)] by (simp add: wp_perform)
qed

text \<open>The slot is owed: the last call was a guarded one and failed.\<close>

definition owing :: "nat \<Rightarrow> orch_world \<Rightarrow> bool" where
  "owing base w \<longleftrightarrow> base \<le> length (ow_events w) \<and> tidy guarded drp slot host (calls_since base w) \<and>
     (\<exists>c evs. calls_since base w = evs @ [(c, False)] \<and> guarded c)"

definition drop_failed :: "nat \<Rightarrow> orch_world \<Rightarrow> bool" where
  "drop_failed base w \<longleftrightarrow> base \<le> length (ow_events w) \<and> tidy guarded drp slot host (calls_since base w) \<and>
     (\<exists>evs. calls_since base w = evs @ [(drp, False)])"

lemma since_snoc:
  "base \<le> length (ow_events w) \<Longrightarrow> ow_events w' = ow_events w @ [ev] \<Longrightarrow> calls_since base w' = calls_since base w @ [ev]"
  by (simp add: calls_since_def)

lemma owing_drop:
  assumes "owing base w" and "ow_events w' = ow_events w @ [(drp, b)]"
  shows "if b then at_rest base w' else drop_failed base w'"
proof -
  from assms(1) obtain c evs where o: "base \<le> length (ow_events w)" "tidy guarded drp slot host (calls_since base w)"
    "calls_since base w = evs @ [(c, False)]" "guarded c" unfolding owing_def by blast
  note e = since_snoc [OF o(1) assms(2)]
  have "tidy guarded drp slot host (calls_since base w')"
    unfolding e tidy_snoc using o drop_unguarded by (auto simp: tidy_pair_def queues_drop_def split: orch_call.split)
  with o(1) assms(2) show ?thesis by (auto simp: at_rest_def drop_failed_def e settled_up_def)
qed

lemma drop_failed_queue:
  assumes "drop_failed base w" and "ow_events w' = ow_events w @ [(OcQueue (DropSlotCleanup slot host ca d), b)]"
  shows "at_rest base w'"
proof -
  from assms(1) obtain evs where o: "base \<le> length (ow_events w)" "tidy guarded drp slot host (calls_since base w)"
    "calls_since base w = evs @ [(drp, False)]" unfolding drop_failed_def by blast
  note e = since_snoc [OF o(1) assms(2)]
  have "tidy guarded drp slot host (calls_since base w')"
    unfolding e tidy_snoc using o drop_unguarded(1) drop_unguarded(2) [of "DropSlotCleanup slot host ca d"]
    by (auto simp: tidy_pair_def queues_drop_def)
  with o(1) assms(2) drop_unguarded(3) drop_unguarded(2) [of "DropSlotCleanup slot host ca d"] show ?thesis
    by (auto simp: at_rest_def e settled_up_def)
qed

lemma rest_cleanup:
  assumes "owing base w" and "\<And>w'. at_rest base w' \<Longrightarrow> Q w'" and "\<And>w'. in_bounds base w' \<Longrightarrow> X Crashed w'"
  shows "orch_wp (orch_do e drp)
    (\<lambda>r. case r of Inr _ \<Rightarrow> Q | Inl d \<Rightarrow> orch_wp (queue_append e (DropSlotCleanup slot host ca d)) (\<lambda>_. Q) X) X w"
proof (rule wp_callI [where X = X])
  show "X Crashed w" using assms(1,3) by (simp add: owing_def in_bounds_def)
  fix r :: "(string, unit) result"
  let ?w = "w\<lparr>ow_events := ow_events w @ [(drp, is_ok r)]\<rparr>"
  note d = owing_drop [OF assms(1), of ?w "is_ok r"]
  show "(case r of Inr _ \<Rightarrow> Q | Inl d \<Rightarrow> orch_wp (queue_append e (DropSlotCleanup slot host ca d)) (\<lambda>_. Q) X) ?w"
  proof (cases r)
    case (Inl m)
    hence f: "drop_failed base ?w" using d by simp
    have "X Crashed ?w" using assms(3) f by (simp add: in_bounds_def drop_failed_def)
    with drop_failed_queue [OF f] assms(2) Inl show ?thesis
      by (auto simp: queue_append_def wp_perform split: prod.split)
  qed (use d assms(2) in simp)
qed

text \<open>A guarded step: on failure the slot is owed.\<close>

lemma rest_guarded:
  assumes "at_rest base w" and "guarded c" "c \<noteq> drp" "\<not> queues_drop slot host c"
    and "\<And>w'. at_rest base w' \<Longrightarrow> Q (Inr ()) w'" and "\<And>m w'. owing base w' \<Longrightarrow> Q (Inl m) w'"
    and "\<And>w'. in_bounds base w' \<Longrightarrow> X Crashed w'"
  shows "orch_wp (orch_do e c) Q X w"
proof (rule wp_callI [where X = X])
  show "X Crashed w" by (rule assms(7) [OF at_rest_bounds [OF assms(1)]])
  fix r :: "(string, unit) result"
  let ?w = "w\<lparr>ow_events := ow_events w @ [(c, is_ok r)]\<rparr>"
  show "Q r ?w"
  proof (cases r)
    case (Inr v)
    have "at_rest base ?w" by (rule at_rest_call [OF assms(1,3,4)]) (simp_all add: Inr)
    with assms(5) Inr show ?thesis by simp
  next
    case (Inl m)
    have b: "base \<le> length (ow_events w)" using assms(1) by (simp add: at_rest_def)
    have e: "calls_since base ?w = calls_since base w @ [(c, False)]" using b by (simp add: Inl calls_since_snoc)
    from assms(1-4) have "tidy guarded drp slot host (calls_since base w @ [(c, False)])"
      by (cases "last ((OcCheckpoint, True) # calls_since base w)")
        (auto simp: at_rest_def tidy_snoc tidy_pair_def settled_up_def)
    hence "owing base ?w" using b assms(2) by (auto simp: owing_def e simp del: calls_since_def)
    with assms(6) Inl show ?thesis by simp
  qed
qed

end

section \<open>A concrete environment\<close>

text \<open>A pool of two in which every call succeeds, unless the process dies at a given one.\<close>

definition ex_handoff_pool :: node_pool where
  "ex_handoff_pool = \<lparr>np_members = [\<lparr>nc_id = 0, nc_hostname = ''db0''\<rparr>, \<lparr>nc_id = 1, nc_hostname = ''db1''\<rparr>], np_local_node_id = 0\<rparr>"

definition ex_standby_status :: node_status where
  "ex_standby_status = \<lparr>is_running = True, is_in_recovery = True, is_ready = True, replication_lag_bytes = 0,
     replication_state = ''streaming'', is_postgres_running = True, is_pgpool_running = True,
     is_postgres_status_ok = True, is_pgpool_status_ok = True, timeline_id = 1, current_wal_lsn = 64,
     last_flush_lsn = 64, peer_primary_seen_age_ms = []\<rparr>"

definition ex_orch_env :: "nat option \<Rightarrow> orch_env" where
  "ex_orch_env dies = \<lparr>oe_pool = ex_handoff_pool,
     oe_rt = \<lparr>rt_port = 5432, rt_data_dir = ''/pg'', rt_repl_user = ''repl''\<rparr>,
     oe_call = (\<lambda>_ _. Inr ()), oe_dial = (\<lambda>_ _. Inr ()), oe_status = (\<lambda>_ _. Inr ex_standby_status),
     oe_in_time = (\<lambda>_. True), oe_in_recovery = (\<lambda>_. Inr False), oe_pg_running = (\<lambda>_. Inr True),
     oe_wal_lsn = (\<lambda>_. Inr 72), oe_slot_active = (\<lambda>_ _. Inr False), oe_marker_stat = (\<lambda>_. None),
     oe_sha = (\<lambda>k. k), oe_io = (\<lambda>_. no_faults), oe_now = (\<lambda>n. 5 + int n), oe_dies = dies\<rparr>"

definition ex_orch_world :: orch_world where
  "ex_orch_world = \<lparr>ow_journal = inflight_store_new [] 100, ow_queue = maintenance_store_new [] 100,
     ow_markers = replay_store_new [] 100, ow_events = []\<rparr>"

lemmas orch_eval = orch_bind_def orch_seq_def orch_try_def orch_read_def orch_return_def orch_finish_def
  orch_when_def calls_made_def orch_perform_def orch_do_def journal_begin_def journal_find_def

end
