(* ===== verification/Rebase.thy ===== *)
theory Rebase
  imports Orchestrator
begin

text \<open>
  The rebase of a standby onto a new primary, driven from the journal
  (\<open>drive_follow_primary\<close> and its callers in \<open>crates/pg-agent-core/src/localserver.rs\<close>): the background
  tasks a handoff spawns, and the operator's resume of one that stopped half-way.
\<close>

section \<open>The driver\<close>

definition fp_phases :: "string list" where
  "fp_phases = [''queued'', ''dialing'', ''detached_stopped'', ''slot_created'', ''data_copied'',
     ''recovery_conf_written'', ''detached_started'', ''attached'']"

definition fp_phase_index :: "string \<Rightarrow> nat option" where
  "fp_phase_index = phase_index fp_phases"

definition fp_journal :: "orch_env \<Rightarrow> string \<Rightarrow> string \<Rightarrow> (string, unit) orch" where
  "fp_journal e i ph = orch_try (journal_phase e i ph) (\<lambda>m. ''follow_primary: journal '' @ ph @ '': '' @ m)"

text \<open>Whether the standby turned out to be stopped, in which case there is nothing to do.\<close>

definition fp_stop :: "orch_env \<Rightarrow> string \<Rightarrow> node_config \<Rightarrow> (string, bool) orch" where
  "fp_stop e i det =
     orch_bind (orch_read (\<lambda>n. oe_status e n (nc_id det))
         (\<lambda>m. ''follow_primary: get_status '' @ nc_hostname det @ '': '' @ m)) (\<lambda>s.
       if \<not> is_running s then orch_return True
       else orch_seq (orch_try (orch_do e (OcPeerStop (nc_id det)))
              (\<lambda>m. ''follow_primary: stop '' @ nc_hostname det @ '': '' @ m))
            (orch_seq (fp_journal e i ''detached_stopped'') (orch_return False)))"

definition fp_create_slot :: "orch_env \<Rightarrow> string \<Rightarrow> node_config \<Rightarrow> string \<Rightarrow> (string, unit) orch" where
  "fp_create_slot e i np slot =
     orch_seq (orch_try (orch_do e (OcPeerCreateSlot (nc_id np) slot))
         (\<lambda>m. ''follow_primary: create_slot '' @ slot @ '' on '' @ nc_hostname np @ '': '' @ m))
       (fp_journal e i ''slot_created'')"

text \<open>A failed step gives its slot back.\<close>

definition fp_or_cleanup ::
  "orch_env \<Rightarrow> node_config \<Rightarrow> string \<Rightarrow> orch_call \<Rightarrow> string \<Rightarrow> string \<Rightarrow> (string, unit) orch" where
  "fp_or_cleanup e np slot c what cause =
     orch_bind (orch_do e c) (\<lambda>r.
       case r of
         Inr _ \<Rightarrow> orch_return ()
       | Inl m \<Rightarrow> orch_seq (cleanup_peer_slot_after_failure e np slot cause) (orch_finish (what @ '': '' @ m)))"

definition fp_copy :: "orch_env \<Rightarrow> string \<Rightarrow> node_config \<Rightarrow> node_config \<Rightarrow> string \<Rightarrow> (string, unit) orch" where
  "fp_copy e i det np slot =
     orch_bind (orch_do e (OcPeerRewind (nc_id det) (rewind_from e np))) (\<lambda>r.
       orch_seq (orch_when (\<not> is_ok r)
         (fp_or_cleanup e np slot (OcPeerBasebackup (nc_id det) (basebackup_from e np slot))
           (''follow_primary: basebackup '' @ nc_hostname det) ''follow_primary_basebackup_failed''))
       (fp_journal e i ''data_copied''))"

definition fp_configure :: "orch_env \<Rightarrow> string \<Rightarrow> node_config \<Rightarrow> node_config \<Rightarrow> string \<Rightarrow> (string, unit) orch" where
  "fp_configure e i det np slot =
     orch_seq (fp_or_cleanup e np slot (OcPeerConfigure (nc_id det) (conf_for e np slot))
         (''follow_primary: configure_standby '' @ nc_hostname det) ''follow_primary_configure_standby_failed'')
       (fp_journal e i ''recovery_conf_written'')"

definition fp_start :: "orch_env \<Rightarrow> string \<Rightarrow> node_config \<Rightarrow> node_config \<Rightarrow> string \<Rightarrow> (string, unit) orch" where
  "fp_start e i det np slot =
     orch_seq (fp_or_cleanup e np slot (OcPeerStart (nc_id det))
         (''follow_primary: start '' @ nc_hostname det) ''follow_primary_start_failed'')
       (fp_journal e i ''detached_started'')"

definition fp_attach :: "orch_env \<Rightarrow> string \<Rightarrow> node_config \<Rightarrow> (string, unit) orch" where
  "fp_attach e i det =
     orch_seq (orch_try (orch_do e (OcAttach (nc_id det)))
         (\<lambda>m. ''follow_primary: pcp_attach_node '' @ show_int (nc_id det) @ '': '' @ m))
       (fp_journal e i ''attached'')"

text \<open>From the slot on, entered at phase number \<open>s\<close>.\<close>

definition fp_rebuild :: "orch_env \<Rightarrow> string \<Rightarrow> nat \<Rightarrow> node_config \<Rightarrow> node_config \<Rightarrow> (string, unit) orch" where
  "fp_rebuild e i s det np =
     (let slot = slot_name det in
      orch_seq (orch_when (s \<le> 2) (fp_create_slot e i np slot))
      (orch_seq (orch_when (s \<le> 3) (fp_copy e i det np slot))
      (orch_seq (orch_when (s \<le> 4) (fp_configure e i det np slot))
      (orch_seq (orch_when (s \<le> 5) (fp_start e i det np slot))
        (orch_when (s \<le> 6) (fp_attach e i det))))))"

definition drive_follow_primary ::
  "orch_env \<Rightarrow> string \<Rightarrow> string \<Rightarrow> node_config \<Rightarrow> node_config \<Rightarrow> (string, unit) orch" where
  "drive_follow_primary e i start_phase det np =
     (case fp_phase_index start_phase of
        None \<Rightarrow> orch_finish (''follow_primary: unknown phase '' @ debug_str start_phase)
      | Some s \<Rightarrow>
          orch_seq (orch_when (s \<le> 0) (fp_journal e i ''dialing''))
          (orch_seq (orch_read (\<lambda>n. oe_dial e n (nc_id det))
             (\<lambda>m. ''follow_primary: dial detached '' @ nc_hostname det @ '': '' @ m))
          (orch_seq (orch_read (\<lambda>n. oe_dial e n (nc_id np))
             (\<lambda>m. ''follow_primary: dial new_primary '' @ nc_hostname np @ '': '' @ m))
          (orch_bind (if s \<le> 1 then fp_stop e i det else orch_return False)
             (\<lambda>skip. orch_when (\<not> skip) (fp_rebuild e i s det np))))))"

section \<open>Its callers\<close>

text \<open>The background task a handoff spawns for a standby.\<close>

definition follow_task :: "orch_env \<Rightarrow> string \<Rightarrow> node_config \<Rightarrow> node_config \<Rightarrow> ('x, unit) orch" where
  "follow_task e i det np =
     orch_catch (drive_follow_primary e i ''queued'' det np) (\<lambda>r.
       case r of
         Inr _ \<Rightarrow> orch_bind (journal_complete e i) (\<lambda>_. orch_return ())
       | Inl m \<Rightarrow> orch_bind (journal_abandon e i m) (\<lambda>_. orch_return ()))"

fun fan_out_follow_primary ::
  "orch_env \<Rightarrow> node_config \<Rightarrow> node_config \<Rightarrow> node_config list \<Rightarrow> ('x, (string \<times> node_config) list) orch" where
  "fan_out_follow_primary e loc np [] = orch_return []"
| "fan_out_follow_primary e loc np (m # ms) =
     (if nc_id m = nc_id loc \<or> nc_id m = nc_id np then fan_out_follow_primary e loc np ms
      else
        orch_bind (journal_begin e (FollowPrimary (nc_id m) (nc_hostname m) (nc_id np) (nc_hostname np))
            ''queued'' False) (\<lambda>r.
          case r of
            Inl _ \<Rightarrow> fan_out_follow_primary e loc np ms
          | Inr op \<Rightarrow> orch_bind (fan_out_follow_primary e loc np ms) (\<lambda>tasks. orch_return ((op_id op, m) # tasks))))"

text \<open>A node the journal recorded, if the pool still has it under that name.\<close>

definition recorded_node :: "orch_env \<Rightarrow> string \<Rightarrow> i32 \<Rightarrow> string \<Rightarrow> (reply, node_config) orch" where
  "recorded_node e role i host =
     (case node_by_id (oe_pool e) i of
        Inl err \<Rightarrow> orch_finish (refused (''resume_follow_primary: '' @ role @ '' node '' @ show_int i @
          '' not in current pool: '' @ show_agent_error err))
      | Inr n \<Rightarrow>
          if nc_hostname n = host then orch_return n
          else orch_finish (refused (''resume_follow_primary: op recorded '' @ role @ ''_hostname='' @ debug_str host @
            '' but current pool has node '' @ show_int i @ '' as '' @ debug_str (nc_hostname n) @
            ''; pool topology has changed'')))"

definition resume_follow_primary :: "orch_env \<Rightarrow> inflight_op \<Rightarrow> (reply, 'a) orch" where
  "resume_follow_primary e op =
     (case op_payload op of
        FollowPrimary d dhost p phost \<Rightarrow>
          orch_bind (recorded_node e ''detached'' d dhost) (\<lambda>det.
          orch_bind (recorded_node e ''new_primary'' p phost) (\<lambda>np.
          orch_catch (drive_follow_primary e (op_id op) (op_phase op) det np) (\<lambda>r.
            case r of
              Inr _ \<Rightarrow>
                orch_seq (orch_try (journal_complete e (op_id op))
                    (\<lambda>m. internal (''resume_follow_primary: complete journal: '' @ m)))
                  (orch_finish (succeeded (''follow_primary complete for '' @ nc_hostname det @ '' (resumed)'')))
            | Inl m \<Rightarrow>
                orch_bind (journal_abandon e (op_id op) m) (\<lambda>_.
                  orch_finish (refused (''resume_follow_primary: driver failed: '' @ m @ ''; op marked abandoned''))))))
      | _ \<Rightarrow> orch_finish (Inl (FailedPrecondition ''resume_follow_primary: payload is not a follow_primary'')))"

section \<open>The ladder\<close>

definition fp_rank :: "i32 \<Rightarrow> i32 \<Rightarrow> string \<Rightarrow> orch_call \<Rightarrow> nat option" where
  "fp_rank d p slot c =
     (case c of
        OcPeerStop j \<Rightarrow> if j = d then Some 0 else None
      | OcPeerCreateSlot j s \<Rightarrow> if j = p \<and> s = slot then Some 1 else None
      | OcPeerRewind j _ \<Rightarrow> if j = d then Some 2 else None
      | OcPeerBasebackup j _ \<Rightarrow> if j = d then Some 2 else None
      | OcPeerConfigure j _ \<Rightarrow> if j = d then Some 3 else None
      | OcPeerStart j \<Rightarrow> if j = d then Some 4 else None
      | OcAttach j \<Rightarrow> if j = d then Some 5 else None
      | _ \<Rightarrow> None)"

definition follow_ladder :: "i32 \<Rightarrow> i32 \<Rightarrow> string \<Rightarrow> ladder" where
  "follow_ladder d p slot = \<lparr>ld_rank = fp_rank d p slot, ld_tolerated = (\<lambda>_. False), ld_phases = fp_phases,
     ld_certifies = (\<lambda>k. k - 1), ld_total = 6\<rparr>"

lemma follow_ladder_simps [simp]:
  "ld_rank (follow_ladder d p slot) = fp_rank d p slot"
  "ld_tolerated (follow_ladder d p slot) c \<longleftrightarrow> False"
  "ld_phases (follow_ladder d p slot) = fp_phases"
  "ld_certifies (follow_ladder d p slot) k = k - 1"
  "ld_total (follow_ladder d p slot) = 6"
  by (simp_all add: follow_ladder_def)

lemma fp_phases_length [simp]: "length fp_phases = 8"
  by (simp add: fp_phases_def)

interpretation fp: phase_ladder "follow_ladder d p slot" for d p slot
  by unfold_locales (simp_all add: fp_rank_def)

abbreviation fladder :: "node_config \<Rightarrow> node_config \<Rightarrow> ladder" where
  "fladder det np \<equiv> follow_ladder (nc_id det) (nc_id np) (slot_name det)"

lemma wp_fp_journal:
  assumes "ladder_at (fladder det np) i p k n w" and "k' < 8" "ph = fp_phases ! k'" "k' - 1 \<le> n"
    and "\<And>w'. ladder_at (fladder det np) i p k' n w' \<Longrightarrow> Q () w'"
    and "\<And>x w'. live (fladder det np) i p w' \<Longrightarrow> X x w'"
  shows "orch_wp (fp_journal e i ph) Q X w"
  unfolding fp_journal_def using assms by (intro fp.wp_try_phase [OF assms(1), of k']) simp_all

lemma wp_fp_cleanup:
  assumes "ladder_at (fladder det np) i p k n w"
    and "\<And>w'. ladder_at (fladder det np) i p k n w' \<Longrightarrow> Q () w'"
    and "\<And>x w'. live (fladder det np) i p w' \<Longrightarrow> X x w'"
  shows "orch_wp (cleanup_peer_slot_after_failure e np slot cause) Q X w"
proof -
  have q: "orch_wp (queue_append e mp) (\<lambda>_. Q ()) X w'" if at: "ladder_at (fladder det np) i p k n w'" for w' mp
  proof -
    obtain r q where a: "append_intent (oe_io e (length (ow_events w'))) (oe_now e (length (ow_events w'))) mp (ow_queue w') = (r, q)"
      by fastforce
    have "ladder_at (fladder det np) i p k n (w'\<lparr>ow_queue := q\<rparr>)" using at by (simp add: ladder_at_def)
    from fp.at_unranked [OF this fp.journal_unranked(5)] assms(2,3) liveI [OF at] a show ?thesis
      by (simp add: queue_append_def wp_perform)
  qed
  show ?thesis
    unfolding cleanup_peer_slot_after_failure_def orch_wps
    by (rule fp.wp_unranked [OF assms(1)])
      (auto simp: orch_wps fp.journal_unranked [simplified] intro: assms liveI q split: sum.split)
qed

lemma wp_fp_or_cleanup:
  assumes "ladder_at (fladder det np) i p k n w" and "fp_rank (nc_id det) (nc_id np) (slot_name det) c = Some n"
    and "\<And>w'. ladder_at (fladder det np) i p k (Suc n) w' \<Longrightarrow> Q () w'"
    and "\<And>x w'. live (fladder det np) i p w' \<Longrightarrow> X x w'"
  shows "orch_wp (fp_or_cleanup e np slot c what cause) Q X w"
  unfolding fp_or_cleanup_def orch_wps
  using assms(2) by (intro fp.wp_step [OF assms(1)]) (auto simp: orch_wps intro: assms(3,4) liveI [OF assms(1)] wp_fp_cleanup liveI)

text \<open>The stages, from the step and phase they start at.\<close>

lemma wp_fp_stop:
  assumes "ladder_at (fladder det np) i p 1 0 w"
    and "\<And>w'. ladder_at (fladder det np) i p 2 1 w' \<Longrightarrow> Q False w'"
    and "\<And>st. oe_status e (length (ow_events w)) (nc_id det) = Inr st \<Longrightarrow> \<not> is_running st \<Longrightarrow> Q True w"
    and "\<And>x w'. live (fladder det np) i p w' \<Longrightarrow> X x w'"
  shows "orch_wp (fp_stop e i det) Q X w"
proof (cases "oe_status e (length (ow_events w)) (nc_id det)")
  case (Inl m)
  with assms(4) liveI [OF assms(1)] show ?thesis by (simp add: fp_stop_def orch_wps)
next
  case (Inr st)
  have j: "orch_wp (fp_journal e i ''detached_stopped'') (\<lambda>_. Q False) X w'"
    if "ladder_at (fladder det np) i p 1 1 w'" for w'
    using that assms(2,4) by (intro wp_fp_journal [of det np i p 1 1 w' 2]) (simp_all add: fp_phases_def)
  have "orch_wp (orch_try (orch_do e (OcPeerStop (nc_id det))) f)
      (\<lambda>_. orch_wp (fp_journal e i ''detached_stopped'') (\<lambda>_. Q False) X) X w" for f
    using assms(4) j by (intro fp.wp_try_step [OF assms(1)]) (simp_all add: fp_rank_def)
  with Inr assms(3) show ?thesis
    by (simp add: fp_stop_def wp_bind wp_seq wp_read wp_return del: append_Cons append.simps)
qed

lemma wp_fp_create_slot:
  assumes "ladder_at (fladder det np) i p 2 1 w"
    and "\<And>w'. ladder_at (fladder det np) i p 3 2 w' \<Longrightarrow> Q () w'"
    and "\<And>x w'. live (fladder det np) i p w' \<Longrightarrow> X x w'"
  shows "orch_wp (fp_create_slot e i np (slot_name det)) Q X w"
proof -
  have j: "orch_wp (fp_journal e i ''slot_created'') Q X w'"
    if "ladder_at (fladder det np) i p 2 2 w'" for w'
    using that assms(2,3) by (intro wp_fp_journal [of det np i p 2 2 w' 3]) (simp_all add: fp_phases_def)
  show ?thesis
    unfolding fp_create_slot_def wp_seq
    using assms(3) j by (intro fp.wp_try_step [OF assms(1)]) (simp_all add: fp_rank_def numeral_2_eq_2)
qed

lemma wp_fp_copy:
  assumes "ladder_at (fladder det np) i p 3 2 w"
    and "\<And>w'. ladder_at (fladder det np) i p 4 3 w' \<Longrightarrow> Q () w'"
    and "\<And>x w'. live (fladder det np) i p w' \<Longrightarrow> X x w'"
  shows "orch_wp (fp_copy e i det np (slot_name det)) Q X w"
proof -
  have j: "orch_wp (fp_journal e i ''data_copied'') Q X w'" if "ladder_at (fladder det np) i p 3 3 w'" for w'
    using that assms(2,3) by (intro wp_fp_journal [of det np i p 3 3 w' 4]) (simp_all add: fp_phases_def)
  have b: "orch_wp (fp_or_cleanup e np (slot_name det) (OcPeerBasebackup (nc_id det) bo) what cause)
      (\<lambda>_. orch_wp (fp_journal e i ''data_copied'') Q X) X w'" if "ladder_at (fladder det np) i p 3 2 w'" for w' bo what cause
    using that j assms(3) by (intro wp_fp_or_cleanup [OF that]) (simp_all add: fp_rank_def)
  show ?thesis
    unfolding fp_copy_def orch_wps
    using assms(3) liveI [OF assms(1)] j b
    by (intro fp.wp_step [OF assms(1)]) (simp_all add: fp_rank_def)
qed

lemma wp_fp_configure:
  assumes "ladder_at (fladder det np) i p 4 3 w"
    and "\<And>w'. ladder_at (fladder det np) i p 5 4 w' \<Longrightarrow> Q () w'"
    and "\<And>x w'. live (fladder det np) i p w' \<Longrightarrow> X x w'"
  shows "orch_wp (fp_configure e i det np (slot_name det)) Q X w"
proof -
  have j: "orch_wp (fp_journal e i ''recovery_conf_written'') Q X w'" if "ladder_at (fladder det np) i p 4 4 w'" for w'
    using that assms(2,3) by (intro wp_fp_journal [of det np i p 4 4 w' 5]) (simp_all add: fp_phases_def)
  show ?thesis
    unfolding fp_configure_def orch_wps
    using j assms(3) by (intro wp_fp_or_cleanup [OF assms(1)]) (simp_all add: fp_rank_def)
qed

lemma wp_fp_start:
  assumes "ladder_at (fladder det np) i p 5 4 w"
    and "\<And>w'. ladder_at (fladder det np) i p 6 5 w' \<Longrightarrow> Q () w'"
    and "\<And>x w'. live (fladder det np) i p w' \<Longrightarrow> X x w'"
  shows "orch_wp (fp_start e i det np (slot_name det)) Q X w"
proof -
  have j: "orch_wp (fp_journal e i ''detached_started'') Q X w'" if "ladder_at (fladder det np) i p 5 5 w'" for w'
    using that assms(2,3) by (intro wp_fp_journal [of det np i p 5 5 w' 6]) (simp_all add: fp_phases_def)
  show ?thesis
    unfolding fp_start_def orch_wps
    using j assms(3) by (intro wp_fp_or_cleanup [OF assms(1)]) (simp_all add: fp_rank_def)
qed

lemma wp_fp_attach:
  assumes "ladder_at (fladder det np) i p 6 5 w"
    and "\<And>w'. ladder_at (fladder det np) i p 7 6 w' \<Longrightarrow> Q () w'"
    and "\<And>x w'. live (fladder det np) i p w' \<Longrightarrow> X x w'"
  shows "orch_wp (fp_attach e i det) Q X w"
proof -
  have j: "orch_wp (fp_journal e i ''attached'') Q X w'" if "ladder_at (fladder det np) i p 6 6 w'" for w'
    using that assms(2,3) by (intro wp_fp_journal [of det np i p 6 6 w' 7]) (simp_all add: fp_phases_def)
  show ?thesis
    unfolding fp_attach_def wp_seq
    using assms(3) j by (intro fp.wp_try_step [OF assms(1)]) (simp_all add: fp_rank_def)
qed

lemma wp_fp_rebuild:
  assumes at: "ladder_at (fladder det np) i p (max s 2) (max s 2 - 1) w" and "s \<le> 7"
    and fin: "\<And>w'. ladder_at (fladder det np) i p 7 6 w' \<Longrightarrow> Q () w'"
    and exits: "\<And>x w'. live (fladder det np) i p w' \<Longrightarrow> X x w'"
  shows "orch_wp (fp_rebuild e i s det np) Q X w"
proof -
  let ?P = "\<lambda>k. ladder_at (fladder det np) i p k (k - 1)"
  let ?slot = "slot_name det"
  have r2: "orch_wp (fp_create_slot e i np ?slot) R X v" if "?P 2 v" "\<And>w'. ?P (Suc 2) w' \<Longrightarrow> R () w'" for R v
    using that exits by (intro wp_fp_create_slot) (simp_all add: eval_nat_numeral)
  have r3: "orch_wp (fp_copy e i det np ?slot) R X v" if "?P 3 v" "\<And>w'. ?P (Suc 3) w' \<Longrightarrow> R () w'" for R v
    using that exits by (intro wp_fp_copy) (simp_all add: eval_nat_numeral)
  have r4: "orch_wp (fp_configure e i det np ?slot) R X v" if "?P 4 v" "\<And>w'. ?P (Suc 4) w' \<Longrightarrow> R () w'" for R v
    using that exits by (intro wp_fp_configure) (simp_all add: eval_nat_numeral)
  have r5: "orch_wp (fp_start e i det np ?slot) R X v" if "?P 5 v" "\<And>w'. ?P (Suc 5) w' \<Longrightarrow> R () w'" for R v
    using that exits by (intro wp_fp_start) (simp_all add: eval_nat_numeral)
  have r6: "orch_wp (fp_attach e i det) R X v" if "?P 6 v" "\<And>w'. ?P (Suc 6) w' \<Longrightarrow> R () w'" for R v
    using that exits by (intro wp_fp_attach) (simp_all add: eval_nat_numeral)
  have fin': "Q () w'" if "?P (max s (Suc 6)) w'" for w'
    using that \<open>s \<le> 7\<close> fin by (simp add: max_def eval_nat_numeral split: if_splits)
  show ?thesis
    unfolding fp_rebuild_def Let_def wp_seq
    apply (rule wp_rung [where P = ?P, OF at r2], assumption, assumption)
    apply (rule wp_rung [where P = ?P, OF _ r3], simp, assumption, assumption)
    apply (rule wp_rung [where P = ?P, OF _ r4], simp, assumption, assumption)
    apply (rule wp_rung [where P = ?P, OF _ r5], simp, assumption, assumption)
    apply (rule wp_rung [where P = ?P, OF _ r6], simp, assumption, assumption)
    by (rule fin')
qed

text \<open>
  The driver entered at the phase the journal records: it comes to the end of the ladder, or leaves a
  stopped standby alone when the ladder has not begun, or gives up with the entry still true.
\<close>

lemma wp_drive:
  assumes at: "ladder_at (fladder det np) i p s (s - 1) w" and ph: "fp_phase_index ph = Some s"
    and fin: "\<And>w'. ladder_at (fladder det np) i p 7 6 w' \<Longrightarrow> Q () w'"
    and skip: "\<And>w' st. s \<le> 1 \<Longrightarrow> ladder_at (fladder det np) i p 1 0 w' \<Longrightarrow>
      oe_status e (length (ow_events w')) (nc_id det) = Inr st \<Longrightarrow> \<not> is_running st \<Longrightarrow> Q () w'"
    and exits: "\<And>x w'. live (fladder det np) i p w' \<Longrightarrow> X x w'"
  shows "orch_wp (drive_follow_primary e i ph det np) Q X w"
proof -
  let ?P = "\<lambda>k. ladder_at (fladder det np) i p k (k - 1)"
  let ?K = "\<lambda>skip. if \<not> skip then orch_wp (fp_rebuild e i s det np) Q X else Q ()"
  from phase_index_nth(1) [OF ph [unfolded fp_phase_index_def]] have s: "s \<le> 7" by simp
  have rest: "orch_wp (fp_rebuild e i s det np) Q X v" if "?P (max s 2) v" for v
    using fin exits by (intro wp_fp_rebuild [OF that s])
  have stop: "orch_wp (if s \<le> 1 then fp_stop e i det else orch_return False) ?K X v" if v: "?P (max s 1) v" for v
  proof (cases "s \<le> 1")
    case True
    hence m: "max s 1 = 1" "max s 2 = 2" by simp_all
    have "orch_wp (fp_stop e i det) ?K X v"
      using v m skip [OF True, of v] exits rest by (intro wp_fp_stop [of det np i p]) auto
    with True show ?thesis by simp
  next
    case False
    hence "max s 1 = s" "max s 2 = s" by simp_all
    with False rest [of v] v show ?thesis by (simp add: wp_return)
  qed
  have first: "orch_wp (fp_journal e i ''dialing'') R X v" if "?P 0 v" "\<And>w'. ?P (Suc 0) w' \<Longrightarrow> R () w'" for R v
    using that exits by (intro wp_fp_journal [of det np i p 0 0 v 1]) (simp_all add: fp_phases_def)
  have "?P (max s 0) w" using at by simp
  note rung = wp_rung [where P = ?P, OF this first]
  show ?thesis
    unfolding drive_follow_primary_def ph option.case wp_seq wp_bind
    using stop exits
    by (intro rung) (auto simp: wp_read wp_when split: sum.split intro: liveI)
qed

lemma fp_phase_index_nth: "k < 8 \<Longrightarrow> fp_phase_index (fp_phases ! k) = Some k"
  by (simp add: fp_phase_index_def phase_index_def fp_phases_def less_Suc_eq eval_nat_numeral) (elim disjE; simp)

text \<open>The answers of an environment in which the standby is never reported stopped.\<close>

definition seen_running :: "orch_env \<Rightarrow> i32 \<Rightarrow> bool" where
  "seen_running e d \<longleftrightarrow> (\<forall>n st. oe_status e n d = Inr st \<longrightarrow> is_running st)"

lemma in_progress_at:
  assumes "ladder_ok (follow_ladder d q slot) i p w" and "get_op i (ow_journal w) = Inr op" "op_status op = InProgress"
  obtains s where "fp_phase_index (op_phase op) = Some s" "ladder_at (follow_ladder d q slot) i p s (s - 1) w"
proof -
  from assms obtain s where "s < 8" "op_phase op = fp_phases ! s"
    "achieved_below (fp_rank d q slot) (ld_tolerated (follow_ladder d q slot)) (ow_events w) (s - 1)"
    by (auto simp: ladder_ok_def list_ex_iff)
  with assms fp_phase_index_nth [of s] show thesis by (intro that [of s]) (auto simp: ladder_at_def ladder_ok_def)
qed

lemma wp_end_true:
  assumes "ladder_at (fladder det np) i p 7 6 w"
    and "\<And>w'. ladder_ok (fladder det np) i p w' \<Longrightarrow> Q (Inr ()) w'"
    and "\<And>m w'. ladder_ok (fladder det np) i p w' \<Longrightarrow> Q (Inl m) w'"
    and "\<And>x w'. ladder_ok (fladder det np) i p w' \<Longrightarrow> X x w'"
  shows "orch_wp (journal_complete e i) Q X w"
  using assms(2-) ladder_at_ok [OF assms(1)] by (intro fp.wp_complete [OF assms(1)]) (auto intro: ladder_at_ok)

lemma wp_abandon_true:
  assumes "live (fladder det np) i p w"
    and "\<And>r w'. ladder_ok (fladder det np) i p w' \<Longrightarrow> Q r w'"
    and "\<And>x w'. ladder_ok (fladder det np) i p w' \<Longrightarrow> X x w'"
  shows "orch_wp (journal_abandon e i m) Q X w"
  using assms live_ok [OF assms(1)] by (auto simp: live_def intro!: fp.wp_abandon)

text \<open>Both callers keep the journal true, as long as the standby is not found stopped.\<close>

lemma follow_task_true:
  assumes "ladder_at (fladder det np) i p 0 0 w" and "seen_running e (nc_id det)"
  shows "ladder_ok (fladder det np) i p (snd (follow_task e i det np w))"
proof (rule orch_wp_snd)
  let ?P = "ladder_ok (fladder det np) i p"
  have "orch_wp (drive_follow_primary e i ''queued'' det np) (\<lambda>_. orch_wp (journal_complete e i) (\<lambda>_. ?P) (\<lambda>_. ?P))
      (\<lambda>x w. case x of Crashed \<Rightarrow> ?P w | Finished y \<Rightarrow> orch_wp (journal_abandon e i y) (\<lambda>_. ?P) (\<lambda>_. ?P) w) w"
    using assms
    by (intro wp_drive [of det np i p 0]) (auto simp: fp_phase_index_nth [of 0, simplified fp_phases_def nth_Cons_0]
        seen_running_def intro: wp_end_true wp_abandon_true live_ok split: orch_exit.split)
  thus "orch_wp (follow_task e i det np) (\<lambda>_. ?P) (\<lambda>_. ?P) w"
    by (simp add: follow_task_def orch_wps cong: orch_exit.case_cong)
qed

lemma wp_recorded_node:
  assumes "Q n w" and "\<And>x. X x w"
  shows "orch_wp (recorded_node e role (nc_id n) (nc_hostname n)) Q X w"
proof (cases "node_by_id (oe_pool e) (nc_id n)")
  case (Inr m)
  hence "nc_id m = nc_id n" by (auto simp: node_by_id_def find_by_id_def find_Some_iff split: option.splits)
  hence "m = n" if "nc_hostname m = nc_hostname n" using that by simp
  with Inr assms show ?thesis by (auto simp: recorded_node_def orch_wps)
qed (use assms in \<open>simp add: recorded_node_def orch_wps\<close>)

lemma resume_follow_true:
  assumes "ladder_ok (fladder det np) i p w"
    and p: "p = FollowPrimary (nc_id det) (nc_hostname det) (nc_id np) (nc_hostname np)"
    and op: "get_op i (ow_journal w) = Inr op" "op_status op = InProgress" "op_id op = i"
    and "seen_running e (nc_id det)"
  shows "ladder_ok (fladder det np) i p (snd ((resume_follow_primary e op :: (reply, 'b) orch) w))"
proof (rule orch_wp_snd)
  let ?P = "ladder_ok (fladder det np) i p"
  have pay: "op_payload op = p" using assms(1) op by (simp add: ladder_ok_def)
  obtain s where s: "fp_phase_index (op_phase op) = Some s" "ladder_at (fladder det np) i p s (s - 1) w"
    by (rule in_progress_at [OF assms(1) op(1,2)])
  show "orch_wp (resume_follow_primary e op :: (reply, 'b) orch) (\<lambda>_. ?P) (\<lambda>_. ?P) w"
    unfolding resume_follow_primary_def pay p inflight_payload.case op(3) wp_bind wp_catch
    using assms(1,6) unfolding p
    by (intro wp_recorded_node wp_drive [OF s(2) [unfolded p] s(1)])
      (auto simp: seen_running_def orch_wps intro: wp_end_true wp_abandon_true live_ok split: orch_exit.split sum.split)
qed

section \<open>The slot on the new primary\<close>

definition fp_guarded :: "i32 \<Rightarrow> orch_call \<Rightarrow> bool" where
  "fp_guarded d c =
     (case c of
        OcPeerBasebackup j _ \<Rightarrow> j = d
      | OcPeerConfigure j _ \<Rightarrow> j = d
      | OcPeerStart j \<Rightarrow> j = d
      | _ \<Rightarrow> False)"

interpretation fk: slot_keeper "fp_guarded d" "OcPeerDropSlot q slot" slot host for d q slot host
  by unfold_locales (simp_all add: fp_guarded_def)

abbreviation f_rest :: "node_config \<Rightarrow> node_config \<Rightarrow> nat \<Rightarrow> orch_world \<Rightarrow> bool" where
  "f_rest det np \<equiv> fk.at_rest (nc_id det) (nc_id np) (slot_name det) (nc_hostname np)"

abbreviation f_exit :: "node_config \<Rightarrow> node_config \<Rightarrow> nat \<Rightarrow> 'x orch_exit \<Rightarrow> orch_world \<Rightarrow> bool" where
  "f_exit det np base x w \<equiv>
     (case x of Crashed \<Rightarrow> fk.in_bounds (nc_id det) (nc_id np) (slot_name det) (nc_hostname np) base w
      | Finished _ \<Rightarrow> f_rest det np base w)"

lemma rest_do:
  assumes "f_rest det np base w" and "\<not> fp_guarded (nc_id det) c" "c \<noteq> OcPeerDropSlot (nc_id np) (slot_name det)"
      "\<not> queues_drop (slot_name det) (nc_hostname np) c"
    and "\<And>r w'. f_rest det np base w' \<Longrightarrow> Q r w'"
  shows "orch_wp (orch_do e c) Q (f_exit det np base) w"
  unfolding orch_do_def using assms by (intro fk.rest_perform) auto

lemma rest_fp_journal:
  assumes "f_rest det np base w" and "\<And>w'. f_rest det np base w' \<Longrightarrow> Q () w'"
  shows "orch_wp (fp_journal e i ph) Q (f_exit det np base) w"
  unfolding fp_journal_def wp_try journal_phase_def
  using assms by (intro fk.rest_perform) (auto simp: fp_guarded_def queues_drop_def split: sum.split)

lemma rest_fp_or_cleanup:
  assumes "f_rest det np base w" and "fp_guarded (nc_id det) c" and "\<And>w'. f_rest det np base w' \<Longrightarrow> Q () w'"
  shows "orch_wp (fp_or_cleanup e np (slot_name det) c what cause) Q (f_exit det np base) w"
proof -
  have c: "c \<noteq> OcPeerDropSlot (nc_id np) (slot_name det)" "\<not> queues_drop (slot_name det) (nc_hostname np) c"
    using assms(2) by (auto simp: fp_guarded_def queues_drop_def split: orch_call.splits)
  let ?X = "f_exit det np base :: string orch_exit \<Rightarrow> orch_world \<Rightarrow> bool"
  have clean: "orch_wp (cleanup_peer_slot_after_failure e np (slot_name det) cause) (\<lambda>_. R) ?X w'"
    if "fk.owing (nc_id det) (nc_id np) (slot_name det) (nc_hostname np) base w'" "\<And>v. f_rest det np base v \<Longrightarrow> R v" for w' R
  proof -
    have "orch_wp (orch_do e (OcPeerDropSlot (nc_id np) (slot_name det)))
      (\<lambda>r. case r of Inr _ \<Rightarrow> R | Inl d \<Rightarrow> orch_wp (queue_append e (DropSlotCleanup (slot_name det) (nc_hostname np) cause d))
        (\<lambda>_. R) ?X) ?X w'"
      using that by (intro fk.rest_cleanup) auto
    thus ?thesis unfolding cleanup_peer_slot_after_failure_def wp_bind
      by (rule wp_mono) (auto simp: orch_wps split: sum.splits)
  qed
  show ?thesis
    unfolding fp_or_cleanup_def wp_bind
    using assms c by (intro fk.rest_guarded) (auto simp: orch_wps intro: clean)
qed

lemma rest_stages:
  assumes "f_rest det np base w"
  shows "(\<And>w'. f_rest det np base w' \<Longrightarrow> Q () w') \<Longrightarrow>
      orch_wp (fp_create_slot e i np (slot_name det)) Q (f_exit det np base) w"
    and "(\<And>w'. f_rest det np base w' \<Longrightarrow> Q () w') \<Longrightarrow>
      orch_wp (fp_copy e i det np (slot_name det)) Q (f_exit det np base) w"
    and "(\<And>w'. f_rest det np base w' \<Longrightarrow> Q () w') \<Longrightarrow>
      orch_wp (fp_configure e i det np (slot_name det)) Q (f_exit det np base) w"
    and "(\<And>w'. f_rest det np base w' \<Longrightarrow> Q () w') \<Longrightarrow>
      orch_wp (fp_start e i det np (slot_name det)) Q (f_exit det np base) w"
    and "(\<And>w'. f_rest det np base w' \<Longrightarrow> Q () w') \<Longrightarrow> orch_wp (fp_attach e i det) Q (f_exit det np base) w"
    and "(\<And>b w'. f_rest det np base w' \<Longrightarrow> P b w') \<Longrightarrow> orch_wp (fp_stop e i det) P (f_exit det np base) w"
  unfolding fp_create_slot_def fp_copy_def fp_configure_def fp_start_def fp_attach_def fp_stop_def
    wp_seq wp_bind wp_try wp_read wp_when
  using assms
  by (auto intro!: rest_do rest_fp_or_cleanup rest_fp_journal simp: fp_guarded_def queues_drop_def orch_wps
      split: sum.split)

lemma rest_drive:
  assumes "f_rest det np base w"
  shows "orch_wp (drive_follow_primary e i ph det np) (\<lambda>_. f_rest det np base) (f_exit det np base) w"
proof (cases "fp_phase_index ph")
  case (Some s)
  have rebuild: "orch_wp (fp_rebuild e i s det np) (\<lambda>_. f_rest det np base) (f_exit det np base) v" if "f_rest det np base v" for v
    unfolding fp_rebuild_def Let_def wp_seq wp_when
    using that by (auto intro!: rest_stages)
  show ?thesis
    unfolding drive_follow_primary_def Some option.case wp_seq wp_bind wp_when wp_read
    using assms rebuild by (auto simp: wp_return intro!: rest_stages rest_fp_journal split: sum.split)
qed (use assms in \<open>simp add: drive_follow_primary_def orch_wps\<close>)


end
