(* ===== verification/Handoff.thy ===== *)
theory Handoff
  imports Rebase
begin

text \<open>
  The planned handoff of the primary role to a standby and its resumption after a crash
  (\<open>cluster_handoff\<close>, \<open>run_handoff_from_phase\<close>, \<open>resume_handoff\<close>, \<open>verify_handoff_state\<close>,
  \<open>resume_inflight_op\<close> and \<open>abandon_inflight_op\<close> of \<open>crates/pg-agent-core/src/localserver.rs\<close>).
\<close>

section \<open>The ladder of a handoff\<close>

definition handoff_phases :: "string list" where
  "handoff_phases = [''preflight_done'', ''target_promoted'', ''slot_created'', ''local_stopped'',
     ''data_copied'', ''recovery_conf_written'', ''local_started'', ''attached'']"

definition handoff_phase_index :: "string \<Rightarrow> nat option" where
  "handoff_phase_index = phase_index handoff_phases"

definition handoff_journal :: "orch_env \<Rightarrow> string \<Rightarrow> string \<Rightarrow> (reply, unit) orch" where
  "handoff_journal e i ph = orch_try (journal_phase e i ph) (\<lambda>m. internal (''cluster_handoff: journal: '' @ m))"

definition handoff_promote :: "orch_env \<Rightarrow> string \<Rightarrow> node_config \<Rightarrow> (reply, unit) orch" where
  "handoff_promote e i target =
     orch_seq (orch_try (orch_do e OcCheckpoint) (\<lambda>m. internal (''cluster_handoff: checkpoint: '' @ m)))
     (orch_seq (orch_try (orch_do e (OcPeerPromote (nc_id target)))
         (\<lambda>m. internal (''cluster_handoff: promote '' @ nc_hostname target @ '': '' @ m)))
       (handoff_journal e i ''target_promoted''))"

definition handoff_create_slot :: "orch_env \<Rightarrow> string \<Rightarrow> node_config \<Rightarrow> string \<Rightarrow> (reply, unit) orch" where
  "handoff_create_slot e i target slot =
     orch_seq (orch_try (orch_do e (OcPeerCreateSlot (nc_id target) slot))
         (\<lambda>m. internal (''cluster_handoff: create_slot on '' @ nc_hostname target @ '': '' @ m)))
       (handoff_journal e i ''slot_created'')"

definition handoff_stop :: "orch_env \<Rightarrow> string \<Rightarrow> (reply, unit) orch" where
  "handoff_stop e i =
     orch_seq (orch_try (orch_do e OcStopLocal) (\<lambda>m. internal (''cluster_handoff: stop_postgres: '' @ m)))
       (handoff_journal e i ''local_stopped'')"

definition handoff_basebackup :: "orch_env \<Rightarrow> string \<Rightarrow> node_config \<Rightarrow> node_config \<Rightarrow> string \<Rightarrow> (reply, bool) orch" where
  "handoff_basebackup e i target loc slot =
     orch_bind (orch_do e (OcBasebackupLocal (basebackup_from e target slot))) (\<lambda>b.
       case b of
         Inr _ \<Rightarrow> orch_return True
       | Inl bb \<Rightarrow>
           orch_bind (orch_do e (OcPeerDropSlot (nc_id target) slot)) (\<lambda>_.
           orch_bind (journal_abandon e i (''rewind+basebackup both failed: '' @ bb)) (\<lambda>_.
           orch_finish (refused (''cluster_handoff: rewind and basebackup both failed against '' @
             nc_hostname target @ '': '' @ bb @ ''; local PG is stopped, target is now the primary; '' @
             ''run `pg_agentctl cluster recover --target '' @ show_int (nc_id loc) @
             '' --stop-target-pg` from the new primary to finish converging the local node'')))))"

text \<open>Whether a base backup was taken.\<close>

definition handoff_copy :: "orch_env \<Rightarrow> string \<Rightarrow> node_config \<Rightarrow> node_config \<Rightarrow> string \<Rightarrow> (reply, bool) orch" where
  "handoff_copy e i target loc slot =
     orch_bind (orch_do e (OcRewindLocal (rewind_from e target))) (\<lambda>r.
     orch_bind (if is_ok r then orch_return False else handoff_basebackup e i target loc slot) (\<lambda>ran.
     orch_seq (handoff_journal e i ''data_copied'') (orch_return ran)))"

definition handoff_configure :: "orch_env \<Rightarrow> string \<Rightarrow> node_config \<Rightarrow> string \<Rightarrow> (reply, unit) orch" where
  "handoff_configure e i target slot =
     orch_seq (orch_try (orch_do e (OcWriteConfLocal (conf_for e target slot)))
         (\<lambda>m. internal (''cluster_handoff: write_recovery_conf: '' @ m)))
       (handoff_journal e i ''recovery_conf_written'')"

definition handoff_start :: "orch_env \<Rightarrow> string \<Rightarrow> (reply, unit) orch" where
  "handoff_start e i =
     orch_seq (orch_try (orch_do e OcStartLocal) (\<lambda>m. internal (''cluster_handoff: start_postgres: '' @ m)))
       (handoff_journal e i ''local_started'')"

text \<open>A failed attach is only noted in the answer.\<close>

definition handoff_attach :: "orch_env \<Rightarrow> string \<Rightarrow> node_config \<Rightarrow> (reply, string) orch" where
  "handoff_attach e i loc =
     orch_bind (orch_do e (OcAttach (nc_id loc))) (\<lambda>r.
       orch_seq (handoff_journal e i ''attached'')
         (orch_return (case r of Inr _ \<Rightarrow> [] | Inl m \<Rightarrow> ''; pgpool attach failed: '' @ m)))"

text \<open>From the copy on, entered at phase number \<open>s\<close>.\<close>

definition handoff_rebuild ::
  "orch_env \<Rightarrow> string \<Rightarrow> nat \<Rightarrow> node_config \<Rightarrow> node_config \<Rightarrow> string \<Rightarrow> (reply, op_result) orch" where
  "handoff_rebuild e i s target loc slot =
     orch_bind (if s \<le> 3 then handoff_copy e i target loc slot else orch_return False) (\<lambda>ran.
     orch_seq (orch_when (s \<le> 4) (handoff_configure e i target slot))
     (orch_seq (orch_when (s \<le> 5) (handoff_start e i))
     (orch_bind (if s \<le> 6 then handoff_attach e i loc else orch_return []) (\<lambda>note.
     (orch_seq (orch_try (journal_complete e i) (\<lambda>m. internal (''cluster_handoff: complete journal: '' @ m)))
        (orch_return \<lparr>or_ok = True, or_message = ''handoff complete: primary is now '' @ nc_hostname target @
           ''; local demoted to standby via '' @ (if ran then ''basebackup'' else ''rewind'') @ note\<rparr>))))))"

definition run_handoff_from_phase ::
  "orch_env \<Rightarrow> string \<Rightarrow> string \<Rightarrow> node_config \<Rightarrow> node_config \<Rightarrow> string \<Rightarrow> (reply, op_result) orch" where
  "run_handoff_from_phase e i start_phase target loc slot =
     (case handoff_phase_index start_phase of
        None \<Rightarrow> orch_finish (Inl (InvalidArgument (''cluster_handoff: unknown phase '' @ debug_str start_phase)))
      | Some s \<Rightarrow>
          orch_seq (orch_when (s \<le> 0) (handoff_promote e i target))
          (orch_seq (orch_when (s \<le> 1) (handoff_create_slot e i target slot))
          (orch_seq (orch_when (s \<le> 2) (handoff_stop e i))
            (handoff_rebuild e i s target loc slot))))"

section \<open>A fresh handoff\<close>

definition max_handoff_lag_bytes :: int where
  "max_handoff_lag_bytes = 16 * 1024 * 1024"

text \<open>\<open>{:X}/{:08X}\<close> of the two halves of a position.\<close>

definition pad_hex8 :: "nat \<Rightarrow> string" where
  "pad_hex8 n = (let h = show_hex n in replicate (8 - length h) (CHR ''0'') @ h)"

definition show_lsn_padded :: "u64 \<Rightarrow> string" where
  "show_lsn_padded l = show_hex (unat (drop_bit 32 l)) @ ''/'' @ pad_hex8 (unat (take_bit 32 l))"

text \<open>Why the lag of the target forbids the handoff.\<close>

definition handoff_lag_refusal :: "node_config \<Rightarrow> u64 \<Rightarrow> u64 \<Rightarrow> string option" where
  "handoff_lag_refusal target local_lsn replay_lsn =
     (if local_lsn = 0 \<or> replay_lsn = 0 then
        Some (''cluster_handoff: cannot measure lag '' @ [CHR 0xE2, CHR 0x80, CHR 0x94] @
          '' local current_wal_lsn='' @ show_nat (unat local_lsn) @ '' target last_replay_lsn='' @
          show_nat (unat replay_lsn) @ '' (a 0 value means the LSN probe failed or the peer is on a pre-0.4.0 '' @
          ''build); rerun with --allow-lag to override (will accept unknown data loss)'')
      else
        let lag = saturating_sub local_lsn replay_lsn in
        if word_of_int max_handoff_lag_bytes < lag then
          Some (''cluster_handoff: target '' @ nc_hostname target @ '' is '' @ show_nat (unat lag) @
            '' bytes behind local primary (local LSN '' @ show_lsn_padded local_lsn @ '', target replay LSN '' @
            show_lsn_padded replay_lsn @ ''); exceeds threshold '' @ show_int max_handoff_lag_bytes @
            '' bytes (one WAL segment); rerun with --allow-lag to override (will accept data loss for writes '' @
            ''between the standby's replay LSN and the primary's current LSN)'')
        else None)"

text \<open>The journal's last word on this handoff.\<close>

definition handoff_replay :: "orch_env \<Rightarrow> string \<Rightarrow> (reply, unit) orch" where
  "handoff_replay e key =
     orch_bind (journal_find e ''handoff'' key) (\<lambda>found.
       case found of
         Inl m \<Rightarrow> orch_finish (internal (''cluster_handoff: inflight lookup: '' @ m))
       | Inr None \<Rightarrow> orch_return ()
       | Inr (Some op) \<Rightarrow>
           (case op_status op of
              Done \<Rightarrow> orch_finish (succeeded ''cluster_handoff: already processed; skipping duplicate'')
            | InProgress \<Rightarrow>
                orch_finish (refused (''cluster_handoff: handoff already in flight (id='' @ op_id op @ '', phase='' @
                  op_phase op @ ''); resume with `pg_agentctl ops resume '' @ op_id op @ ''` or abandon with `'' @
                  ''pg_agentctl ops abandon '' @ op_id op @ ''`''))
            | Abandoned \<Rightarrow> orch_return ()))"

text \<open>The checks before anything is written: the local node and the target they allow.\<close>

definition handoff_preflight :: "orch_env \<Rightarrow> i32 \<Rightarrow> bool \<Rightarrow> (reply, node_config \<times> node_config) orch" where
  "handoff_preflight e target_id allow_lag =
     orch_bind (orch_read (oe_in_recovery e) (\<lambda>m. internal (''cluster_handoff: is_in_recovery: '' @ m))) (\<lambda>in_recovery.
     if in_recovery then
       orch_finish (refused (''cluster_handoff: local node is not the primary (in recovery); '' @
         ''run this on the current primary''))
     else
     (case local_node (oe_pool e) of
        Inl err \<Rightarrow> orch_finish (internal (''cluster_handoff: resolve local: '' @ show_agent_error err))
      | Inr loc \<Rightarrow>
     (case node_by_id (oe_pool e) target_id of
        Inl err \<Rightarrow> orch_finish (Inl (InvalidArgument (''cluster_handoff: target node '' @ show_int target_id @ '': '' @
          show_agent_error err)))
      | Inr target \<Rightarrow>
     if is_local (oe_pool e) target then
       orch_finish (Inl (InvalidArgument (''cluster_handoff: target is the local node '' @
         [CHR 0xE2, CHR 0x80, CHR 0x94] @ '' handoff target must be a peer'')))
     else
     orch_seq (handoff_replay e (''from='' @ show_int (nc_id loc) @ '',to='' @ show_int (nc_id target)))
     (orch_seq (orch_read (\<lambda>n. oe_dial e n (nc_id target))
         (\<lambda>m. internal (''cluster_handoff: dial peer '' @ nc_hostname target @ '': '' @ m)))
     (orch_bind (orch_read (\<lambda>n. oe_status e n (nc_id target))
         (\<lambda>m. internal (''cluster_handoff: peer get_status '' @ nc_hostname target @ '': '' @ m))) (\<lambda>st.
     if \<not> is_postgres_running st then
       orch_finish (refused (''cluster_handoff: target '' @ nc_hostname target @
         '' has postgres stopped; start it first or pick a different target''))
     else if \<not> is_in_recovery st then
       orch_finish (refused (''cluster_handoff: target '' @ nc_hostname target @
         '' is not a standby (already primary); pick a standby as the handoff target''))
     else
     orch_seq (orch_when (\<not> allow_lag)
       (orch_bind (orch_read (oe_wal_lsn e) (\<lambda>m. internal (''cluster_handoff: local current_wal_lsn: '' @ m)))
         (\<lambda>local_lsn.
            case handoff_lag_refusal target local_lsn (current_wal_lsn st) of
              Some m \<Rightarrow> orch_finish (refused m)
            | None \<Rightarrow> orch_return ())))
       (orch_return (loc, target))))))))"

text \<open>The journal entry, the ladder, and the rebases of the other standbys in the background.\<close>

definition handoff_orchestrate ::
  "orch_env \<Rightarrow> bool \<Rightarrow> node_config \<Rightarrow> node_config \<Rightarrow> (reply, op_result \<times> (string \<times> node_config) list) orch" where
  "handoff_orchestrate e allow_lag loc target =
     orch_bind (orch_try (journal_begin e
         (Handoff (nc_id loc) (nc_id target) (nc_hostname target) (slot_name loc) allow_lag) ''preflight_done'' True)
         (\<lambda>be. refused (''cluster_handoff: '' @ show_begin_error be))) (\<lambda>op.
     orch_bind (run_handoff_from_phase e (op_id op) ''preflight_done'' target loc (slot_name loc)) (\<lambda>resp.
     orch_bind (if or_ok resp then fan_out_follow_primary e loc target (np_members (oe_pool e)) else orch_return [])
       (\<lambda>tasks. orch_return (resp, tasks))))"

definition cluster_handoff ::
  "orch_env \<Rightarrow> i32 \<Rightarrow> bool \<Rightarrow> (reply, op_result \<times> (string \<times> node_config) list) orch" where
  "cluster_handoff e target_id allow_lag =
     orch_bind (handoff_preflight e target_id allow_lag)
       (\<lambda>(loc, target). handoff_orchestrate e allow_lag loc target)"

section \<open>Resuming\<close>

definition verify_handoff_state :: "orch_env \<Rightarrow> string \<Rightarrow> node_config \<Rightarrow> (reply, string option) orch" where
  "verify_handoff_state e phase target =
     orch_bind (orch_read (\<lambda>n. oe_status e n (nc_id target))
         (\<lambda>m. internal (''verify_handoff_state: peer get_status '' @ nc_hostname target @ '': '' @ m))) (\<lambda>st.
     if phase = ''preflight_done'' then
       orch_return (if \<not> is_in_recovery st
         then Some (''target '' @ nc_hostname target @ '' is already a primary; the original handoff was about to '' @
           ''promote it but someone else promoted it first'')
         else None)
     else if \<not> is_postgres_running st then
       orch_return (Some (''target '' @ nc_hostname target @ '' has postgres stopped; original handoff had promoted it''))
     else if is_in_recovery st then
       orch_return (Some (''target '' @ nc_hostname target @ '' is back in recovery; original handoff had promoted it to primary''))
     else
     orch_bind (orch_read (oe_pg_running e) (\<lambda>m. internal (''verify_handoff_state: status_postgres: '' @ m))) (\<lambda>running.
     if phase \<in> set [''target_promoted'', ''slot_created''] \<and> \<not> running then
       orch_return (Some (''local PG is stopped but recorded phase is pre-stop; someone else stopped the old primary''))
     else if phase \<in> set [''local_stopped'', ''data_copied'', ''recovery_conf_written''] \<and> running then
       orch_return (Some (''local PG is running but recorded phase is post-stop; someone else started the old primary''))
     else if phase \<in> set [''local_started'', ''attached''] then
       (if \<not> running then orch_return (Some ''local PG is stopped but recorded phase is post-start'')
        else orch_bind (orch_read (oe_in_recovery e) (\<lambda>m. internal (''verify_handoff_state: is_in_recovery: '' @ m)))
          (\<lambda>rec. orch_return (if \<not> rec then Some ''local PG is a primary but recorded phase implies standby'' else None)))
     else orch_return None))"

definition resume_handoff :: "orch_env \<Rightarrow> inflight_op \<Rightarrow> (reply, 'a) orch" where
  "resume_handoff e op =
     (case op_payload op of
        Handoff from to to_host slot _ \<Rightarrow>
          (case local_node (oe_pool e) of
             Inl err \<Rightarrow> orch_finish (internal (''resume_handoff: resolve local: '' @ show_agent_error err))
           | Inr loc \<Rightarrow>
          if nc_id loc \<noteq> from then
            orch_finish (refused (''resume_handoff: op recorded from_node_id='' @ show_int from @ '' but local is node '' @
              show_int (nc_id loc) @ ''; pool topology has changed since the op began''))
          else
          (case node_by_id (oe_pool e) to of
             Inl err \<Rightarrow> orch_finish (refused (''resume_handoff: target node '' @ show_int to @ '' not in current pool: '' @
               show_agent_error err))
           | Inr target \<Rightarrow>
          if nc_hostname target \<noteq> to_host then
            orch_finish (refused (''resume_handoff: op recorded to_hostname='' @ debug_str to_host @
              '' but current pool has node '' @ show_int to @ '' as '' @ debug_str (nc_hostname target) @
              ''; pool topology has changed since the op began''))
          else
          orch_seq (orch_read (\<lambda>n. oe_dial e n (nc_id target))
              (\<lambda>m. internal (''resume_handoff: dial peer '' @ nc_hostname target @ '': '' @ m)))
          (orch_bind (verify_handoff_state e (op_phase op) target) (\<lambda>diverged.
             case diverged of
               Some d \<Rightarrow>
                 orch_finish (refused (''resume_handoff: cluster state diverged from recorded phase '' @
                   debug_str (op_phase op) @ '': '' @ d @ ''; run `pg_agentctl ops abandon '' @ op_id op @
                   ''` if this op is unrecoverable''))
             | None \<Rightarrow>
                 orch_bind (run_handoff_from_phase e (op_id op) (op_phase op) target loc slot)
                   (\<lambda>resp. orch_finish (Inr resp))))))
      | _ \<Rightarrow> orch_finish (Inl (FailedPrecondition ''resume_handoff: payload is not a handoff'')))"

definition resume_inflight_op :: "orch_env \<Rightarrow> string \<Rightarrow> (reply, unit) orch" where
  "resume_inflight_op e i =
     (if i = [] then orch_finish (Inl (InvalidArgument ''resume_inflight_op: id is required''))
      else
        orch_bind (orch_try (journal_get i) (\<lambda>m. Inl (NotFoundStatus (''resume_inflight_op: '' @ m)))) (\<lambda>op.
        if op_status op \<noteq> InProgress then
          orch_finish (refused (''resume_inflight_op: op '' @ op_id op @ '' is in status '' @
            status_as_wire (op_status op) @ ''; only in-progress ops can be resumed''))
        else
          (case op_payload op of
             Handoff _ _ _ _ _ \<Rightarrow> resume_handoff e op
           | FollowPrimary _ _ _ _ \<Rightarrow> resume_follow_primary e op
           | Promote _ _ \<Rightarrow>
               orch_finish (refused (''op '' @ op_id op @ '' is a promotion; nothing to resume '' @
                 [CHR 0xE2, CHR 0x80, CHR 0x94] @ '' the HA loop re-issues it while the lease is held''))
           | AllowAsync _ \<Rightarrow>
               orch_finish (refused (''op '' @ op_id op @ '' is an allow-async disarm; nothing to resume '' @
                 [CHR 0xE2, CHR 0x80, CHR 0x94] @ '' the executor re-arms quorum commit when a standby attaches''))
           | Recovery _ standby _ _ \<Rightarrow>
               orch_finish (refused (''resume_inflight_op: op '' @ op_id op @ '' is a recovery, which has no resume driver. '' @
                 ''Abandon it (`pg_agentctl ops abandon '' @ op_id op @ ''`) and re-run `pg_agentctl cluster recover --target '' @
                 show_int standby @ '' --stop-target-pg`, which restarts the orchestration from a known state.'')))))"

definition abandon_inflight_op :: "orch_env \<Rightarrow> string \<Rightarrow> string \<Rightarrow> (reply, unit) orch" where
  "abandon_inflight_op e i reason =
     (if i = [] then orch_finish (Inl (InvalidArgument ''abandon_inflight_op: id is required''))
      else
        orch_bind (orch_try (journal_get i) (\<lambda>m. Inl (NotFoundStatus (''abandon_inflight_op: '' @ m)))) (\<lambda>op.
        if op_status op \<noteq> InProgress then
          orch_finish (refused (''abandon_inflight_op: op '' @ op_id op @ '' is in status '' @
            status_as_wire (op_status op) @ ''; only in-progress ops can be abandoned''))
        else
          orch_seq (orch_try (journal_abandon e i (if reason = [] then ''operator-abandoned'' else reason))
              (\<lambda>m. internal (''abandon_inflight_op: '' @ m)))
            (orch_finish (succeeded (''op '' @ op_id op @ '' abandoned (was at phase '' @ op_phase op @ '')'')))))"

section \<open>The ladder holds\<close>

definition handoff_rank :: "i32 \<Rightarrow> i32 \<Rightarrow> string \<Rightarrow> orch_call \<Rightarrow> nat option" where
  "handoff_rank t l slot c =
     (case c of
        OcCheckpoint \<Rightarrow> Some 0
      | OcPeerPromote j \<Rightarrow> if j = t then Some 1 else None
      | OcPeerCreateSlot j s \<Rightarrow> if j = t \<and> s = slot then Some 2 else None
      | OcStopLocal \<Rightarrow> Some 3
      | OcRewindLocal _ \<Rightarrow> Some 4
      | OcBasebackupLocal _ \<Rightarrow> Some 4
      | OcWriteConfLocal _ \<Rightarrow> Some 5
      | OcStartLocal \<Rightarrow> Some 6
      | OcAttach j \<Rightarrow> if j = l then Some 7 else None
      | _ \<Rightarrow> None)"

definition handoff_ladder :: "i32 \<Rightarrow> i32 \<Rightarrow> string \<Rightarrow> ladder" where
  "handoff_ladder t l slot = \<lparr>ld_rank = handoff_rank t l slot, ld_tolerated = (\<lambda>c. c = OcAttach l),
     ld_phases = handoff_phases, ld_certifies = (\<lambda>k. if k = 0 then 0 else k + 1), ld_total = 8\<rparr>"

lemma handoff_ladder_simps [simp]:
  "ld_rank (handoff_ladder t l slot) = handoff_rank t l slot"
  "ld_tolerated (handoff_ladder t l slot) c \<longleftrightarrow> c = OcAttach l"
  "ld_phases (handoff_ladder t l slot) = handoff_phases"
  "ld_certifies (handoff_ladder t l slot) k = (if k = 0 then 0 else k + 1)"
  "ld_total (handoff_ladder t l slot) = 8"
  by (simp_all add: handoff_ladder_def)

lemma handoff_phases_length [simp]: "length handoff_phases = 8"
  by (simp add: handoff_phases_def)

interpretation hd: phase_ladder "handoff_ladder t l slot" for t l slot
  by unfold_locales (simp_all add: handoff_rank_def)

abbreviation hladder :: "node_config \<Rightarrow> node_config \<Rightarrow> string \<Rightarrow> ladder" where
  "hladder target loc slot \<equiv> handoff_ladder (nc_id target) (nc_id loc) slot"

lemma wp_handoff_journal:
  assumes "ladder_at (hladder t l slot) i p k n w" and "k' < 8" "ph = handoff_phases ! k'" "(if k' = 0 then 0 else k' + 1) \<le> n"
    and "\<And>w'. ladder_at (hladder t l slot) i p k' n w' \<Longrightarrow> Q () w'"
    and "\<And>x w'. live (hladder t l slot) i p w' \<Longrightarrow> X x w'"
  shows "orch_wp (handoff_journal e i ph) Q X w"
  unfolding handoff_journal_def using assms by (intro hd.wp_try_phase [OF assms(1), of k']) simp_all

text \<open>A stage of one step and its phase.\<close>

lemma wp_handoff_step:
  assumes "ladder_at (hladder t l slot) i p k n w" and "handoff_rank (nc_id t) (nc_id l) slot c = Some n"
    and "Suc k < 8" "ph = handoff_phases ! Suc k" "Suc (Suc k) \<le> Suc n"
    and "\<And>w'. ladder_at (hladder t l slot) i p (Suc k) (Suc n) w' \<Longrightarrow> Q () w'"
    and "\<And>x w'. live (hladder t l slot) i p w' \<Longrightarrow> X x w'"
  shows "orch_wp (orch_seq (orch_try (orch_do e c) f) (handoff_journal e i ph)) Q X w"
  unfolding wp_seq
proof (rule hd.wp_try_step [OF assms(1)])
  show "ld_rank (hladder t l slot) c = Some n" using assms(2) by simp
  show "orch_wp (handoff_journal e i ph) Q X w'" if "ladder_at (hladder t l slot) i p k (Suc n) w'" for w'
    using assms(3-5) by (intro wp_handoff_journal [OF that]) (auto intro: assms(6,7))
qed (rule assms(7))

lemma wp_handoff_promote:
  assumes "ladder_at (hladder t l slot) i p 0 0 w"
    and "\<And>w'. ladder_at (hladder t l slot) i p 1 2 w' \<Longrightarrow> Q () w'"
    and "\<And>x w'. live (hladder t l slot) i p w' \<Longrightarrow> X x w'"
  shows "orch_wp (handoff_promote e i t) Q X w"
proof -
  have "orch_wp (orch_seq (orch_try (orch_do e (OcPeerPromote (nc_id t))) f) (handoff_journal e i ''target_promoted'')) Q X v"
    if "ladder_at (hladder t l slot) i p 0 1 v" for v f
    using assms(2,3) that
    by (intro wp_handoff_step [OF that]) (simp_all add: handoff_rank_def handoff_phases_def eval_nat_numeral)
  thus ?thesis
    unfolding handoff_promote_def wp_seq [of "orch_try (orch_do e OcCheckpoint) _"]
    using assms(3) by (intro hd.wp_try_step [OF assms(1)]) (simp_all add: handoff_rank_def)
qed

lemma wp_handoff_basebackup:
  assumes "ladder_at (hladder t l slot) i p 3 4 w"
    and "\<And>w'. ladder_at (hladder t l slot) i p 3 5 w' \<Longrightarrow> Q True w'"
    and "\<And>x w'. ladder_ok (hladder t l slot) i p w' \<Longrightarrow> X x w'"
  shows "orch_wp (handoff_basebackup e i t l slot) Q X w"
proof -
  have ab: "orch_wp (journal_abandon e i m) (\<lambda>_. X y) X v" if "ladder_at (hladder t l slot) i p 3 4 v" for v m y
    by (rule hd.wp_abandon [OF that]) (auto intro: assms(3) ladder_at_ok [OF that])
  have "orch_wp (orch_do e (OcPeerDropSlot (nc_id t) slot)) (\<lambda>_. orch_wp (journal_abandon e i m) (\<lambda>_. X y) X) X v"
    if "ladder_at (hladder t l slot) i p 3 4 v" for v m y
    by (rule hd.wp_unranked [OF that]) (auto simp: handoff_rank_def intro: ab assms(3) ladder_at_ok [OF that])
  thus ?thesis
    unfolding handoff_basebackup_def wp_bind
    by (intro hd.wp_step [OF assms(1)])
      (auto simp: handoff_rank_def wp_return wp_bind wp_finish intro: assms(2,3) ladder_at_ok [OF assms(1)])
qed

lemma wp_handoff_copy:
  assumes "ladder_at (hladder t l slot) i p 3 4 w"
    and "\<And>b w'. ladder_at (hladder t l slot) i p 4 5 w' \<Longrightarrow> Q b w'"
    and "\<And>x w'. ladder_ok (hladder t l slot) i p w' \<Longrightarrow> X x w'"
  shows "orch_wp (handoff_copy e i t l slot) Q X w"
proof -
  have j: "orch_wp (handoff_journal e i ''data_copied'') (\<lambda>_. Q b) X v"
    if "ladder_at (hladder t l slot) i p 3 5 v" for v b
    by (intro wp_handoff_journal [OF that, of 4]) (auto simp: handoff_phases_def intro: assms(2,3) live_ok)
  show ?thesis
    unfolding handoff_copy_def wp_bind wp_seq wp_return
    by (intro hd.wp_step [OF assms(1)])
      (auto simp: handoff_rank_def wp_return intro: j assms(3) ladder_at_ok [OF assms(1)] wp_handoff_basebackup)
qed

lemma wp_handoff_attach:
  assumes "ladder_at (hladder t l slot) i p 6 7 w"
    and "\<And>b w'. ladder_at (hladder t l slot) i p 7 8 w' \<Longrightarrow> Q b w'"
    and "\<And>x w'. ladder_ok (hladder t l slot) i p w' \<Longrightarrow> X x w'"
  shows "orch_wp (handoff_attach e i l) Q X w"
proof -
  have "orch_wp (handoff_journal e i ''attached'') (\<lambda>_. Q b) X v"
    if "ladder_at (hladder t l slot) i p 6 8 v" for v b
    by (intro wp_handoff_journal [OF that, of 7]) (auto simp: handoff_phases_def intro: assms(2,3) live_ok)
  thus ?thesis
    unfolding handoff_attach_def wp_bind wp_seq wp_return
    by (intro hd.wp_step [OF assms(1)])
      (auto simp: handoff_rank_def intro: assms(3) ladder_at_ok [OF assms(1)])
qed

text \<open>The outcome of a run: the entry true, and finished when the answer is a success.\<close>

definition handoff_done :: "ladder \<Rightarrow> string \<Rightarrow> inflight_payload \<Rightarrow> orch_world \<Rightarrow> bool" where
  "handoff_done L i p w \<longleftrightarrow> ladder_ok L i p w \<and> achieved_below (ld_rank L) (ld_tolerated L) (ow_events w) (ld_total L) \<and>
     (\<exists>op. get_op i (ow_journal w) = Inr op \<and> op_status op = Done)"

lemma wp_handoff_rebuild:
  assumes at: "ladder_at (hladder t l slot) i p (max s 3) (max s 3 + 1) w" and "s \<le> 7"
    and fin: "\<And>r w'. handoff_done (hladder t l slot) i p w' \<Longrightarrow> Q r w'"
    and exits: "\<And>x w'. ladder_ok (hladder t l slot) i p w' \<Longrightarrow> X x w'"
  shows "orch_wp (handoff_rebuild e i s t l slot) Q X w"
proof -
  let ?P = "\<lambda>k. ladder_at (hladder t l slot) i p k (k + 1)"
  have r3: "orch_wp (handoff_copy e i t l slot) R X v" if "?P 3 v" "\<And>b w'. ?P (Suc 3) w' \<Longrightarrow> R b w'" for R v
    using that exits by (intro wp_handoff_copy) (simp_all add: eval_nat_numeral)
  have r4: "orch_wp (handoff_configure e i t slot) R X v" if "?P 4 v" "\<And>w'. ?P (Suc 4) w' \<Longrightarrow> R () w'" for R v
    unfolding handoff_configure_def using that exits
    by (intro wp_handoff_step [of t l slot i p 4 5])
      (simp_all add: handoff_rank_def handoff_phases_def live_ok eval_nat_numeral)
  have r5: "orch_wp (handoff_start e i) R X v" if "?P 5 v" "\<And>w'. ?P (Suc 5) w' \<Longrightarrow> R () w'" for R v
    unfolding handoff_start_def using that exits
    by (intro wp_handoff_step [of t l slot i p 5 6])
      (simp_all add: handoff_rank_def handoff_phases_def live_ok eval_nat_numeral)
  have r6: "orch_wp (handoff_attach e i l) R X v" if "?P 6 v" "\<And>b w'. ?P (Suc 6) w' \<Longrightarrow> R b w'" for R v
    using that exits by (intro wp_handoff_attach) (simp_all add: eval_nat_numeral)
  have c: "orch_wp (orch_try (journal_complete e i) f) (\<lambda>_. Q r) X v" if "?P (max s (Suc 6)) v" for v f r
  proof -
    have a: "ladder_at (hladder t l slot) i p 7 8 v" using that \<open>s \<le> 7\<close> by (simp add: max_def eval_nat_numeral split: if_splits)
    show ?thesis unfolding wp_try
      by (rule hd.wp_complete [OF a]) (auto simp: handoff_done_def intro: fin exits ladder_at_ok ladder_at_ok [OF a])
  qed
  show ?thesis
    unfolding handoff_rebuild_def Let_def wp_bind wp_seq wp_return
    apply (rule wp_rung_value [where P = ?P, OF at r3], assumption, assumption)
    apply (rule wp_rung [where P = ?P, OF _ r4], simp, assumption, assumption)
    apply (rule wp_rung [where P = ?P, OF _ r5], simp, assumption, assumption)
    apply (rule wp_rung_value [where P = ?P, OF _ r6], simp, assumption, assumption)
    by (rule c)
qed

lemma wp_run_handoff:
  assumes at: "ladder_at (hladder t l slot) i p s (if s = 0 then 0 else s + 1) w"
    and ph: "handoff_phase_index ph = Some s"
    and fin: "\<And>r w'. handoff_done (hladder t l slot) i p w' \<Longrightarrow> Q r w'"
    and exits: "\<And>x w'. ladder_ok (hladder t l slot) i p w' \<Longrightarrow> X x w'"
  shows "orch_wp (run_handoff_from_phase e i ph t l slot) Q X w"
proof -
  let ?P = "\<lambda>k. ladder_at (hladder t l slot) i p k (if k = 0 then 0 else k + 1)"
  from phase_index_nth(1) [OF ph [unfolded handoff_phase_index_def]] have s: "s \<le> 7" by simp
  have ex: "X x w'" if "live (hladder t l slot) i p w'" for x w' by (rule exits [OF live_ok [OF that]])
  have r0: "orch_wp (handoff_promote e i t) R X v" if "?P 0 v" "\<And>w'. ?P (Suc 0) w' \<Longrightarrow> R () w'" for R v
    using that ex by (intro wp_handoff_promote [of t l slot i p]) (simp_all add: eval_nat_numeral)
  have r1: "orch_wp (handoff_create_slot e i t slot) R X v" if "?P 1 v" "\<And>w'. ?P (Suc 1) w' \<Longrightarrow> R () w'" for R v
    unfolding handoff_create_slot_def using that exits
    by (intro wp_handoff_step [of t l slot i p 1 2])
      (simp_all add: handoff_rank_def handoff_phases_def live_ok eval_nat_numeral)
  have r2: "orch_wp (handoff_stop e i) R X v" if "?P 2 v" "\<And>w'. ?P (Suc 2) w' \<Longrightarrow> R () w'" for R v
    unfolding handoff_stop_def using that exits
    by (intro wp_handoff_step [of t l slot i p 2 3])
      (simp_all add: handoff_rank_def handoff_phases_def live_ok eval_nat_numeral)
  have rest: "orch_wp (handoff_rebuild e i s t l slot) Q X v" if "?P (max s (Suc 2)) v" for v
    using that s fin exits by (intro wp_handoff_rebuild) (simp_all add: eval_nat_numeral)
  have "?P (max s 0) w" using at by (cases "s = 0") simp_all
  note rung = wp_rung [where P = ?P, OF this r0]
  show ?thesis
    unfolding run_handoff_from_phase_def ph option.case wp_seq
    apply (rule rung, assumption, assumption)
    apply (rule wp_rung [where P = ?P, OF _ r1], simp, assumption, assumption)
    apply (rule wp_rung [where P = ?P, OF _ r2], simp add: numeral_2_eq_2, assumption, assumption)
    by (rule rest)
qed

lemma handoff_phase_index_nth: "k < 8 \<Longrightarrow> handoff_phase_index (handoff_phases ! k) = Some k"
  by (simp add: handoff_phase_index_def phase_index_def handoff_phases_def less_Suc_eq eval_nat_numeral) (elim disjE; simp)

lemma handoff_in_progress_at:
  assumes "ladder_ok (handoff_ladder t l slot) i p w" and "get_op i (ow_journal w) = Inr op" "op_status op = InProgress"
  obtains s where "handoff_phase_index (op_phase op) = Some s"
    "ladder_at (handoff_ladder t l slot) i p s (if s = 0 then 0 else s + 1) w"
proof -
  from assms obtain s where "s < 8" "op_phase op = handoff_phases ! s"
    "achieved_below (handoff_rank t l slot) (ld_tolerated (handoff_ladder t l slot)) (ow_events w) (if s = 0 then 0 else s + 1)"
    by (auto simp: ladder_ok_def list_ex_iff)
  with assms handoff_phase_index_nth [of s] show thesis
    by (intro that [of s]) (auto simp: ladder_at_def ladder_ok_def split: if_splits)
qed

lemma local_node_id: "local_node pl = Inr n \<Longrightarrow> nc_id n = np_local_node_id pl"
  by (auto simp: local_node_def node_by_id_def dest: find_by_id_Inr split: if_splits)

text \<open>The verification before a resume reads only.\<close>

lemma wp_verify:
  assumes "\<And>d. Q d w" and "\<And>x. X x w"
  shows "orch_wp (verify_handoff_state e ph target) Q X w"
  unfolding verify_handoff_state_def using assms by (simp add: orch_wps split: sum.split)

lemma wp_resume_handoff:
  assumes ok: "ladder_ok (handoff_ladder t l slot) i p w" and p: "p = Handoff l t host slot lag"
    and op: "get_op i (ow_journal w) = Inr op" "op_status op = InProgress" "op_id op = i"
    and exits: "\<And>x w'. ladder_ok (handoff_ladder t l slot) i p w' \<Longrightarrow> X x w'"
  shows "orch_wp (resume_handoff e op) Q X w"
proof -
  have pay: "op_payload op = Handoff l t host slot lag" using ok op p by (simp add: ladder_ok_def)
  obtain s where s: "handoff_phase_index (op_phase op) = Some s"
    "ladder_at (handoff_ladder t l slot) i p s (if s = 0 then 0 else s + 1) w"
    by (rule handoff_in_progress_at [OF ok op(1,2)])
  have run: "orch_wp (run_handoff_from_phase e i (op_phase op) target loc slot) (\<lambda>r. X (Finished (Inr r))) X w"
    if "nc_id target = t" "nc_id loc = l" for target loc
    using s exits that
    by (intro wp_run_handoff [of target loc slot i p s]) (auto simp: handoff_done_def)
  have ids: "node_by_id (oe_pool e) t = Inr target \<Longrightarrow> nc_id target = t" for target
    by (simp add: node_by_id_def find_by_id_Inr)
  show ?thesis
    unfolding resume_handoff_def pay inflight_payload.case op(3)
    using exits [OF ok] run ids
    by (auto simp: orch_wps intro!: wp_verify split: sum.split option.split)
qed

section \<open>Over crashes and resumptions\<close>

text \<open>What an operator may do about an operation that stopped half-way.\<close>

datatype op_command = OpResume orch_env | OpAbandon orch_env string

fun run_command :: "string \<Rightarrow> op_command \<Rightarrow> orch_world \<Rightarrow> orch_world" where
  "run_command i (OpResume e) w = snd (resume_inflight_op e i w)"
| "run_command i (OpAbandon e reason) w = snd (abandon_inflight_op e i reason w)"

lemma get_op_id:
  assumes "filed op_id (is_dir j)" and "get_op i j = Inr op"
  shows "op_id op = i" "i \<noteq> []"
proof -
  from assms(2) have d: "i \<noteq> []" "map_of (is_dir j) (json_name i) = Some (Inr op)"
    by (auto simp: get_op_def get_doc_def read_one_def split: if_splits option.splits)
  with filedD [OF assms(1), of "json_name i" op] show "op_id op = i" "i \<noteq> []" by simp_all
qed

lemma run_command_true:
  assumes "ladder_ok (handoff_ladder t l slot) i p w" and "p = Handoff l t host slot lag"
  shows "ladder_ok (handoff_ladder t l slot) i p (run_command i c w)"
proof -
  let ?P = "ladder_ok (handoff_ladder t l slot) i p"
  from assms(1) obtain op where op: "get_op i (ow_journal w) = Inr op" "op_payload op = p"
    and f: "filed op_id (is_dir (ow_journal w))" by (auto simp: ladder_ok_def split: sum.splits)
  note i = get_op_id [OF f op(1)]
  show ?thesis
  proof (cases c)
    case (OpResume e)
    have "orch_wp (resume_inflight_op e i) (\<lambda>_. ?P) (\<lambda>_. ?P) w"
      using assms i op
      by (auto simp: resume_inflight_op_def orch_wps intro!: wp_resume_handoff [OF assms(1,2) op(1) _ i(1)])
    with OpResume show ?thesis by (auto dest: orch_wp_snd)
  next
    case (OpAbandon e reason)
    have "orch_wp (journal_abandon e i m) (\<lambda>_. ?P) (\<lambda>_. ?P) w" if st: "op_status op = InProgress" for m
    proof -
      obtain s where "ladder_at (handoff_ladder t l slot) i p s (if s = 0 then 0 else s + 1) w"
        by (rule handoff_in_progress_at [OF assms(1) op(1) st])
      thus ?thesis using assms(1) by (intro hd.wp_abandon) simp_all
    qed
    hence "orch_wp (abandon_inflight_op e i reason) (\<lambda>_. ?P) (\<lambda>_. ?P) w"
      using assms(1) i op by (auto simp: abandon_inflight_op_def orch_wps sum.case_eq_if)
    with OpAbandon show ?thesis by (auto dest: orch_wp_snd)
  qed
qed

lemma run_commands_true:
  assumes "p = Handoff l t host slot lag" and "ladder_ok (handoff_ladder t l slot) i p w"
  shows "ladder_ok (handoff_ladder t l slot) i p (fold (run_command i) cs w)"
  using assms(2) by (induction cs arbitrary: w) (simp_all add: run_command_true [OF _ assms(1)])

lemma handoff_id_apart: "make_id ''handoff'' now s \<noteq> make_id ''follow_primary'' now' s'"
proof -
  have "CHR ''h'' \<in> set (make_id ''handoff'' now s)" by (simp add: make_id_def)
  moreover have "CHR ''h'' \<notin> set (make_id ''follow_primary'' now' s')"
    using show_radix_chars [of 10 "nat (timestamp_nanos now')"] show_radix_chars [of 10 "nat (- timestamp_nanos now')"]
      show_radix_chars [of 10 "unat s'"] by (auto simp: make_id_def show_int_def show_nat_def)
  ultimately show ?thesis by metis
qed

text \<open>Spawning the rebases of the other standbys does not touch the entry of the handoff.\<close>

lemma wp_fan_out:
  assumes "handoff_done (handoff_ladder t l slot) i p w" and "i = make_id ''handoff'' now sq"
    and "\<And>a w'. handoff_done (handoff_ladder t l slot) i p w' \<Longrightarrow> Q a w'"
    and "\<And>x w'. handoff_done (handoff_ladder t l slot) i p w' \<Longrightarrow> X x w'"
  shows "orch_wp (fan_out_follow_primary e loc np ms) Q X w"
  using assms(1,3)
proof (induction ms arbitrary: w Q)
  case (Cons m ms)
  have keep: "handoff_done (handoff_ladder t l slot) i p (w\<lparr>ow_journal := j, ow_events := ow_events w @ [(OcBegin fp ph, b)]\<rparr>)"
    if "begin_op io n fp ph ex (ow_journal w) = (r, j)" "op_name fp = ''follow_primary''" for io n fp ph ex r j b
  proof -
    have f: "filed op_id (is_dir (ow_journal w))" using Cons.prems(1) by (simp add: handoff_done_def ladder_ok_def)
    have "i \<noteq> make_id (op_name fp) n (is_seq (ow_journal w))"
      using handoff_id_apart [of now sq n "is_seq (ow_journal w)"] assms(2) that(2) by simp
    note o = begin_other [OF f that(1) this]
    from Cons.prems(1) o show ?thesis
      by (auto simp: handoff_done_def ladder_ok_def in_order_snoc handoff_rank_def intro: achieved_below_snoc
          split: sum.splits inflight_status.splits)
  qed
  show ?case
    using Cons.prems(2) assms(4) [OF Cons.prems(1)] keep
    by (auto simp: orch_wps journal_begin_def wp_perform op_name_def intro!: Cons.IH Cons.prems(1) split: prod.split sum.split)
qed (simp add: orch_wps)

section \<open>What a handoff does\<close>

text \<open>The calls of one handoff: only the target is promoted, only the local node is rebuilt.\<close>

definition handoff_call :: "node_config \<Rightarrow> node_config \<Rightarrow> string \<Rightarrow> orch_call \<Rightarrow> bool" where
  "handoff_call target loc i c =
     (case c of
        OcCheckpoint \<Rightarrow> True
      | OcPeerPromote j \<Rightarrow> j = nc_id target
      | OcPeerCreateSlot j s \<Rightarrow> j = nc_id target \<and> s = slot_name loc
      | OcPeerDropSlot j s \<Rightarrow> j = nc_id target \<and> s = slot_name loc
      | OcStopLocal \<Rightarrow> True
      | OcRewindLocal ro \<Rightarrow> rwo_primary_host ro = nc_hostname target
      | OcBasebackupLocal bo \<Rightarrow> bbo_primary_host bo = nc_hostname target \<and> bbo_slot_name bo = slot_name loc
      | OcWriteConfLocal co \<Rightarrow> rco_primary_host co = nc_hostname target \<and> rco_slot_name co = slot_name loc
      | OcStartLocal \<Rightarrow> True
      | OcAttach j \<Rightarrow> j = nc_id loc
      | OcUpdatePhase k _ \<Rightarrow> k = i
      | OcComplete k \<Rightarrow> k = i
      | OcAbandon k _ \<Rightarrow> k = i
      | OcBegin p _ \<Rightarrow> op_name p = ''handoff'' \<or> op_name p = ''follow_primary''
      | _ \<Rightarrow> False)"

abbreviation h_only :: "node_config \<Rightarrow> node_config \<Rightarrow> string \<Rightarrow> nat \<Rightarrow> orch_world \<Rightarrow> bool" where
  "h_only t l i \<equiv> only_calls (handoff_call t l i)"

lemma h_only_journal:
  assumes "h_only t l i base w" and "\<And>w'. h_only t l i base w' \<Longrightarrow> Q () w'" and "\<And>x w'. h_only t l i base w' \<Longrightarrow> X x w'"
  shows "orch_wp (handoff_journal e i ph) Q X w"
  unfolding handoff_journal_def wp_try journal_phase_def
  by (rule wp_only_perform [OF assms(1)]) (auto simp: handoff_call_def intro: assms(2,3) split: sum.split)

lemma h_only_do:
  assumes "h_only t l i base w" and "handoff_call t l i c"
    and "\<And>r w'. h_only t l i base w' \<Longrightarrow> Q r w'" and "\<And>x w'. h_only t l i base w' \<Longrightarrow> X x w'"
  shows "orch_wp (orch_do e c) Q X w"
  unfolding orch_do_def by (rule wp_only_perform [OF assms(1)]) (auto intro: assms)

lemma h_only_step:
  assumes "h_only t l i base w" and "handoff_call t l i c"
    and "\<And>w'. h_only t l i base w' \<Longrightarrow> Q () w'" and "\<And>x w'. h_only t l i base w' \<Longrightarrow> X x w'"
  shows "orch_wp (orch_seq (orch_try (orch_do e c) f) (handoff_journal e i ph)) Q X w"
  unfolding wp_seq wp_try
  by (rule h_only_do [OF assms(1,2)]) (auto intro: h_only_journal assms(3,4) split: sum.split)

lemma h_only_stages:
  assumes "h_only t l i base w" and X: "\<And>x w'. h_only t l i base w' \<Longrightarrow> X x w'"
  shows "(\<And>w'. h_only t l i base w' \<Longrightarrow> Q () w') \<Longrightarrow> orch_wp (handoff_promote e i t) Q X w"
    and "(\<And>w'. h_only t l i base w' \<Longrightarrow> Q () w') \<Longrightarrow> orch_wp (handoff_create_slot e i t (slot_name l)) Q X w"
    and "(\<And>w'. h_only t l i base w' \<Longrightarrow> Q () w') \<Longrightarrow> orch_wp (handoff_stop e i) Q X w"
    and "(\<And>w'. h_only t l i base w' \<Longrightarrow> Q () w') \<Longrightarrow> orch_wp (handoff_configure e i t (slot_name l)) Q X w"
    and "(\<And>w'. h_only t l i base w' \<Longrightarrow> Q () w') \<Longrightarrow> orch_wp (handoff_start e i) Q X w"
    and "(\<And>b w'. h_only t l i base w' \<Longrightarrow> R b w') \<Longrightarrow> orch_wp (handoff_attach e i l) R X w"
    and "(\<And>b w'. h_only t l i base w' \<Longrightarrow> S b w') \<Longrightarrow> orch_wp (handoff_basebackup e i t l (slot_name l)) S X w"
proof -
  note c = handoff_call_def conf_for_def basebackup_from_def
  show "orch_wp (handoff_promote e i t) Q X w" if "\<And>w'. h_only t l i base w' \<Longrightarrow> Q () w'"
    unfolding handoff_promote_def wp_seq [of "orch_try (orch_do e OcCheckpoint) _"] wp_try [of "orch_do e OcCheckpoint"]
    by (rule h_only_do [OF assms(1)]) (auto simp: c intro: X h_only_step that split: sum.split)
  show "orch_wp (handoff_create_slot e i t (slot_name l)) Q X w" if "\<And>w'. h_only t l i base w' \<Longrightarrow> Q () w'"
    unfolding handoff_create_slot_def by (rule h_only_step [OF assms(1)]) (auto simp: c intro: X that)
  show "orch_wp (handoff_stop e i) Q X w" if "\<And>w'. h_only t l i base w' \<Longrightarrow> Q () w'"
    unfolding handoff_stop_def by (rule h_only_step [OF assms(1)]) (auto simp: c intro: X that)
  show "orch_wp (handoff_configure e i t (slot_name l)) Q X w" if "\<And>w'. h_only t l i base w' \<Longrightarrow> Q () w'"
    unfolding handoff_configure_def by (rule h_only_step [OF assms(1)]) (auto simp: c intro: X that)
  show "orch_wp (handoff_start e i) Q X w" if "\<And>w'. h_only t l i base w' \<Longrightarrow> Q () w'"
    unfolding handoff_start_def by (rule h_only_step [OF assms(1)]) (auto simp: c intro: X that)
  show "orch_wp (handoff_attach e i l) R X w" if "\<And>b w'. h_only t l i base w' \<Longrightarrow> R b w'"
    unfolding handoff_attach_def wp_bind wp_seq wp_return
    by (rule h_only_do [OF assms(1)]) (auto simp: c intro: X h_only_journal that)
  have ab: "orch_wp (journal_abandon e i m) (\<lambda>_. X x) X v" if "h_only t l i base v" for m x v
    unfolding journal_abandon_def by (rule wp_only_perform [OF that]) (auto simp: c intro: X)
  show "orch_wp (handoff_basebackup e i t l (slot_name l)) S X w" if "\<And>b w'. h_only t l i base w' \<Longrightarrow> S b w'"
    unfolding handoff_basebackup_def wp_bind
    by (rule h_only_do [OF assms(1)]) (auto simp: c wp_bind wp_return wp_finish intro!: h_only_do ab intro: X that split: sum.split)
qed

lemma h_only_run:
  assumes "h_only t l i base w"
    and "\<And>r w'. h_only t l i base w' \<Longrightarrow> Q r w'" and "\<And>x w'. h_only t l i base w' \<Longrightarrow> X x w'"
  shows "orch_wp (run_handoff_from_phase e i ph t l (slot_name l)) Q X w"
proof (cases "handoff_phase_index ph")
  case (Some s)
  have copy: "orch_wp (handoff_copy e i t l (slot_name l)) R X v"
    if "h_only t l i base v" "\<And>b w'. h_only t l i base w' \<Longrightarrow> R b w'" for R v
    unfolding handoff_copy_def wp_bind wp_seq wp_return
    by (rule h_only_do [OF that(1)])
      (auto simp: handoff_call_def rewind_from_def wp_return intro!: h_only_stages h_only_journal intro: assms(3) that(2))
  have fin: "orch_wp (orch_try (journal_complete e i) f) (\<lambda>_. Q r) X v" if "h_only t l i base v" for f r v
    unfolding wp_try journal_complete_def
    by (rule wp_only_perform [OF that]) (auto simp: handoff_call_def intro: assms(2,3) split: sum.split)
  have "orch_wp (handoff_rebuild e i s t l (slot_name l)) Q X v" if "h_only t l i base v" for v
    unfolding handoff_rebuild_def wp_bind wp_seq wp_return wp_when wp_if using that
    by (auto simp: wp_return intro!: copy h_only_stages fin intro: assms(3))
  with assms show ?thesis
    unfolding run_handoff_from_phase_def Some option.case wp_seq wp_when
    by (auto intro!: h_only_stages)
qed (use assms in \<open>simp add: run_handoff_from_phase_def wp_finish\<close>)

text \<open>What the checks established, at the number \<open>n\<close> of calls made before.\<close>

definition lag_allowed :: "u64 \<Rightarrow> u64 \<Rightarrow> bool" where
  "lag_allowed local_lsn replay_lsn \<longleftrightarrow>
     local_lsn \<noteq> 0 \<and> replay_lsn \<noteq> 0 \<and> unat local_lsn \<le> unat replay_lsn + 16 * 1024 * 1024"

definition handoff_allowed :: "orch_env \<Rightarrow> nat \<Rightarrow> bool \<Rightarrow> node_config \<Rightarrow> node_config \<Rightarrow> bool" where
  "handoff_allowed e n allow_lag loc target \<longleftrightarrow>
     local_node (oe_pool e) = Inr loc \<and> node_by_id (oe_pool e) (nc_id target) = Inr target \<and>
     nc_id target \<noteq> nc_id loc \<and> oe_in_recovery e n = Inr False \<and>
     (case oe_status e n (nc_id target) of
        Inl _ \<Rightarrow> False
      | Inr st \<Rightarrow> is_postgres_running st \<and> is_in_recovery st \<and>
          (allow_lag \<or> (case oe_wal_lsn e n of Inl _ \<Rightarrow> False | Inr lsn \<Rightarrow> lag_allowed lsn (current_wal_lsn st))))"

lemma handoff_lag_refusal_None: "handoff_lag_refusal target l r = None \<longleftrightarrow> lag_allowed l r"
proof -
  have "unat (word_of_int max_handoff_lag_bytes :: u64) = 16 * 1024 * 1024"
    by (simp add: max_handoff_lag_bytes_def unat_word_ariths)
  hence "word_of_int max_handoff_lag_bytes < saturating_sub l r \<longleftrightarrow> 16 * 1024 * 1024 < unat (saturating_sub l r)"
    by (simp add: word_less_nat_alt)
  thus ?thesis
    by (auto simp: handoff_lag_refusal_def lag_allowed_def Let_def saturating_sub_def word_le_nat_alt unat_sub
        word_less_nat_alt split: if_splits)
qed

lemma wp_preflight:
  assumes "\<And>loc target. handoff_allowed e (length (ow_events w)) allow_lag loc target \<Longrightarrow> nc_id target = target_id \<Longrightarrow> Q (loc, target) w"
    and "\<And>x. X x w"
  shows "orch_wp (handoff_preflight e target_id allow_lag) Q X w"
proof -
  have rp: "orch_wp (handoff_replay e key) R X w" if "R () w" for R key
    unfolding handoff_replay_def using assms(2) that
    by (auto simp: orch_wps split: sum.split option.split inflight_status.split)
  show ?thesis
  proof (cases "local_node (oe_pool e)")
    case loc: (Inr loc)
    show ?thesis
    proof (cases "node_by_id (oe_pool e) target_id")
      case target: (Inr target)
      have "nc_id target = target_id" using target by (simp add: node_by_id_def find_by_id_Inr)
      moreover have "nc_id target \<noteq> nc_id loc" if "\<not> is_local (oe_pool e) target"
        using that local_node_id [OF loc] loc by (auto simp: is_local_def local_node_def split: if_splits)
      ultimately show ?thesis
        unfolding handoff_preflight_def loc target sum.case
        using assms target loc
        by (auto simp: orch_wps handoff_allowed_def handoff_lag_refusal_None intro!: rp split: sum.split option.split)
    qed (use assms(2) loc in \<open>auto simp: handoff_preflight_def orch_wps split: sum.split\<close>)
  qed (use assms(2) in \<open>auto simp: handoff_preflight_def orch_wps split: sum.split\<close>)
qed

lemma h_only_fan_out:
  assumes "h_only t l i base w" and "\<And>a w'. h_only t l i base w' \<Longrightarrow> Q a w'" and "\<And>x w'. h_only t l i base w' \<Longrightarrow> X x w'"
  shows "orch_wp (fan_out_follow_primary e loc np ms) Q X w"
  using assms(1,2)
proof (induction ms arbitrary: w Q)
  case (Cons m ms)
  show ?case
  proof (cases "nc_id m = nc_id loc \<or> nc_id m = nc_id np")
    case False
    hence d: "fan_out_follow_primary e loc np (m # ms) =
        orch_bind (journal_begin e (FollowPrimary (nc_id m) (nc_hostname m) (nc_id np) (nc_hostname np))
            ''queued'' False) (\<lambda>r.
          case r of
            Inl _ \<Rightarrow> fan_out_follow_primary e loc np ms
          | Inr op \<Rightarrow> orch_bind (fan_out_follow_primary e loc np ms) (\<lambda>tasks. orch_return ((op_id op, m) # tasks)))"
      by simp
    have c: "handoff_call t l i (OcBegin (FollowPrimary a b c' d') ph)" for a b c' d' ph
      by (simp add: handoff_call_def op_name_def)
    show ?thesis
      unfolding d wp_bind journal_begin_def
      by (rule wp_only_perform [OF Cons.prems(1) c])
        (auto simp: wp_bind wp_return intro: assms(3) Cons.prems(2) intro!: Cons.IH split: sum.split)
  qed (use Cons in simp)
qed (simp add: orch_wps)

text \<open>The begin of a fresh handoff, exclusive of every other operation in progress.\<close>

lemma begin_exclusive:
  assumes "begin_op io now p ph True j = (Inr op, j')"
  shows "list_all (\<lambda>o'. op_status o' \<noteq> InProgress) (map snd (entries (is_dir j)))"
  using assms
proof (cases rule: begin_cases)
  case (written w i op')
  thus ?thesis by (auto simp: begin_gate_open list_all_iff)
qed simp

text \<open>
  (C7) A handoff acts only when it may. Whatever the collaborators answer and wherever the process dies,
  a call of \<open>cluster_handoff\<close> other than a journal begin implies that all its checks passed: this node is
  not in recovery, the target is another member, was seen running as a standby, and is at most one WAL
  segment of 16 MiB behind with both positions known (or the operator allowed the lag); and that no
  other operation was in progress in the journal. The calls then promote only the target, create and
  drop only the slot of the local node on it, and rebuild only the local node, from the target.
\<close>

theorem handoff_acts_only_when_allowed:
  assumes "cluster_handoff e t allow_lag w = (x, w')"
    and "(c, b) \<in> set (calls_since (length (ow_events w)) w')" and "\<forall>p ph. c \<noteq> OcBegin p ph"
  shows "\<exists>loc target. handoff_allowed e (length (ow_events w)) allow_lag loc target \<and> nc_id target = t \<and>
    list_all (\<lambda>op. op_status op \<noteq> InProgress) (map snd (entries (is_dir (ow_journal w)))) \<and>
    handoff_call target loc (make_id ''handoff'' (oe_now e (length (ow_events w))) (is_seq (ow_journal w))) c"
proof -
  let ?N = "length (ow_events w)" and ?J = "ow_journal w"
  let ?i = "make_id ''handoff'' (oe_now e ?N) (is_seq ?J)"
  let ?idle = "list_all (\<lambda>op. op_status op \<noteq> InProgress) (map snd (entries (is_dir ?J)))"
  let ?good = "\<lambda>c. \<exists>loc target. handoff_allowed e ?N allow_lag loc target \<and> nc_id target = t \<and> ?idle \<and> handoff_call target loc ?i c"
  define G where "G = (\<lambda>v. \<forall>(c, b) \<in> set (calls_since ?N v). (\<exists>p ph. c = OcBegin p ph) \<or> ?good c)"
  have go: "orch_wp (run_handoff_from_phase e ?i ''preflight_done'' target loc (slot_name loc)) (\<lambda>resp.
      orch_wp (if or_ok resp then fan_out_follow_primary e loc target (np_members (oe_pool e)) else orch_return []) (\<lambda>_. G) (\<lambda>_. G)) (\<lambda>_. G) v"
    if a: "handoff_allowed e ?N allow_lag loc target" "nc_id target = t" ?idle and v: "h_only target loc ?i ?N v" for loc target v
  proof -
    have "G v'" if "h_only target loc ?i ?N v'" for v'
      using that a unfolding G_def by (fastforce simp: only_calls_def list_all_iff)
    with v show ?thesis by (intro h_only_run [OF v]) (auto simp: wp_return intro!: h_only_fan_out)
  qed
  have bg: "orch_wp (handoff_orchestrate e allow_lag loc target) (\<lambda>_. G) (\<lambda>_. G) w"
    if a: "handoff_allowed e ?N allow_lag loc target" "nc_id target = t" for loc target
  proof -
    let ?p = "Handoff (nc_id loc) (nc_id target) (nc_hostname target) (slot_name loc) allow_lag"
    have p: "op_name ?p = ''handoff''" by (simp add: op_name_def)
    obtain r j where b: "begin_op (oe_io e ?N) (oe_now e ?N) ?p ''preflight_done'' True ?J = (r, j)" by fastforce
    have "h_only target loc ?i ?N (w\<lparr>ow_journal := j, ow_events := ow_events w @ [(OcBegin ?p ''preflight_done'', True)]\<rparr>)"
      using p by (simp add: only_calls_def calls_since_def handoff_call_def)
    moreover have "op_id op = ?i" "?idle" if "r = Inr op" for op
      using b that p begin_exclusive by (auto simp: begin_op_def Let_def split: sum.splits prod.splits)
    ultimately show ?thesis
      unfolding handoff_orchestrate_def wp_bind wp_try wp_return journal_begin_def
      using go [OF a] b by (auto simp: wp_perform G_def calls_since_def split: sum.split)
  qed
  have "orch_wp (cluster_handoff e t allow_lag) (\<lambda>_. G) (\<lambda>_. G) w"
    unfolding cluster_handoff_def wp_bind by (rule wp_preflight) (simp_all add: bg, simp add: G_def calls_since_def)
  hence "G w'" using assms(1) by (auto simp: orch_wp_def split: sum.splits)
  with assms(2,3) show ?thesis unfolding G_def by fastforce
qed

lemma wp_orchestrate:
  assumes f: "filed op_id (is_dir (ow_journal w))" and ev: "ow_events w = []"
    and p: "p = Handoff (nc_id loc) (nc_id target) (nc_hostname target) (slot_name loc) allow_lag"
    and i: "i = make_id ''handoff'' (oe_now e 0) (is_seq (ow_journal w))"
  shows "orch_wp (handoff_orchestrate e allow_lag loc target)
    (\<lambda>_. handoff_done (hladder target loc (slot_name loc)) i p)
    (\<lambda>_ w'. ow_events w' = [] \<or> hd (ow_events w') = (OcBegin p ''preflight_done'', False) \<or>
      ladder_ok (hladder target loc (slot_name loc)) i p w') w"
proof -
  let ?L = "hladder target loc (slot_name loc)"
  let ?X = "\<lambda>_ w'. ow_events w' = [] \<or> hd (ow_events w') = (OcBegin p ''preflight_done'', False) \<or> ladder_ok ?L i p w'"
  obtain r j where b: "begin_op (oe_io e 0) (oe_now e 0) p ''preflight_done'' True (ow_journal w) = (r, j)" by fastforce
  have "orch_wp (run_handoff_from_phase e i ''preflight_done'' target loc (slot_name loc))
      (\<lambda>resp. orch_wp (if or_ok resp then fan_out_follow_primary e loc target (np_members (oe_pool e)) else orch_return [])
        (\<lambda>_. handoff_done ?L i p) ?X) ?X (w\<lparr>ow_journal := j, ow_events := [(OcBegin p ''preflight_done'', True)]\<rparr>)"
    if "r = Inr op" for op
  proof (rule wp_run_handoff [of _ _ _ _ p 0])
    let ?w = "w\<lparr>ow_journal := j, ow_events := [(OcBegin p ''preflight_done'', True)]\<rparr>"
    have "op_id op = i" using begin_written(6) [OF f b [unfolded that]] i p by (simp add: op_name_def)
    moreover have "ladder_at ?L (op_id op) p 0 0 ?w"
      using b [unfolded that]
      by (intro hd.at_begin [OF f]) (simp_all add: handoff_phases_def in_order_def handoff_rank_def)
    ultimately show "ladder_at ?L i p 0 (if 0 = (0::nat) then 0 else 0 + 1) ?w" by simp
    show "handoff_phase_index ''preflight_done'' = Some 0"
      by (simp add: handoff_phase_index_def phase_index_def handoff_phases_def)
    show "orch_wp (if or_ok resp then fan_out_follow_primary e loc target (np_members (oe_pool e)) else orch_return [])
        (\<lambda>_. handoff_done ?L i p) ?X w'" if "handoff_done ?L i p w'" for resp w'
      using that by (auto simp: wp_return handoff_done_def [of ?L i p] intro!: wp_fan_out [OF that i])
  qed simp
  moreover have "op_id op = i" if "r = Inr op" for op
    using begin_written(6) [OF f b [unfolded that]] i p by (simp add: op_name_def)
  ultimately show ?thesis
    unfolding handoff_orchestrate_def wp_bind wp_try wp_return journal_begin_def p [symmetric]
    using b ev by (auto simp: wp_perform split: sum.split)
qed

text \<open>
  (C6) A handoff survives crashes. A handoff that got as far as its journal entry, with any answers of
  the collaborators and the journal, cut off anywhere, and followed by any sequence of operator resumes
  (each again cut off anywhere) and abandons, keeps the journal true: while the entry is in progress its
  phase certifies that every step up to it was achieved; when it is done all eight steps were, from the
  checkpoint to the attach to pgpool; and no step was ever made before the ones it depends on: the old
  primary is stopped only after the target was promoted and the slot created, its data directory
  overwritten only after the stop, and it is started only with a configuration that follows the target.
  A handoff that reports success is done.
\<close>

theorem handoff_survives_crashes:
  assumes "journal_ok (ow_journal w)" and "ow_events w = []"
    and "local_node (oe_pool e) = Inr loc" "node_by_id (oe_pool e) (nc_id target) = Inr target"
    and "p = Handoff (nc_id loc) (nc_id target) (nc_hostname target) (slot_name loc) allow_lag"
    and "i = make_id ''handoff'' (oe_now e 0) (is_seq (ow_journal w))"
    and "cluster_handoff e (nc_id target) allow_lag w = (x, w1)"
    and "ow_events w1 = (OcBegin p ''preflight_done'', True) # evs"
  shows "ladder_ok (hladder target loc (slot_name loc)) i p (fold (run_command i) cs w1) \<and>
    (case x of Inr _ \<Rightarrow> handoff_done (hladder target loc (slot_name loc)) i p w1 | Inl _ \<Rightarrow> True)"
proof -
  let ?L = "hladder target loc (slot_name loc)"
  have f: "filed op_id (is_dir (ow_journal w))" using assms(1) by (simp add: journal_ok_def)
  let ?X = "\<lambda>_ w'. ow_events w' = [] \<or> hd (ow_events w') = (OcBegin p ''preflight_done'', False) \<or> ladder_ok ?L i p w'"
  have "orch_wp (cluster_handoff e (nc_id target) allow_lag) (\<lambda>_. handoff_done ?L i p) ?X w"
    unfolding cluster_handoff_def wp_bind
  proof (rule wp_preflight)
    fix l t assume a: "handoff_allowed e (length (ow_events w)) allow_lag l t" "nc_id t = nc_id target"
    with assms(3,4) have "l = loc" "t = target" by (auto simp: handoff_allowed_def)
    with wp_orchestrate [OF f assms(2,5,6)]
    show "orch_wp (case (l, t) of (loc, target) \<Rightarrow> handoff_orchestrate e allow_lag loc target)
        (\<lambda>_. handoff_done ?L i p) ?X w" by simp
  qed (use assms(2) in simp)
  with assms(7,8) have "ladder_ok ?L i p w1" and "case x of Inr _ \<Rightarrow> handoff_done ?L i p w1 | Inl _ \<Rightarrow> True"
    by (auto simp: orch_wp_def handoff_done_def split: sum.splits)
  with run_commands_true [OF assms(5), of i w1 cs] show ?thesis by simp
qed

text \<open>The process dies at its third call, when it is about to promote the target.\<close>

lemma ex_handoff_run:
  "\<exists>x w1. cluster_handoff (ex_orch_env (Some 2)) 1 False ex_orch_world = (x, w1) \<and>
     ow_events w1 = [(OcBegin (Handoff 0 1 ''db1'' ''node0'' False) ''preflight_done'', True), (OcCheckpoint, True)]"
  by (simp add: cluster_handoff_def handoff_preflight_def handoff_replay_def handoff_orchestrate_def
      run_handoff_from_phase_def handoff_promote_def orch_eval ex_orch_env_def ex_orch_world_def
      ex_handoff_pool_def ex_standby_status_def local_node_def node_by_id_def find_by_id_def is_local_def
      find_op_def read_all_def no_faults_def inflight_store_new_def entries_def List.map_filter_def
      begin_op_def write_atomic_def Let_def slot_name_def show_int_def show_digit digit_char_def char_of_def bit_0
      handoff_lag_refusal_def saturating_sub_def max_handoff_lag_bytes_def
      handoff_phase_index_def phase_index_def handoff_phases_def)

theorem handoff_survives_crashes_witness:
  "\<exists>x w1. cluster_handoff (ex_orch_env (Some 2)) 1 False ex_orch_world = (x, w1) \<and>
     ow_events w1 = [(OcBegin (Handoff 0 1 ''db1'' ''node0'' False) ''preflight_done'', True), (OcCheckpoint, True)] \<and>
     ladder_ok (handoff_ladder 1 0 ''node0'') (make_id ''handoff'' 5 0) (Handoff 0 1 ''db1'' ''node0'' False)
       (fold (run_command (make_id ''handoff'' 5 0)) [OpResume (ex_orch_env None)] w1)"
proof -
  obtain x w1 where r: "cluster_handoff (ex_orch_env (Some 2)) 1 False ex_orch_world = (x, w1)"
    "ow_events w1 = [(OcBegin (Handoff 0 1 ''db1'' ''node0'' False) ''preflight_done'', True), (OcCheckpoint, True)]"
    using ex_handoff_run by blast
  let ?loc = "\<lparr>nc_id = 0, nc_hostname = ''db0''\<rparr>" and ?t = "\<lparr>nc_id = 1, nc_hostname = ''db1''\<rparr>"
  have s: "slot_name ?loc = ''node0''" by (simp add: slot_name_def show_int_def show_digit digit_char_def char_of_def bit_0)
  have "ladder_ok (hladder ?t ?loc (slot_name ?loc)) (make_id ''handoff'' 5 0) (Handoff 0 1 ''db1'' ''node0'' False)
      (fold (run_command (make_id ''handoff'' 5 0)) [OpResume (ex_orch_env None)] w1) \<and>
    (case x of Inr _ \<Rightarrow> handoff_done (hladder ?t ?loc (slot_name ?loc)) (make_id ''handoff'' 5 0) (Handoff 0 1 ''db1'' ''node0'' False) w1 | Inl _ \<Rightarrow> True)"
    by (rule handoff_survives_crashes [of ex_orch_world "ex_orch_env (Some 2)" ?loc ?t _ False])
      (use r s in \<open>simp_all add: ex_orch_env_def ex_orch_world_def ex_handoff_pool_def local_node_def node_by_id_def
        find_by_id_def journal_ok_def filed_def dir_names_def single_flight_def entries_def List.map_filter_def inflight_store_new_def\<close>)
  with r s show ?thesis by simp
qed

theorem handoff_acts_only_when_allowed_witness:
  "\<exists>loc target. handoff_allowed (ex_orch_env (Some 2)) 0 False loc target \<and> nc_id target = 1 \<and>
    handoff_call target loc (make_id ''handoff'' 5 0) OcCheckpoint"
proof -
  obtain x w1 where r: "cluster_handoff (ex_orch_env (Some 2)) 1 False ex_orch_world = (x, w1)"
    "ow_events w1 = [(OcBegin (Handoff 0 1 ''db1'' ''node0'' False) ''preflight_done'', True), (OcCheckpoint, True)]"
    using ex_handoff_run by blast
  hence "(OcCheckpoint, True) \<in> set (calls_since (length (ow_events ex_orch_world)) w1)"
    by (simp add: calls_since_def ex_orch_world_def)
  from handoff_acts_only_when_allowed [OF r(1) this] show ?thesis
    by (auto simp: ex_orch_world_def ex_orch_env_def inflight_store_new_def)
qed

section \<open>Windows the journal does not see\<close>

text \<open>
  A process that dies between a step and its journal write leaves a phase behind the facts. After the
  promotion the resume finds the target promoted, takes that for the work of somebody else and refuses,
  for as long as the target stays primary.
\<close>

lemma resume_refuses_own_promotion:
  assumes "get_op i (ow_journal w) = Inr op" "op_status op = InProgress" "op_phase op = ''preflight_done''" "i \<noteq> []"
    and "op_payload op = Handoff (nc_id loc) (nc_id target) (nc_hostname target) slot allow_lag"
    and "local_node (oe_pool e) = Inr loc" "node_by_id (oe_pool e) (nc_id target) = Inr target"
    and "oe_dial e (length (ow_events w)) (nc_id target) = Inr ()"
    and "oe_status e (length (ow_events w)) (nc_id target) = Inr st" "\<not> is_in_recovery st"
  shows "\<exists>m. resume_inflight_op e i w = (Inl (Finished (refused m)), w)"
  using assms
  by (simp add: resume_inflight_op_def resume_handoff_def verify_handoff_state_def journal_get_def orch_eval)

text \<open>
  After the stop of a standby the resume of its rebase finds it stopped, takes that for the operator's
  decision and completes without starting it.
\<close>

lemma resume_skips_stopped_standby:
  assumes "flawless e" "running_op i w" "get_op i (ow_journal w) = Inr op" "op_phase op = ''dialing''" "op_id op = i" "i \<noteq> []"
    and "op_payload op = FollowPrimary (nc_id det) (nc_hostname det) (nc_id np) (nc_hostname np)"
    and "node_by_id (oe_pool e) (nc_id det) = Inr det" "node_by_id (oe_pool e) (nc_id np) = Inr np"
    and "\<And>n j. oe_dial e n j = Inr ()"
    and "oe_status e (length (ow_events w)) (nc_id det) = Inr st" "\<not> is_running st"
  shows "\<exists>w'. resume_inflight_op e i w =
      (Inl (Finished (succeeded (''follow_primary complete for '' @ nc_hostname det @ '' (resumed)''))), w') \<and>
    calls_since (length (ow_events w)) w' = [(OcComplete i, True)]"
proof -
  have d: "fp_phase_index ''dialing'' = Some 1" by (simp add: fp_phase_index_def phase_index_def fp_phases_def)
  have s: "op_status op = InProgress" and f: "filed op_id (is_dir (ow_journal w))"
    using assms(2,3) by (auto simp: running_op_def)
  obtain j' where "change_in no_faults i (Complete (oe_now e (length (ow_events w)))) (ow_journal w) = (Inr (), j')"
    using change_in_flawless [OF f assms(3), of "Complete _"] by (auto simp: change_op_def)
  thus ?thesis
    using assms(1,3-) s
    by (simp add: resume_inflight_op_def resume_follow_primary_def recorded_node_def drive_follow_primary_def fp_stop_def
        d journal_get_def orch_eval orch_catch_def journal_complete_def complete_op_def flawless_def calls_since_def)
qed

text \<open>
  A handoff whose journal says it was completed before is answered as done, whichever way the role went
  in between.
\<close>

lemma repeated_handoff_is_skipped:
  assumes "oe_in_recovery e (length (ow_events w)) = Inr False" "local_node (oe_pool e) = Inr loc"
    and "node_by_id (oe_pool e) t = Inr target" "\<not> is_local (oe_pool e) target"
    and "find_op (oe_io e (length (ow_events w))) ''handoff''
      (''from='' @ show_int (nc_id loc) @ '',to='' @ show_int (nc_id target)) (ow_journal w) = Inr (Some op)"
    and "op_status op = Done"
  shows "cluster_handoff e t allow_lag w =
    (Inl (Finished (succeeded ''cluster_handoff: already processed; skipping duplicate'')), w)"
  using assms by (simp add: cluster_handoff_def handoff_preflight_def handoff_replay_def orch_eval)

section \<open>It completes\<close>

lemma flawless_step:
  assumes "flawless e" and "running_op i w" and "\<And>w'. running_op i w' \<Longrightarrow> Q () w'"
  shows "orch_wp (handoff_journal e i ph) Q X w"
    and "orch_wp (orch_seq (orch_try (orch_do e c) f) (handoff_journal e i ph)) Q X w"
proof -
  have j: "orch_wp (handoff_journal e i ph) Q X v" if "running_op i v" for v
    unfolding handoff_journal_def wp_try using assms(3) by (intro flawless_phase [OF assms(1) that]) simp
  show "orch_wp (handoff_journal e i ph) Q X w" by (rule j [OF assms(2)])
  show "orch_wp (orch_seq (orch_try (orch_do e c) f) (handoff_journal e i ph)) Q X w"
    unfolding wp_seq wp_try by (rule flawless_do [OF assms(1,2)]) (simp add: j)
qed

lemma flawless_run:
  assumes fl: "flawless e" and "running_op i w" and "handoff_phase_index ph = Some s"
    and fin: "\<And>r w'. or_ok r \<Longrightarrow> filed op_id (is_dir (ow_journal w')) \<Longrightarrow> (\<exists>op. get_op i (ow_journal w') = Inr op \<and> op_status op = Done) \<Longrightarrow> Q r w'"
  shows "orch_wp (run_handoff_from_phase e i ph target loc slot) Q X w"
proof -
  let ?R = "\<lambda>_ :: nat. running_op i"
  have promote: "orch_wp (handoff_promote e i target) P X v" if "running_op i v" "\<And>w'. running_op i w' \<Longrightarrow> P () w'" for P v
    unfolding handoff_promote_def wp_seq [of "orch_try (orch_do e OcCheckpoint) _"] wp_try [of "orch_do e OcCheckpoint"]
    by (rule flawless_do [OF fl that(1)]) (simp add: flawless_step(2) [OF fl] that(2))
  have copy: "orch_wp (handoff_copy e i target loc slot) P X v" if "running_op i v" "\<And>b w'. running_op i w' \<Longrightarrow> P b w'" for P v
    unfolding handoff_copy_def wp_bind wp_seq wp_return
    by (rule flawless_do [OF fl that(1)]) (simp add: wp_return flawless_step(1) [OF fl] that(2))
  have attach: "orch_wp (handoff_attach e i loc) P X v" if "running_op i v" "\<And>b w'. running_op i w' \<Longrightarrow> P b w'" for P v
    unfolding handoff_attach_def wp_bind wp_seq wp_return
    by (rule flawless_do [OF fl that(1)]) (simp add: flawless_step(1) [OF fl] that(2))
  have complete: "orch_wp (orch_try (journal_complete e i) f) (\<lambda>_. Q r) X v" if "running_op i v" "or_ok r" for f r v
    unfolding wp_try by (rule flawless_complete [OF fl that(1)]) (simp add: fin that(2))
  note st = flawless_step(2) [OF fl]
  have "orch_wp (handoff_rebuild e i s target loc slot) Q X v" if "running_op i v" for v
    unfolding handoff_rebuild_def wp_bind wp_seq wp_return handoff_configure_def handoff_start_def
    apply (rule wp_rung_value [where P = ?R, OF that copy], assumption, assumption)
    apply (rule wp_rung [where P = ?R, OF _ st], assumption, assumption, assumption)
    apply (rule wp_rung [where P = ?R, OF _ st], assumption, assumption, assumption)
    apply (rule wp_rung_value [where P = ?R, OF _ attach], assumption, assumption, assumption)
    by (rule complete) simp_all
  note rebuild = this
  show ?thesis
    unfolding run_handoff_from_phase_def assms(3) option.case wp_seq handoff_create_slot_def handoff_stop_def
    apply (rule wp_rung [where P = ?R, OF assms(2) promote], assumption, assumption)
    apply (rule wp_rung [where P = ?R, OF _ st], assumption, assumption, assumption)
    apply (rule wp_rung [where P = ?R, OF _ st], assumption, assumption, assumption)
    by (rule rebuild)
qed

lemma flawless_fan_out:
  assumes "flawless e" and "i = make_id ''handoff'' now sq" and "filed op_id (is_dir (ow_journal w))"
    and "\<exists>op. get_op i (ow_journal w) = Inr op \<and> op_status op = Done"
    and "\<And>a w'. (\<exists>op. get_op i (ow_journal w') = Inr op \<and> op_status op = Done) \<Longrightarrow> Q a w'"
  shows "orch_wp (fan_out_follow_primary e loc np ms) Q X w"
  using assms(3-5)
proof (induction ms arbitrary: w Q)
  case (Cons m ms)
  let ?p = "FollowPrimary (nc_id m) (nc_hostname m) (nc_id np) (nc_hostname np)"
  have b: "filed op_id (is_dir j) \<and> get_op i j = get_op i (ow_journal w)"
    if "begin_op no_faults n ?p ph ex (ow_journal w) = (r, j)" for n ph ex r j
    using begin_other [OF Cons.prems(1) that, of i] handoff_id_apart [of now sq] assms(2) by (simp add: op_name_def)
  show ?case
    using Cons.prems b assms(1)
    by (auto simp: orch_wps journal_begin_def wp_perform flawless_def intro!: Cons.IH split: prod.split sum.split)
qed (simp add: orch_wps)

lemma begin_idle:
  assumes "list_all (\<lambda>op. op_status op \<noteq> InProgress) (map snd (entries (is_dir j)))"
  shows "\<exists>op j'. begin_op no_faults now p ph ex j = (Inr op, j')"
proof -
  have "begin_gate p ex (map snd (entries (is_dir j))) = Inr ()"
    using assms by (auto simp: begin_gate_open list_all_iff)
  thus ?thesis by (auto simp: begin_op_def read_all_def no_faults_def write_atomic_def Let_def split: sum.split)
qed

lemma flawless_preflight:
  assumes "handoff_allowed e (length (ow_events w)) allow_lag loc target"
    and "oe_dial e (length (ow_events w)) (nc_id target) = Inr ()"
    and "find_op (oe_io e (length (ow_events w))) ''handoff''
      (''from='' @ show_int (nc_id loc) @ '',to='' @ show_int (nc_id target)) (ow_journal w) = Inr None"
    and "Q (loc, target) w"
  shows "orch_wp (handoff_preflight e (nc_id target) allow_lag) Q X w"
proof -
  have loc: "local_node (oe_pool e) = Inr loc" and t: "node_by_id (oe_pool e) (nc_id target) = Inr target"
    and r: "oe_in_recovery e (length (ow_events w)) = Inr False" and ne: "nc_id target \<noteq> nc_id loc"
    using assms(1) by (auto simp: handoff_allowed_def)
  have "\<not> is_local (oe_pool e) target" using ne local_node_id [OF loc] by (auto simp: is_local_def)
  moreover obtain st where "oe_status e (length (ow_events w)) (nc_id target) = Inr st"
    "is_postgres_running st" "is_in_recovery st"
    "allow_lag \<or> (\<exists>l. oe_wal_lsn e (length (ow_events w)) = Inr l \<and> handoff_lag_refusal target l (current_wal_lsn st) = None)"
    using assms(1) by (auto simp: handoff_allowed_def handoff_lag_refusal_None split: sum.splits)
  ultimately show ?thesis
    unfolding handoff_preflight_def loc t sum.case handoff_replay_def journal_find_def
    using assms(2-4) r by (auto simp: orch_wps orch_wp_def)
qed



end
