(* ===== verification/Hooks.thy ===== *)
theory Hooks
  imports Rebase
begin

text \<open>
  The hooks of pgpool that the local server answers (\<open>failover\<close>, \<open>follow_primary\<close>, \<open>recovery_first_stage\<close>,
  \<open>remote_start\<close>, \<open>escalation\<close> in \<open>crates/pg-agent-core/src/localserver.rs\<close>) and the operator's \<open>allow_async\<close>
  and \<open>retry_maintenance\<close>. Every handler ends with a reply.
\<close>

section \<open>What the hooks share\<close>

definition required_ref :: "string \<Rightarrow> string \<Rightarrow> node_ref option \<Rightarrow> (reply, node_ref) orch" where
  "required_ref op role r =
     (case r of
        None \<Rightarrow> orch_finish (Inl (InvalidArgument (op @ '': '' @ role @ '' is required'')))
      | Some r \<Rightarrow> orch_return r)"

definition resolved ::
  "string \<Rightarrow> string \<Rightarrow> (agent_error, node_config) result \<Rightarrow> (reply, node_config) orch" where
  "resolved op role r =
     (case r of
        Inl err \<Rightarrow> orch_finish (Inl (InvalidArgument (op @ '': '' @ role @ '': '' @ show_agent_error err)))
      | Inr n \<Rightarrow> orch_return n)"

text \<open>A hook that was processed before is answered without work.\<close>

definition replay_check :: "orch_env \<Rightarrow> string \<Rightarrow> string \<Rightarrow> (reply, unit) orch" where
  "replay_check e op key =
     orch_bind (marker_has e op key) (\<lambda>r.
       case r of
         Inr True \<Rightarrow> orch_finish (succeeded (op @ '': already processed; skipping duplicate''))
       | Inr False \<Rightarrow> orch_return ()
       | Inl m \<Rightarrow> orch_finish (internal (op @ '': idempotency marker check: '' @ m)))"

text \<open>The journal's owner of a node; a completed one is discharged when the slot is in use.\<close>

definition inflight_owner_of :: "orch_env \<Rightarrow> i32 \<Rightarrow> ('x, inflight_op option) orch" where
  "inflight_owner_of e i =
     (let slot = ''node'' @ show_int i in
      orch_bind (orch_perform e (OcConsult slot) (\<lambda>n w.
          case owner_of_slot_observing (oe_io e n) (oe_now e n) slot cross_op_grace (oe_slot_active e n slot)
              (ow_journal w) of
            (own, j) \<Rightarrow> (Inr own :: (string, inflight_op option) result, w\<lparr>ow_journal := j\<rparr>)))
        (\<lambda>r. orch_return (case r of Inr own \<Rightarrow> own | Inl _ \<Rightarrow> None)))"

section \<open>failover\<close>

definition failover_key :: "node_ref \<Rightarrow> node_ref \<Rightarrow> node_ref \<Rightarrow> string" where
  "failover_key detached new_main old_primary =
     ''detached='' @ show_int (ref_id detached) @ '',new_main='' @ show_int (ref_id new_main) @
     '',old_primary='' @ show_int (ref_id old_primary)"

text \<open>Drop the slot of a standby that is down, unless an operation owns it or it is seen streaming.\<close>

definition standby_down :: "orch_env \<Rightarrow> string \<Rightarrow> node_config \<Rightarrow> node_config \<Rightarrow> (reply, unit) orch" where
  "standby_down e key detached old_primary =
     (let slot = slot_name detached in
      orch_bind (inflight_owner_of e (nc_id detached)) (\<lambda>owner.
      case owner of
        Some own \<Rightarrow>
          write_replay_marker_then_ok e ''failover'' key
            (''standby failover: slot '' @ slot @ '' retained '' @ [CHR 0xE2, CHR 0x80, CHR 0x94] @ '' in-flight '' @
             op_name (op_payload own) @ '' (id='' @ op_id own @ '', phase='' @ op_phase own @ '') owns node '' @
             show_int (nc_id detached))
      | None \<Rightarrow>
      orch_bind calls_made (\<lambda>n.
      case validate_cluster_preconditions (oe_dial e n (nc_id detached)) (oe_status e n (nc_id detached))
          (oe_in_time e n) (DropSlotBecauseStandbyDown detached) of
        PreRefuse m \<Rightarrow> orch_finish (refused m)
      | _ \<Rightarrow>
      orch_bind (orch_bind (orch_do e (OcDropSlot slot)) (\<lambda>r.
          case r of
            Inr _ \<Rightarrow> orch_return (''standby failover: slot '' @ slot @ '' dropped'')
          | Inl m \<Rightarrow> queue_drop_slot_cleanup e slot (nc_hostname old_primary) ''standby_down_local_drop_error'' m))
        (\<lambda>message. write_replay_marker_then_ok e ''failover'' key message))))"

definition failover ::
  "orch_env \<Rightarrow> node_ref option \<Rightarrow> node_ref option \<Rightarrow> node_ref option \<Rightarrow> (reply, unit) orch" where
  "failover e detached_ref new_main_ref old_primary_ref =
     orch_bind (required_ref ''failover'' ''detached'' detached_ref) (\<lambda>d.
     orch_bind (required_ref ''failover'' ''new_main'' new_main_ref) (\<lambda>nm.
     orch_bind (required_ref ''failover'' ''old_primary'' old_primary_ref) (\<lambda>op.
     if ref_id nm = -1 then orch_finish (refused ''no standby candidates available'')
     else if ref_id d = ref_id op then
       orch_finish (succeeded (''failover: advisory '' @ [CHR 0xE2, CHR 0x80, CHR 0x94] @
         '' lease-driven roles; pgpool announced '' @ ref_hostname d @ '' down (pick '' @ ref_hostname nm @
         ''), promotion is the HA loop's decision''))
     else
     orch_seq (replay_check e ''failover'' (failover_key d nm op))
     (orch_bind (resolved ''failover'' ''detached'' (resolve_node (oe_pool e) d)) (\<lambda>detached.
      orch_bind (resolved ''failover'' ''new_main'' (resolve_node (oe_pool e) nm)) (\<lambda>_.
      orch_bind (resolved ''failover'' ''old_primary'' (resolve_node (oe_pool e) op)) (\<lambda>old_primary.
        standby_down e (failover_key d nm op) detached old_primary)))))))"

section \<open>follow_primary\<close>

definition hook_or_cleanup ::
  "orch_env \<Rightarrow> string \<Rightarrow> string \<Rightarrow> orch_call \<Rightarrow> string \<Rightarrow> string \<Rightarrow> (reply, unit) orch" where
  "hook_or_cleanup e slot host c what cause =
     orch_bind (orch_do e c) (\<lambda>r.
       case r of
         Inr _ \<Rightarrow> orch_return ()
       | Inl m \<Rightarrow> orch_seq (cleanup_slot_after_failure e slot host cause) (orch_finish (internal (what @ '': '' @ m))))"

text \<open>From the stop of the standby to the marker.\<close>

definition hook_rebase :: "orch_env \<Rightarrow> string \<Rightarrow> node_config \<Rightarrow> node_config \<Rightarrow> (reply, unit) orch" where
  "hook_rebase e key det np =
     (let slot = slot_name det; host = nc_hostname np in
      orch_seq (orch_try (orch_do e (OcPeerStop (nc_id det)))
          (\<lambda>m. internal (''follow_primary: stop '' @ nc_hostname det @ '': '' @ m)))
     (orch_seq (orch_try (orch_do e OcCheckpoint) (\<lambda>m. internal (''follow_primary: checkpoint: '' @ m)))
     (orch_seq (orch_try (orch_do e (OcCreateSlot slot))
          (\<lambda>m. internal (''follow_primary: create slot '' @ slot @ '': '' @ m)))
     (orch_bind (orch_do e (OcPeerRewind (nc_id det) (rewind_from e np))) (\<lambda>r.
      orch_seq (orch_when (\<not> is_ok r)
          (hook_or_cleanup e slot host (OcPeerBasebackup (nc_id det) (basebackup_from e np slot))
            (''follow_primary: basebackup '' @ nc_hostname det) ''follow_primary_basebackup_failed''))
     (orch_seq (hook_or_cleanup e slot host (OcPeerConfigure (nc_id det) (conf_for e np slot))
          (''follow_primary: configure_standby '' @ nc_hostname det) ''follow_primary_configure_standby_failed'')
     (orch_seq (hook_or_cleanup e slot host (OcPeerStart (nc_id det))
          (''follow_primary: start '' @ nc_hostname det) ''follow_primary_start_failed'')
     (orch_seq (orch_try (orch_do e (OcAttach (nc_id det)))
          (\<lambda>m. internal (''follow_primary: pcp_attach_node '' @ show_int (nc_id det) @ '': '' @ m)))
       (write_replay_marker_then_ok e ''follow_primary'' key
          (''follow_primary complete for '' @ nc_hostname det))))))))))"

definition follow_primary :: "orch_env \<Rightarrow> node_ref option \<Rightarrow> node_ref option \<Rightarrow> (reply, unit) orch" where
  "follow_primary e detached_ref new_primary_ref =
     orch_bind (required_ref ''follow_primary'' ''detached'' detached_ref) (\<lambda>d.
     orch_bind (required_ref ''follow_primary'' ''new_primary'' new_primary_ref) (\<lambda>p.
     let key = ''detached='' @ show_int (ref_id d) @ '',new_primary='' @ show_int (ref_id p) in
     orch_seq (replay_check e ''follow_primary'' key)
     (orch_bind (resolved ''follow_primary'' ''detached'' (resolve_node (oe_pool e) d)) (\<lambda>det.
      orch_bind (resolved ''follow_primary'' ''new_primary'' (resolve_node (oe_pool e) p)) (\<lambda>np.
      orch_seq (orch_read (\<lambda>n. oe_dial e n (nc_id det))
          (\<lambda>m. internal (''follow_primary: peer client for '' @ nc_hostname det @ '': '' @ m)))
     (orch_bind (orch_read (\<lambda>n. oe_status e n (nc_id det))
          (\<lambda>m. internal (''follow_primary: get_status '' @ nc_hostname det @ '': '' @ m))) (\<lambda>st.
      if \<not> is_running st then orch_finish (succeeded ''detached node is stopped, skipping'')
      else hook_rebase e key det np)))))))"

section \<open>recovery_first_stage\<close>

definition recovery_dedup_window :: int where
  "recovery_dedup_window = csecs (24 * 60 * 60)"

definition recovery_skipped :: "string \<Rightarrow> reply" where
  "recovery_skipped i =
     succeeded (''recovery_1st_stage: skipped '' @ [CHR 0xE2, CHR 0x80, CHR 0x94] @
       '' an identical recovery completed within the last 24h (op '' @ i @
       ''); pass --stop-target-pg via `cluster recover` to force a fresh one'')"

definition recovery_dedup :: "orch_env \<Rightarrow> string \<Rightarrow> (reply, unit) orch" where
  "recovery_dedup e key =
     orch_bind (journal_find e ''recovery'' key) (\<lambda>found.
     orch_bind calls_made (\<lambda>n.
       case found of
         Inl m \<Rightarrow> orch_finish (internal (''recovery_1st_stage: inflight lookup: '' @ m))
       | Inr None \<Rightarrow> orch_return ()
       | Inr (Some op) \<Rightarrow>
           if op_status op = Done \<and>
              (case op_completed_at op of Some t \<Rightarrow> oe_now e n - t < recovery_dedup_window | None \<Rightarrow> False)
           then orch_finish (recovery_skipped (op_id op))
           else orch_return ()))"

definition recovery_fail :: "orch_env \<Rightarrow> string \<Rightarrow> string \<Rightarrow> (reply, 'a) orch" where
  "recovery_fail e i err = orch_bind (journal_abandon e i err) (\<lambda>_. orch_finish (internal err))"

definition recovery_phase :: "orch_env \<Rightarrow> string \<Rightarrow> string \<Rightarrow> (reply, unit) orch" where
  "recovery_phase e i ph = orch_bind (journal_phase e i ph) (\<lambda>_. orch_return ())"

definition recovery_fail_cleanup ::
  "orch_env \<Rightarrow> string \<Rightarrow> string \<Rightarrow> string \<Rightarrow> string \<Rightarrow> string \<Rightarrow> (reply, unit) orch" where
  "recovery_fail_cleanup e i slot host cause err =
     orch_seq (cleanup_slot_after_failure e slot host cause) (recovery_fail e i err)"

definition recovery_step ::
  "orch_env \<Rightarrow> string \<Rightarrow> string \<Rightarrow> string \<Rightarrow> orch_call \<Rightarrow> string \<Rightarrow> string \<Rightarrow> (reply, unit) orch" where
  "recovery_step e i slot host c what cause =
     orch_bind (orch_do e c) (\<lambda>r.
       case r of
         Inr _ \<Rightarrow> orch_return ()
       | Inl m \<Rightarrow> recovery_fail_cleanup e i slot host cause (what @ '': '' @ m))"

text \<open>The work under the journal entry \<open>i\<close>.\<close>

definition recovery_run :: "orch_env \<Rightarrow> string \<Rightarrow> node_config \<Rightarrow> node_config \<Rightarrow> (reply, op_result) orch" where
  "recovery_run e i primary standby =
     (let slot = slot_name standby; host = nc_hostname primary in
      orch_bind (orch_do e OcCheckpoint) (\<lambda>r.
      orch_seq (case r of Inr _ \<Rightarrow> orch_return () | Inl m \<Rightarrow> recovery_fail e i (''recovery_1st_stage: checkpoint: '' @ m))
     (orch_bind (orch_do e (OcCreateSlot slot)) (\<lambda>r.
      orch_seq (case r of Inr _ \<Rightarrow> orch_return ()
          | Inl m \<Rightarrow> recovery_fail e i (''recovery_1st_stage: create slot '' @ slot @ '': '' @ m))
     (orch_seq (recovery_phase e i ''slot_created'')
     (orch_bind calls_made (\<lambda>n.
      orch_seq (case oe_dial e n (nc_id standby) of
            Inr _ \<Rightarrow> orch_return ()
          | Inl m \<Rightarrow> recovery_fail_cleanup e i slot host ''recovery_1st_stage_peer_dial_failed''
              (''recovery_1st_stage: peer client for '' @ nc_hostname standby @ '': '' @ m))
     (orch_seq (recovery_step e i slot host (OcPeerBasebackup (nc_id standby) (basebackup_from e primary slot))
          (''recovery_1st_stage: basebackup '' @ nc_hostname standby) ''recovery_1st_stage_basebackup_failed'')
     (orch_seq (recovery_phase e i ''data_copied'')
     (orch_seq (recovery_step e i slot host (OcPeerConfigure (nc_id standby) (conf_for e primary slot))
          (''recovery_1st_stage: configure_standby '' @ nc_hostname standby)
          ''recovery_1st_stage_configure_standby_failed'')
     (orch_seq (recovery_phase e i ''standby_configured'')
     (orch_seq (orch_try (journal_complete e i) (\<lambda>m. internal (''recovery_1st_stage: journal complete: '' @ m)))
       (orch_return \<lparr>or_ok = True, or_message = ''recovery complete for '' @ nc_hostname standby\<rparr>)))))))))))))"

definition recovery_first_stage ::
  "orch_env \<Rightarrow> node_ref option \<Rightarrow> node_ref option \<Rightarrow> bool \<Rightarrow> (reply, op_result) orch" where
  "recovery_first_stage e primary_ref standby_ref bypass =
     orch_bind (required_ref ''recovery_1st_stage'' ''primary'' primary_ref) (\<lambda>p.
     orch_bind (required_ref ''recovery_1st_stage'' ''standby'' standby_ref) (\<lambda>s.
     orch_seq (orch_when (\<not> bypass)
         (recovery_dedup e (''primary='' @ show_int (ref_id p) @ '',standby='' @ show_int (ref_id s))))
     (orch_bind (resolved ''recovery_1st_stage'' ''primary'' (resolve_local_node (oe_pool e) p)) (\<lambda>primary.
      orch_bind (resolved ''recovery_1st_stage'' ''standby'' (resolve_node (oe_pool e) s)) (\<lambda>standby.
      orch_bind (orch_try (journal_begin e
            (Recovery (nc_id primary) (nc_id standby) (nc_hostname standby) (slot_name standby)) ''started'' False)
          (\<lambda>be. internal (''recovery_1st_stage: journal begin: '' @ show_begin_error be))) (\<lambda>op.
        recovery_run e (op_id op) primary standby))))))"

section \<open>The simple handlers\<close>

definition remote_start :: "orch_env \<Rightarrow> node_ref option \<Rightarrow> (reply, unit) orch" where
  "remote_start e target_ref =
     orch_bind (required_ref ''remote_start'' ''target'' target_ref) (\<lambda>t.
     orch_bind (resolved ''remote_start'' ''target'' (resolve_node (oe_pool e) t)) (\<lambda>target.
     orch_bind (orch_read (oe_in_recovery e) (\<lambda>m. internal (''remote_start: check primary status: '' @ m))) (\<lambda>rec.
     if rec then orch_finish (refused ''remote_start: local node is not the primary (in recovery)'')
     else
     orch_seq (orch_read (\<lambda>n. oe_dial e n (nc_id target))
         (\<lambda>m. internal (''remote_start: peer client for '' @ nc_hostname target @ '': '' @ m)))
     (orch_seq (orch_try (orch_do e (OcPeerStart (nc_id target)))
         (\<lambda>m. internal (''remote_start: peer start on '' @ nc_hostname target @ '': '' @ m)))
       (orch_finish (succeeded []))))))"

definition escalation :: "orch_env \<Rightarrow> (reply, unit) orch" where
  "escalation e = orch_finish (succeeded [])"

definition allow_async :: "orch_env \<Rightarrow> (reply, unit) orch" where
  "allow_async e =
     orch_bind (orch_read (oe_in_recovery e) (\<lambda>m. internal (''allow-async: is_in_recovery: '' @ m))) (\<lambda>rec.
     if rec then
       orch_finish (refused (''allow-async: local node is not the primary (in recovery); '' @
         ''run this on the current primary''))
     else
     orch_bind (orch_try (journal_begin e (AllowAsync (np_local_node_id (oe_pool e))) ''disarming'' False)
         (\<lambda>be. internal (''allow-async: journal begin: '' @ show_begin_error be))) (\<lambda>op.
     orch_bind (orch_do e (OcSetSyncNames [])) (\<lambda>r.
       case r of
         Inl m \<Rightarrow> orch_bind (journal_abandon e (op_id op) m) (\<lambda>_. orch_finish (internal (''allow-async: disarm: '' @ m)))
       | Inr _ \<Rightarrow> orch_bind (journal_complete e (op_id op)) (\<lambda>_.
           orch_finish (succeeded (''quorum commit disarmed (synchronous_standby_names cleared). The executor re-arms '' @
             ''automatically when a standby attaches; /healthz shows sync_commit=disarmed until then.''))))))"

section \<open>What becomes of a slot\<close>

text \<open>
  The fate of the slot an orchestration makes on the local server, read off its calls: given back means
  dropped, or at least handed to the maintenance queue.
\<close>

datatype slot_fate = NotMade | Held | DropFailed | GivenBack

definition slot_step :: "string \<Rightarrow> string \<Rightarrow> slot_fate \<Rightarrow> orch_event \<Rightarrow> slot_fate" where
  "slot_step slot host st ev =
     (let (c, ok) = ev in
      if c = OcCreateSlot slot then (if ok then Held else st)
      else if c = OcDropSlot slot then (if ok then GivenBack else DropFailed)
      else if queues_drop slot host c \<and> st = DropFailed then GivenBack
      else st)"

definition fate_of :: "string \<Rightarrow> string \<Rightarrow> orch_event list \<Rightarrow> slot_fate" where
  "fate_of slot host evs = foldl (slot_step slot host) NotMade evs"

lemma fate_of_simps [simp]:
  "fate_of slot host [] = NotMade"
  "fate_of slot host (evs @ [ev]) = slot_step slot host (fate_of slot host evs) ev"
  by (simp_all add: fate_of_def)

text \<open>The calls after \<open>pre\<close> are of a kind, and the slot fares as said.\<close>

definition trail ::
  "(orch_call \<Rightarrow> bool) \<Rightarrow> string \<Rightarrow> string \<Rightarrow> orch_event list \<Rightarrow> slot_fate \<Rightarrow> orch_world \<Rightarrow> bool" where
  "trail P slot host pre st w \<longleftrightarrow>
     (\<exists>rest. ow_events w = pre @ rest \<and> list_all (\<lambda>ev. P (fst ev)) rest \<and> fate_of slot host rest = st)"

lemma trail_start: "trail P slot host (ow_events w) NotMade w"
  by (simp add: trail_def)

lemma trail_snoc:
  assumes "trail P slot host pre st w" and "P c" and "ow_events w' = ow_events w @ [(c, b)]"
  shows "trail P slot host pre (slot_step slot host st (c, b)) w'"
proof -
  from assms(1) obtain rest where r: "ow_events w = pre @ rest" "list_all (\<lambda>ev. P (fst ev)) rest" "fate_of slot host rest = st"
    by (auto simp: trail_def)
  hence "ow_events w' = pre @ (rest @ [(c, b)])" "list_all (\<lambda>ev. P (fst ev)) (rest @ [(c, b)])"
    "fate_of slot host (rest @ [(c, b)]) = slot_step slot host st (c, b)" using assms(2,3) by simp_all
  thus ?thesis unfolding trail_def by blast
qed

lemma trail_perform:
  assumes "trail P slot host pre st w" and "P c"
    and "\<And>r w'. trail P slot host pre (slot_step slot host st (c, is_ok r)) w' \<Longrightarrow>
      last (ow_events w') = (c, is_ok r) \<Longrightarrow> Q r w'"
    and "X Crashed w"
  shows "orch_wp (orch_perform e c f) Q X w"
proof -
  obtain r w' where "f (length (ow_events w)) w = (r, w')" by fastforce
  with assms(3) trail_snoc [OF assms(1,2)] assms(4) show ?thesis by (simp add: wp_perform)
qed

text \<open>A call that does not concern the slot.\<close>

lemma trail_neutral:
  assumes "trail P slot host pre st w" and "P c"
    and "c \<noteq> OcCreateSlot slot" "c \<noteq> OcDropSlot slot" "\<not> queues_drop slot host c"
    and "\<And>r w'. trail P slot host pre st w' \<Longrightarrow> last (ow_events w') = (c, is_ok r) \<Longrightarrow> Q r w'" and "X Crashed w"
  shows "orch_wp (orch_perform e c f) Q X w"
  using assms by (intro trail_perform [OF assms(1,2)]) (simp_all add: slot_step_def)

lemma trail_create:
  assumes "trail P slot host pre st w" and "P (OcCreateSlot slot)"
    and "\<And>r w'. trail P slot host pre (if is_ok r then Held else st) w' \<Longrightarrow> Q r w'" and "X Crashed w"
  shows "orch_wp (orch_do e (OcCreateSlot slot)) Q X w"
  unfolding orch_do_def using assms by (intro trail_perform [OF assms(1,2)]) (simp_all add: slot_step_def)

lemma trail_cleanup:
  assumes "trail P slot host pre Held w" and "P (OcDropSlot slot)" "\<And>ca m. P (OcQueue (DropSlotCleanup slot host ca m))"
    and "\<And>w'. trail P slot host pre GivenBack w' \<Longrightarrow> Q () w'" and "\<And>w' st. trail P slot host pre st w' \<Longrightarrow> X Crashed w'"
  shows "orch_wp (cleanup_slot_after_failure e slot host cause) Q X w"
proof -
  have q: "orch_wp (queue_append e (DropSlotCleanup slot host cause m)) (\<lambda>_. Q ()) X w'"
    if "trail P slot host pre DropFailed w'" for w' m
    unfolding queue_append_def
    using that assms(3-5) by (intro trail_perform [OF that]) (auto simp: slot_step_def queues_drop_def)
  show ?thesis
    unfolding cleanup_slot_after_failure_def wp_bind orch_do_def
    by (rule trail_perform [OF assms(1,2)])
      (auto simp: slot_step_def wp_bind wp_return intro: q assms split: sum.split)
qed

lemmas trail_calls = journal_phase_def journal_complete_def journal_abandon_def journal_begin_def marker_write_def orch_do_def

section \<open>A recovery owns its slot\<close>

text \<open>The calls of a recovery under its journal entry: on this server and on the standby only.\<close>

definition recovery_call :: "orch_env \<Rightarrow> string \<Rightarrow> node_config \<Rightarrow> node_config \<Rightarrow> orch_call \<Rightarrow> bool" where
  "recovery_call e i primary standby c =
     (case c of
        OcCheckpoint \<Rightarrow> True
      | OcCreateSlot s \<Rightarrow> s = slot_name standby
      | OcDropSlot s \<Rightarrow> s = slot_name standby
      | OcQueue (DropSlotCleanup s h _ _) \<Rightarrow> s = slot_name standby \<and> h = nc_hostname primary
      | OcPeerBasebackup j opts \<Rightarrow> j = nc_id standby \<and> opts = basebackup_from e primary (slot_name standby)
      | OcPeerConfigure j opts \<Rightarrow> j = nc_id standby \<and> opts = conf_for e primary (slot_name standby)
      | OcUpdatePhase j _ \<Rightarrow> j = i
      | OcComplete j \<Rightarrow> j = i
      | OcAbandon j _ \<Rightarrow> j = i
      | _ \<Rightarrow> False)"

abbreviation rec_trail where
  "rec_trail e i primary standby \<equiv>
     trail (recovery_call e i primary standby) (slot_name standby) (nc_hostname primary)"

text \<open>How a run may end other than by success or a crash.\<close>

definition recovery_given_up :: "orch_env \<Rightarrow> string \<Rightarrow> node_config \<Rightarrow> node_config \<Rightarrow> orch_event list \<Rightarrow> orch_world \<Rightarrow> bool" where
  "recovery_given_up e i primary standby pre w \<longleftrightarrow>
     (rec_trail e i primary standby pre NotMade w \<or> rec_trail e i primary standby pre GivenBack w) \<and>
       (\<exists>m b. last (ow_events w) = (OcAbandon i m, b)) \<or>
     rec_trail e i primary standby pre Held w \<and> last (ow_events w) = (OcComplete i, False)"

lemma wp_recovery_fail:
  assumes "rec_trail e i primary standby pre st w" and "st = NotMade \<or> st = GivenBack"
    and "\<And>w'. recovery_given_up e i primary standby pre w' \<Longrightarrow> X (Finished (internal err)) w'" and "X Crashed w"
  shows "orch_wp (recovery_fail e i err) Q X w"
  unfolding recovery_fail_def wp_bind wp_finish trail_calls
  using assms(2,4) by (intro trail_neutral [OF assms(1)])
    (auto simp: recovery_call_def queues_drop_def recovery_given_up_def intro!: assms(3))

lemma wp_recovery_fail_cleanup:
  assumes "rec_trail e i primary standby pre Held w"
    and "\<And>x w'. recovery_given_up e i primary standby pre w' \<Longrightarrow> X (Finished x) w'"
    and "\<And>st w'. rec_trail e i primary standby pre st w' \<Longrightarrow> X Crashed w'"
  shows "orch_wp (recovery_fail_cleanup e i (slot_name standby) (nc_hostname primary) cause err) Q X w"
  unfolding recovery_fail_cleanup_def wp_seq
  by (rule trail_cleanup [OF assms(1)])
    (auto simp: recovery_call_def intro: wp_recovery_fail [OF _ disjI2] assms(2,3))

lemma wp_recovery_step:
  assumes "rec_trail e i primary standby pre Held w" and "recovery_call e i primary standby c"
    and "c \<noteq> OcCreateSlot (slot_name standby)" "c \<noteq> OcDropSlot (slot_name standby)"
      "\<not> queues_drop (slot_name standby) (nc_hostname primary) c"
    and "\<And>w'. rec_trail e i primary standby pre Held w' \<Longrightarrow> Q () w'"
    and "\<And>x w'. recovery_given_up e i primary standby pre w' \<Longrightarrow> X (Finished x) w'"
    and "\<And>st w'. rec_trail e i primary standby pre st w' \<Longrightarrow> X Crashed w'"
  shows "orch_wp (recovery_step e i (slot_name standby) (nc_hostname primary) c what cause) Q X w"
  unfolding recovery_step_def wp_bind orch_do_def
  by (rule trail_neutral [OF assms(1-5)])
    (auto simp: wp_return intro: assms(1,6-8) wp_recovery_fail_cleanup split: sum.split)

lemma wp_recovery_phase:
  assumes "rec_trail e i primary standby pre st w" and "\<And>w'. rec_trail e i primary standby pre st w' \<Longrightarrow> Q () w'"
    and "X Crashed w"
  shows "orch_wp (recovery_phase e i ph) Q X w"
  unfolding recovery_phase_def wp_bind wp_return trail_calls
  using assms by (intro trail_neutral [OF assms(1)]) (auto simp: recovery_call_def queues_drop_def)

lemma wp_recovery_run:
  assumes "rec_trail e i primary standby pre NotMade w"
    and "\<And>r w'. rec_trail e i primary standby pre Held w' \<Longrightarrow> last (ow_events w') = (OcComplete i, True) \<Longrightarrow> or_ok r \<Longrightarrow> Q r w'"
    and gu: "\<And>x w'. recovery_given_up e i primary standby pre w' \<Longrightarrow> X (Finished x) w'"
    and cr: "\<And>st w'. rec_trail e i primary standby pre st w' \<Longrightarrow> X Crashed w'"
  shows "orch_wp (recovery_run e i primary standby) Q X w"
proof -
  let ?s = "slot_name standby" and ?h = "nc_hostname primary"
  let ?T = "rec_trail e i primary standby pre"
  have complete: "orch_wp (orch_try (journal_complete e i) f) (\<lambda>_. Q \<lparr>or_ok = True, or_message = m\<rparr>) X v"
    if "?T Held v" for v f m
    unfolding wp_try trail_calls
    using that by (intro trail_neutral [OF that])
      (auto simp: recovery_call_def queues_drop_def recovery_given_up_def split: sum.split intro: assms(2) gu cr)
  have copy: "orch_wp (recovery_step e i ?s ?h (OcPeerBasebackup (nc_id standby) (basebackup_from e primary ?s)) wh ca) P X v"
    and conf: "orch_wp (recovery_step e i ?s ?h (OcPeerConfigure (nc_id standby) (conf_for e primary ?s)) wh ca) P X v"
    if "?T Held v" "\<And>w'. ?T Held w' \<Longrightarrow> P () w'" for P v wh ca
    using that by (auto simp: recovery_call_def queues_drop_def intro: gu cr wp_recovery_step)
  have tail: "orch_wp (recovery_phase e i ''slot_created'') (\<lambda>_. orch_wp calls_made (\<lambda>n.
      orch_wp (case oe_dial e n (nc_id standby) of Inr _ \<Rightarrow> orch_return () | Inl m \<Rightarrow> recovery_fail_cleanup e i ?s ?h ca0 (er m))
        (\<lambda>_. orch_wp (recovery_step e i ?s ?h (OcPeerBasebackup (nc_id standby) (basebackup_from e primary ?s)) wh1 ca1)
        (\<lambda>_. orch_wp (recovery_phase e i ''data_copied'')
        (\<lambda>_. orch_wp (recovery_step e i ?s ?h (OcPeerConfigure (nc_id standby) (conf_for e primary ?s)) wh2 ca2)
        (\<lambda>_. orch_wp (recovery_phase e i ''standby_configured'')
        (\<lambda>_. orch_wp (orch_try (journal_complete e i) f) (\<lambda>_. Q \<lparr>or_ok = True, or_message = m\<rparr>) X) X) X) X) X) X) X) X v"
    if "?T Held v" for v ca0 er wh1 ca1 wh2 ca2 f m
    by (intro wp_recovery_phase [OF that] wp_recovery_phase)
      (auto simp: wp_calls_made wp_return intro!: wp_recovery_fail_cleanup copy conf complete wp_recovery_phase intro: gu cr that split: sum.split)
  show ?thesis
    unfolding recovery_run_def Let_def wp_bind wp_seq wp_return orch_do_def [of e OcCheckpoint]
    by (rule trail_neutral [OF assms(1)])
      (auto simp: recovery_call_def queues_drop_def wp_return split: sum.split
        intro!: wp_recovery_fail trail_create tail intro: gu cr assms(1))
qed

lemma wp_resolved:
  assumes "\<And>n. r = Inr n \<Longrightarrow> Q n w" and "\<And>x. X (Finished x) w"
  shows "orch_wp (resolved op role r) Q X w"
  using assms by (auto simp: resolved_def orch_wps split: sum.split)

lemma wp_required:
  assumes "\<And>n. r = Some n \<Longrightarrow> Q n w" and "\<And>x. X (Finished x) w"
  shows "orch_wp (required_ref op role r) Q X w"
  using assms by (auto simp: required_ref_def orch_wps split: option.split)

lemma wp_recovery_dedup:
  assumes "Q () w" and "\<And>x. X (Finished x) w"
  shows "orch_wp (recovery_dedup e key) Q X w"
  using assms by (auto simp: recovery_dedup_def orch_wps split: sum.split option.split)

text \<open>The outcome of a recovery that made a call, from \<open>w\<close> to \<open>w'\<close> with result \<open>x\<close>.\<close>

definition recovery_outcome ::
  "orch_env \<Rightarrow> node_ref option \<Rightarrow> node_ref option \<Rightarrow> orch_world \<Rightarrow> (reply orch_exit, op_result) result \<Rightarrow>
     orch_world \<Rightarrow> bool" where
  "recovery_outcome e p s w x w' \<longleftrightarrow> (\<exists>pr sr primary standby ok rest i.
     p = Some pr \<and> s = Some sr \<and> resolve_local_node (oe_pool e) pr = Inr primary \<and>
     resolve_node (oe_pool e) sr = Inr standby \<and>
     i = make_id ''recovery'' (oe_now e (length (ow_events w))) (is_seq (ow_journal w)) \<and>
     ow_events w' = ow_events w @ (OcBegin (Recovery (nc_id primary) (nc_id standby) (nc_hostname standby)
         (slot_name standby)) ''started'', ok) # rest \<and>
     list_all (\<lambda>ev. recovery_call e i primary standby (fst ev)) rest \<and>
     (let fate = fate_of (slot_name standby) (nc_hostname primary) rest in
      if \<not> ok then rest = [] \<and> \<not> is_ok x
      else case x of
          Inr r \<Rightarrow> or_ok r \<and> fate = Held \<and> last rest = (OcComplete i, True)
        | Inl Crashed \<Rightarrow> True
        | Inl (Finished _) \<Rightarrow>
            rest \<noteq> [] \<and> (fate \<in> {NotMade, GivenBack} \<and> (\<exists>m b. last rest = (OcAbandon i m, b)) \<or>
              fate = Held \<and> last rest = (OcComplete i, False))))"

lemma wp_recovery_begin:
  assumes pr: "p = Some pr" "s = Some sr" "resolve_local_node (oe_pool e) pr = Inr primary" "resolve_node (oe_pool e) sr = Inr standby"
    and Q: "\<And>r w'. recovery_outcome e p s w (Inr r) w' \<Longrightarrow> Q r w'"
    and X: "\<And>y w'. ow_events w' = ow_events w \<or> recovery_outcome e p s w (Inl y) w' \<Longrightarrow> X y w'"
  shows "orch_wp (orch_try (journal_begin e (Recovery (nc_id primary) (nc_id standby) (nc_hostname standby)
      (slot_name standby)) ''started'' False) f) (\<lambda>op. orch_wp (recovery_run e (op_id op) primary standby) Q X) X w"
proof -
  let ?p = "Recovery (nc_id primary) (nc_id standby) (nc_hostname standby) (slot_name standby)"
  let ?N = "length (ow_events w)" and ?pre = "ow_events w @ [(OcBegin ?p ''started'', True)]"
  obtain r j where b: "begin_op (oe_io e ?N) (oe_now e ?N) ?p ''started'' False (ow_journal w) = (r, j)" by fastforce
  have "X (Finished y) (w\<lparr>ow_journal := j, ow_events := ow_events w @ [(OcBegin ?p ''started'', False)]\<rparr>)" for y
    by (intro X disjI2, unfold recovery_outcome_def Let_def,
        intro exI [of _ pr] exI [of _ sr] exI [of _ primary] exI [of _ standby] exI [of _ False] exI [of _ "[]"] exI) (use pr in simp)
  moreover have "orch_wp (recovery_run e (op_id op) primary standby) Q X (w\<lparr>ow_journal := j, ow_events := ?pre\<rparr>)"
    if "r = Inr op" for op
  proof -
    have i: "op_id op = make_id ''recovery'' (oe_now e ?N) (is_seq (ow_journal w))"
      using b that by (auto simp: begin_op_def Let_def op_name_def split: sum.splits prod.splits)
    let ?c = "\<lambda>rest. list_all (\<lambda>ev. recovery_call e (op_id op) primary standby (fst ev)) rest"
    have out: "recovery_outcome e p s w x w'" if "ow_events w' = ?pre @ rest" "?c rest"
      "case x of
          Inr r \<Rightarrow> or_ok r \<and> fate_of (slot_name standby) (nc_hostname primary) rest = Held \<and> last rest = (OcComplete (op_id op), True)
        | Inl Crashed \<Rightarrow> True
        | Inl (Finished _) \<Rightarrow>
            rest \<noteq> [] \<and> (fate_of (slot_name standby) (nc_hostname primary) rest \<in> {NotMade, GivenBack} \<and>
              (\<exists>m b. last rest = (OcAbandon (op_id op) m, b)) \<or>
              fate_of (slot_name standby) (nc_hostname primary) rest = Held \<and> last rest = (OcComplete (op_id op), False))"
      for x w' rest
      unfolding recovery_outcome_def Let_def
      by (intro exI [of _ pr] exI [of _ sr] exI [of _ primary] exI [of _ standby] exI [of _ True] exI [of _ rest] exI [of _ "op_id op"])
        (use pr i that in simp)
    show ?thesis
    proof (rule wp_recovery_run [where pre = ?pre])
      show "rec_trail e (op_id op) primary standby ?pre NotMade (w\<lparr>ow_journal := j, ow_events := ?pre\<rparr>)"
        by (simp add: trail_def)
    next
      fix r :: op_result and w' assume "rec_trail e (op_id op) primary standby ?pre Held w'" "last (ow_events w') = (OcComplete (op_id op), True)" "or_ok r"
      thus "Q r w'" by (intro Q) (auto simp: trail_def last_append intro!: out split: if_splits)
    next
      fix x w' assume "recovery_given_up e (op_id op) primary standby ?pre w'"
      thus "X (Finished x) w'"
        by (intro X) (auto simp: recovery_given_up_def trail_def last_append intro!: out split: if_splits)
    next
      fix st w' assume "rec_trail e (op_id op) primary standby ?pre st w'"
      thus "X Crashed w'" by (intro X) (auto simp: trail_def intro!: out)
    qed
  qed
  ultimately show ?thesis
    unfolding wp_try journal_begin_def using b X by (auto simp: wp_perform split: sum.split)
qed

lemma wp_recovery_first_stage:
  assumes "\<And>r w'. recovery_outcome e p s w (Inr r) w' \<Longrightarrow> Q r w'"
    and "\<And>y w'. ow_events w' = ow_events w \<or> recovery_outcome e p s w (Inl y) w' \<Longrightarrow> X y w'"
  shows "orch_wp (recovery_first_stage e p s bypass) Q X w"
  unfolding recovery_first_stage_def wp_bind wp_seq wp_when
  using assms
  by (auto intro!: wp_required wp_resolved wp_recovery_dedup wp_recovery_begin)

text \<open>
  A recovery owns its slot. Whatever its collaborators answer and wherever the process dies, a
  recovery makes no call before its journal entry stands, and then only calls on the server it runs on
  and on the standby it rebuilds, from the local node. A success left the slot with the standby and the
  entry completed; a failure dropped the slot (or, when the drop failed, queued it for maintenance) if
  it had been made, and then abandoned the entry, so that the next attempt is not refused as a
  duplicate; only when completing the entry fails are the slot and the entry left as they are.
\<close>

theorem recovery_gives_slot_back:
  "case recovery_first_stage e p s bypass w of (x, w') \<Rightarrow>
     recovery_outcome e p s w x w' \<or> ow_events w' = ow_events w \<and> \<not> is_ok x"
proof (cases "recovery_first_stage e p s bypass w")
  case (Pair x w')
  with wp_recovery_first_stage [of e p s w "\<lambda>r w'. recovery_outcome e p s w (Inr r) w'"
      "\<lambda>y w'. ow_events w' = ow_events w \<or> recovery_outcome e p s w (Inl y) w'" bypass]
  show ?thesis by (cases x) (auto simp: orch_wp_def)
qed

section \<open>failover touches only the slot of a dead standby\<close>

lemma wp_owner:
  "orch_wp (inflight_owner_of e i) Q X w \<longleftrightarrow>
     (let n = length (ow_events w); slot = ''node'' @ show_int i in
      if oe_dies e = Some n then X Crashed w
      else case owner_of_slot_observing (oe_io e n) (oe_now e n) slot cross_op_grace (oe_slot_active e n slot) (ow_journal w) of
        (own, j) \<Rightarrow> Q own (w\<lparr>ow_journal := j, ow_events := ow_events w @ [(OcConsult slot, True)]\<rparr>))"
  by (auto simp: inflight_owner_of_def wp_bind wp_return wp_perform Let_def split: prod.split)

text \<open>Nothing protects the standby at the consultation, and it is not seen streaming right after.\<close>

definition drop_justified :: "orch_env \<Rightarrow> orch_world \<Rightarrow> node_config \<Rightarrow> bool" where
  "drop_justified e w detached \<longleftrightarrow>
     (let n = length (ow_events w); slot = slot_name detached in
      fst (owner_of_slot_observing (oe_io e n) (oe_now e n) slot cross_op_grace (oe_slot_active e n slot) (ow_journal w)) = None \<and>
      \<not> (oe_in_time e (Suc n) \<and> is_ok (oe_dial e (Suc n) (nc_id detached)) \<and>
         (case oe_status e (Suc n) (nc_id detached) of
            Inr st \<Rightarrow> is_postgres_running st \<and> is_in_recovery st \<and> replication_state st = ''streaming''
          | Inl _ \<Rightarrow> False)))"

definition failover_call :: "orch_env \<Rightarrow> orch_world \<Rightarrow> string \<Rightarrow> node_config \<Rightarrow> node_config \<Rightarrow> orch_call \<Rightarrow> bool" where
  "failover_call e w key detached old_primary c =
     (case c of
        OcConsult s \<Rightarrow> s = slot_name detached
      | OcMark op k \<Rightarrow> op = ''failover'' \<and> k = key
      | OcDropSlot s \<Rightarrow> s = slot_name detached \<and> drop_justified e w detached
      | OcQueue (DropSlotCleanup s h _ _) \<Rightarrow> s = slot_name detached \<and> h = nc_hostname old_primary \<and> drop_justified e w detached
      | _ \<Rightarrow> False)"

lemma wp_standby_down:
  assumes "\<And>x w'. only_calls (failover_call e w key detached old) (length (ow_events w)) w' \<Longrightarrow> X x w'"
  shows "orch_wp (standby_down e key detached old) Q X w"
proof -
  let ?P = "failover_call e w key detached old" and ?N = "length (ow_events w)"
  have mark: "orch_wp (write_replay_marker_then_ok e ''failover'' key m) Q X v" if "only_calls ?P ?N v" for v m
    unfolding write_replay_marker_then_ok_def wp_seq wp_finish wp_try marker_write_def
    by (rule wp_only_perform [OF that]) (auto simp: failover_call_def intro: assms split: sum.split)
  have drp: "orch_wp (orch_do e (OcDropSlot (slot_name detached))) (\<lambda>r. orch_wp (case r of
        Inr _ \<Rightarrow> orch_return ms | Inl m \<Rightarrow> queue_drop_slot_cleanup e (slot_name detached) (nc_hostname old) ca m)
      (\<lambda>message. orch_wp (write_replay_marker_then_ok e ''failover'' key message) Q X) X) X v"
    if "only_calls ?P ?N v" "drop_justified e w detached" for v ms ca
  proof -
    have q: "orch_wp (queue_drop_slot_cleanup e (slot_name detached) (nc_hostname old) ca m)
        (\<lambda>message. orch_wp (write_replay_marker_then_ok e ''failover'' key message) Q X) X v'" if "only_calls ?P ?N v'" for v' m
      unfolding queue_drop_slot_cleanup_def wp_bind wp_return queue_append_def
      by (rule wp_only_perform [OF that]) (auto simp: failover_call_def \<open>drop_justified e w detached\<close> intro: assms mark)
    show ?thesis
      unfolding orch_do_def
      by (rule wp_only_perform [OF that(1)]) (auto simp: failover_call_def that(2) wp_return intro: assms mark q split: sum.split)
  qed
  let ?slot = "''node'' @ show_int (nc_id detached)"
  obtain own j where o: "owner_of_slot_observing (oe_io e ?N) (oe_now e ?N) ?slot cross_op_grace
      (oe_slot_active e ?N ?slot) (ow_journal w) = (own, j)" by fastforce
  let ?w = "w\<lparr>ow_journal := j, ow_events := ow_events w @ [(OcConsult ?slot, True)]\<rparr>"
  have 1: "only_calls ?P ?N ?w"
    by (simp add: only_calls_def calls_since_def failover_call_def slot_name_def)
  have 2: "drop_justified e w detached"
    if "own = None" "\<nexists>m. validate_cluster_preconditions (oe_dial e (Suc ?N) (nc_id detached)) (oe_status e (Suc ?N) (nc_id detached))
          (oe_in_time e (Suc ?N)) (DropSlotBecauseStandbyDown detached) = PreRefuse m"
    using that(2) o that(1) unfolding refuse_iff_evidence
    by (auto simp: drop_justified_def slot_name_def Let_def split: sum.split)
  show ?thesis
    unfolding standby_down_def Let_def wp_bind wp_owner
    using 1 2 o assms [OF only_calls_start] by (auto simp: wp_calls_made wp_finish wp_bind intro!: mark drp assms
        split: option.split precondition_outcome.split)
qed

lemma wp_replay_check:
  assumes "has_marker (oe_sha e) (oe_marker_stat e (length (ow_events w))) op key (ow_markers w) = Inr False \<Longrightarrow> Q () w"
    and "\<And>x. X (Finished x) w"
  shows "orch_wp (replay_check e op key) Q X w"
  using assms by (auto simp: replay_check_def marker_has_def orch_wps orch_wp_def orch_finish_def orch_return_def
      orch_bind_def split: sum.split bool.split)

lemma failover_calls:
  assumes "failover e d nm op w = (x, w')" and "(c, b) \<in> set (calls_since (length (ow_events w)) w')"
  shows "\<exists>dr nr pr detached old. d = Some dr \<and> nm = Some nr \<and> op = Some pr \<and> ref_id nr \<noteq> -1 \<and> ref_id dr \<noteq> ref_id pr \<and>
    resolve_node (oe_pool e) dr = Inr detached \<and> resolve_node (oe_pool e) pr = Inr old \<and>
    has_marker (oe_sha e) (oe_marker_stat e (length (ow_events w))) ''failover'' (failover_key dr nr pr) (ow_markers w) = Inr False \<and>
    failover_call e w (failover_key dr nr pr) detached old c"
proof -
  let ?N = "length (ow_events w)"
  let ?good = "\<lambda>c. \<exists>dr nr pr detached old. d = Some dr \<and> nm = Some nr \<and> op = Some pr \<and> ref_id nr \<noteq> -1 \<and> ref_id dr \<noteq> ref_id pr \<and>
    resolve_node (oe_pool e) dr = Inr detached \<and> resolve_node (oe_pool e) pr = Inr old \<and>
    has_marker (oe_sha e) (oe_marker_stat e ?N) ''failover'' (failover_key dr nr pr) (ow_markers w) = Inr False \<and>
    failover_call e w (failover_key dr nr pr) detached old c"
  define G where "G = only_calls ?good ?N"
  have same: "G w" by (simp add: G_def only_calls_start)
  have down: "orch_wp (standby_down e (failover_key dr nr pr) detached old) (\<lambda>_. G) (\<lambda>_. G) w"
    if "d = Some dr" "nm = Some nr" "op = Some pr" "ref_id nr \<noteq> -1" "ref_id dr \<noteq> ref_id pr"
      "resolve_node (oe_pool e) dr = Inr detached" "resolve_node (oe_pool e) pr = Inr old"
      "has_marker (oe_sha e) (oe_marker_stat e ?N) ''failover'' (failover_key dr nr pr) (ow_markers w) = Inr False"
    for dr nr pr detached old
  proof (rule wp_standby_down)
    fix w' assume "only_calls (failover_call e w (failover_key dr nr pr) detached old) ?N w'"
    with that show "G w'" unfolding G_def only_calls_def list_all_iff by blast
  qed
  have "orch_wp (failover e d nm op) (\<lambda>_. G) (\<lambda>_. G) w"
    unfolding failover_def wp_bind wp_seq wp_if
    using same by (auto simp: wp_finish intro!: wp_required wp_resolved wp_replay_check down)
  hence "G w'" using assms(1) by (auto simp: orch_wp_def split: sum.splits)
  with assms(2) show ?thesis by (auto simp: G_def only_calls_def list_all_iff)
qed

text \<open>
  \<open>failover\<close> is advisory but for the slot of a dead standby. Whatever pgpool announces, whatever the
  collaborators answer and wherever the process dies, a call is made only for an announced standby (not
  for the announced primary, and not without a candidate) that no marker covers yet, and it is the
  consultation of the journal, the replay marker, the drop of that standby's own slot, or queueing that
  drop for the announced primary. The slot is dropped only if no journal entry protects the node and the
  standby was not seen running and streaming. Nothing is ever promoted, stopped or started.
\<close>

theorem failover_drops_only_dead_standby:
  assumes "failover e d nm op w = (x, w')" and "(c, b) \<in> set (calls_since (length (ow_events w)) w')"
  shows "\<exists>dr nr pr detached old. d = Some dr \<and> nm = Some nr \<and> op = Some pr \<and> ref_id nr \<noteq> -1 \<and> ref_id dr \<noteq> ref_id pr \<and>
    resolve_node (oe_pool e) dr = Inr detached \<and> resolve_node (oe_pool e) pr = Inr old \<and>
    has_marker (oe_sha e) (oe_marker_stat e (length (ow_events w))) ''failover'' (failover_key dr nr pr) (ow_markers w) = Inr False \<and>
    failover_call e w (failover_key dr nr pr) detached old c"
  by (rule failover_calls [OF assms])

text \<open>A standby that is unreachable; its slot is dropped.\<close>

definition ex_ref :: "i32 \<Rightarrow> string \<Rightarrow> node_ref" where
  "ex_ref i h = \<lparr>ref_id = i, ref_hostname = h, ref_pg_port = 5432, ref_pg_data = []\<rparr>"

definition ex_down_env :: orch_env where
  "ex_down_env = (ex_orch_env None)\<lparr>oe_dial := \<lambda>_ _. Inl ''unreachable''\<rparr>"

lemma ex_failover_run:
  "\<exists>x w'. failover ex_down_env (Some (ex_ref 1 ''db1'')) (Some (ex_ref 0 ''db0'')) (Some (ex_ref 0 ''db0'')) ex_orch_world = (x, w') \<and>
     (OcDropSlot ''node1'', True) \<in> set (ow_events w')"
  by (simp add: failover_def required_ref_def resolved_def replay_check_def standby_down_def inflight_owner_of_def
      failover_key_def marker_has_def has_marker_def replay_store_new_def orch_eval ex_down_env_def ex_orch_env_def
      ex_orch_world_def ex_handoff_pool_def ex_ref_def resolve_node_def node_by_hostname_def Let_def slot_name_def
      owner_of_slot_observing_def owner_of_slot_def owner_of_node_def node_id_from_slot_def list_ops_def
      read_all_def entries_def List.map_filter_def inflight_store_new_def no_faults_def validate_cluster_preconditions_def
      write_replay_marker_then_ok_def marker_write_def mark_done_marker_def write_atomic_def
      show_int_def show_digit digit_char_def char_of_def bit_0 parse_i32_def parse_i32_radix_def digits_val_def digit_val_def)

theorem failover_drops_only_dead_standby_witness:
  "\<exists>detached old. resolve_node (oe_pool ex_down_env) (ex_ref 1 ''db1'') = Inr detached \<and>
    failover_call ex_down_env ex_orch_world (failover_key (ex_ref 1 ''db1'') (ex_ref 0 ''db0'') (ex_ref 0 ''db0'')) detached old
      (OcDropSlot ''node1'')"
proof -
  obtain x w' where r: "failover ex_down_env (Some (ex_ref 1 ''db1'')) (Some (ex_ref 0 ''db0'')) (Some (ex_ref 0 ''db0'')) ex_orch_world = (x, w')"
    and c: "(OcDropSlot ''node1'', True) \<in> set (ow_events w')" using ex_failover_run by blast
  have "(OcDropSlot ''node1'', True) \<in> set (calls_since (length (ow_events ex_orch_world)) w')"
    using c by (simp add: calls_since_def ex_orch_world_def)
  from failover_drops_only_dead_standby [OF r this] show ?thesis by auto
qed

section \<open>An operation in progress keeps its slot\<close>

lemma owner_in_progress:
  assumes "read_all itag io (is_dir j) = Inr (ops, sk)" and "own \<in> set ops" "op_status own = InProgress"
    and "target_node_id (op_payload own) = Some n"
    and "\<And>o'. o' \<in> set ops \<Longrightarrow> target_node_id (op_payload o') = Some n \<Longrightarrow> op_status o' = InProgress \<or> op_started_at o' < op_started_at own"
  shows "\<exists>o'. owner_of_node io now n grace j = Some o' \<and> op_status o' = InProgress"
proof -
  obtain os where l: "list_ops io [InProgress, Done] j = Inr (os, sort_key fst sk)"
    and os: "set os = {a \<in> set ops. op_status a \<in> {InProgress, Done}}"
    using assms(1) by (auto simp: list_ops_def)
  let ?c = "filter (owns now grace) (filter (\<lambda>o'. target_node_id (op_payload o') = Some n) os)"
  have own: "own \<in> set ?c" using assms(2-4) os by (simp add: owns_def)
  then obtain m where m: "max_by_key op_started_at ?c = Some m" by (cases "max_by_key op_started_at ?c") (auto simp: filter_empty_conv)
  have "op_started_at own \<le> op_started_at m" by (rule max_by_key_max [OF m own])
  moreover have "m \<in> set ?c" by (rule max_by_key_in [OF m])
  ultimately have "op_status m = InProgress" using assms(5) [of m] os by auto
  thus ?thesis using m l by (simp add: owner_of_node_def)
qed

lemma observing_in_progress:
  assumes "node_id_from_slot slot = Some n" and "owner_of_node io now n grace j = Some o'" "op_status o' = InProgress"
  shows "owner_of_slot_observing io now slot grace act j = (Some o', j)"
  using assms by (simp add: owner_of_slot_observing_def owner_of_slot_def)

text \<open>
  A recovery, rebase or handoff in progress keeps the slot of the node it works on. The hook that
  pgpool fires because the operation itself stopped the node's PostgreSQL finds the entry in the journal
  and drops nothing, whatever else is answered, provided the journal is readable and no entry for the
  same node that is not in progress was started later.
\<close>

theorem operation_in_progress_keeps_its_slot:
  assumes "failover e (Some d) nm op w = (x, w')" and "resolve_node (oe_pool e) d = Inr detached" "i32_range (nc_id detached)"
    and "read_all itag (oe_io e (length (ow_events w))) (is_dir (ow_journal w)) = Inr (ops, sk)"
    and "own \<in> set ops" "op_status own = InProgress" "target_node_id (op_payload own) = Some (nc_id detached)"
    and "\<forall>o' \<in> set ops. target_node_id (op_payload o') = Some (nc_id detached) \<longrightarrow>
      op_status o' = InProgress \<or> op_started_at o' < op_started_at own"
  shows "(OcDropSlot s, b) \<notin> set (calls_since (length (ow_events w)) w')"
proof
  let ?N = "length (ow_events w)"
  assume c: "(OcDropSlot s, b) \<in> set (calls_since ?N w')"
  from failover_calls [OF assms(1) this] assms(2)
  have "drop_justified e w detached" by (auto simp: failover_call_def)
  moreover obtain o' where o: "owner_of_node (oe_io e ?N) (oe_now e ?N) (nc_id detached) cross_op_grace (ow_journal w) = Some o'"
    "op_status o' = InProgress" using owner_in_progress [OF assms(4-7)] assms(8) by blast
  moreover have "node_id_from_slot (slot_name detached) = Some (nc_id detached)"
    by (rule node_id_from_slot_name [OF assms(3)])
  ultimately show False using observing_in_progress [OF _ o] by (simp add: drop_justified_def Let_def)
qed

text \<open>A recovery of node 1 is in progress when the hook arrives.\<close>

definition ex_busy_world :: orch_world where
  "ex_busy_world = ex_orch_world\<lparr>ow_journal :=
     snd (begin_op no_faults 3 (Recovery 0 1 ''db1'' ''node1'') ''started'' False (inflight_store_new [] 100))\<rparr>"

lemma ex_busy_journal:
  "\<exists>own. read_all itag no_faults (is_dir (ow_journal ex_busy_world)) = Inr ([own], []) \<and> op_status own = InProgress \<and>
     target_node_id (op_payload own) = Some 1"
  by (simp add: ex_busy_world_def begin_op_def read_all_def entries_def List.map_filter_def inflight_store_new_def
      no_faults_def write_atomic_def Let_def skipped_def target_node_id_def)

theorem operation_in_progress_keeps_its_slot_witness:
  "case failover ex_down_env (Some (ex_ref 1 ''db1'')) (Some (ex_ref 0 ''db0'')) (Some (ex_ref 0 ''db0'')) ex_busy_world of
     (x, w') \<Rightarrow> (OcDropSlot ''node1'', True) \<notin> set (calls_since 0 w')"
proof (cases "failover ex_down_env (Some (ex_ref 1 ''db1'')) (Some (ex_ref 0 ''db0'')) (Some (ex_ref 0 ''db0'')) ex_busy_world")
  case (Pair x w')
  obtain own where own: "read_all itag no_faults (is_dir (ow_journal ex_busy_world)) = Inr ([own], [])"
    "op_status own = InProgress" "target_node_id (op_payload own) = Some 1" using ex_busy_journal by blast
  have r: "resolve_node (oe_pool ex_down_env) (ex_ref 1 ''db1'') = Inr \<lparr>nc_id = 1, nc_hostname = ''db1''\<rparr>"
    by (simp add: ex_down_env_def ex_orch_env_def ex_handoff_pool_def resolve_node_def node_by_hostname_def ex_ref_def Let_def)
  have s: "length (ow_events ex_busy_world) = 0" "oe_io ex_down_env n = no_faults" for n
    by (simp_all add: ex_busy_world_def ex_orch_world_def ex_down_env_def ex_orch_env_def)
  show ?thesis
    using operation_in_progress_keeps_its_slot [OF Pair r _, of "[own]" "[]" own "''node1''" True] own s Pair
    by (simp add: i32_range_def)
qed

section \<open>The slot of the \<open>follow_primary\<close> hook\<close>

interpretation hk: slot_keeper "fp_guarded d" "OcDropSlot slot" slot host for d slot host
  by unfold_locales (simp_all add: fp_guarded_def)

abbreviation h_rest :: "node_config \<Rightarrow> node_config \<Rightarrow> nat \<Rightarrow> orch_world \<Rightarrow> bool" where
  "h_rest det np \<equiv> hk.at_rest (nc_id det) (slot_name det) (nc_hostname np)"

abbreviation h_exit :: "node_config \<Rightarrow> node_config \<Rightarrow> nat \<Rightarrow> reply orch_exit \<Rightarrow> orch_world \<Rightarrow> bool" where
  "h_exit det np base x w \<equiv>
     (case x of Crashed \<Rightarrow> hk.in_bounds (nc_id det) (slot_name det) (nc_hostname np) base w
      | Finished _ \<Rightarrow> h_rest det np base w)"

lemma rest_hook_do:
  assumes "h_rest det np base w" and "\<not> fp_guarded (nc_id det) c" "c \<noteq> OcDropSlot (slot_name det)"
      "\<not> queues_drop (slot_name det) (nc_hostname np) c"
    and "\<And>r w'. h_rest det np base w' \<Longrightarrow> Q r w'"
  shows "orch_wp (orch_perform e c f) Q (h_exit det np base) w"
  using assms by (intro hk.rest_perform) auto

lemma rest_hook_or_cleanup:
  assumes "h_rest det np base w" and "fp_guarded (nc_id det) c" and "\<And>w'. h_rest det np base w' \<Longrightarrow> Q () w'"
  shows "orch_wp (hook_or_cleanup e (slot_name det) (nc_hostname np) c what cause) Q (h_exit det np base) w"
proof -
  have c: "c \<noteq> OcDropSlot (slot_name det)" "\<not> queues_drop (slot_name det) (nc_hostname np) c"
    using assms(2) by (auto simp: fp_guarded_def queues_drop_def split: orch_call.splits)
  have clean: "orch_wp (cleanup_slot_after_failure e (slot_name det) (nc_hostname np) cause) (\<lambda>_. R) (h_exit det np base) w'"
    if "hk.owing (nc_id det) (slot_name det) (nc_hostname np) base w'" "\<And>v. h_rest det np base v \<Longrightarrow> R v" for w' R
  proof -
    have "orch_wp (orch_do e (OcDropSlot (slot_name det)))
      (\<lambda>r. case r of Inr _ \<Rightarrow> R | Inl d \<Rightarrow> orch_wp (queue_append e (DropSlotCleanup (slot_name det) (nc_hostname np) cause d))
        (\<lambda>_. R) (h_exit det np base)) (h_exit det np base) w'"
      using that by (intro hk.rest_cleanup) auto
    thus ?thesis unfolding cleanup_slot_after_failure_def wp_bind
      by (rule wp_mono) (auto simp: orch_wps split: sum.splits)
  qed
  show ?thesis
    unfolding hook_or_cleanup_def wp_bind
    using assms c by (intro hk.rest_guarded) (auto simp: orch_wps intro: clean)
qed

lemma rest_hook_rebase:
  assumes "h_rest det np base w"
  shows "orch_wp (hook_rebase e key det np) (\<lambda>_. h_rest det np base) (h_exit det np base) w"
  unfolding hook_rebase_def Let_def wp_seq wp_bind wp_try wp_when orch_do_def write_replay_marker_then_ok_def marker_write_def
  using assms
  by (auto intro!: rest_hook_do rest_hook_or_cleanup simp: fp_guarded_def queues_drop_def wp_finish wp_return split: sum.split)

text \<open>
  The hook drops the slot it made directly after the copy, the configuration or the start of the standby
  failed and at no other time, and queues the drop when it fails; nothing is owed at the end.
\<close>

lemma follow_hook_gives_slot_back:
  assumes "follow_primary e (Some d) (Some p) w = (x, w')"
    and "resolve_node (oe_pool e) d = Inr det" "resolve_node (oe_pool e) p = Inr np"
  shows "tidy (fp_guarded (nc_id det)) (OcDropSlot (slot_name det)) (slot_name det) (nc_hostname np)
      (calls_since (length (ow_events w)) w') \<and>
    (x = Inl Crashed \<or> settled_up (fp_guarded (nc_id det)) (OcDropSlot (slot_name det)) (calls_since (length (ow_events w)) w'))"
proof -
  have r: "h_rest det np (length (ow_events w)) w" by (rule hk.at_rest_start)
  have "orch_wp (follow_primary e (Some d) (Some p)) (\<lambda>_. h_rest det np (length (ow_events w)))
      (h_exit det np (length (ow_events w))) w"
    unfolding follow_primary_def wp_bind wp_seq Let_def wp_read wp_if
    using r assms(2,3) by (auto intro!: wp_required wp_resolved wp_replay_check rest_hook_rebase simp: wp_finish split: sum.split)
  with assms(1) show ?thesis
    by (auto simp: orch_wp_def hk.at_rest_def hk.in_bounds_def split: sum.splits orch_exit.splits)
qed

end
