(* ===== verification/ClusterOps.thy ===== *)
theory ClusterOps
  imports Hooks RaftConsensus
begin

text \<open>
  The operator's cluster commands that the local server carries out
  (\<open>crates/pg-agent-core/src/localserver.rs\<close>): \<open>cluster_init\<close>, \<open>cluster_recover\<close>, \<open>cluster_start_primary\<close>,
  \<open>set_pause\<close>, \<open>cluster_status\<close> and \<open>retry_maintenance\<close>. Consensus is given by its answers; a compare-and-swap
  on the lease is a call like any other.
\<close>

record raft_answers =
  ra_bootstrap :: "nat \<Rightarrow> (string, membership_bootstrap) result"
  ra_read :: "nat \<Rightarrow> (string, cluster_state) result"
  ra_takeover :: "nat \<Rightarrow> (string, takeover_outcome) result"
  ra_set_paused :: "nat \<Rightarrow> (string, unit) result"

section \<open>cluster_init\<close>

record standby_result =
  sr_node_id :: i32
  sr_hostname :: string
  sr_ok :: bool
  sr_message :: string

definition standby_result_of :: "node_config \<Rightarrow> bool \<Rightarrow> string \<Rightarrow> standby_result" where
  "standby_result_of n ok message =
     \<lparr>sr_node_id = nc_id n, sr_hostname = nc_hostname n, sr_ok = ok, sr_message = message\<rparr>"

definition init_fail ::
  "orch_env \<Rightarrow> node_config \<Rightarrow> node_config \<Rightarrow> string \<Rightarrow> string \<Rightarrow> (standby_result, 'a) orch" where
  "init_fail e primary standby stage err =
     orch_seq (cleanup_slot_after_failure e (slot_name standby) (nc_hostname primary)
         (''cluster_init_'' @ stage @ ''_failed''))
       (orch_finish (standby_result_of standby False (stage @ '': '' @ err)))"

definition init_step ::
  "orch_env \<Rightarrow> node_config \<Rightarrow> node_config \<Rightarrow> string \<Rightarrow> orch_call \<Rightarrow> (standby_result, unit) orch" where
  "init_step e primary standby stage c =
     orch_bind (orch_do e c) (\<lambda>r.
       case r of Inr _ \<Rightarrow> orch_return () | Inl m \<Rightarrow> init_fail e primary standby stage m)"

definition init_standby_steps :: "orch_env \<Rightarrow> node_config \<Rightarrow> node_config \<Rightarrow> (standby_result, standby_result) orch" where
  "init_standby_steps e primary standby =
     (let slot = slot_name standby in
      orch_seq (orch_try (orch_do e (OcCreateSlot slot))
          (\<lambda>m. standby_result_of standby False (''create slot '' @ slot @ '': '' @ m)))
     (orch_bind calls_made (\<lambda>n.
      orch_seq (case oe_dial e n (nc_id standby) of
            Inr _ \<Rightarrow> orch_return ()
          | Inl m \<Rightarrow> init_fail e primary standby ''peer_client'' m)
     (orch_seq (init_step e primary standby ''stop'' (OcPeerStop (nc_id standby)))
     (orch_seq (init_step e primary standby ''basebackup''
          (OcPeerBasebackup (nc_id standby) (basebackup_from e primary slot)))
     (orch_seq (init_step e primary standby ''configure_standby''
          (OcPeerConfigure (nc_id standby) (conf_for e primary slot)))
     (orch_seq (init_step e primary standby ''start'' (OcPeerStart (nc_id standby)))
       (orch_return (standby_result_of standby True ''initialised'')))))))))"

definition init_standby :: "orch_env \<Rightarrow> node_config \<Rightarrow> node_config \<Rightarrow> ('x, standby_result) orch" where
  "init_standby e primary standby =
     orch_catch (init_standby_steps e primary standby)
       (\<lambda>r. case r of Inl res \<Rightarrow> orch_return res | Inr res \<Rightarrow> orch_return res)"

fun init_standbys :: "orch_env \<Rightarrow> node_config \<Rightarrow> i32 option \<Rightarrow> node_config list \<Rightarrow> ('x, standby_result list) orch" where
  "init_standbys e primary only [] = orch_return []"
| "init_standbys e primary only (n # ns) =
     (if nc_id n = nc_id primary \<or> (case only of Some i \<Rightarrow> i \<noteq> nc_id n | None \<Rightarrow> False)
      then init_standbys e primary only ns
      else orch_bind (init_standby e primary n) (\<lambda>res.
             orch_bind (init_standbys e primary only ns) (\<lambda>rest. orch_return (res # rest))))"

record init_response =
  ci_ok :: bool
  ci_message :: string
  ci_repl_user :: string
  ci_standbys :: "standby_result list"

text \<open>Membership and the first lease; losing the swap means that a holder exists.\<close>

definition show_lease_of :: "lease option \<Rightarrow> string" where
  "show_lease_of l =
     (case l of
        None \<Rightarrow> []
      | Some l \<Rightarrow> '' (node '' @ show_int (lease_holder l) @ '', term '' @ show_nat (unat (lease_term l)) @ '')'')"

definition seed_lease :: "orch_env \<Rightarrow> raft_answers \<Rightarrow> i32 \<Rightarrow> ('x, string) orch" where
  "seed_lease e ra i =
     orch_bind (orch_perform e (OcTakeover i) (\<lambda>n w. (ra_takeover ra n, w))) (\<lambda>r.
       orch_return (case r of
         Inr (Won l) \<Rightarrow> ''lease seeded (node '' @ show_int i @ '', term '' @ show_nat (unat (lease_term l)) @ '')''
       | Inr (Lost cur) \<Rightarrow> ''lease already held'' @ show_lease_of cur
       | Inl m \<Rightarrow> ''lease seeding FAILED: '' @ m))"

definition init_raft :: "orch_env \<Rightarrow> raft_answers option \<Rightarrow> i32 \<Rightarrow> ('x, string option) orch" where
  "init_raft e raft i =
     (case raft of
        None \<Rightarrow> orch_return None
      | Some ra \<Rightarrow>
          orch_bind (orch_perform e OcBootstrap (\<lambda>n w. (ra_bootstrap ra n, w))) (\<lambda>r.
            case r of
              Inl m \<Rightarrow> orch_return (Some (''raft membership bootstrap FAILED: '' @ m))
            | Inr b \<Rightarrow> orch_bind (seed_lease e ra i) (\<lambda>seed. orch_return (Some (describe b @ ''; '' @ seed)))))"

definition init_summary :: "string \<Rightarrow> standby_result list \<Rightarrow> bool \<times> string" where
  "init_summary role results =
     (let total = length results; failures = length (filter (\<lambda>r. \<not> sr_ok r) results) in
      if total = 0 then
        (True, ''cluster_init: replication role '' @ role @ '' ensured; no standby nodes selected'')
      else if failures = 0 then (True, ''cluster_init complete: '' @ show_nat total @ '' standby(s) initialised'')
      else (False, ''cluster_init: '' @ show_nat failures @ '' of '' @ show_nat total @ '' standby(s) failed''))"

definition cluster_init ::
  "orch_env \<Rightarrow> raft_answers option \<Rightarrow> i32 option \<Rightarrow> ((status, init_response) result, init_response) orch" where
  "cluster_init e raft only =
     (let role = rt_repl_user (oe_rt e) in
      orch_bind (orch_read (oe_in_recovery e) (\<lambda>m. Inl (Internal (''cluster_init: check primary status: '' @ m)))) (\<lambda>rec.
      if rec then
        orch_finish (Inr \<lparr>ci_ok = False, ci_message = ''cluster_init: local node is not the primary (in recovery)'',
          ci_repl_user = role, ci_standbys = []\<rparr>)
      else
      (case local_node (oe_pool e) of
         Inl err \<Rightarrow> orch_finish (Inl (Internal (''cluster_init: resolve local node: '' @ show_agent_error err)))
       | Inr primary \<Rightarrow>
      orch_seq (orch_try (orch_do e (OcCreateRole role))
          (\<lambda>m. Inl (Internal (''cluster_init: create replication role '' @ debug_str role @ '': '' @ m))))
     (orch_bind (init_standbys e primary only (np_members (oe_pool e))) (\<lambda>results.
      orch_bind (init_raft e raft (nc_id primary)) (\<lambda>note.
        let (ok, message) = init_summary role results in
        orch_return \<lparr>ci_ok = ok, ci_message = message @ (case note of Some s \<Rightarrow> ''; '' @ s | None \<Rightarrow> []),
          ci_repl_user = role, ci_standbys = results\<rparr>))))))"

section \<open>cluster_recover\<close>

text \<open>Every other member is asked to attach the rebuilt node in its own pgpool.\<close>

fun attach_fan_out :: "orch_env \<Rightarrow> i32 \<Rightarrow> node_config list \<Rightarrow> ('x, string list) orch" where
  "attach_fan_out e target [] = orch_return []"
| "attach_fan_out e target (m # ms) =
     (let loc = np_local_node_id (oe_pool e) in
      if nc_id m = loc then attach_fan_out e target ms
      else
        orch_bind calls_made (\<lambda>n.
        orch_bind (case oe_dial e n (nc_id m) of
              Inl err \<Rightarrow> orch_return (Inl err)
            | Inr _ \<Rightarrow> orch_do e (OcPeerAttach (nc_id m) target loc)) (\<lambda>r.
        orch_bind (attach_fan_out e target ms) (\<lambda>rest.
          orch_return ((case r of
              Inr _ \<Rightarrow> ''attach fanned out to '' @ nc_hostname m
            | Inl err \<Rightarrow> ''attach fan-out to '' @ nc_hostname m @ '' failed: '' @ err) # rest)))))"

text \<open>After the data is in place: the start is a gate, what follows is best effort.\<close>

definition recover_online :: "orch_env \<Rightarrow> node_config \<Rightarrow> (reply, unit) orch" where
  "recover_online e standby =
     orch_seq (orch_try (orch_do e (OcPeerStart (nc_id standby)))
         (\<lambda>m. refused (''cluster_recover: reclone of '' @ nc_hostname standby @ '' completed but PostgreSQL failed to '' @
            ''start there: '' @ m @ ''. The target has NOT been attached in pgpool (a backend whose PostgreSQL is down '' @
            ''must not take traffic). Fix the start failure on that host '' @ [CHR 0xE2, CHR 0x80, CHR 0x94] @
            '' `systemctl status` / `journalctl` name the cause '' @ [CHR 0xE2, CHR 0x80, CHR 0x94] @
            '' then re-run `pg_agentctl cluster recover --target '' @ show_int (nc_id standby) @ ''`.'')))
     (orch_bind (orch_do e (OcPeerStartPgpool (nc_id standby))) (\<lambda>p.
      orch_bind (orch_do e (OcAttach (nc_id standby))) (\<lambda>a.
      orch_bind (attach_fan_out e (nc_id standby) (np_members (oe_pool e))) (\<lambda>fan.
        orch_finish (succeeded (''recovery complete for '' @ nc_hostname standby @ ''; '' @
          join ''; '' ([''postgres started'',
            (case p of Inr _ \<Rightarrow> ''pgpool started'' | Inl m \<Rightarrow> ''pgpool start failed: '' @ m),
            (case a of Inr _ \<Rightarrow> ''attached node '' @ show_int (nc_id standby) @ '' in pgpool''
             | Inl m \<Rightarrow> ''pgpool attach failed: '' @ m)] @ fan)))))))"

definition ref_of :: "node_config \<Rightarrow> node_ref" where
  "ref_of n = \<lparr>ref_id = nc_id n, ref_hostname = nc_hostname n, ref_pg_port = 0, ref_pg_data = []\<rparr>"

definition cluster_recover :: "orch_env \<Rightarrow> i32 \<Rightarrow> bool \<Rightarrow> (reply, unit) orch" where
  "cluster_recover e target_id stop_target =
     orch_bind (orch_read (oe_in_recovery e) (\<lambda>m. internal (''cluster_recover: check primary status: '' @ m))) (\<lambda>rec.
     if rec then
       orch_finish (refused (''cluster_recover: local node is not the primary (in recovery); '' @
         ''run this on the current primary''))
     else
     (case local_node (oe_pool e) of
        Inl err \<Rightarrow> orch_finish (internal (''cluster_recover: resolve local node: '' @ show_agent_error err))
      | Inr primary \<Rightarrow>
     (case node_by_id (oe_pool e) target_id of
        Inl err \<Rightarrow> orch_finish (Inl (InvalidArgument (''cluster_recover: target node '' @ show_int target_id @ '': '' @
          show_agent_error err)))
      | Inr standby \<Rightarrow>
     if is_local (oe_pool e) standby then
       orch_finish (Inl (InvalidArgument (''cluster_recover: target is the local node '' @
         [CHR 0xE2, CHR 0x80, CHR 0x94] @ '' reclone target must be a peer'')))
     else
     orch_seq (orch_read (\<lambda>n. oe_dial e n (nc_id standby))
         (\<lambda>m. internal (''cluster_recover: dial peer '' @ nc_hostname standby @ '': '' @ m)))
     (orch_bind (orch_read (\<lambda>n. oe_status e n (nc_id standby))
         (\<lambda>m. internal (''cluster_recover: peer get_status '' @ nc_hostname standby @ '': '' @ m))) (\<lambda>st.
      orch_seq (if is_postgres_running st then
          (if \<not> stop_target then
             orch_finish (refused (''cluster_recover: postgres is running on target '' @ nc_hostname standby @
               ''; rerun with --stop-target-pg to stop it before reclone, or stop it manually on that host first''))
           else orch_try (orch_do e (OcPeerStop (nc_id standby)))
             (\<lambda>m. internal (''cluster_recover: stop postgres on '' @ nc_hostname standby @ '': '' @ m)))
         else orch_return ())
     (orch_bind (recovery_first_stage e (Some (ref_of primary)) (Some (ref_of standby)) True) (\<lambda>resp.
      if \<not> or_ok resp then orch_finish (Inr resp)
      else recover_online e standby)))))))"

section \<open>cluster_start_primary\<close>

text \<open>What the handler looks up: the two files, the control file's timeline, and the status fan-out.\<close>

record start_answers =
  sa_standby_signal :: bool
  sa_initialised :: bool
  sa_control_timeline :: "(string, i32) result"
  sa_views :: "peer_status_view list"

definition show_holder :: "lease option \<Rightarrow> string" where
  "show_holder l =
     (case l of
        None \<Rightarrow> []
      | Some l \<Rightarrow> '' by node '' @ show_int (lease_holder l) @ '' (term '' @ show_nat (unat (lease_term l)) @ '')'')"

definition timelines_ahead :: "i32 \<Rightarrow> peer_status_view list \<Rightarrow> string list" where
  "timelines_ahead tli views =
     List.map_filter (\<lambda>v. case psv_status v of
        Inl _ \<Rightarrow> None
      | Inr s \<Rightarrow> if 0 < timeline_id s \<and> 0 < tli \<and> tli < timeline_id s
          then Some (nc_hostname (psv_node v) @ ''@TL'' @ show_int (timeline_id s)) else None) views"

text \<open>From the start of PostgreSQL on.\<close>

definition start_and_claim :: "orch_env \<Rightarrow> raft_answers \<Rightarrow> node_config \<Rightarrow> i32 \<Rightarrow> u64 option \<Rightarrow> (reply, unit) orch" where
  "start_and_claim e ra loc tli held =
     orch_seq (orch_try (orch_do e OcStartLocal) (\<lambda>m. internal (''start_primary: start postgres: '' @ m)))
     (orch_bind (orch_read (oe_in_recovery e)
         (\<lambda>m. refused (''start_primary: PostgreSQL started but its role could not be confirmed ('' @ m @
            ''); lease NOT claimed '' @ [CHR 0xE2, CHR 0x80, CHR 0x94] @ '' re-run once it answers''))) (\<lambda>rec.
      if rec then
        orch_finish (refused (''start_primary: PostgreSQL started but is IN RECOVERY '' @ [CHR 0xE2, CHR 0x80, CHR 0x94] @
          '' not claiming the lease for a node that is not serving writes''))
      else
      (case held of
         Some term \<Rightarrow>
           orch_finish (succeeded (''start_primary: node '' @ show_int (nc_id loc) @ '' is primary on TL'' @ show_int tli @
             ''; already holds the lease (term '' @ show_nat (unat term) @ '')''))
       | None \<Rightarrow>
      orch_bind (orch_perform e (OcTakeover (nc_id loc)) (\<lambda>n w. (ra_takeover ra n, w))) (\<lambda>r.
        orch_finish (case r of
          Inr (Won l) \<Rightarrow> succeeded (''start_primary: node '' @ show_int (nc_id loc) @ '' is primary on TL'' @ show_int tli @
            ''; lease claimed (term '' @ show_nat (unat (lease_term l)) @ '')'')
        | Inr (Lost cur) \<Rightarrow> refused (''start_primary: PostgreSQL is running, but the lease was taken concurrently'' @
            show_holder cur @ '' '' @ [CHR 0xE2, CHR 0x80, CHR 0x94] @ '' check `cluster status` before doing anything else'')
        | Inl m \<Rightarrow> refused (''start_primary: PostgreSQL is running but the lease claim failed ('' @ m @
            ''); the HA loop will claim it once consensus recovers''))))))"

definition cluster_start_primary ::
  "orch_env \<Rightarrow> raft_answers option \<Rightarrow> start_answers \<Rightarrow> bool \<Rightarrow> (reply, unit) orch" where
  "cluster_start_primary e raft sa force =
     (case local_node (oe_pool e) of
        Inl err \<Rightarrow> orch_finish (internal (''start_primary: resolve local node: '' @ show_agent_error err))
      | Inr loc \<Rightarrow>
     if sa_standby_signal sa then
       orch_finish (refused (''start_primary: pgdata is standby-shaped (standby.signal present) '' @
         [CHR 0xE2, CHR 0x80, CHR 0x94] @ '' starting it would produce a standby, not a primary; use `cluster recover '' @
         ''--target` from the intended primary''))
     else if \<not> sa_initialised sa then
       orch_finish (refused (''start_primary: '' @ rt_data_dir (oe_rt e) @ '' is not an initialised data directory''))
     else
     (case raft of
        None \<Rightarrow> orch_finish (internal ''start_primary: no consensus subsystem'')
      | Some ra \<Rightarrow>
     orch_bind (orch_read (ra_read ra)
         (\<lambda>m. Inl (FailedPrecondition (''start_primary: consensus unreadable ('' @ m @ '') '' @
            [CHR 0xE2, CHR 0x80, CHR 0x94] @ '' an unknown lease is not a vacant one; resolve consensus first '' @
            ''(`cluster status` reports whether membership is formed)'')))) (\<lambda>state.
     orch_seq (case cs_lease state of
        Some l \<Rightarrow>
          if lease_holder l \<noteq> nc_id loc then
            orch_finish (refused (''start_primary: node '' @ show_int (lease_holder l) @ '' already holds the lease (term '' @
              show_nat (unat (lease_term l)) @ '') '' @ [CHR 0xE2, CHR 0x80, CHR 0x94] @
              '' it is the primary; rebuild this node from it with `cluster recover --target '' @ show_int (nc_id loc) @
              ''` run there''))
          else orch_return ()
      | None \<Rightarrow> orch_return ())
     (let tli = (case sa_control_timeline sa of Inr t \<Rightarrow> t | Inl _ \<Rightarrow> 0) in
      orch_bind (orch_perform e OcStatusFanOut (\<lambda>n w. (Inr (sa_views sa) :: (string, peer_status_view list) result, w))) (\<lambda>v.
      let ahead = timelines_ahead tli (case v of Inr vs \<Rightarrow> vs | Inl _ \<Rightarrow> []) in
      if ahead \<noteq> [] \<and> \<not> force then
        orch_finish (refused (''start_primary: local timeline is '' @ show_int tli @ '' but '' @ join '', '' ahead @
          '' reports a higher one '' @ [CHR 0xE2, CHR 0x80, CHR 0x94] @ '' this node was promoted past and its writes '' @
          ''would fork the cluster. Recover it from that node instead, or pass --force if you have adjudicated otherwise''))
      else start_and_claim e ra loc tli (map_option lease_term (cs_lease state)))))))"

section \<open>set_pause and retry_maintenance\<close>

definition set_pause :: "orch_env \<Rightarrow> raft_answers option \<Rightarrow> bool \<Rightarrow> string \<Rightarrow> (reply, unit) orch" where
  "set_pause e raft pause reason =
     (if pause \<and> trim reason = [] then
        orch_finish (refused (''pause requires --reason: the next person to look at a cluster that is not failing over '' @
          ''needs to know why''))
      else
     (case raft of
        None \<Rightarrow> orch_finish (refused (''pause requires consensus, and this daemon has none '' @ [CHR 0xE2, CHR 0x80, CHR 0x94] @
          '' which should be impossible in a real deployment, since pg_agentd refuses to start without it. Check the '' @
          ''journal for what came up instead''))
      | Some ra \<Rightarrow>
     orch_bind calls_made (\<lambda>n.
     let p = (if pause then Some \<lparr>paused_reason = trim reason,
                paused_set_by = ''node'' @ show_int (np_local_node_id (oe_pool e)), paused_at = oe_now e n\<rparr> else None) in
     orch_seq (orch_try (orch_perform e (OcSetPaused p) (\<lambda>n w. (ra_set_paused ra n, w)))
         (\<lambda>m. internal (''set_pause: '' @ m)))
       (orch_finish (succeeded (case p of
          Some p \<Rightarrow> ''cluster paused ('' @ paused_reason p @
            ''). Automatic failover is OFF until `pg_agentctl cluster resume`.''
        | None \<Rightarrow> ''cluster resumed; automatic role decisions are live again''))))))"

text \<open>\<open>str::contains\<close>, and lower case of the ASCII letters (the pattern sought is ASCII).\<close>

fun str_contains :: "string \<Rightarrow> string \<Rightarrow> bool" where
  "str_contains [] p = (p = [])"
| "str_contains (c # cs) p = (take (length p) (c # cs) = p \<or> str_contains cs p)"

definition ascii_lower :: "char \<Rightarrow> char" where
  "ascii_lower c = (if CHR ''A'' \<le> c \<and> c \<le> CHR ''Z'' then char_of (of_char c + 32 :: nat) else c)"

definition map_intent_lookup_error :: "string \<Rightarrow> string \<Rightarrow> status" where
  "map_intent_lookup_error i err =
     (if str_contains err ''No such file or directory'' \<or> str_contains (map ascii_lower err) ''not found''
      then NotFoundStatus (''maintenance intent '' @ debug_str i @ '' not found'')
      else Internal (''maintenance store: '' @ err))"

definition queue_get :: "string \<Rightarrow> ('x, (string, maintenance_intent) result) orch" where
  "queue_get i = (\<lambda>w. (Inr (get_intent i (ow_queue w)), w))"

definition retry_maintenance :: "orch_env \<Rightarrow> string \<Rightarrow> (reply, unit) orch" where
  "retry_maintenance e i =
     (if i = [] then orch_finish (Inl (InvalidArgument ''retry_maintenance: id is required''))
      else
     orch_bind (orch_try (queue_get i) (\<lambda>m. Inl (map_intent_lookup_error i m))) (\<lambda>it.
     if mi_status it \<noteq> MPending then
       orch_finish (refused (''intent '' @ mi_id it @ '' is in status '' @ debug_str (mstatus_as_wire (mi_status it)) @
         ''; only pending intents can be retried''))
     else
     orch_seq (orch_try (orch_perform e (OcReschedule i) (\<lambda>n w.
           case reschedule (oe_io e n) (oe_now e n) i (oe_now e n) (ow_queue w) of (r, q) \<Rightarrow> (r, w\<lparr>ow_queue := q\<rparr>)))
         (\<lambda>m. Inl (map_intent_lookup_error i m)))
       (orch_finish (succeeded ''intent rescheduled; the next maintenance sweep will pick it up''))))"

section \<open>cluster_status\<close>

record status_entry =
  se_node_id :: i32
  se_hostname :: string
  se_reachable :: bool
  se_error :: string
  se_status :: "node_status option"

record proto_lease =
  pl_holder :: i32
  pl_term :: u64
  pl_since :: string

record consensus_status =
  cn_membership_formed :: bool
  cn_raft_leader :: "i32 option"
  cn_error :: string
  cn_lease :: "proto_lease option"

record status_response =
  cr_all_reachable :: bool
  cr_nodes :: "status_entry list"
  cr_pause_status :: string
  cr_consensus :: "consensus_status option"

text \<open>The read of the document (\<open>None\<close>: not within its budget), and openraft's local metrics.\<close>

record raft_view =
  rv_read :: "(string, cluster_state) result option"
  rv_initialized :: "(string, bool) result"
  rv_leader :: "nat option"

definition status_entry_of :: "node_config \<Rightarrow> string \<Rightarrow> (string, node_status) result \<Rightarrow> status_entry" where
  "status_entry_of n what r =
     (case r of
        Inr s \<Rightarrow> \<lparr>se_node_id = nc_id n, se_hostname = nc_hostname n, se_reachable = True, se_error = [], se_status = Some s\<rparr>
      | Inl m \<Rightarrow> \<lparr>se_node_id = nc_id n, se_hostname = nc_hostname n, se_reachable = False, se_error = what @ '': '' @ m,
          se_status = None\<rparr>)"

definition status_rows ::
  "node_pool \<Rightarrow> (string, node_status) result \<Rightarrow> peer_status_view list \<Rightarrow> status_entry list" where
  "status_rows pool local_status views =
     sort_key se_node_id
       ((case List.find (is_local pool) (np_members pool) of
           Some n \<Rightarrow> [status_entry_of n ''local get_status'' local_status]
         | None \<Rightarrow> []) @
        map (\<lambda>v. status_entry_of (psv_node v) ''get_status'' (psv_status v)) views)"

definition as_i32 :: "nat \<Rightarrow> i32" where
  "as_i32 n = signed_take_bit 31 (int n)"

definition consensus_report :: "(datetime \<Rightarrow> string) \<Rightarrow> raft_view \<Rightarrow> string \<times> consensus_status" where
  "consensus_report fmt rv =
     (let formed = (case rv_initialized rv of Inr b \<Rightarrow> b | Inl _ \<Rightarrow> False);
          (pause, lease, error) =
            (case rv_read rv of
               Some (Inr state) \<Rightarrow>
                 ((case cs_paused state of
                     Some p \<Rightarrow> ''PAUSED: '' @ paused_reason p @ '' (set by '' @ paused_set_by p @ '' at '' @ fmt (paused_at p) @ '')''
                   | None \<Rightarrow> []),
                  map_option (\<lambda>l. \<lparr>pl_holder = lease_holder l, pl_term = lease_term l, pl_since = fmt (lease_since l)\<rparr>)
                    (cs_lease state), [])
             | Some (Inl m) \<Rightarrow>
                 ([], None,
                  if \<not> formed then
                    ''raft membership NOT FORMED on this node '' @ [CHR 0xE2, CHR 0x80, CHR 0x94] @ '' the pool has no voters, '' @
                    ''so no leader can ever be elected; restart pg_agentd to form it from the configured ['' @ ''[pool]] (read failed: '' @
                    m @ '')''
                  else ''consensus read failed: '' @ m)
             | None \<Rightarrow> ([], None, ''consensus read did not answer within 2s''))
      in (if error = [] then pause else ''unknown ('' @ error @ '')'',
          \<lparr>cn_membership_formed = formed, cn_raft_leader = map_option as_i32 (rv_leader rv), cn_error = error, cn_lease = lease\<rparr>))"

definition cluster_status ::
  "(datetime \<Rightarrow> string) \<Rightarrow> node_pool \<Rightarrow> (string, node_status) result \<Rightarrow> peer_status_view list \<Rightarrow> raft_view option \<Rightarrow>
     status_response" where
  "cluster_status fmt pool local_status views raft =
     (let rows = status_rows pool local_status views;
          (pause, consensus) = (case raft of
             None \<Rightarrow> ([], None)
           | Some rv \<Rightarrow> (case consensus_report fmt rv of (p, c) \<Rightarrow> (p, Some c)))
      in \<lparr>cr_all_reachable = list_all se_reachable rows, cr_nodes = rows, cr_pause_status = pause, cr_consensus = consensus\<rparr>)"

section \<open>A primary is started only on the lease\<close>

definition start_allowed :: "orch_env \<Rightarrow> nat \<Rightarrow> raft_answers option \<Rightarrow> start_answers \<Rightarrow> bool \<Rightarrow> node_config \<Rightarrow> lease option \<Rightarrow> bool" where
  "start_allowed e n raft sa force loc held \<longleftrightarrow>
     local_node (oe_pool e) = Inr loc \<and> \<not> sa_standby_signal sa \<and> sa_initialised sa \<and>
     (\<exists>ra state. raft = Some ra \<and> ra_read ra n = Inr state \<and> cs_lease state = held) \<and>
     (case held of Some l \<Rightarrow> lease_holder l = nc_id loc | None \<Rightarrow> True) \<and>
     (force \<or> (case sa_control_timeline sa of
        Inl _ \<Rightarrow> True
      | Inr t \<Rightarrow> 0 < t \<longrightarrow> list_all (\<lambda>v. case psv_status v of Inr s \<Rightarrow> timeline_id s \<le> t | Inl _ \<Rightarrow> True) (sa_views sa)))"

lemma timelines_ahead_none:
  "timelines_ahead t views = [] \<longleftrightarrow>
     (0 < t \<longrightarrow> list_all (\<lambda>v. case psv_status v of Inr s \<Rightarrow> timeline_id s \<le> t | Inl _ \<Rightarrow> True) views)"
  by (induction views) (auto simp: timelines_ahead_def List.map_filter_simps split: sum.splits option.splits if_splits)

definition successful :: "reply orch_exit \<Rightarrow> bool" where
  "successful x = (case x of Finished (Inr r) \<Rightarrow> or_ok r | _ \<Rightarrow> False)"

text \<open>
  How a start may end, with the calls it made after \<open>n\<close> earlier ones: refused before PostgreSQL is touched;
  failed to start; started, and its role not confirmed; started, confirmed, and the lease held already;
  or started, confirmed, and the swap on the vacant lease tried.
\<close>

inductive start_ends ::
  "orch_env \<Rightarrow> nat \<Rightarrow> raft_answers option \<Rightarrow> start_answers \<Rightarrow> bool \<Rightarrow> orch_event list \<Rightarrow> reply orch_exit \<Rightarrow> bool"
  for e n raft sa force where
  refused: "evs \<in> {[], [(OcStatusFanOut, True)]} \<Longrightarrow> \<not> successful x \<Longrightarrow> start_ends e n raft sa force evs x"
| failed: "start_allowed e n raft sa force loc held \<Longrightarrow> \<not> successful x \<Longrightarrow>
    start_ends e n raft sa force [(OcStatusFanOut, True), (OcStartLocal, False)] x"
| unconfirmed: "start_allowed e n raft sa force loc held \<Longrightarrow> \<not> successful x \<Longrightarrow>
    start_ends e n raft sa force [(OcStatusFanOut, True), (OcStartLocal, True)] x"
| held: "start_allowed e n raft sa force loc (Some l) \<Longrightarrow> oe_in_recovery e (n + 2) = Inr False \<Longrightarrow> successful x \<Longrightarrow>
    start_ends e n raft sa force [(OcStatusFanOut, True), (OcStartLocal, True)] x"
| claimed: "start_allowed e n (Some ra) sa force loc None \<Longrightarrow> raft = Some ra \<Longrightarrow> oe_in_recovery e (n + 2) = Inr False \<Longrightarrow>
    (successful x \<longleftrightarrow> (\<exists>l. ra_takeover ra (n + 2) = Inr (Won l))) \<Longrightarrow>
    start_ends e n raft sa force [(OcStatusFanOut, True), (OcStartLocal, True), (OcTakeover (nc_id loc), b)] x"

lemma successful_simps [simp]:
  "\<not> successful Crashed" "\<not> successful (Finished (Inl s))" "successful (Finished (Inr r)) = or_ok r"
  by (simp_all add: successful_def)

lemma wp_start_and_claim:
  assumes a: "start_allowed e n (Some ra) sa force loc lo" and v: "ow_events v = ow_events w @ [(OcStatusFanOut, True)]"
    and n: "n = length (ow_events w)"
    and X: "\<And>x w' evs. ow_events w' = ow_events w @ evs \<Longrightarrow> start_ends e n (Some ra) sa force evs x \<Longrightarrow> X x w'"
  shows "orch_wp (start_and_claim e ra loc tli (map_option lease_term lo)) Q X v"
proof -
  let ?started = "\<lambda>b. [(OcStatusFanOut, True), (OcStartLocal, b)]"
  have 0: "X Crashed v" by (rule X [OF v]) (simp add: start_ends.refused)
  have 1: "X (Finished (internal m)) (v\<lparr>ow_events := ow_events v @ [(OcStartLocal, False)]\<rparr>)" for m
    using v by (intro X [of _ "?started False"] start_ends.failed [OF a]) simp_all
  have 2: "X x (v\<lparr>ow_events := ow_events v @ [(OcStartLocal, True)]\<rparr>)" if "\<not> successful x" for x
    using v that by (intro X [of _ "?started True"] start_ends.unconfirmed [OF a]) simp_all
  have 3: "X x (v\<lparr>ow_events := ow_events v @ [(OcStartLocal, True)]\<rparr>)"
    if "lo = Some l" "oe_in_recovery e (n + 2) = Inr False" "successful x" for x l
    using v that a by (intro X [of _ "?started True"] start_ends.held [of e n "Some ra" sa force loc l]) simp_all
  have 4: "X x (v\<lparr>ow_events := ow_events v @ [(OcStartLocal, True), (OcTakeover (nc_id loc), b)]\<rparr>)"
    if "lo = None" "oe_in_recovery e (n + 2) = Inr False" "successful x \<longleftrightarrow> (\<exists>l. ra_takeover ra (n + 2) = Inr (Won l))" for x b
    using v that a
    by (intro X [of _ "?started True @ [(OcTakeover (nc_id loc), b)]"]) (auto intro: start_ends.claimed)
  have l: "length (ow_events v) = n + 1" using v n by simp
  show ?thesis
  proof (cases "oe_call e (n + 1) OcStartLocal")
    case (Inl m)
    with 0 1 l show ?thesis by (simp add: start_and_claim_def orch_wps orch_do_def wp_perform)
  next
    case call: (Inr u)
    show ?thesis
    proof (cases "oe_in_recovery e (n + 2)")
      case (Inl m)
      with 0 2 l call show ?thesis by (simp add: start_and_claim_def orch_wps orch_do_def wp_perform)
    next
      case rec: (Inr r)
      show ?thesis
      proof (cases r)
        case True
        with 0 2 l call rec show ?thesis by (simp add: start_and_claim_def orch_wps orch_do_def wp_perform)
      next
        case False
        show ?thesis
        proof (cases lo)
          case None
          show ?thesis
            using 0 2 [of Crashed] 4 [OF None] l call rec False None
            by (auto simp: start_and_claim_def orch_wps orch_do_def wp_perform split: sum.split takeover_outcome.split)
        next
          case (Some lv)
          with 0 3 l call rec False show ?thesis by (simp add: start_and_claim_def orch_wps orch_do_def wp_perform)
        qed
      qed
    qed
  qed
qed

lemma wp_start_primary:
  assumes X: "\<And>x w' evs. ow_events w' = ow_events w @ evs \<Longrightarrow> start_ends e (length (ow_events w)) raft sa force evs x \<Longrightarrow> X x w'"
  shows "orch_wp (cluster_start_primary e raft sa force) Q X w"
proof -
  let ?n = "length (ow_events w)"
  have 0: "X x w" if "\<not> successful x" for x using that by (intro X [of _ "[]"] start_ends.refused) simp_all
  show ?thesis
  proof (cases "local_node (oe_pool e)")
    case (Inl err)
    with 0 show ?thesis by (simp add: cluster_start_primary_def wp_finish)
  next
    case loc: (Inr loc)
    show ?thesis
    proof (cases "sa_standby_signal sa \<or> \<not> sa_initialised sa \<or> raft = None")
      case True
      with 0 loc show ?thesis by (auto simp: cluster_start_primary_def wp_finish)
    next
      case False
      then obtain ra where ra: "raft = Some ra" by auto
      show ?thesis
      proof (cases "ra_read ra ?n")
        case (Inl m)
        with 0 loc ra show ?thesis by (auto simp: cluster_start_primary_def orch_wps)
      next
        case rd: (Inr state)
        let ?v = "w\<lparr>ow_events := ow_events w @ [(OcStatusFanOut, True)]\<rparr>"
        let ?t = "case sa_control_timeline sa of Inr t \<Rightarrow> t | Inl _ \<Rightarrow> 0"
        have 1: "X x ?v" if "\<not> successful x" for x
          using that by (intro X [of _ "[(OcStatusFanOut, True)]"] start_ends.refused) simp_all
        have 2: "orch_wp (start_and_claim e ra loc ?t (map_option lease_term (cs_lease state))) Q X ?v"
          if "case cs_lease state of Some l \<Rightarrow> lease_holder l = nc_id loc | None \<Rightarrow> True" "timelines_ahead ?t (sa_views sa) = [] \<or> force"
        proof (rule wp_start_and_claim [where n = ?n and w = w])
          show "start_allowed e ?n (Some ra) sa force loc (cs_lease state)"
            using that loc False ra rd by (auto simp: start_allowed_def timelines_ahead_none split: sum.splits)
        qed (use X ra in auto)
        show ?thesis
          using 0 1 2 False rd
          by (auto simp: cluster_start_primary_def loc ra orch_wps wp_perform Let_def split: option.split)
      qed
    qed
  qed
qed


section \<open>A recovered node is attached only when it runs\<close>

text \<open>Every call of kind \<open>act\<close> comes after one of kind \<open>gate\<close>.\<close>

definition gated :: "(orch_event \<Rightarrow> bool) \<Rightarrow> (orch_event \<Rightarrow> bool) \<Rightarrow> orch_event list \<Rightarrow> bool" where
  "gated gate act evs \<longleftrightarrow> (\<forall>i < length evs. act (evs ! i) \<longrightarrow> (\<exists>j < i. gate (evs ! j)))"

lemma gated_append:
  assumes "gated gate act xs" and "\<And>y. y \<in> set ys \<Longrightarrow> act y \<Longrightarrow> \<exists>x \<in> set xs. gate x"
  shows "gated gate act (xs @ ys)"
  unfolding gated_def
proof (intro allI impI)
  fix i assume i: "i < length (xs @ ys)" "act ((xs @ ys) ! i)"
  show "\<exists>j<i. gate ((xs @ ys) ! j)"
  proof (cases "i < length xs")
    case True
    with i(2) have "act (xs ! i)" by (simp add: nth_append)
    with assms(1) True obtain j where "j < i" "gate (xs ! j)" by (auto simp: gated_def)
    with True show ?thesis by (intro exI [of _ j]) (simp add: nth_append)
  next
    case False
    with i have "ys ! (i - length xs) \<in> set ys" "act (ys ! (i - length xs))" by (simp_all add: nth_append)
    with assms(2) obtain x where "x \<in> set xs" "gate x" by blast
    then obtain j where "j < length xs" "gate (xs ! j)" by (auto simp: in_set_conv_nth)
    with False show ?thesis by (intro exI [of _ j]) (simp add: nth_append)
  qed
qed

definition attaching :: "orch_call \<Rightarrow> bool" where
  "attaching c = (case c of OcAttach _ \<Rightarrow> True | OcPeerAttach _ _ _ \<Rightarrow> True | OcPeerStartPgpool _ \<Rightarrow> True | _ \<Rightarrow> False)"

definition overwriting :: "orch_call \<Rightarrow> bool" where
  "overwriting c = (case c of OcPeerBasebackup _ _ \<Rightarrow> True | OcPeerConfigure _ _ \<Rightarrow> True | _ \<Rightarrow> False)"

text \<open>A call that touches no other node's PostgreSQL or slot.\<close>

definition concerns :: "i32 \<Rightarrow> orch_call \<Rightarrow> bool" where
  "concerns t c =
     (case c of
        OcPeerStop j \<Rightarrow> j = t
      | OcPeerStart j \<Rightarrow> j = t
      | OcPeerBasebackup j _ \<Rightarrow> j = t
      | OcPeerConfigure j _ \<Rightarrow> j = t
      | OcPeerStartPgpool j \<Rightarrow> j = t
      | OcAttach j \<Rightarrow> j = t
      | OcPeerAttach _ j _ \<Rightarrow> j = t
      | OcCreateSlot s \<Rightarrow> s = ''node'' @ show_int t
      | OcDropSlot s \<Rightarrow> s = ''node'' @ show_int t
      | OcQueue (DropSlotCleanup s _ _ _) \<Rightarrow> s = ''node'' @ show_int t
      | OcBegin _ _ \<Rightarrow> True | OcUpdatePhase _ _ \<Rightarrow> True | OcComplete _ \<Rightarrow> True | OcAbandon _ _ \<Rightarrow> True
      | OcCheckpoint \<Rightarrow> True
      | _ \<Rightarrow> False)"

definition recover_ok :: "i32 \<Rightarrow> bool \<Rightarrow> orch_event list \<Rightarrow> bool" where
  "recover_ok t down evs \<longleftrightarrow>
     list_all (\<lambda>ev. concerns t (fst ev)) evs \<and>
     gated (\<lambda>ev. ev = (OcPeerStart t, True)) (\<lambda>ev. attaching (fst ev)) evs \<and>
     (down \<or> gated (\<lambda>ev. ev = (OcPeerStop t, True)) (\<lambda>ev. overwriting (fst ev)) evs)"

lemma recover_ok_append:
  assumes "recover_ok t down xs" and "list_all (\<lambda>ev. concerns t (fst ev) \<and>
      (attaching (fst ev) \<longrightarrow> (OcPeerStart t, True) \<in> set xs) \<and>
      (overwriting (fst ev) \<longrightarrow> down \<or> (OcPeerStop t, True) \<in> set xs)) ys"
  shows "recover_ok t down (xs @ ys)"
  using assms unfolding recover_ok_def list_all_iff by (auto intro!: gated_append)

definition recover_at :: "i32 \<Rightarrow> bool \<Rightarrow> orch_world \<Rightarrow> orch_event list \<Rightarrow> orch_world \<Rightarrow> bool" where
  "recover_at t down w sofar w' \<longleftrightarrow>
     (\<exists>evs. ow_events w' = ow_events w @ evs \<and> recover_ok t down evs \<and> set sofar \<subseteq> set evs)"

lemma recover_call:
  assumes "recover_at t down w sofar v" and "concerns t c" "\<not> overwriting c"
    and "attaching c \<Longrightarrow> (OcPeerStart t, True) \<in> set sofar"
    and "\<And>r v'. recover_at t down w ((c, is_ok r) # sofar) v' \<Longrightarrow> Q r v'" and "\<And>v'. recover_at t down w sofar v' \<Longrightarrow> X Crashed v'"
  shows "orch_wp (orch_do e c) Q X v"
proof (rule wp_callI [where X = X])
  show "X Crashed v" by (rule assms(6) [OF assms(1)])
  fix r :: "(string, unit) result"
  from assms(1) obtain evs where evs: "ow_events v = ow_events w @ evs" "recover_ok t down evs" "set sofar \<subseteq> set evs"
    by (auto simp: recover_at_def)
  have "recover_ok t down (evs @ [(c, is_ok r)])" by (rule recover_ok_append) (use assms(2-4) evs in auto)
  with evs show "Q r (v\<lparr>ow_events := ow_events v @ [(c, is_ok r)]\<rparr>)"
    by (intro assms(5)) (auto simp: recover_at_def)
qed

lemma recover_weaken: "recover_at t down w (ev # sofar) v \<Longrightarrow> recover_at t down w sofar v"
  by (auto simp: recover_at_def)

lemma recover_fan_out:
  assumes "recover_at t down w sofar v" and "(OcPeerStart t, True) \<in> set sofar"
    and "\<And>a v'. recover_at t down w sofar v' \<Longrightarrow> Q a v'" and "\<And>v'. recover_at t down w sofar v' \<Longrightarrow> X Crashed v'"
  shows "orch_wp (attach_fan_out e t ms) Q X v"
  using assms(1,3)
proof (induction ms arbitrary: v Q)
  case (Cons m ms)
  show ?case
    using Cons.prems assms(2,4)
    by (auto simp: Let_def orch_wps concerns_def overwriting_def attaching_def intro!: Cons.IH recover_call
        dest: recover_weaken split: sum.split)
qed (simp add: wp_return)

lemma recover_online_ok:
  assumes "recover_at (nc_id standby) down w sofar v"
    and "\<And>x v'. recover_at (nc_id standby) down w sofar v' \<Longrightarrow> \<not> successful x \<Longrightarrow> X x v'"
    and "\<And>x v'. recover_at (nc_id standby) down w ((OcPeerStart (nc_id standby), True) # sofar) v' \<Longrightarrow> X x v'"
  shows "orch_wp (recover_online e standby) Q X v"
proof -
  let ?t = "nc_id standby" and ?S = "(OcPeerStart (nc_id standby), True) # sofar"
  have fan: "orch_wp (orch_do e (OcAttach ?t)) (\<lambda>a. orch_wp (attach_fan_out e ?t ms) (\<lambda>fan. X (Finished (y a fan))) X) X u"
    if "recover_at ?t down w (ev # ?S) u" for u y ms ev
    using that assms(3)
    by (intro recover_call [OF recover_weaken [OF that]])
      (auto simp: concerns_def overwriting_def attaching_def intro!: recover_fan_out [of ?t down w ?S] dest: recover_weaken)
  have pool: "orch_wp (orch_do e (OcPeerStartPgpool ?t)) (\<lambda>p. orch_wp (orch_do e (OcAttach ?t)) (\<lambda>a.
      orch_wp (attach_fan_out e ?t ms) (\<lambda>fan. X (Finished (y p a fan))) X) X) X u"
    if "recover_at ?t down w ?S u" for u y ms
    using that assms(3)
    by (intro recover_call [OF that]) (auto simp: concerns_def overwriting_def attaching_def intro!: fan)
  show ?thesis
    unfolding recover_online_def wp_seq wp_bind wp_finish wp_try
    using assms
    by (intro recover_call [OF assms(1)])
      (auto simp: concerns_def overwriting_def attaching_def intro!: pool dest: recover_weaken split: sum.split)
qed

lemma wp_conj:
  "orch_wp m Q X w \<Longrightarrow> orch_wp m Q' X' w \<Longrightarrow> orch_wp m (\<lambda>a w. Q a w \<and> Q' a w) (\<lambda>x w. X x w \<and> X' x w) w"
  by (auto simp: orch_wp_def split: prod.splits sum.splits)

lemma wp_any:
  assumes "\<And>r w'. Q r w'" and "\<And>w. X Crashed w"
  shows "orch_wp (orch_perform e c f) Q X w"
  using assms by (simp add: wp_perform split: prod.split)

text \<open>A forced recovery that does not go on has failed.\<close>

lemma forced_recovery_errors:
  "orch_wp (recovery_first_stage e p s True) (\<lambda>_ _. True) (\<lambda>x _. \<not> successful x) w"
proof -
  let ?X = "\<lambda>x (_ :: orch_world). \<not> successful x"
  have fail: "orch_wp (recovery_fail e i err) Q ?X v" for i err v and Q :: "'a \<Rightarrow> orch_world \<Rightarrow> bool"
    unfolding recovery_fail_def wp_bind wp_finish journal_abandon_def by (rule wp_any) simp_all
  have clean: "orch_wp (recovery_fail_cleanup e i slot host ca err) Q ?X v" for i slot host ca err v Q
    unfolding recovery_fail_cleanup_def cleanup_slot_after_failure_def wp_seq wp_bind orch_do_def queue_append_def
    by (rule wp_any) (auto simp: wp_bind wp_return intro!: wp_any fail split: sum.split)
  have step: "orch_wp (recovery_step e i slot host c wh ca) Q ?X v" if "\<And>v. Q () v" for i slot host c wh ca v Q
    unfolding recovery_step_def wp_bind orch_do_def
    by (rule wp_any) (auto simp: wp_return intro!: clean that split: sum.split)
  have phase: "orch_wp (recovery_phase e i ph) Q ?X v" if "\<And>v. Q () v" for i ph v Q
    unfolding recovery_phase_def wp_bind wp_return journal_phase_def using that by (intro wp_any) simp_all
  have run: "orch_wp (recovery_run e i primary standby) (\<lambda>_ _. True) ?X v" for i primary standby v
    unfolding recovery_run_def Let_def wp_bind wp_seq wp_try wp_return orch_do_def journal_complete_def
    by (rule wp_any) (auto simp: wp_return wp_calls_made intro!: fail clean step phase wp_any split: sum.split)
  show ?thesis
    unfolding recovery_first_stage_def wp_bind wp_seq wp_when wp_try journal_begin_def
    by (auto simp: required_ref_def resolved_def wp_finish wp_return intro!: wp_any run split: option.split sum.split)
qed

lemma outcome_calls:
  assumes "recovery_outcome e p (Some s) v x v'" and "\<And>n. resolve_node (oe_pool e) s = Inr n \<Longrightarrow> n = standby"
  obtains primary ok rest i where "ow_events v' = ow_events v @ (OcBegin (Recovery (nc_id primary)
        (nc_id standby) (nc_hostname standby) (slot_name standby)) ''started'', ok) # rest"
      "list_all (\<lambda>ev. recovery_call e i primary standby (fst ev)) rest"
      "is_ok x \<longrightarrow> (OcComplete i, True) \<in> set rest"
      "i = make_id ''recovery'' (oe_now e (length (ow_events v))) (is_seq (ow_journal v))"
proof -
  from assms obtain primary ok rest i where r: "ow_events v' = ow_events v @ (OcBegin (Recovery (nc_id primary)
        (nc_id standby) (nc_hostname standby) (slot_name standby)) ''started'', ok) # rest"
    "list_all (\<lambda>ev. recovery_call e i primary standby (fst ev)) rest"
    "is_ok x \<Longrightarrow> fate_of (slot_name standby) (nc_hostname primary) rest = Held \<and> last rest = (OcComplete i, True)"
    "i = make_id ''recovery'' (oe_now e (length (ow_events v))) (is_seq (ow_journal v))"
    unfolding recovery_outcome_def Let_def by (auto split: if_splits sum.splits)
  have "(OcComplete i, True) \<in> set rest" if "is_ok x"
    using r(3) [OF that] by (cases "rest = []") (auto dest: last_in_set)
  with r that show ?thesis by blast
qed

lemma recover_recovery:
  assumes at: "recover_at (nc_id standby) down w sofar v" and "down \<or> (OcPeerStop (nc_id standby), True) \<in> set sofar"
    and ref: "\<And>n. resolve_node (oe_pool e) (ref_of standby) = Inr n \<Longrightarrow> n = standby"
    and "\<And>r i v'. recover_at (nc_id standby) down w ((OcComplete i, True) # sofar) v' \<Longrightarrow> Q r v'"
    and "\<And>x v'. recover_at (nc_id standby) down w sofar v' \<Longrightarrow> \<not> successful x \<Longrightarrow> X x v'"
  shows "orch_wp (recovery_first_stage e p (Some (ref_of standby)) True) Q X v"
proof -
  from at obtain evs where evs: "ow_events v = ow_events w @ evs" "recover_ok (nc_id standby) down evs" "set sofar \<subseteq> set evs"
    by (auto simp: recover_at_def)
  have out: "recover_at (nc_id standby) down w ((if is_ok x then [(OcComplete (make_id ''recovery''
        (oe_now e (length (ow_events v))) (is_seq (ow_journal v))), True)] else []) @ sofar) v'"
    if o: "recovery_outcome e p (Some (ref_of standby)) v x v'" for x v'
  proof -
    from o ref obtain primary ok rest i where r: "ow_events v' = ow_events v @ (OcBegin (Recovery (nc_id primary)
        (nc_id standby) (nc_hostname standby) (slot_name standby)) ''started'', ok) # rest"
      "list_all (\<lambda>ev. recovery_call e i primary standby (fst ev)) rest"
      "is_ok x \<longrightarrow> (OcComplete i, True) \<in> set rest"
      "i = make_id ''recovery'' (oe_now e (length (ow_events v))) (is_seq (ow_journal v))"
      by (elim outcome_calls) blast
    have "recover_ok (nc_id standby) down (evs @ (OcBegin (Recovery (nc_id primary)
        (nc_id standby) (nc_hostname standby) (slot_name standby)) ''started'', ok) # rest)"
      using r(2) assms(2) evs(3)
      by (intro recover_ok_append [OF evs(2)])
        (auto simp: list_all_iff concerns_def attaching_def overwriting_def recovery_call_def slot_name_def
          split: orch_call.splits maintenance_payload.splits)
    with r evs show ?thesis by (auto simp: recover_at_def)
  qed
  have "orch_wp (recovery_first_stage e p (Some (ref_of standby)) True)
      (\<lambda>r v'. recovery_outcome e p (Some (ref_of standby)) v (Inr r) v')
      (\<lambda>y v'. ow_events v' = ow_events v \<or> recovery_outcome e p (Some (ref_of standby)) v (Inl y) v') v"
    by (rule wp_recovery_first_stage)
  from wp_conj [OF this forced_recovery_errors] show ?thesis
  proof (rule wp_mono, goal_cases)
    case (1 r v')
    with out [of "Inr r" v'] show ?case by (auto intro: assms(4))
  next
    case (2 x v')
    with out [of "Inl x" v'] evs show ?case by (auto simp: recover_at_def intro!: assms(5))
  qed
qed

lemma ref_of_unique:
  assumes "distinct (map nc_hostname (np_members pool))" and "node_by_id pool t = Inr standby"
    and "resolve_node pool (ref_of standby) = Inr n"
  shows "n = standby"
proof -
  have st: "standby \<in> set (np_members pool)" "nc_id standby = t" using assms(2) find_by_id_Inr by (fastforce simp: node_by_id_def)+
  show ?thesis
  proof (cases "nc_hostname standby = []")
    case True
    with assms(2,3) st show ?thesis by (auto simp: resolve_node_def ref_of_def Let_def split: if_splits)
  next
    case False
    with assms(3) have "n \<in> set (np_members pool)" "nc_hostname n = nc_hostname standby"
      by (auto simp: resolve_node_def ref_of_def node_by_hostname_def Let_def dest: List_find_SomeD split: option.splits)
    with assms(1) st(1) show ?thesis by (metis distinct_map inj_onD)
  qed
qed

text \<open>Whether the target was seen with PostgreSQL stopped.\<close>

definition seen_down :: "orch_env \<Rightarrow> nat \<Rightarrow> i32 \<Rightarrow> bool" where
  "seen_down e n t = (case oe_status e n t of Inr st \<Rightarrow> \<not> is_postgres_running st | Inl _ \<Rightarrow> False)"

text \<open>The outcome \<open>x\<close> of a recovery of node \<open>t\<close> from \<open>w\<close> to \<open>w'\<close>.\<close>

definition recover_outcome :: "orch_env \<Rightarrow> i32 \<Rightarrow> orch_world \<Rightarrow> reply orch_exit \<Rightarrow> orch_world \<Rightarrow> bool" where
  "recover_outcome e t w x w' \<longleftrightarrow> (\<exists>evs. ow_events w' = ow_events w @ evs \<and>
     (if evs = [] then \<not> successful x
      else t \<noteq> np_local_node_id (oe_pool e) \<and> oe_in_recovery e (length (ow_events w)) = Inr False \<and>
        recover_ok t (seen_down e (length (ow_events w)) t) evs \<and>
        (successful x \<longrightarrow> (OcPeerStart t, True) \<in> set evs \<and> (\<exists>i. (OcComplete i, True) \<in> set evs))))"

lemma recover_outcomeI:
  assumes "recover_at t (seen_down e (length (ow_events w)) t) w sofar v" and "t \<noteq> np_local_node_id (oe_pool e)"
    and "oe_in_recovery e (length (ow_events w)) = Inr False"
    and "successful x \<Longrightarrow> (OcPeerStart t, True) \<in> set sofar \<and> (OcComplete i, True) \<in> set sofar"
  shows "recover_outcome e t w x v"
proof -
  from assms(1) obtain evs where "ow_events v = ow_events w @ evs" "recover_ok t (seen_down e (length (ow_events w)) t) evs"
    "set sofar \<subseteq> set evs" by (auto simp: recover_at_def)
  with assms(2-4) show ?thesis unfolding recover_outcome_def by (intro exI [of _ evs]) (cases "successful x"; auto)
qed

text \<open>Once the target is stopped: the rebuild and what follows.\<close>

lemma recover_rebuild:
  assumes ne: "nc_id standby \<noteq> np_local_node_id (oe_pool e)" and rec: "oe_in_recovery e (length (ow_events w)) = Inr False"
    and ref: "\<And>n. resolve_node (oe_pool e) (ref_of standby) = Inr n \<Longrightarrow> n = standby"
    and at: "recover_at (nc_id standby) (seen_down e (length (ow_events w)) (nc_id standby)) w sofar v"
    and down: "seen_down e (length (ow_events w)) (nc_id standby) \<or> (OcPeerStop (nc_id standby), True) \<in> set sofar"
  shows "orch_wp (recovery_first_stage e p (Some (ref_of standby)) True)
    (\<lambda>resp. orch_wp (if \<not> or_ok resp then orch_finish (Inr resp) else recover_online e standby) (\<lambda>_ _. False)
       (recover_outcome e (nc_id standby) w)) (recover_outcome e (nc_id standby) w) v"
proof -
  let ?down = "seen_down e (length (ow_events w)) (nc_id standby)" and ?X = "recover_outcome e (nc_id standby) w"
  have online: "orch_wp (if \<not> or_ok resp then orch_finish (Inr resp) else recover_online e standby) (\<lambda>_ _. False) ?X u"
    if "recover_at (nc_id standby) ?down w ((OcComplete i, True) # sofar) u" for u i resp
  proof -
    have "orch_wp (recover_online e standby) (\<lambda>_ _. False) ?X u"
      by (rule recover_online_ok [OF that]) (auto intro: recover_outcomeI [OF _ ne rec, where i = i])
    thus ?thesis using that by (auto simp: wp_finish intro: recover_outcomeI [OF _ ne rec])
  qed
  show ?thesis
    by (rule recover_recovery [OF at down ref], assumption, rule online, assumption)
      (auto intro: recover_outcomeI [OF _ ne rec])
qed

text \<open>
  A recovered node is attached only when it runs. Over every answer and every crash, a
  \<open>cluster_recover\<close> that makes a call runs on a node that is not in recovery, for another member; its
  calls concern that member alone; the member's data directory is overwritten only if PostgreSQL was
  seen stopped there or was stopped by it before; and neither pgpool is started there nor the member
  attached in any pgpool unless PostgreSQL has been started on it before. Success is reported only with
  the recovery's journal entry completed and PostgreSQL started.
\<close>

theorem recovered_node_attached_only_when_running:
  assumes "distinct (map nc_hostname (np_members (oe_pool e)))"
  shows "case cluster_recover e t stop_target w of (Inl x, w') \<Rightarrow> recover_outcome e t w x w' | (Inr _, _) \<Rightarrow> False"
proof -
  let ?n = "length (ow_events w)" and ?down = "seen_down e (length (ow_events w)) t" and ?X = "recover_outcome e t w"
  have same: "?X x w" if "\<not> successful x" for x using that by (simp add: recover_outcome_def)
  have "orch_wp (cluster_recover e t stop_target) (\<lambda>_ _. False) ?X w"
  proof (cases "\<exists>primary standby. oe_in_recovery e ?n = Inr False \<and> local_node (oe_pool e) = Inr primary \<and>
      node_by_id (oe_pool e) t = Inr standby \<and> \<not> is_local (oe_pool e) standby")
    case True
    then obtain primary standby where rec: "oe_in_recovery e ?n = Inr False" and loc: "local_node (oe_pool e) = Inr primary"
      and st: "node_by_id (oe_pool e) t = Inr standby" and nl: "\<not> is_local (oe_pool e) standby" by blast
    have t: "nc_id standby = t" using st find_by_id_Inr by (fastforce simp: node_by_id_def)
    have ne: "nc_id standby \<noteq> np_local_node_id (oe_pool e)"
      using nl loc by (auto simp: is_local_def local_node_def split: if_splits)
    have start: "recover_at t ?down w [] w" by (simp add: recover_at_def recover_ok_def gated_def)
    note go = recover_rebuild [OF ne rec ref_of_unique [OF assms st], simplified, unfolded t]
    have "orch_wp (orch_try (orch_do e (OcPeerStop t)) f) (\<lambda>_. orch_wp (recovery_first_stage e (Some (ref_of primary)) (Some (ref_of standby)) True)
        (\<lambda>resp. orch_wp (if \<not> or_ok resp then orch_finish (Inr resp) else recover_online e standby) (\<lambda>_ _. False) ?X) ?X) ?X w"
      if "\<And>m. \<not> successful (Finished (f m))" for f
      unfolding wp_try using that
      by (intro recover_call [OF start])
        (auto simp: concerns_def overwriting_def attaching_def intro: go recover_outcomeI [OF _ ne [unfolded t] rec] split: sum.split)
    thus ?thesis
      using same rec nl t go [OF start]
      by (auto simp: cluster_recover_def loc st wp_bind wp_seq wp_read wp_finish wp_return seen_down_def split: sum.split)
  next
    case False
    with same show ?thesis by (auto simp: cluster_recover_def orch_wps split: sum.split)
  qed
  thus ?thesis by (auto simp: orch_wp_def split: sum.splits)
qed

lemma ex_recover_run:
  "\<exists>x w'. cluster_recover (ex_orch_env (Some 2)) 1 True ex_orch_world = (Inl x, w') \<and>
     ow_events w' = [(OcPeerStop 1, True), (OcBegin (Recovery 0 1 ''db1'' ''node1'') ''started'', True)]"
  by (simp add: cluster_recover_def recovery_first_stage_def recovery_run_def required_ref_def resolved_def orch_eval
      ex_orch_env_def ex_orch_world_def ex_handoff_pool_def ex_standby_status_def ref_of_def local_node_def node_by_id_def
      find_by_id_def is_local_def resolve_local_node_def resolve_node_def node_by_hostname_def Let_def slot_name_def
      begin_op_def read_all_def entries_def List.map_filter_def inflight_store_new_def no_faults_def write_atomic_def
      show_int_def show_digit digit_char_def char_of_def bit_0)

theorem recovered_node_attached_only_when_running_witness:
  "\<exists>x w'. cluster_recover (ex_orch_env (Some 2)) 1 True ex_orch_world = (Inl x, w') \<and>
     recover_outcome (ex_orch_env (Some 2)) 1 ex_orch_world x w'"
proof -
  have "distinct (map nc_hostname (np_members (oe_pool (ex_orch_env (Some 2)))))"
    by (simp add: ex_orch_env_def ex_handoff_pool_def)
  from recovered_node_attached_only_when_running [OF this, where t = 1 and stop_target = True and w = ex_orch_world] ex_recover_run
  show ?thesis by auto
qed

section \<open>Initialising standbys\<close>

definition init_call :: "orch_env \<Rightarrow> node_config \<Rightarrow> node_config \<Rightarrow> orch_call \<Rightarrow> bool" where
  "init_call e primary standby c =
     (case c of
        OcCreateSlot s \<Rightarrow> s = slot_name standby
      | OcDropSlot s \<Rightarrow> s = slot_name standby
      | OcQueue (DropSlotCleanup s h _ _) \<Rightarrow> s = slot_name standby \<and> h = nc_hostname primary
      | OcPeerStop j \<Rightarrow> j = nc_id standby
      | OcPeerBasebackup j opts \<Rightarrow> j = nc_id standby \<and> opts = basebackup_from e primary (slot_name standby)
      | OcPeerConfigure j opts \<Rightarrow> j = nc_id standby \<and> opts = conf_for e primary (slot_name standby)
      | OcPeerStart j \<Rightarrow> j = nc_id standby
      | _ \<Rightarrow> False)"

abbreviation init_trail where
  "init_trail e primary standby \<equiv> trail (init_call e primary standby) (slot_name standby) (nc_hostname primary)"

lemma wp_init_fail:
  assumes "init_trail e primary standby pre Held w"
    and "\<And>r w'. init_trail e primary standby pre GivenBack w' \<Longrightarrow> \<not> sr_ok r \<Longrightarrow> X (Finished r) w'"
    and "\<And>st w'. init_trail e primary standby pre st w' \<Longrightarrow> X Crashed w'"
  shows "orch_wp (init_fail e primary standby stage err) Q X w"
  unfolding init_fail_def wp_seq wp_finish
  by (rule trail_cleanup [OF assms(1)]) (auto simp: init_call_def standby_result_of_def intro: assms(2,3))

lemma wp_init_step:
  assumes "init_trail e primary standby pre Held w" and "init_call e primary standby c"
    and "c \<noteq> OcCreateSlot (slot_name standby)" "c \<noteq> OcDropSlot (slot_name standby)"
      "\<not> queues_drop (slot_name standby) (nc_hostname primary) c"
    and "\<And>w'. init_trail e primary standby pre Held w' \<Longrightarrow> Q () w'"
    and "\<And>r w'. init_trail e primary standby pre GivenBack w' \<Longrightarrow> \<not> sr_ok r \<Longrightarrow> X (Finished r) w'"
    and "\<And>st w'. init_trail e primary standby pre st w' \<Longrightarrow> X Crashed w'"
  shows "orch_wp (init_step e primary standby stage c) Q X w"
  unfolding init_step_def wp_bind orch_do_def
  by (rule trail_neutral [OF assms(1-5)])
    (auto simp: wp_return intro: assms(1,6-8) wp_init_fail split: sum.split)

lemma wp_init_standby:
  assumes "\<And>r w'. init_trail e primary standby (ow_events w) (if sr_ok r then Held else NotMade) w' \<Longrightarrow> Q r w'"
    and "\<And>r w'. init_trail e primary standby (ow_events w) GivenBack w' \<Longrightarrow> \<not> sr_ok r \<Longrightarrow> Q r w'"
    and "\<And>st w'. init_trail e primary standby (ow_events w) st w' \<Longrightarrow> X Crashed w'"
  shows "orch_wp (init_standby e primary standby) Q X w"
proof -
  let ?X = "\<lambda>x w. case x of Crashed \<Rightarrow> X Crashed w | Finished r \<Rightarrow> Q r w"
  let ?T = "init_trail e primary standby (ow_events w)" and ?s = "slot_name standby"
  have step: "orch_wp (init_step e primary standby stage c) P ?X v"
    if "?T Held v" "init_call e primary standby c" "c \<noteq> OcCreateSlot ?s" "c \<noteq> OcDropSlot ?s" "\<not> queues_drop ?s (nc_hostname primary) c"
      "\<And>w'. ?T Held w' \<Longrightarrow> P () w'" for stage c P v
    using that by (intro wp_init_step [OF that(1-5)]) (auto intro: assms)
  have fail: "orch_wp (init_fail e primary standby stage m) P ?X v" if "?T Held v" for stage m P v
    using that by (intro wp_init_fail) (auto intro: assms)
  have create: "orch_wp (orch_do e (OcCreateSlot ?s)) P ?X w"
    if "\<And>r w'. ?T (if is_ok r then Held else NotMade) w' \<Longrightarrow> P r w'" for P
    by (rule trail_create [OF trail_start [where P = "init_call e primary standby" and host = "nc_hostname primary"]]) (auto simp: init_call_def intro: that assms(3) trail_start)
  have "orch_wp (init_standby_steps e primary standby) Q ?X w"
    unfolding init_standby_steps_def Let_def wp_seq wp_bind wp_try wp_return wp_calls_made
    by (rule create)
      (auto simp: init_call_def queues_drop_def standby_result_of_def wp_return
        split: sum.split intro!: step fail assms(1))
  thus ?thesis unfolding init_standby_def wp_catch
    by (rule wp_mono) (auto simp: wp_return split: orch_exit.splits)
qed

text \<open>
  The initialisation of a standby concerns that standby and its slot only; it reports success exactly
  with the slot in use, and a failure gives the slot back if it had been made.
\<close>

lemma init_standby_gives_slot_back:
  "case init_standby e primary standby w of
     (Inr r, w') \<Rightarrow> (\<exists>rest. ow_events w' = ow_events w @ rest \<and> list_all (\<lambda>ev. init_call e primary standby (fst ev)) rest \<and>
       (let fate = fate_of (slot_name standby) (nc_hostname primary) rest in
        if sr_ok r then fate = Held else fate \<in> {NotMade, GivenBack}))
   | (Inl x, w') \<Rightarrow> x = Crashed"
proof -
  have "orch_wp (init_standby e primary standby) (\<lambda>r w'. \<exists>rest. ow_events w' = ow_events w @ rest \<and>
      list_all (\<lambda>ev. init_call e primary standby (fst ev)) rest \<and>
      (let fate = fate_of (slot_name standby) (nc_hostname primary) rest in
       if sr_ok r then fate = Held else fate \<in> {NotMade, GivenBack})) (\<lambda>x _. x = Crashed) w"
    by (rule wp_init_standby) (auto simp: trail_def Let_def split: if_splits)
  thus ?thesis by (auto simp: orch_wp_def split: prod.splits sum.splits)
qed

section \<open>The status report\<close>

text \<open>
  A pause is never reported as absent when the document could not be read, and the consensus block names
  a lease only from a successful read.
\<close>

lemma unread_is_unknown:
  assumes "consensus_report fmt rv = (pause, c)"
  shows "(\<forall>s. rv_read rv \<noteq> Some (Inr s)) \<longleftrightarrow> (\<exists>m. pause = ''unknown ('' @ m @ '')'' \<and> m = cn_error c \<and> m \<noteq> [])"
    and "cn_lease c \<noteq> None \<Longrightarrow> \<exists>s l. rv_read rv = Some (Inr s) \<and> cs_lease s = Some l \<and> map_option pl_term (cn_lease c) = Some (lease_term l)"
  using assms by (auto simp: consensus_report_def Let_def split: option.splits sum.splits if_splits)

end
