(* ===== verification/RestoreWal.thy ===== *)
theory RestoreWal
  imports Orchestrator WalStore Timeline
begin

text \<open>
  \<open>restore_wal\<close> of the local server (\<open>crates/pg-agent-core/src/localserver.rs\<close>): PostgreSQL's \<open>restore_command\<close>
  asks the other members, in the order of the pool, for a WAL file and writes the first answer to its
  destination. A peer that failed recently is passed over, and a timeline history file is judged before
  it is written. The decoding of bytes (\<open>from_utf8_lossy\<close>) is a parameter.
\<close>

section \<open>One peer\<close>

datatype fetch_outcome = Fetched | TryNext | Fatal status

text \<open>
  What an attempt meets: the clock when the cooldown is looked up and when a failure is noted, the dial,
  the answer to the request (\<open>None\<close>: the peer does not have the file), a failure while the stream is read
  for judging, the control file, and what the store meets when it writes. An attempt that outlives its
  deadline is dropped at one of the instants of the write, or before it.
\<close>

record fetch_answers =
  fa_now :: instant
  fa_failed_at :: instant
  fa_dial :: "(string, unit) result"
  fa_fetch :: "(string, string option) result"
  fa_read :: "(string, unit) result"
  fa_control :: "(string, control_point) result"
  fa_rng :: "(string, string) result"
  fa_faults :: restore_faults
  fa_cut :: "nat option"

record restore_env =
  re_canon :: "wpath \<Rightarrow> wpath option"
  re_store :: file_wal_store
  re_pool :: node_pool
  re_lossy :: "string \<Rightarrow> string"
  re_peer :: "nat \<Rightarrow> fetch_answers"

record restore_state =
  rs_fs :: wal_fs
  rs_cooldown :: "i32 \<rightharpoonup> instant"

definition restore_wal_peer_cooldown :: duration where
  "restore_wal_peer_cooldown = secs 10"

definition max_history_file_bytes :: nat where
  "max_history_file_bytes = 2 ^ 20"

definition screen_history_file :: "restore_env \<Rightarrow> fetch_answers \<Rightarrow> string \<Rightarrow> string \<Rightarrow> string option" where
  "screen_history_file re fa wal_file stream =
     (case fa_read fa of
        Inl _ \<Rightarrow> None
      | Inr _ \<Rightarrow>
          let bytes = take max_history_file_bytes stream in
          if length bytes = max_history_file_bytes then None
          else case timeline_of wal_file of
              None \<Rightarrow> Some bytes
            | Some requested \<Rightarrow>
                let local = (case fa_control fa of Inr p \<Rightarrow> p | Inl _ \<Rightarrow> cp_unknown);
                    history = parse_history (re_lossy re bytes)
                in case reachable local requested history of
                     Reachable \<Rightarrow> Some bytes
                   | LineageUnknown \<Rightarrow> Some bytes
                   | Diverged _ \<Rightarrow> None
                   | NotADescendant \<Rightarrow> None)"

text \<open>The attempt itself: its outcome, the instants of the file system, and whether the peer cools down.\<close>

definition fetch_attempt ::
  "restore_env \<Rightarrow> fetch_answers \<Rightarrow> string \<Rightarrow> string \<Rightarrow> wal_fs \<Rightarrow> fetch_outcome \<times> wal_fs list \<times> bool" where
  "fetch_attempt re fa wal_file dest fs =
     (case fa_dial fa of
        Inl _ \<Rightarrow> (TryNext, [fs], False)
      | Inr _ \<Rightarrow>
     (case fa_fetch fa of
        Inl _ \<Rightarrow> (TryNext, [fs], True)
      | Inr None \<Rightarrow> (TryNext, [fs], False)
      | Inr (Some stream) \<Rightarrow>
     (case (if is_history_file wal_file then screen_history_file re fa wal_file stream else Some stream) of
        None \<Rightarrow> (TryNext, [fs], False)
      | Some content \<Rightarrow>
     (case write_restore (re_canon re) (re_store re) (fa_rng fa) (fa_faults fa) dest content fs of
        (Inr _, states) \<Rightarrow> (Fetched, states, False)
      | (Inl DestOutsidePgData, states) \<Rightarrow>
          (Fatal (InvalidArgument ''restore_wal: dest_path outside pg_data_dir''), states, False)
      | (Inl _, states) \<Rightarrow> (TryNext, states, False)))))"

definition try_fetch_wal_from_peer ::
  "restore_env \<Rightarrow> fetch_answers \<Rightarrow> i32 \<Rightarrow> string \<Rightarrow> string \<Rightarrow> restore_state \<Rightarrow> fetch_outcome \<times> restore_state" where
  "try_fetch_wal_from_peer re fa i wal_file dest st =
     (case fetch_attempt re fa wal_file dest (rs_fs st) of
        (outcome, states, cool) \<Rightarrow>
          let cooled = (rs_cooldown st)(i \<mapsto> fa_failed_at fa) in
          case fa_cut fa of
            Some k \<Rightarrow> (TryNext, \<lparr>rs_fs = states ! min k (length states - 1), rs_cooldown = cooled\<rparr>)
          | None \<Rightarrow> (outcome, \<lparr>rs_fs = last states, rs_cooldown = (if cool then cooled else rs_cooldown st)\<rparr>))"

section \<open>The fan-out\<close>

definition cooling :: "restore_state \<Rightarrow> i32 \<Rightarrow> instant \<Rightarrow> bool" where
  "cooling st i now =
     (case rs_cooldown st i of Some since \<Rightarrow> now - since < restore_wal_peer_cooldown | None \<Rightarrow> False)"

fun restore_loop ::
  "restore_env \<Rightarrow> i32 \<Rightarrow> string \<Rightarrow> string \<Rightarrow> nat \<Rightarrow> node_config list \<Rightarrow> restore_state \<Rightarrow> reply \<times> restore_state" where
  "restore_loop re local_id wal_file dest k [] st =
     (Inl (NotFoundStatus (''restore_wal: '' @ wal_file @ '' not found on any peer'')), st)"
| "restore_loop re local_id wal_file dest k (n # ns) st =
     (if nc_id n = local_id \<or> cooling st (nc_id n) (fa_now (re_peer re k))
      then restore_loop re local_id wal_file dest (Suc k) ns st
      else case try_fetch_wal_from_peer re (re_peer re k) (nc_id n) wal_file dest st of
          (Fetched, st) \<Rightarrow> (succeeded (''restored '' @ wal_file @ '' from '' @ nc_hostname n), st)
        | (TryNext, st) \<Rightarrow> restore_loop re local_id wal_file dest (Suc k) ns st
        | (Fatal s, st) \<Rightarrow> (Inl s, st))"

definition restore_wal :: "restore_env \<Rightarrow> string \<Rightarrow> string \<Rightarrow> restore_state \<Rightarrow> reply \<times> restore_state" where
  "restore_wal re wal_file dest st =
     (if wal_file = [] then (Inl (InvalidArgument ''restore_wal: wal_file is required''), st)
      else if dest = [] then (Inl (InvalidArgument ''restore_wal: dest_path is required''), st)
      else case local_node (re_pool re) of
          Inl err \<Rightarrow> (internal (''restore_wal: resolve local node: '' @ show_agent_error err), st)
        | Inr loc \<Rightarrow> restore_loop re (nc_id loc) wal_file dest 0 (np_members (re_pool re)) st)"

section \<open>Only a timeline this node can follow\<close>

text \<open>
  Content that may be handed to PostgreSQL as \<open>wal_file\<close>: anything for a segment, since its name fixes its
  bytes; for a history file, one below the cap that does not describe a timeline forked before the end of
  the local WAL, or of another lineage, as far as the local position is known.
\<close>

definition followable :: "restore_env \<Rightarrow> fetch_answers \<Rightarrow> string \<Rightarrow> string \<Rightarrow> bool" where
  "followable re fa wal_file content \<longleftrightarrow>
     (is_history_file wal_file \<longrightarrow> length content < 2 ^ 20 \<and>
        (case (timeline_of wal_file, fa_control fa) of
           (Some requested, Inr here) \<Rightarrow>
             (is_known here \<and> cp_timeline_id here < requested \<longrightarrow>
                (case List.find (\<lambda>e. sw_tli e = cp_timeline_id here) (parse_history (re_lossy re content)) of
                   Some e \<Rightarrow> cp_checkpoint_lsn here \<le> sw_switchpoint e
                 | None \<Rightarrow> False))
         | _ \<Rightarrow> True))"

text \<open>Member \<open>k\<close> served \<open>content\<close>.\<close>

definition served_by :: "restore_env \<Rightarrow> i32 \<Rightarrow> string \<Rightarrow> nat \<Rightarrow> string \<Rightarrow> bool" where
  "served_by re local_id wal_file k content \<longleftrightarrow>
     k < length (np_members (re_pool re)) \<and> nc_id (np_members (re_pool re) ! k) \<noteq> local_id \<and>
     fa_fetch (re_peer re k) = Inr (Some content) \<and> followable re (re_peer re k) wal_file content"

lemma screen_passes:
  assumes "screen_history_file re fa wal_file stream = Some content" and "is_history_file wal_file"
  shows "content = stream \<and> followable re fa wal_file content"
  using assms
  by (auto simp: screen_history_file_def followable_def Let_def max_history_file_bytes_def reachable_def not_less
      split: sum.splits if_splits option.splits reachability.splits)

text \<open>A hidden file of a directory under the canonical data directory, as the temporary files are.\<close>

definition hidden_under :: "restore_env \<Rightarrow> wpath \<Rightarrow> bool" where
  "hidden_under re q \<longleftrightarrow> (\<exists>root dir n. re_canon re (components (fw_pg_data_dir (re_store re))) = Some root \<and>
     path_starts_with dir root \<and> q = child dir n \<and> starts_with n ''.'')"

text \<open>
  What a restore may make of the file system: the destination is as it was or holds a whole, synced file
  that one of \<open>contents\<close> is; elsewhere only hidden files were added.
\<close>

definition restored_to :: "restore_env \<Rightarrow> wpath \<Rightarrow> (string \<Rightarrow> bool) \<Rightarrow> wal_fs \<Rightarrow> wal_fs \<Rightarrow> bool" where
  "restored_to re p contents fs fs' \<longleftrightarrow>
     (fs' p = fs p \<or> (\<exists>content. contents content \<and> fs' p = Some (content, True))) \<and>
     (\<forall>q. q \<noteq> p \<longrightarrow> fs' q \<noteq> fs q \<longrightarrow> fs q = None \<and> hidden_under re q)"

lemma restored_to_refl [simp]: "restored_to re p contents fs fs"
  by (simp add: restored_to_def)

lemma restored_to_trans:
  "restored_to re p contents fs fs' \<Longrightarrow> restored_to re p contents fs' fs'' \<Longrightarrow> restored_to re p contents fs fs''"
  unfolding restored_to_def by metis

lemma write_restored_to:
  assumes "write_restore (re_canon re) (re_store re) rng rf dest content fs = (r, states)"
    and "resolve_dest_path (re_canon re) (re_store re) dest = Inr p" and "contents content" and "s \<in> set states"
  shows "restored_to re p contents fs s"
proof -
  have "fs q = None \<and> hidden_under re q" if q: "q \<noteq> p" "s q \<noteq> fs q" for q
  proof -
    from restore_instants [OF assms(1)] assms(4) q(2) obtain root dir n where
      "re_canon re (components (fw_pg_data_dir (re_store re))) = Some root" "path_starts_with dir root" "q = child dir n"
      "starts_with n ''.'' \<and> fs q = None \<or> resolve_dest_path (re_canon re) (re_store re) dest = Inr q"
      unfolding list_all_iff by blast
    with q(1) assms(2) show ?thesis unfolding hidden_under_def by fastforce
  qed
  with restore_dest_whole [OF assms(1,2,4)] assms(3) show ?thesis
    unfolding restored_to_def by blast
qed

lemma resolved_not_outside:
  assumes "resolve_dest_path canon w dest = Inr p" and "write_restore canon w rng rf dest src fs = (Inl e, states)"
  shows "e \<noteq> DestOutsidePgData"
proof -
  from assms(1) obtain dir base where "parent p = Some dir" "file_name p = Some base"
    by (rule resolve_cases)
  with assms show ?thesis
    by (auto simp: write_restore_def restore_body_def Let_def split: sum.splits option.splits if_splits prod.splits)
qed

lemma attempt_restored_to:
  assumes attempt: "fetch_attempt re fa wal_file dest fs = (outcome, states, cool)"
    and res: "resolve_dest_path (re_canon re) (re_store re) dest = Inr p"
    and served: "\<And>content. fa_fetch fa = Inr (Some content) \<Longrightarrow> followable re fa wal_file content \<Longrightarrow> contents content"
  shows "states \<noteq> [] \<and> (\<forall>s\<in>set states. restored_to re p contents fs s) \<and> (\<forall>e. outcome \<noteq> Fatal e) \<and>
    (outcome = Fetched \<longrightarrow> (\<exists>content. contents content \<and> last states p = Some (content, True)))"
proof (cases "states = [fs] \<and> outcome = TryNext")
  case False
  with attempt obtain stream content where f: "fa_fetch fa = Inr (Some stream)"
    and c: "(if is_history_file wal_file then screen_history_file re fa wal_file stream else Some stream) = Some content"
    unfolding fetch_attempt_def by (auto split: sum.splits option.splits)
  obtain r where w: "write_restore (re_canon re) (re_store re) (fa_rng fa) (fa_faults fa) dest content fs = (r, states)"
    and o: "outcome = (case r of Inr _ \<Rightarrow> Fetched | Inl DestOutsidePgData \<Rightarrow>
       Fatal (InvalidArgument ''restore_wal: dest_path outside pg_data_dir'') | Inl _ \<Rightarrow> TryNext)"
  proof -
    obtain r ss where w: "write_restore (re_canon re) (re_store re) (fa_rng fa) (fa_faults fa) dest content fs = (r, ss)"
      by fastforce
    show thesis
      by (rule that [of r]) (use attempt False f c w in
        \<open>auto simp: fetch_attempt_def split: sum.splits wal_store_error.splits if_splits\<close>)
  qed
  have "contents content"
    using served [of content] f c screen_passes [of re fa wal_file stream content]
    by (auto simp: followable_def split: if_splits)
  note s = write_restored_to [OF w res, of contents, OF this]
  show ?thesis
  proof (cases r)
    case (Inl e)
    with resolved_not_outside [OF res, of _ _ content fs e states] w o s restore_instants [OF w] show ?thesis
      by (cases e) auto
  next
    case (Inr u)
    with restore_instants [OF w] res o s \<open>contents content\<close> show ?thesis by auto
  qed
qed simp

lemma try_fetch_restored_to:
  assumes try_it: "try_fetch_wal_from_peer re fa i wal_file dest st = (outcome, st')"
    and res: "resolve_dest_path (re_canon re) (re_store re) dest = Inr p"
    and served: "\<And>content. fa_fetch fa = Inr (Some content) \<Longrightarrow> followable re fa wal_file content \<Longrightarrow> contents content"
  shows "restored_to re p contents (rs_fs st) (rs_fs st') \<and> (\<forall>e. outcome \<noteq> Fatal e) \<and>
    (outcome = Fetched \<longrightarrow> (\<exists>content. contents content \<and> rs_fs st' p = Some (content, True)))"
proof -
  obtain oc states cool where a: "fetch_attempt re fa wal_file dest (rs_fs st) = (oc, states, cool)"
    by (metis prod_cases3)
  note att = attempt_restored_to [OF a res, of contents, OF served]
  show ?thesis
  proof (cases "fa_cut fa")
    case None
    with try_it a att show ?thesis by (auto simp: try_fetch_wal_from_peer_def Let_def)
  next
    case (Some k)
    from att have "states ! min k (length states - 1) \<in> set states"
      by (intro nth_mem) (simp add: min_less_iff_disj)
    with try_it a att Some show ?thesis by (auto simp: try_fetch_wal_from_peer_def Let_def)
  qed
qed

lemma restore_loop_restored_to:
  assumes "restore_loop re local_id wal_file dest k ns st = (r, st')"
    and "resolve_dest_path (re_canon re) (re_store re) dest = Inr p"
    and "\<forall>j content. j < length ns \<and> nc_id (ns ! j) \<noteq> local_id \<and> fa_fetch (re_peer re (k + j)) = Inr (Some content) \<and>
       followable re (re_peer re (k + j)) wal_file content \<longrightarrow> contents content"
  shows "restored_to re p contents (rs_fs st) (rs_fs st') \<and>
    (case r of Inr _ \<Rightarrow> \<exists>content. contents content \<and> rs_fs st' p = Some (content, True)
     | Inl e \<Rightarrow> e = NotFoundStatus (''restore_wal: '' @ wal_file @ '' not found on any peer''))"
  using assms(1,3)
proof (induction ns arbitrary: k st)
  case Nil
  thus ?case by auto
next
  case (Cons n ns)
  have later: "\<forall>j content. j < length ns \<and> nc_id (ns ! j) \<noteq> local_id \<and> fa_fetch (re_peer re (Suc k + j)) = Inr (Some content) \<and>
       followable re (re_peer re (Suc k + j)) wal_file content \<longrightarrow> contents content"
    using Cons.prems(2) by (metis add_Suc_shift length_Cons not_less_eq nth_Cons_Suc)
  show ?case
  proof (cases "nc_id n = local_id \<or> cooling st (nc_id n) (fa_now (re_peer re k))")
    case True
    with Cons.prems(1) have "restore_loop re local_id wal_file dest (Suc k) ns st = (r, st')" by simp
    from Cons.IH [OF this later] show ?thesis .
  next
    case False
    obtain oc st1 where t: "try_fetch_wal_from_peer re (re_peer re k) (nc_id n) wal_file dest st = (oc, st1)" by fastforce
    have one: "restored_to re p contents (rs_fs st) (rs_fs st1) \<and> (\<forall>e. oc \<noteq> Fatal e) \<and>
      (oc = Fetched \<longrightarrow> (\<exists>content. contents content \<and> rs_fs st1 p = Some (content, True)))"
      by (rule try_fetch_restored_to [OF t assms(2)]) (use Cons.prems(2) [rule_format, of 0] False in auto)
    show ?thesis
    proof (cases oc)
      case TryNext
      with Cons.prems(1) False t have "restore_loop re local_id wal_file dest (Suc k) ns st1 = (r, st')" by simp
      from Cons.IH [OF this later] one show ?thesis by (blast intro: restored_to_trans)
    qed (use Cons.prems(1) False t one in auto)
  qed
qed

lemma restored_followable:
  assumes "restore_wal re wal_file dest st = (r, st')" and "resolve_dest_path (re_canon re) (re_store re) dest = Inr p"
    and "wal_file \<noteq> []" and "dest \<noteq> []" and "local_node (re_pool re) = Inr loc"
  shows "restored_to re p (\<lambda>content. \<exists>k. served_by re (nc_id loc) wal_file k content) (rs_fs st) (rs_fs st') \<and>
    (case r of Inr _ \<Rightarrow> \<exists>k content. served_by re (nc_id loc) wal_file k content \<and> rs_fs st' p = Some (content, True)
     | Inl e \<Rightarrow> e = NotFoundStatus (''restore_wal: '' @ wal_file @ '' not found on any peer''))"
proof -
  from assms have loop: "restore_loop re (nc_id loc) wal_file dest 0 (np_members (re_pool re)) st = (r, st')"
    by (simp add: restore_wal_def)
  have served: "\<forall>j content. j < length (np_members (re_pool re)) \<and> nc_id (np_members (re_pool re) ! j) \<noteq> nc_id loc \<and>
     fa_fetch (re_peer re (0 + j)) = Inr (Some content) \<and> followable re (re_peer re (0 + j)) wal_file content \<longrightarrow>
     (\<exists>k. served_by re (nc_id loc) wal_file k content)"
    by (auto simp: served_by_def)
  from restore_loop_restored_to [OF loop assms(2), where contents = "\<lambda>content. \<exists>k. served_by re (nc_id loc) wal_file k content", OF served]
  show ?thesis by (cases r) auto
qed

text \<open>
  PostgreSQL is given only WAL that a peer served and that it can follow, and only whole. Whatever
  the peers answer, whichever attempts are cut off by their deadline at whichever instant, and whatever
  the store meets: after \<open>restore_wal\<close> the destination is as it was, or holds, synced, exactly the bytes
  some other member of the pool served for this file, and for a history file these describe a timeline
  that did not fork before the end of the local WAL and is not of another lineage, as far as the control
  file could be read. The latter holds whenever the call answers success, and any other answer to a call
  with a file, a destination and a local node is that no peer has the file. Nothing else changed but for
  hidden files added under the data directory.
\<close>

theorem restored_wal_is_followable:
  assumes "restore_wal re wal_file dest st = (r, st')" and "resolve_dest_path (re_canon re) (re_store re) dest = Inr p"
    and "wal_file \<noteq> []" and "dest \<noteq> []" and "local_node (re_pool re) = Inr loc"
  shows "restored_to re p (\<lambda>content. \<exists>k. served_by re (nc_id loc) wal_file k content) (rs_fs st) (rs_fs st') \<and>
    (case r of Inr _ \<Rightarrow> \<exists>k content. served_by re (nc_id loc) wal_file k content \<and> rs_fs st' p = Some (content, True)
     | Inl e \<Rightarrow> e = NotFoundStatus (''restore_wal: '' @ wal_file @ '' not found on any peer''))"
  by (rule restored_followable [OF assms])

definition ex_fetch :: "(string, string option) result \<Rightarrow> fetch_answers" where
  "ex_fetch answer = \<lparr>fa_now = 0, fa_failed_at = 0, fa_dial = Inr (), fa_fetch = answer, fa_read = Inr (),
     fa_control = Inl ''pg_controldata'', fa_rng = Inr ''0a'',
     fa_faults = \<lparr>rf_open = None, rf_copy = None, rf_sync = None, rf_rename = None, rf_remove = False\<rparr>, fa_cut = None\<rparr>"

definition ex_restore_env :: restore_env where
  "ex_restore_env = \<lparr>re_canon = Some, re_store = \<lparr>fw_pg_data_dir = ''/data'', fw_archive_dir = ''/wal''\<rparr>,
     re_pool = ex_handoff_pool, re_lossy = id, re_peer = (\<lambda>_. ex_fetch (Inr (Some ''bytes'')))\<rparr>"

lemma ex_restore_dest:
  "resolve_dest_path (re_canon ex_restore_env) (re_store ex_restore_env) ''pg_wal/X'' = Inr (True, [''data'', ''pg_wal'', ''X''])"
proof -
  have "components ''/data/pg_wal/X'' = (True, [''data'', ''pg_wal'', ''X''])" "components ''/data'' = (True, [''data''])"
    by (simp_all add: components_def is_absolute_def starts_with_def)
  thus ?thesis
    by (simp add: resolve_dest_path_def path_join_def is_absolute_def starts_with_def ends_with_def
        parent_def file_name_def path_starts_with_def child_def ex_restore_env_def)
qed

lemma ex_restore_run:
  "\<exists>m st'. restore_wal ex_restore_env ''000000010000000000000001'' ''pg_wal/X''
     \<lparr>rs_fs = Map.empty, rs_cooldown = Map.empty\<rparr> = (succeeded m, st')"
  using ex_restore_dest
  by (auto simp: restore_wal_def ex_restore_env_def ex_handoff_pool_def local_node_def node_by_id_def find_by_id_def cooling_def
      try_fetch_wal_from_peer_def fetch_attempt_def ex_fetch_def is_history_file_def ends_with_def
      write_restore_def restore_body_def parent_def file_name_def Let_def)

theorem restored_wal_is_followable_witness:
  "\<exists>r st'. restore_wal ex_restore_env ''000000010000000000000001'' ''pg_wal/X''
       \<lparr>rs_fs = Map.empty, rs_cooldown = Map.empty\<rparr> = (Inr r, st') \<and>
     rs_fs st' (True, [''data'', ''pg_wal'', ''X'']) = Some (''bytes'', True)"
proof -
  obtain m st' where w: "restore_wal ex_restore_env ''000000010000000000000001'' ''pg_wal/X''
      \<lparr>rs_fs = Map.empty, rs_cooldown = Map.empty\<rparr> = (succeeded m, st')" using ex_restore_run by blast
  obtain loc where loc: "local_node (re_pool ex_restore_env) = Inr loc"
    by (simp add: ex_restore_env_def ex_handoff_pool_def local_node_def node_by_id_def find_by_id_def)
  from restored_wal_is_followable [OF w ex_restore_dest _ _ loc] w show ?thesis
    by (auto simp: served_by_def ex_restore_env_def ex_fetch_def)
qed

end
