(* ===== verification/HookSpec.thy ===== *)
theory HookSpec
  imports PgPrelude
begin

text \<open>
  The calling conventions of the hooks, \<open>crates/pg-agent-hookspec/src/lib.rs\<close>: the positional layouts that
  \<open>pg_agentc\<close> parses, and the command strings and settings for \<open>pgpool.conf\<close> and \<open>postgresql.conf\<close>
  that are derived from them. The three token spaces are three types, as in the source.
\<close>

section \<open>Names\<close>

abbreviation "HOOK_FAILOVER \<equiv> ''failover''"
abbreviation "HOOK_FOLLOW_PRIMARY \<equiv> ''follow_primary''"
abbreviation "HOOK_RECOVERY_1ST_STAGE \<equiv> ''recovery_1st_stage''"
abbreviation "HOOK_PGPOOL_REMOTE_START \<equiv> ''pgpool_remote_start''"
abbreviation "HOOK_ESCALATION \<equiv> ''escalation''"
abbreviation "HOOK_DE_ESCALATION \<equiv> ''de_escalation''"
abbreviation "HOOK_RESTORE_WAL \<equiv> ''restore-wal''"

definition pgdata_symlink_hooks :: "string list" where
  "pgdata_symlink_hooks = [HOOK_RECOVERY_1ST_STAGE, HOOK_PGPOOL_REMOTE_START]"

definition hook_names :: "string list" where
  "hook_names = [HOOK_FAILOVER, HOOK_FOLLOW_PRIMARY, HOOK_RECOVERY_1ST_STAGE, HOOK_PGPOOL_REMOTE_START,
     HOOK_ESCALATION, HOOK_DE_ESCALATION, HOOK_RESTORE_WAL]"

section \<open>Tokens and schemas\<close>

datatype token =
    DetachedId | DetachedHost | DetachedPort | DetachedData
  | NewMainId | NewMainHost | OldMainId | OldPrimaryId
  | NewMainPort | NewMainData | OldPrimaryHost | OldPrimaryPort

datatype postgres_token = WalFile | WalDest

datatype fixed_arg =
    PrimaryData | StandbyHost | StandbyData | PrimaryPort | StandbyId | StandbyPort | PrimaryHost
  | RemoteHost | RemoteData

record 'k param =
  prm_key :: 'k
  prm_token :: string
  prm_desc :: string

record 'k hook_schema =
  hs_params :: "'k param list"

record arg_count_error =
  ace_hook :: string
  ace_expected :: nat
  ace_got :: nat

definition show_arg_count_error :: "arg_count_error \<Rightarrow> string" where
  "show_arg_count_error e =
     ace_hook e @ '': expected '' @ show_nat (ace_expected e) @ '' args, got '' @ show_nat (ace_got e)"

definition insert_arg :: "'k param \<times> string \<Rightarrow> ('k \<rightharpoonup> string) \<Rightarrow> ('k \<rightharpoonup> string)" where
  "insert_arg pa m = m(prm_key (fst pa) \<mapsto> snd pa)"

definition schema_parse :: "'k hook_schema \<Rightarrow> string list \<Rightarrow> string \<Rightarrow> (arg_count_error, 'k \<rightharpoonup> string) result" where
  "schema_parse schema args hook =
     (if length args < length (hs_params schema)
      then Inl \<lparr>ace_hook = hook, ace_expected = length (hs_params schema), ace_got = length args\<rparr>
      else Inr (fold insert_arg (zip (hs_params schema) args) Map.empty))"

definition schema_tokens :: "'k hook_schema \<Rightarrow> string list" where
  "schema_tokens schema = map prm_token (hs_params schema)"

definition pgpool_cmd :: "string \<Rightarrow> 'k hook_schema \<Rightarrow> string" where
  "pgpool_cmd subcommand schema =
     (let tokens = schema_tokens schema in
      if tokens = [] then ''pg_agentc '' @ subcommand
      else ''pg_agentc '' @ subcommand @ '' '' @ join '' '' tokens)"

definition prm :: "'k \<Rightarrow> string \<Rightarrow> string \<Rightarrow> 'k param" where
  "prm k t d = \<lparr>prm_key = k, prm_token = t, prm_desc = d\<rparr>"

definition schema_failover :: "token hook_schema" where
  "schema_failover = \<lparr>hs_params =
     [prm DetachedId ''%d'' ''detached node ID'',
      prm DetachedHost ''%h'' ''detached node hostname'',
      prm DetachedPort ''%p'' ''detached node port'',
      prm DetachedData ''%D'' ''detached node $PGDATA'',
      prm NewMainId ''%m'' ''new main node ID'',
      prm NewMainHost ''%H'' ''new main node hostname'',
      prm OldMainId ''%M'' ''old main node ID'',
      prm OldPrimaryId ''%P'' ''old primary node ID'',
      prm NewMainPort ''%r'' ''new main node port'',
      prm NewMainData ''%R'' ''new main node $PGDATA'',
      prm OldPrimaryHost ''%N'' ''old primary hostname'',
      prm OldPrimaryPort ''%S'' ''old primary port'']\<rparr>"

definition schema_follow_primary :: "token hook_schema" where
  "schema_follow_primary = schema_failover"

definition schema_restore_wal :: "postgres_token hook_schema" where
  "schema_restore_wal = \<lparr>hs_params =
     [prm WalFile ''%f'' ''WAL segment filename'',
      prm WalDest ''%p'' ''destination path on this standby'']\<rparr>"

definition schema_recovery :: "fixed_arg hook_schema" where
  "schema_recovery = \<lparr>hs_params =
     [prm PrimaryData ''$1'' ''primary $PGDATA'',
      prm StandbyHost ''$2'' ''standby hostname'',
      prm StandbyData ''$3'' ''standby $PGDATA'',
      prm PrimaryPort ''$4'' ''primary port (pgpool 3.4+)'',
      prm StandbyId ''$5'' ''standby node ID (pgpool 4.0+)'',
      prm StandbyPort ''$6'' ''standby port (pgpool 4.1+)'',
      prm PrimaryHost ''$7'' ''primary hostname (pgpool 4.3+)'']\<rparr>"

definition schema_remote_start :: "fixed_arg hook_schema" where
  "schema_remote_start = \<lparr>hs_params =
     [prm RemoteHost ''$1'' ''hostname of standby to recover'',
      prm RemoteData ''$2'' (''primary's $PGDATA (discarded '' @ [CHR 0xE2, CHR 0x80, CHR 0x94] @ '' see notes '' @
        [CHR 0xC2, CHR 0xA7] @ ''11)'')]\<rparr>"

section \<open>Canonical configuration lines\<close>

record pgpool_hook_entry =
  phe_key :: string
  phe_value :: string

definition pgpool_hooks :: "pgpool_hook_entry list" where
  "pgpool_hooks =
     [\<lparr>phe_key = ''failover_command'', phe_value = pgpool_cmd HOOK_FAILOVER schema_failover\<rparr>,
      \<lparr>phe_key = ''follow_primary_command'', phe_value = []\<rparr>,
      \<lparr>phe_key = ''recovery_1st_stage_command'', phe_value = HOOK_RECOVERY_1ST_STAGE\<rparr>]"

definition pgpool_settings :: "pgpool_hook_entry list" where
  "pgpool_settings =
     [\<lparr>phe_key = ''use_watchdog'', phe_value = ''off''\<rparr>,
      \<lparr>phe_key = ''detach_false_primary'', phe_value = ''on''\<rparr>,
      \<lparr>phe_key = ''auto_failback'', phe_value = ''off''\<rparr>,
      \<lparr>phe_key = ''failover_on_backend_error'', phe_value = ''on''\<rparr>]"

definition restore_command :: string where
  "restore_command = pgpool_cmd HOOK_RESTORE_WAL schema_restore_wal"

lemmas schema_defs = schema_failover_def schema_follow_primary_def schema_restore_wal_def schema_recovery_def
  schema_remote_start_def

section \<open>Parsing is positional\<close>

lemma fold_update_other:
  "k \<notin> (prm_key \<circ> fst) ` set xs \<Longrightarrow> fold insert_arg xs m k = m k"
  by (induction xs arbitrary: m) (auto simp: insert_arg_def)

lemma fold_update_nth:
  assumes "distinct (map prm_key ps)" and "i < length ps" and "length ps \<le> length args"
  shows "fold insert_arg (zip ps args) m (prm_key (ps ! i)) = Some (args ! i)"
  using assms
proof (induction ps arbitrary: i args m)
  case (Cons p ps)
  then obtain a args' where args: "args = a # args'" by (cases args) auto
  show ?case
  proof (cases i)
    case 0
    have "(prm_key \<circ> fst) ` set (zip ps args') \<subseteq> prm_key ` set ps" by (auto dest: set_zip_leftD)
    with Cons.prems(1) have "prm_key p \<notin> (prm_key \<circ> fst) ` set (zip ps args')" by auto
    with 0 show ?thesis by (simp add: args fold_update_other) (simp add: insert_arg_def)
  next
    case (Suc j)
    with Cons.IH [of j args'] Cons.prems show ?thesis by (simp add: args)
  qed
qed simp

text \<open>A schema with distinct keys gives every key the argument at its position; more arguments are ignored.\<close>

lemma parse_positional:
  assumes "distinct (map prm_key (hs_params schema))"
  shows "schema_parse schema args hook = Inr m \<Longrightarrow> i < length (hs_params schema) \<Longrightarrow>
      m (prm_key (hs_params schema ! i)) = Some (args ! i)"
    and "length (hs_params schema) \<le> length args \<Longrightarrow> \<exists>m. schema_parse schema args hook = Inr m"
    and "length args < length (hs_params schema) \<Longrightarrow> \<exists>e. schema_parse schema args hook = Inl e"
  using assms by (auto simp: schema_parse_def fold_update_nth split: if_splits)

lemma schemas_distinct [simp]:
  "distinct (map prm_key (hs_params schema_failover))" "distinct (map prm_key (hs_params schema_follow_primary))"
  "distinct (map prm_key (hs_params schema_restore_wal))" "distinct (map prm_key (hs_params schema_recovery))"
  "distinct (map prm_key (hs_params schema_remote_start))"
  by (simp_all add: schema_defs prm_def)

text \<open>A command is its words.\<close>

lemma pgpool_cmd_words:
  assumes "list_all word_like (subcommand # schema_tokens schema)" and "schema_tokens schema \<noteq> []"
  shows "split_whitespace (pgpool_cmd subcommand schema) = ''pg_agentc'' # subcommand # schema_tokens schema"
proof -
  from assms(2) have "pgpool_cmd subcommand schema = join '' '' (''pg_agentc'' # subcommand # schema_tokens schema)"
    by (cases "schema_tokens schema") (simp_all add: pgpool_cmd_def Let_def)
  moreover have "word_like ''pg_agentc''" by (simp add: word_like_def is_ws_def)
  ultimately show ?thesis using split_whitespace_join [of "''pg_agentc'' # subcommand # schema_tokens schema"] assms(1) by simp
qed

end
