(* ===== verification/HookClient.thy ===== *)
theory HookClient
  imports HookSpec Orchestrator WalStore
begin

text \<open>
  The hook client, \<open>crates/pg-agentc/src/main.rs\<close>: a process that pgpool or PostgreSQL runs, that turns its
  arguments into one request to the daemon and the answer into an exit code. A run is a function of the
  arguments, the two environment variables, the dial and the daemon's answer to a request; what it
  printed and what it sent are part of the result. No result at all is a panic, which the release
  profile turns into an abort.
\<close>

section \<open>Requests\<close>

datatype hook_request =
    ReqFailover node_ref node_ref node_ref node_ref
  | ReqFollowPrimary node_ref node_ref node_ref node_ref
  | ReqRecovery node_ref node_ref bool
  | ReqRemoteStart node_ref
  | ReqEscalation
  | ReqRestoreWal string string
  | ReqStatus

text \<open>The text of \<open>ParseIntError\<close>.\<close>

definition parse_int_error :: "string \<Rightarrow> string" where
  "parse_int_error s =
     (let body = (case s of c # r \<Rightarrow> if c = CHR ''+'' \<or> c = CHR ''-'' then r else s | [] \<Rightarrow> []) in
      if s = [] then ''cannot parse integer from empty string''
      else if body = [] \<or> \<not> list_all (\<lambda>c. digit_val 10 c \<noteq> None) body then ''invalid digit found in string''
      else if hd s = CHR ''-'' then ''number too small to fit in target type''
      else ''number too large to fit in target type'')"

definition make_node_ref :: "string \<Rightarrow> string \<Rightarrow> string \<Rightarrow> string \<Rightarrow> (string, node_ref) result" where
  "make_node_ref i host port pgdata =
     (case (if i = [] then Some (-1) else parse_i32 i) of
        None \<Rightarrow> Inl (''non-numeric node id from pgpool: '' @ debug_str i @ '': '' @ parse_int_error i)
      | Some n \<Rightarrow> Inr \<lparr>ref_id = n, ref_hostname = host,
          ref_pg_port = (if port = [] then 0 else unwrap_or (parse_i32 port) 0), ref_pg_data = pgdata\<rparr>)"

definition get_arg :: "('k \<rightharpoonup> string) \<Rightarrow> 'k \<Rightarrow> string" where
  "get_arg m k = unwrap_or (m k) []"

definition parse_args :: "'k hook_schema \<Rightarrow> string list \<Rightarrow> string \<Rightarrow> (string, 'k \<rightharpoonup> string) result" where
  "parse_args schema args hook =
     (case schema_parse schema args hook of Inl e \<Rightarrow> Inl (show_arg_count_error e) | Inr m \<Rightarrow> Inr m)"

definition and_then :: "('e, 'a) result \<Rightarrow> ('a \<Rightarrow> ('e, 'b) result) \<Rightarrow> ('e, 'b) result" where
  "and_then r f = (case r of Inl e \<Rightarrow> Inl e | Inr a \<Rightarrow> f a)"

text \<open>The four references of \<open>failover_command\<close> and \<open>follow_primary_command\<close>.\<close>

definition announced :: "(token \<rightharpoonup> string) \<Rightarrow> (node_ref \<Rightarrow> node_ref \<Rightarrow> node_ref \<Rightarrow> node_ref \<Rightarrow> hook_request) \<Rightarrow> (string, hook_request) result" where
  "announced p req =
     and_then (make_node_ref (get_arg p DetachedId) (get_arg p DetachedHost) (get_arg p DetachedPort) (get_arg p DetachedData)) (\<lambda>detached.
     and_then (make_node_ref (get_arg p NewMainId) (get_arg p NewMainHost) (get_arg p NewMainPort) (get_arg p NewMainData)) (\<lambda>new_main.
     and_then (make_node_ref (get_arg p OldMainId) [] [] []) (\<lambda>old_main.
     and_then (make_node_ref (get_arg p OldPrimaryId) (get_arg p OldPrimaryHost) (get_arg p OldPrimaryPort) []) (\<lambda>old_primary.
       Inr (req detached new_main old_main old_primary)))))"

definition failover_request :: "string list \<Rightarrow> (string, hook_request) result" where
  "failover_request args =
     and_then (parse_args schema_failover args HOOK_FAILOVER) (\<lambda>p. announced p ReqFailover)"

definition follow_primary_request :: "string list \<Rightarrow> (string, hook_request) result" where
  "follow_primary_request args =
     and_then (parse_args schema_follow_primary args HOOK_FOLLOW_PRIMARY) (\<lambda>p. announced p ReqFollowPrimary)"

definition recovery_request :: "string list \<Rightarrow> (string, hook_request) result" where
  "recovery_request args =
     and_then (parse_args schema_recovery args HOOK_RECOVERY_1ST_STAGE) (\<lambda>p.
     and_then (make_node_ref [] (get_arg p PrimaryHost) (get_arg p PrimaryPort) (get_arg p PrimaryData)) (\<lambda>primary.
     and_then (make_node_ref (get_arg p StandbyId) (get_arg p StandbyHost) (get_arg p StandbyPort) (get_arg p StandbyData)) (\<lambda>standby.
       Inr (ReqRecovery primary standby False))))"

definition remote_start_request :: "string list \<Rightarrow> (string, hook_request) result" where
  "remote_start_request args =
     and_then (parse_args schema_remote_start args HOOK_PGPOOL_REMOTE_START) (\<lambda>p.
     and_then (make_node_ref [] (get_arg p RemoteHost) [] (get_arg p RemoteData)) (\<lambda>target. Inr (ReqRemoteStart target)))"

definition restore_wal_request :: "string list \<Rightarrow> (string, hook_request) result" where
  "restore_wal_request args =
     and_then (parse_args schema_restore_wal args HOOK_RESTORE_WAL) (\<lambda>p.
       Inr (ReqRestoreWal (get_arg p WalFile) (get_arg p WalDest)))"

section \<open>The timeout\<close>

definition is_ascii_digit :: "char \<Rightarrow> bool" where
  "is_ascii_digit c = (digit_val 10 c \<noteq> None)"

definition unit_secs :: "char \<Rightarrow> nat option" where
  "unit_secs c =
     (if c = CHR ''s'' then Some 1 else if c = CHR ''m'' then Some 60 else if c = CHR ''h'' then Some 3600 else None)"

text \<open>
  Seconds, below \<open>2 ^ 64\<close>: the multiplication wraps in the release profile, the addition of durations
  panics (\<open>None\<close>). The digits read so far are kept in reverse.
\<close>

fun humantime_loop :: "string \<Rightarrow> bool \<Rightarrow> nat \<Rightarrow> string \<Rightarrow> (string, nat \<times> string \<times> bool) result option" where
  "humantime_loop num saw_unit acc [] = Some (Inr (acc, rev num, saw_unit))"
| "humantime_loop num saw_unit acc (c # s) =
     (if is_ascii_digit c then humantime_loop (c # num) saw_unit acc s
      else if num = [] then Some (Inl ''unit without number'')
      else case parse_unsigned 10 64 (rev num) of
          None \<Rightarrow> Some (Inl ''bad number'')
        | Some n \<Rightarrow>
            (case unit_secs c of
               None \<Rightarrow> Some (Inl ''unknown unit'')
             | Some k \<Rightarrow>
                 let u = n * k mod 2 ^ 64 in
                 if 2 ^ 64 \<le> acc + u then None else humantime_loop [] True (acc + u) s))"

definition humantime_parse :: "string \<Rightarrow> (string, nat) result option" where
  "humantime_parse text =
     (let s = trim text in
      if s = [] then Some (Inl ''empty'')
      else case humantime_loop [] False 0 s of
          None \<Rightarrow> None
        | Some (Inl e) \<Rightarrow> Some (Inl e)
        | Some (Inr (acc, num, saw_unit)) \<Rightarrow>
            if num = [] then Some (Inr acc)
            else if saw_unit then Some (Inl ''trailing digits without unit'')
            else case parse_unsigned 10 64 num of
                None \<Rightarrow> Some (Inl ''bad number'')
              | Some n \<Rightarrow> if 2 ^ 64 \<le> acc + n then None else Some (Inr (acc + n)))"

definition default_timeout :: nat where
  "default_timeout = 30 * 60"

definition rpc_timeout :: "string option \<Rightarrow> (string, nat) result option" where
  "rpc_timeout var =
     (case var of
        None \<Rightarrow> Some (Inr default_timeout)
      | Some v \<Rightarrow>
          (case humantime_parse v of
             None \<Rightarrow> None
           | Some (Inl e) \<Rightarrow> Some (Inl (''invalid PG_AGENTC_TIMEOUT '' @ debug_str v @ '': '' @ e))
           | Some (Inr d) \<Rightarrow>
               if d = 0 then Some (Inl (''invalid PG_AGENTC_TIMEOUT '' @ debug_str v @ '': must be greater than zero''))
               else Some (Inr d)))"

section \<open>A run\<close>

text \<open>The daemon's answer: a value, an error status as text, or nothing within the deadline.\<close>

datatype 'a rpc_answer = Answered 'a | RpcError string | Late

record client_env =
  ce_socket :: "string option"
  ce_timeout :: "string option"
  ce_version :: string
  ce_dial :: "string \<Rightarrow> (string, unit) result"
  ce_op :: "hook_request \<Rightarrow> op_result rpc_answer"
  ce_status :: "node_status rpc_answer"

datatype cli_output = Help | Out string | Err string

record client_run =
  cr_code :: nat
  cr_output :: "cli_output list"
  cr_sent :: "(string \<times> hook_request) option"

definition is_known_command :: "string \<Rightarrow> bool" where
  "is_known_command name = (name = ''status'' \<or> name \<in> set hook_names)"

record invocation =
  inv_hook :: string
  inv_args :: "string list"

definition parse_invocation :: "string list \<Rightarrow> invocation option" where
  "parse_invocation argv =
     (let argv0_basename = (case argv of [] \<Rightarrow> [] | a # _ \<Rightarrow> unwrap_or (file_name (components a)) []) in
      if argv0_basename \<in> set pgdata_symlink_hooks then Some \<lparr>inv_hook = argv0_basename, inv_args = drop 1 argv\<rparr>
      else if 2 \<le> length argv then Some \<lparr>inv_hook = argv ! 1, inv_args = drop 2 argv\<rparr>
      else None)"

definition with_deadline :: "nat \<Rightarrow> 'a rpc_answer \<Rightarrow> (string, 'a) result" where
  "with_deadline timeout a =
     (case a of
        Answered r \<Rightarrow> Inr r
      | RpcError m \<Rightarrow> Inl (''rpc error: '' @ m)
      | Late \<Rightarrow> Inl (''rpc timeout after '' @ show_nat timeout @ ''s''))"

definition finish :: "string \<Rightarrow> op_result \<Rightarrow> nat \<times> cli_output list" where
  "finish hook r =
     (if or_ok r then (0, if or_message r \<noteq> [] then [Err (hook @ '': '' @ or_message r)] else [])
      else (1, [Err (hook @ '': '' @ or_message r)]))"

definition service_state :: "bool \<Rightarrow> bool \<Rightarrow> string" where
  "service_state running status_ok =
     (if \<not> status_ok then ''unknown'' else if running then ''running'' else ''stopped'')"

definition status_lines :: "node_status \<Rightarrow> cli_output list" where
  "status_lines s =
     [Out (''role:              '' @ (if is_in_recovery s then ''standby'' else ''primary'')),
      Out (''postgres:          '' @ service_state (is_postgres_running s) (is_postgres_status_ok s)),
      Out (''pgpool:            '' @ service_state (is_pgpool_running s) (is_pgpool_status_ok s)),
      Out (''ready:             '' @ (if is_ready s then ''yes'' else ''no''))] @
     (if is_in_recovery s then
        [Out (''replication_state: '' @ (if replication_state s = [] then ''unknown'' else replication_state s)),
         Out (''lag_bytes:         '' @ show_int (replication_lag_bytes s))]
      else [])"

text \<open>\<open>main\<close> prints an error and exits with 1.\<close>

definition failed :: "string \<Rightarrow> (string \<times> hook_request) option \<Rightarrow> client_run" where
  "failed m sent = \<lparr>cr_code = 1, cr_output = [Err (''pg_agentc: '' @ m)], cr_sent = sent\<rparr>"

text \<open>A handler: the request or an error, one call, the exit code.\<close>

definition handle_op ::
  "client_env \<Rightarrow> string \<Rightarrow> nat \<Rightarrow> string \<Rightarrow> (string, hook_request) result \<Rightarrow> client_run" where
  "handle_op ce socket timeout hook req =
     (case req of
        Inl m \<Rightarrow> failed m None
      | Inr r \<Rightarrow>
          (case with_deadline timeout (ce_op ce r) of
             Inl m \<Rightarrow> failed m (Some (socket, r))
           | Inr res \<Rightarrow> (case finish hook res of
               (code, out) \<Rightarrow> \<lparr>cr_code = code, cr_output = out, cr_sent = Some (socket, r)\<rparr>)))"

definition handle_status :: "client_env \<Rightarrow> string \<Rightarrow> nat \<Rightarrow> client_run" where
  "handle_status ce socket timeout =
     (case with_deadline timeout (ce_status ce) of
        Inl m \<Rightarrow> failed m (Some (socket, ReqStatus))
      | Inr s \<Rightarrow> \<lparr>cr_code = 0, cr_output = status_lines s, cr_sent = Some (socket, ReqStatus)\<rparr>)"

definition unknown_hook :: "string \<Rightarrow> client_run" where
  "unknown_hook hook =
     \<lparr>cr_code = 2, cr_output = [Err (''pg_agentc: unknown hook: '' @ debug_str hook @ '' (try 'pg_agentc help')'')], cr_sent = None\<rparr>"

definition handle_hook :: "client_env \<Rightarrow> string \<Rightarrow> nat \<Rightarrow> string \<Rightarrow> string list \<Rightarrow> client_run" where
  "handle_hook ce socket timeout hook args =
     (if hook = HOOK_FAILOVER then handle_op ce socket timeout HOOK_FAILOVER (failover_request args)
      else if hook = HOOK_FOLLOW_PRIMARY then handle_op ce socket timeout HOOK_FOLLOW_PRIMARY (follow_primary_request args)
      else if hook = HOOK_RECOVERY_1ST_STAGE then handle_op ce socket timeout HOOK_RECOVERY_1ST_STAGE (recovery_request args)
      else if hook = HOOK_PGPOOL_REMOTE_START then handle_op ce socket timeout HOOK_PGPOOL_REMOTE_START (remote_start_request args)
      else if hook = HOOK_ESCALATION \<or> hook = HOOK_DE_ESCALATION then handle_op ce socket timeout hook (Inr ReqEscalation)
      else if hook = HOOK_RESTORE_WAL then handle_op ce socket timeout HOOK_RESTORE_WAL (restore_wal_request args)
      else if hook = ''status'' then handle_status ce socket timeout
      else unknown_hook hook)"

definition default_socket :: string where
  "default_socket = ''/run/pg_agentd/pg_agentd.sock''"

definition dispatch :: "client_env \<Rightarrow> string list \<Rightarrow> client_run option" where
  "dispatch ce argv =
     (case parse_invocation argv of
        None \<Rightarrow> Some \<lparr>cr_code = 2, cr_output = [Help], cr_sent = None\<rparr>
      | Some iv \<Rightarrow>
          let hook = inv_hook iv in
          if hook \<in> {''help'', ''-h'', ''--help''} then Some \<lparr>cr_code = 0, cr_output = [Help], cr_sent = None\<rparr>
          else if hook \<in> {''version'', ''-v'', ''--version''} then
            Some \<lparr>cr_code = 0, cr_output = [Out (''pg_agentc '' @ ce_version ce)], cr_sent = None\<rparr>
          else if hook = ''config'' then
            Some \<lparr>cr_code = 1, cr_output = [Err (''pg_agentc: 'config' subcommands have moved to pg_agentctl. '' @
              ''Try 'pg_agentctl help'.'')], cr_sent = None\<rparr>
          else if \<not> is_known_command hook then Some (unknown_hook hook)
          else
            let socket = unwrap_or (ce_socket ce) default_socket in
            (case rpc_timeout (ce_timeout ce) of
               None \<Rightarrow> None
             | Some (Inl m) \<Rightarrow> Some (failed m None)
             | Some (Inr timeout) \<Rightarrow>
                 (case ce_dial ce socket of
                    Inl m \<Rightarrow> Some (failed (''connect to '' @ socket @ '': '' @ m) None)
                  | Inr _ \<Rightarrow> Some (handle_hook ce socket timeout hook (inv_args iv)))))"

section \<open>What is sent\<close>

text \<open>The request a hook stands for, whatever happens to it.\<close>

definition asked :: "string \<Rightarrow> string list \<Rightarrow> (string, hook_request) result" where
  "asked hook args =
     (if hook = HOOK_FAILOVER then failover_request args
      else if hook = HOOK_FOLLOW_PRIMARY then follow_primary_request args
      else if hook = HOOK_RECOVERY_1ST_STAGE then recovery_request args
      else if hook = HOOK_PGPOOL_REMOTE_START then remote_start_request args
      else if hook = HOOK_RESTORE_WAL then restore_wal_request args
      else Inr ReqEscalation)"

lemma handle_hook_known:
  assumes "is_known_command hook"
  shows "handle_hook ce socket timeout hook args =
    (if hook = ''status'' then handle_status ce socket timeout
     else handle_op ce socket timeout hook (asked hook args))"
  using assms by (auto simp: handle_hook_def asked_def is_known_command_def hook_names_def)

lemma parse_i32_range: "parse_i32 s = Some i \<Longrightarrow> i32_range i"
  by (auto simp: parse_i32_def parse_i32_radix_def i32_range_def opt_filter_def
      split: list.splits if_splits option.splits)

definition wt_ref :: "node_ref \<Rightarrow> bool" where
  "wt_ref r \<longleftrightarrow> i32_range (ref_id r) \<and> i32_range (ref_pg_port r)"

lemma make_node_ref_wt: "make_node_ref i h p d = Inr r \<Longrightarrow> wt_ref r"
  by (auto simp: make_node_ref_def wt_ref_def unwrap_or_def i32_range_def dest: parse_i32_range
      split: option.splits if_splits dest!: parse_i32_range [unfolded i32_range_def])

fun wt_request :: "hook_request \<Rightarrow> bool" where
  "wt_request (ReqFailover d nm om op) = (wt_ref d \<and> wt_ref nm \<and> wt_ref om \<and> wt_ref op)"
| "wt_request (ReqFollowPrimary d np om op) = (wt_ref d \<and> wt_ref np \<and> wt_ref om \<and> wt_ref op)"
| "wt_request (ReqRecovery p s bypass) = (wt_ref p \<and> ref_id p = -1 \<and> wt_ref s \<and> \<not> bypass)"
| "wt_request (ReqRemoteStart t) = (wt_ref t \<and> ref_id t = -1)"
| "wt_request _ = True"

lemma and_then_Inr: "and_then r f = Inr b \<longleftrightarrow> (\<exists>a. r = Inr a \<and> f a = Inr b)"
  by (cases r) (auto simp: and_then_def)

lemmas request_defs = failover_request_def follow_primary_request_def recovery_request_def remote_start_request_def
  restore_wal_request_def announced_def

lemma make_node_ref_no_id: "make_node_ref [] h p d = Inr r \<Longrightarrow> ref_id r = -1"
  by (auto simp: make_node_ref_def)

lemma asked_wt: "asked hook args = Inr req \<Longrightarrow> wt_request req"
  by (auto simp: asked_def request_defs and_then_Inr make_node_ref_wt make_node_ref_no_id split: if_splits)

lemma dispatch_sent:
  assumes "dispatch ce argv = Some r" and "cr_sent r = Some (socket, req)"
  obtains iv where "parse_invocation argv = Some iv" "is_known_command (inv_hook iv)"
    "socket = unwrap_or (ce_socket ce) default_socket" "ce_dial ce socket = Inr ()"
    "inv_hook iv = ''status'' \<and> req = ReqStatus \<or> inv_hook iv \<noteq> ''status'' \<and> asked (inv_hook iv) (inv_args iv) = Inr req"
proof -
  from assms obtain iv timeout where iv: "parse_invocation argv = Some iv" "is_known_command (inv_hook iv)"
    "ce_dial ce (unwrap_or (ce_socket ce) default_socket) = Inr ()"
    "r = handle_hook ce (unwrap_or (ce_socket ce) default_socket) timeout (inv_hook iv) (inv_args iv)"
    by (auto simp: dispatch_def failed_def unknown_hook_def Let_def split: option.splits if_splits sum.splits)
  from assms(2) iv(4) show thesis
    by (intro that [OF iv(1,2)])
      (use iv(3) in \<open>auto simp: handle_hook_known [OF iv(2)] handle_status_def handle_op_def failed_def
        split: if_splits sum.splits prod.splits\<close>)
qed


definition ex_client :: "(hook_request \<Rightarrow> op_result rpc_answer) \<Rightarrow> client_env" where
  "ex_client answer = \<lparr>ce_socket = None, ce_timeout = None, ce_version = ''0.1.0'', ce_dial = (\<lambda>_. Inr ()),
     ce_op = answer, ce_status = Late\<rparr>"

abbreviation ex_restore_argv :: "string list" where
  "ex_restore_argv \<equiv> [''pg_agentc'', ''restore-wal'', ''000000010000000000000001'', ''pg_wal/X'']"

lemma ex_restore_sent:
  "\<exists>r. dispatch (ex_client answer) ex_restore_argv = Some r \<and>
     cr_sent r = Some (default_socket, ReqRestoreWal ''000000010000000000000001'' ''pg_wal/X'')"
proof -
  have t: "rpc_timeout None = Some (Inr default_timeout)" by (simp add: rpc_timeout_def)
  have p: "parse_invocation ex_restore_argv = Some \<lparr>inv_hook = ''restore-wal'', inv_args = [''000000010000000000000001'', ''pg_wal/X'']\<rparr>"
    by code_simp
  have a: "restore_wal_request [''000000010000000000000001'', ''pg_wal/X''] = Inr (ReqRestoreWal ''000000010000000000000001'' ''pg_wal/X'')"
    by (simp add: restore_wal_request_def parse_args_def schema_parse_def schema_restore_wal_def prm_def insert_arg_def
        and_then_def get_arg_def unwrap_or_def)
  have k: "is_known_command ''restore-wal''" by code_simp
  show ?thesis
    by (simp add: dispatch_def p k t a ex_client_def handle_hook_known [OF k] asked_def handle_op_def failed_def unwrap_or_def
        split: sum.split prod.split)
qed


section \<open>Exit codes\<close>

text \<open>Commands answered without the daemon.\<close>

definition answers_itself :: "string \<Rightarrow> bool" where
  "answers_itself hook \<longleftrightarrow> hook \<in> {''help'', ''-h'', ''--help'', ''version'', ''-v'', ''--version''}"

definition accepted :: "client_env \<Rightarrow> hook_request \<Rightarrow> bool" where
  "accepted ce req =
     (if req = ReqStatus then (case ce_status ce of Answered _ \<Rightarrow> True | _ \<Rightarrow> False)
      else (case ce_op ce req of Answered r \<Rightarrow> or_ok r | _ \<Rightarrow> False))"

lemma asked_not_status: "asked hook args \<noteq> Inr ReqStatus"
  by (auto simp: asked_def request_defs and_then_Inr split: if_splits)

lemma with_deadline_Inr: "with_deadline t a = Inr x \<longleftrightarrow> a = Answered x"
  by (cases a) (auto simp: with_deadline_def)

lemma handle_hook_code:
  assumes "is_known_command hook"
  shows "cr_code (handle_hook ce socket timeout hook args) =
    (case cr_sent (handle_hook ce socket timeout hook args) of
       Some (_, req) \<Rightarrow> if accepted ce req then 0 else 1 | None \<Rightarrow> 1)"
proof (cases "hook = ''status''")
  case True
  hence "handle_hook ce socket timeout hook args = handle_status ce socket timeout"
    using handle_hook_known [OF assms] by simp
  thus ?thesis
    by (cases "ce_status ce") (simp_all add: handle_status_def failed_def with_deadline_def accepted_def)
next
  case False
  show ?thesis
  proof (cases "asked hook args")
    case (Inr req)
    with asked_not_status [of hook args] have "req \<noteq> ReqStatus" by auto
    with False Inr show ?thesis
      by (cases "ce_op ce req")
        (simp_all add: handle_hook_known [OF assms] handle_op_def failed_def with_deadline_def accepted_def finish_def)
  qed (simp add: False handle_hook_known [OF assms] handle_op_def failed_def)
qed

lemma exit_code_outcome:
  "case dispatch ce argv of
     Some r \<Rightarrow>
       cr_code r =
         (case parse_invocation argv of
            None \<Rightarrow> 2
          | Some iv \<Rightarrow>
              if answers_itself (inv_hook iv) then 0
              else if inv_hook iv \<noteq> ''config'' \<and> \<not> is_known_command (inv_hook iv) then 2
              else (case cr_sent r of Some (_, req) \<Rightarrow> if accepted ce req then 0 else 1 | None \<Rightarrow> 1))
   | None \<Rightarrow> (\<exists>v. ce_timeout ce = Some v \<and> humantime_parse v = None)"
proof (cases "parse_invocation argv")
  case None
  thus ?thesis by (simp add: dispatch_def)
next
  case (Some iv)
  have self: "is_known_command (inv_hook iv) \<Longrightarrow> \<not> answers_itself (inv_hook iv) \<and> inv_hook iv \<noteq> ''config''"
    by (auto simp: is_known_command_def hook_names_def answers_itself_def)
  show ?thesis
  proof (cases "is_known_command (inv_hook iv)")
    case False
    with Some show ?thesis by (auto simp: dispatch_def answers_itself_def unknown_hook_def Let_def)
  next
    case True
    with self have "\<not> answers_itself (inv_hook iv)" "inv_hook iv \<noteq> ''config''" by auto
    with Some True show ?thesis
      by (auto simp: dispatch_def answers_itself_def Let_def failed_def handle_hook_code [OF True] rpc_timeout_def
          split: option.splits sum.splits if_splits)
  qed
qed


section \<open>The timeout reads back\<close>

lemma show_nat_digits: "list_all is_ascii_digit (show_nat n)"
proof -
  have "list_all is_ascii_digit (show_radix 10 n)"
  proof (induction "10 :: nat" n rule: show_radix.induct)
    case (1 n)
    have d: "is_ascii_digit (digit_char d)" if "d < 10" for d
      using that digit_val_digit_char [of d 10] by (simp add: is_ascii_digit_def)
    show ?case
    proof (cases "n < 10")
      case True
      thus ?thesis using d by (subst show_radix.simps) simp
    next
      case False
      with 1 d show ?thesis by (subst show_radix.simps) simp
    qed
  qed
  thus ?thesis by (simp add: show_nat_def)
qed

lemma humantime_digits:
  "list_all is_ascii_digit ds \<Longrightarrow> humantime_loop num saw acc (ds @ s) = humantime_loop (rev ds @ num) saw acc s"
  by (induction ds arbitrary: num) auto

definition duration_text :: "(nat \<times> char) list \<Rightarrow> string" where
  "duration_text items = concat (map (\<lambda>(n, u). show_nat n @ [u]) items)"

definition duration_secs :: "(nat \<times> char) list \<Rightarrow> nat" where
  "duration_secs items = sum_list (map (\<lambda>(n, u). n * unwrap_or (unit_secs u) 0) items)"

lemma unit_not_digit: "unit_secs u = Some k \<Longrightarrow> \<not> is_ascii_digit u \<and> \<not> is_ws u \<and> 0 < k"
proof -
  have "\<forall>u \<in> set ''smh''. \<not> is_ascii_digit u \<and> \<not> is_ws u" by code_simp
  thus "unit_secs u = Some k \<Longrightarrow> \<not> is_ascii_digit u \<and> \<not> is_ws u \<and> 0 < k"
    by (auto simp: unit_secs_def split: if_splits)
qed

lemma humantime_items:
  assumes "list_all (\<lambda>(n, u). unit_secs u \<noteq> None) items" and "acc + duration_secs items < 2 ^ 64"
  shows "humantime_loop [] saw acc (duration_text items) = Some (Inr (acc + duration_secs items, [], saw \<or> items \<noteq> []))"
  using assms
proof (induction items arbitrary: acc saw)
  case Nil
  thus ?case by (simp add: duration_text_def duration_secs_def)
next
  case (Cons it items)
  obtain n u where it: "it = (n, u)" by fastforce
  from Cons.prems(1) it obtain k where k: "unit_secs u = Some k" by auto
  note u = unit_not_digit [OF k]
  have secs: "duration_secs (it # items) = n * k + duration_secs items"
    by (simp add: duration_secs_def it k unwrap_or_def)
  with Cons.prems(2) have b: "n * k < 2 ^ 64" "acc + n * k + duration_secs items < 2 ^ 64" by auto
  have "n * 1 \<le> n * k" using u by (intro mult_le_mono) auto
  with b(1) have "n < 2 ^ 64" by linarith
  hence p: "parse_unsigned 10 64 (show_nat n) = Some n"
    unfolding show_nat_def by (intro parse_unsigned_show) auto
  have "humantime_loop [] saw acc (duration_text (it # items)) =
      humantime_loop (rev (show_nat n)) saw acc (u # duration_text items)"
    using humantime_digits [OF show_nat_digits, of "[]" saw acc n "u # duration_text items"]
    by (simp add: duration_text_def it)
  also have "\<dots> = humantime_loop [] True (acc + n * k) (duration_text items)"
    using u b p k by (simp add: show_nat_def)
  also have "\<dots> = Some (Inr (acc + n * k + duration_secs items, [], True))"
    using Cons.IH [of "acc + n * k" True] Cons.prems(1) b(2) by simp
  finally show ?case by (simp add: secs)
qed

lemma digit_not_ws: "is_ascii_digit c \<Longrightarrow> \<not> is_ws c"
  by (auto simp: is_ascii_digit_def digit_val_def is_ws_def opt_filter_def Let_def split: if_splits)

lemma duration_text_no_ws:
  assumes "list_all (\<lambda>(n, u). unit_secs u \<noteq> None) items"
  shows "\<forall>c \<in> set (duration_text items). \<not> is_ws c"
proof
  fix c assume "c \<in> set (duration_text items)"
  then obtain n u where it: "(n, u) \<in> set items" "c \<in> set (show_nat n) \<or> c = u"
    by (auto simp: duration_text_def)
  with assms obtain k where "unit_secs u = Some k" by (auto simp: list_all_iff)
  with it unit_not_digit digit_not_ws show_nat_digits [of n] show "\<not> is_ws c" by (auto simp: list_all_iff)
qed

text \<open>
  The timeout reads as it is written: any sequence of numbers with the units \<open>s\<close>, \<open>m\<close> and \<open>h\<close>, in any
  order, is the sum of its parts in seconds, as long as that is a 64-bit number, and so is a number alone.
\<close>

theorem timeout_reads_back:
  assumes "list_all (\<lambda>(n, u). unit_secs u \<noteq> None) items" and "items \<noteq> []" and "duration_secs items < 2 ^ 64"
    and "n < 2 ^ 64"
  shows "humantime_parse (duration_text items) = Some (Inr (duration_secs items)) \<and>
    humantime_parse (show_nat n) = Some (Inr n)"
proof
  have t: "trim (duration_text items) = duration_text items"
    by (rule trim_id [OF duration_text_no_ws [OF assms(1)]])
  from assms(2) have "duration_text items \<noteq> []" by (cases items) (auto simp: duration_text_def)
  with humantime_items [of items 0 False] assms t
  show "humantime_parse (duration_text items) = Some (Inr (duration_secs items))"
    by (simp add: humantime_parse_def)
  have p: "parse_unsigned 10 64 (show_nat n) = Some n"
    unfolding show_nat_def using assms(4) by (intro parse_unsigned_show) auto
  have "trim (show_nat n) = show_nat n"
    by (rule trim_id) (use show_nat_digits [of n] digit_not_ws in \<open>auto simp: list_all_iff\<close>)
  moreover have "humantime_loop [] False 0 (show_nat n) = Some (Inr (0, show_nat n, False))"
    using humantime_digits [OF show_nat_digits, of "[]" False 0 n "[]"] by simp
  ultimately show "humantime_parse (show_nat n) = Some (Inr n)"
    using p assms(4) by (simp add: humantime_parse_def) (simp add: show_nat_def)
qed

theorem timeout_reads_back_witness:
  "humantime_parse (duration_text [(1, CHR ''h''), (30, CHR ''m'')]) = Some (Inr 5400) \<and>
   humantime_parse (show_nat 45) = Some (Inr 45)"
  using timeout_reads_back [of "[(1, CHR ''h''), (30, CHR ''m'')]" 45]
  by (simp add: unit_secs_def duration_secs_def unwrap_or_def)

text \<open>Minutes wrap: a timeout of some \<open>10 ^ 17\<close> minutes is one of forty-four seconds.\<close>

lemma huge_timeout_wraps: "humantime_loop (rev (show_nat 307445734561825861)) False 0 ''m'' = Some (Inr (44, [], True))"
proof -
  have "parse_unsigned 10 64 (show_nat 307445734561825861) = Some 307445734561825861"
    unfolding show_nat_def by (rule parse_unsigned_show) simp_all
  moreover have "\<not> is_ascii_digit CHR ''m''" using unit_not_digit [of "CHR ''m''" 60] by (simp add: unit_secs_def)
  ultimately show ?thesis by (simp add: unit_secs_def) (simp add: show_nat_def)
qed

section \<open>The canonical commands\<close>

text \<open>What pgpool and PostgreSQL make of a configured command: every token is replaced by its value.\<close>

definition substitute :: "(string \<Rightarrow> string) \<Rightarrow> string \<Rightarrow> string list" where
  "substitute val command = map (\<lambda>w. if starts_with w ''%'' then val w else w) (split_whitespace command)"


end
