(* ===== verification/HookPath.thy ===== *)
theory HookPath
  imports HookClient Hooks RestoreWal
begin

text \<open>
  A hook from the command line to its effect: the client (\<open>crates/pg-agentc/src/main.rs\<close>) sends its request to
  the handlers of the local server (\<open>crates/pg-agent-core/src/localserver.rs\<close>), whose answer becomes the
  exit code that pgpool or PostgreSQL sees.
\<close>

section \<open>The local service\<close>

definition answer_of :: "(status \<Rightarrow> string) \<Rightarrow> reply orch_exit \<Rightarrow> op_result rpc_answer" where
  "answer_of show_status x =
     (case x of
        Finished (Inr r) \<Rightarrow> Answered r
      | Finished (Inl s) \<Rightarrow> RpcError (show_status s)
      | Crashed \<Rightarrow> RpcError ''transport error'')"

record server =
  sv_env :: orch_env
  sv_restore :: restore_env
  sv_show :: "status \<Rightarrow> string"

type_synonym server_state = "orch_world \<times> restore_state"

text \<open>A handler that ends without exiting returns its value; those of type \<open>unit\<close> always exit.\<close>

definition run_unit :: "server \<Rightarrow> (reply, unit) orch \<Rightarrow> server_state \<Rightarrow> op_result rpc_answer \<times> server_state" where
  "run_unit sv m st =
     (case m (fst st) of
        (Inl x, w) \<Rightarrow> (answer_of (sv_show sv) x, (w, snd st))
      | (Inr _, w) \<Rightarrow> (RpcError [], (w, snd st)))"

definition serve_hook :: "server \<Rightarrow> hook_request \<Rightarrow> server_state \<Rightarrow> op_result rpc_answer \<times> server_state" where
  "serve_hook sv req st =
     (case req of
        ReqFailover d nm om op \<Rightarrow> run_unit sv (failover (sv_env sv) (Some d) (Some nm) (Some op)) st
      | ReqFollowPrimary d np om op \<Rightarrow> run_unit sv (follow_primary (sv_env sv) (Some d) (Some np)) st
      | ReqRecovery p s bypass \<Rightarrow>
          (case recovery_first_stage (sv_env sv) (Some p) (Some s) bypass (fst st) of
             (Inl x, w) \<Rightarrow> (answer_of (sv_show sv) x, (w, snd st))
           | (Inr r, w) \<Rightarrow> (Answered r, (w, snd st)))
      | ReqRemoteStart t \<Rightarrow> run_unit sv (remote_start (sv_env sv) (Some t)) st
      | ReqEscalation \<Rightarrow> run_unit sv (escalation (sv_env sv)) st
      | ReqRestoreWal f dest \<Rightarrow>
          (case restore_wal (sv_restore sv) f dest (snd st) of
             (r, rs) \<Rightarrow> (answer_of (sv_show sv) (Finished r), (fst st, rs)))
      | ReqStatus \<Rightarrow> (RpcError [], st))"

text \<open>A run of the client against the service; \<open>late\<close>: the answer does not arrive within the deadline.\<close>

definition hook_run :: "server \<Rightarrow> bool \<Rightarrow> client_env \<Rightarrow> string list \<Rightarrow> server_state \<Rightarrow> client_run option \<times> server_state" where
  "hook_run sv late ce argv st =
     (let ce = ce\<lparr>ce_op := (\<lambda>req. if late then Late else fst (serve_hook sv req st))\<rparr>;
          run = dispatch ce argv
      in (run, case run of
           Some r \<Rightarrow> (case cr_sent r of Some (_, req) \<Rightarrow> snd (serve_hook sv req st) | None \<Rightarrow> st)
         | None \<Rightarrow> st))"

lemma hook_run_cases:
  assumes "hook_run sv late ce argv st = (run, st')"
  obtains (untouched) "st' = st" "\<And>r. run = Some r \<Longrightarrow> cr_sent r = None"
  | (served) r socket req iv where "run = Some r" "cr_sent r = Some (socket, req)" "parse_invocation argv = Some iv"
    "inv_hook iv = ''status'' \<and> req = ReqStatus \<or> inv_hook iv \<noteq> ''status'' \<and> asked (inv_hook iv) (inv_args iv) = Inr req"
    "st' = snd (serve_hook sv req st)"
    "cr_code r = 0 \<Longrightarrow> req \<noteq> ReqStatus \<Longrightarrow> \<exists>res. fst (serve_hook sv req st) = Answered res \<and> or_ok res"
proof -
  let ?ce = "ce\<lparr>ce_op := (\<lambda>req. if late then Late else fst (serve_hook sv req st))\<rparr>"
  from assms have run: "run = dispatch ?ce argv"
    and st': "st' = (case run of Some r \<Rightarrow> (case cr_sent r of Some (_, req) \<Rightarrow> snd (serve_hook sv req st) | None \<Rightarrow> st) | None \<Rightarrow> st)"
    by (auto simp: hook_run_def Let_def)
  show thesis
  proof (cases "\<exists>r socket req. run = Some r \<and> cr_sent r = Some (socket, req)")
    case True
    then obtain r socket req where r: "run = Some r" "cr_sent r = Some (socket, req)" by blast
    from dispatch_sent [of ?ce argv r socket req] run r obtain iv where iv: "parse_invocation argv = Some iv"
      "is_known_command (inv_hook iv)"
      "inv_hook iv = ''status'' \<and> req = ReqStatus \<or> inv_hook iv \<noteq> ''status'' \<and> asked (inv_hook iv) (inv_args iv) = Inr req"
      by metis
    have "\<not> answers_itself (inv_hook iv)" "inv_hook iv \<noteq> ''config''"
      using iv(2) by (auto simp: is_known_command_def hook_names_def answers_itself_def)
    moreover from run r(1) have d: "dispatch ?ce argv = Some r" by simp
    ultimately have "cr_code r = 0 \<Longrightarrow> accepted ?ce req"
      using exit_code_outcome [of ?ce argv, unfolded d] r(2) iv(1,2) by (simp split: if_splits)
    hence "cr_code r = 0 \<Longrightarrow> req \<noteq> ReqStatus \<Longrightarrow> \<exists>res. fst (serve_hook sv req st) = Answered res \<and> or_ok res"
      by (auto simp: accepted_def split: if_splits rpc_answer.splits)
    with r iv st' show thesis by (intro served) auto
  next
    case False
    hence "\<And>r. run = Some r \<Longrightarrow> cr_sent r = None" by (metis option.exhaust prod.exhaust)
    moreover from this st' have "st' = st" by (auto split: option.splits)
    ultimately show thesis by (rule untouched [rotated])
  qed
qed

section \<open>restore_command\<close>

lemma fetched_resolved:
  assumes "fetch_attempt re fa wal_file dest fs = (Fetched, states, cool)"
  shows "\<exists>p. resolve_dest_path (re_canon re) (re_store re) dest = Inr p"
proof -
  from assms obtain content u where "write_restore (re_canon re) (re_store re) (fa_rng fa) (fa_faults fa) dest content fs = (Inr u, states)"
    by (auto simp: fetch_attempt_def split: sum.splits option.splits prod.splits wal_store_error.splits)
  from restore_instants [OF this] show ?thesis by auto
qed

lemma restore_loop_resolved:
  "restore_loop re local_id wal_file dest k ns st = (Inr r, st') \<Longrightarrow>
     \<exists>p. resolve_dest_path (re_canon re) (re_store re) dest = Inr p"
proof (induction ns arbitrary: k st)
  case (Cons n ns)
  show ?case
  proof (cases "\<exists>st1. try_fetch_wal_from_peer re (re_peer re k) (nc_id n) wal_file dest st = (Fetched, st1)")
    case True
    then obtain states cool where "fetch_attempt re (re_peer re k) wal_file dest (rs_fs st) = (Fetched, states, cool)"
      by (auto simp: try_fetch_wal_from_peer_def Let_def split: prod.splits option.splits)
    thus ?thesis by (rule fetched_resolved)
  next
    case False
    with Cons.prems obtain k' st1 where "restore_loop re local_id wal_file dest k' ns st1 = (Inr r, st')"
      by (auto split: if_splits prod.splits fetch_outcome.splits)
    thus ?thesis by (rule Cons.IH)
  qed
qed simp

text \<open>
  (C10) PostgreSQL is told a restore worked only when it did. When \<open>pg_agentc restore-wal\<close> exits with 0,
  over any answers of the peers, faults of the store and environment of the client, the destination it
  was given resolves into the data directory and holds, whole and synced, bytes that another member
  served for that file and that this node can follow.
\<close>

theorem restore_command_exit_zero_means_restored:
  assumes "hook_run sv late ce argv (w, rs) = (Some r, (w', rs'))" and "cr_code r = 0"
    and "parse_invocation argv = Some \<lparr>inv_hook = HOOK_RESTORE_WAL, inv_args = wal_file # dest # extra\<rparr>"
  shows "w' = w \<and> (\<exists>p loc k content. resolve_dest_path (re_canon (sv_restore sv)) (re_store (sv_restore sv)) dest = Inr p \<and>
    local_node (re_pool (sv_restore sv)) = Inr loc \<and> served_by (sv_restore sv) (nc_id loc) wal_file k content \<and>
    rs_fs rs' p = Some (content, True))"
proof -
  let ?re = "sv_restore sv"
  have ask: "asked HOOK_RESTORE_WAL (wal_file # dest # extra) = Inr (ReqRestoreWal wal_file dest)"
    by (simp add: asked_def restore_wal_request_def parse_args_def schema_parse_def schema_restore_wal_def prm_def insert_arg_def
        and_then_def get_arg_def unwrap_or_def)
  from assms(1) obtain res where st': "(w', rs') = snd (serve_hook sv (ReqRestoreWal wal_file dest) (w, rs))"
    and res: "fst (serve_hook sv (ReqRestoreWal wal_file dest) (w, rs)) = Answered res"
  proof (cases rule: hook_run_cases)
    case untouched
    from untouched(2) [OF refl] exit_code_outcome [of "ce\<lparr>ce_op := (\<lambda>req. if late then Late else fst (serve_hook sv req (w, rs)))\<rparr>" argv]
      assms have False
      by (auto simp: hook_run_def Let_def answers_itself_def is_known_command_def hook_names_def)
    thus ?thesis ..
  next
    case (served r' socket req iv)
    with assms ask have "req = ReqRestoreWal wal_file dest" by auto
    with served assms(2) show ?thesis by (auto intro: that)
  qed
  obtain reply rs1 where run: "restore_wal ?re wal_file dest rs = (reply, rs1)" by fastforce
  from res st' run obtain r' where reply: "reply = Inr r'" and "w' = w" "rs' = rs1"
    by (cases reply) (auto simp: serve_hook_def answer_of_def)
  from run reply have ne: "wal_file \<noteq> []" "dest \<noteq> []" by (auto simp: restore_wal_def split: if_splits)
  with run reply obtain loc where loc: "local_node (re_pool ?re) = Inr loc"
    and loop: "restore_loop ?re (nc_id loc) wal_file dest 0 (np_members (re_pool ?re)) rs = (Inr r', rs1)"
    by (auto simp: restore_wal_def split: sum.splits)
  from restore_loop_resolved [OF loop] obtain p where p: "resolve_dest_path (re_canon ?re) (re_store ?re) dest = Inr p" by blast
  from restored_followable [OF run p ne loc] reply p loc \<open>w' = w\<close> \<open>rs' = rs1\<close> show ?thesis by auto
qed

definition ex_server :: server where
  "ex_server = \<lparr>sv_env = ex_down_env, sv_restore = ex_restore_env, sv_show = (\<lambda>_. ''status'')\<rparr>"

theorem restore_command_exit_zero_means_restored_witness:
  "\<exists>r w' rs'. hook_run ex_server False (ex_client (\<lambda>_. Late)) ex_restore_argv
      (ex_orch_world, \<lparr>rs_fs = Map.empty, rs_cooldown = Map.empty\<rparr>) = (Some r, (w', rs')) \<and> cr_code r = 0 \<and>
    (\<exists>p. rs_fs rs' p = Some (''bytes'', True))"
proof -
  let ?st = "\<lparr>rs_fs = Map.empty, rs_cooldown = Map.empty\<rparr> :: restore_state"
  let ?serve = "\<lambda>req. fst (serve_hook ex_server req (ex_orch_world, ?st))"
  let ?ce = "ex_client ?serve" and ?req = "ReqRestoreWal ''000000010000000000000001'' ''pg_wal/X''"
  obtain m st1 where m: "restore_wal ex_restore_env ''000000010000000000000001'' ''pg_wal/X'' ?st = (succeeded m, st1)"
    using ex_restore_run by blast
  obtain r where r: "dispatch ?ce ex_restore_argv = Some r" "cr_sent r = Some (default_socket, ?req)"
    using ex_restore_sent by blast
  have iv: "parse_invocation ex_restore_argv = Some \<lparr>inv_hook = HOOK_RESTORE_WAL, inv_args = [''000000010000000000000001'', ''pg_wal/X'']\<rparr>"
    by code_simp
  have "accepted ?ce ?req" by (simp add: accepted_def ex_client_def serve_hook_def ex_server_def m answer_of_def)
  hence code: "cr_code r = 0"
    using exit_code_outcome [of ?ce ex_restore_argv, unfolded r(1)] r(2) iv
    by (simp add: answers_itself_def is_known_command_def hook_names_def)
  have "(ex_client (\<lambda>_. Late))\<lparr>ce_op := ?serve\<rparr> = ?ce" by (simp add: ex_client_def)
  with r m have run: "hook_run ex_server False (ex_client (\<lambda>_. Late)) ex_restore_argv (ex_orch_world, ?st) = (Some r, (ex_orch_world, st1))"
    by (simp add: hook_run_def Let_def serve_hook_def ex_server_def)
  from restore_command_exit_zero_means_restored [OF run code iv] run code show ?thesis
    by (auto simp: ex_server_def served_by_def ex_restore_env_def ex_fetch_def)
qed

section \<open>failover_command\<close>

text \<open>
  (C11) pgpool's announcement of a failure has no effect beyond the slot of a dead standby, from its command
  line on. When \<open>pg_agentc failover\<close> makes the daemon call anything, the arguments were complete, the
  detached node, the new main node and the old primary are the ones named at their positions, there is a
  candidate, the detached node is not the old primary, and the call is the journal consultation, the
  replay marker, the drop of that node's slot under the conditions of \<open>failover\<close>, or its queueing; an
  exit code of 0 means that the daemon answered with success.
\<close>

theorem failover_command_effects:
  assumes "hook_run sv late ce argv (w, rs) = (Some r, (w', rs'))"
    and "parse_invocation argv = Some \<lparr>inv_hook = HOOK_FAILOVER, inv_args = args\<rparr>"
    and "(c, b) \<in> set (calls_since (length (ow_events w)) w')"
  shows "rs' = rs \<and> 12 \<le> length args \<and>
    (\<exists>dr nr pr detached old. make_node_ref (args ! 0) (args ! 1) (args ! 2) (args ! 3) = Inr dr \<and>
       make_node_ref (args ! 4) (args ! 5) (args ! 8) (args ! 9) = Inr nr \<and>
       make_node_ref (args ! 7) (args ! 10) (args ! 11) [] = Inr pr \<and> ref_id nr \<noteq> -1 \<and> ref_id dr \<noteq> ref_id pr \<and>
       resolve_node (oe_pool (sv_env sv)) dr = Inr detached \<and> resolve_node (oe_pool (sv_env sv)) pr = Inr old \<and>
       failover_call (sv_env sv) w (failover_key dr nr pr) detached old c)"
  using assms(1)
proof (cases rule: hook_run_cases)
  case untouched
  with assms(3) show ?thesis by (simp add: calls_since_def)
next
  case (served r' socket req iv)
  with assms(2) have "failover_request args = Inr req" by (auto simp: asked_def)
  then obtain m om dr nr pr where m: "schema_parse schema_failover args HOOK_FAILOVER = Inr m" and req: "req = ReqFailover dr nr om pr"
    and refs: "make_node_ref (get_arg m DetachedId) (get_arg m DetachedHost) (get_arg m DetachedPort) (get_arg m DetachedData) = Inr dr"
      "make_node_ref (get_arg m NewMainId) (get_arg m NewMainHost) (get_arg m NewMainPort) (get_arg m NewMainData) = Inr nr"
      "make_node_ref (get_arg m OldPrimaryId) (get_arg m OldPrimaryHost) (get_arg m OldPrimaryPort) [] = Inr pr"
    by (auto simp: failover_request_def announced_def and_then_Inr parse_args_def split: sum.splits)
  have len: "12 \<le> length args" using m by (simp add: schema_parse_def schema_failover_def split: if_splits)
  have at: "i < 12 \<Longrightarrow> get_arg m (prm_key (hs_params schema_failover ! i)) = args ! i" for i
    using parse_positional(1) [OF schemas_distinct(1) m, of i] by (simp add: get_arg_def unwrap_or_def schema_failover_def)
  note vals = at [of 0] at [of 1] at [of 2] at [of 3] at [of 4] at [of 5] at [of 7] at [of 8] at [of 9] at [of 10] at [of 11]
  obtain x w1 where run: "failover (sv_env sv) (Some dr) (Some nr) (Some pr) w = (x, w1)" by fastforce
  with served(5) req have w': "w' = w1" "rs' = rs"
    by (auto simp: serve_hook_def run_unit_def split: sum.splits)
  from assms(3) w' have "(c, b) \<in> set (calls_since (length (ow_events w)) w1)" by simp
  from failover_calls [OF run this] obtain detached old where
    "ref_id nr \<noteq> -1" "ref_id dr \<noteq> ref_id pr" "resolve_node (oe_pool (sv_env sv)) dr = Inr detached"
    "resolve_node (oe_pool (sv_env sv)) pr = Inr old" "failover_call (sv_env sv) w (failover_key dr nr pr) detached old c" by auto
  with refs vals len w' show ?thesis by (auto simp: schema_failover_def prm_def)
qed

abbreviation ex_failover_args :: "string list" where
  "ex_failover_args \<equiv> [''1'', ''db1'', ''5432'', [], ''0'', ''db0'', ''0'', ''0'', ''5432'', [], ''db0'', ''5432'']"

theorem failover_command_effects_witness:
  "\<exists>r w' rs'. hook_run ex_server False (ex_client (\<lambda>_. Late)) (''pg_agentc'' # HOOK_FAILOVER # ex_failover_args)
      (ex_orch_world, \<lparr>rs_fs = Map.empty, rs_cooldown = Map.empty\<rparr>) = (Some r, (w', rs')) \<and>
    (OcDropSlot ''node1'', True) \<in> set (ow_events w') \<and>
    (\<exists>detached. drop_justified ex_down_env ex_orch_world detached \<and> slot_name detached = ''node1'')"
proof -
  let ?st = "\<lparr>rs_fs = Map.empty, rs_cooldown = Map.empty\<rparr> :: restore_state" and ?argv = "''pg_agentc'' # HOOK_FAILOVER # ex_failover_args"
  let ?ce = "ex_client (\<lambda>req. fst (serve_hook ex_server req (ex_orch_world, ?st)))"
  obtain x w' where run: "failover ex_down_env (Some (ex_ref 1 ''db1'')) (Some (ex_ref 0 ''db0'')) (Some (ex_ref 0 ''db0'')) ex_orch_world = (x, w')"
    and c: "(OcDropSlot ''node1'', True) \<in> set (ow_events w')" using ex_failover_run by blast
  have iv: "parse_invocation ?argv = Some \<lparr>inv_hook = HOOK_FAILOVER, inv_args = ex_failover_args\<rparr>" by code_simp
  have "parse_i32 ''0'' = Some 0" "parse_i32 ''1'' = Some 1" "parse_i32 ''5432'' = Some 5432"
    by (simp_all add: parse_i32_def parse_i32_radix_def digits_val_def digit_val_def)
  hence "\<exists>om. failover_request ex_failover_args = Inr (ReqFailover (ex_ref 1 ''db1'') (ex_ref 0 ''db0'') om (ex_ref 0 ''db0''))"
    by (simp add: failover_request_def announced_def parse_args_def schema_parse_def schema_failover_def prm_def insert_arg_def
        and_then_def get_arg_def unwrap_or_def make_node_ref_def ex_ref_def)
  then obtain om where req: "asked HOOK_FAILOVER ex_failover_args = Inr (ReqFailover (ex_ref 1 ''db1'') (ex_ref 0 ''db0'') om (ex_ref 0 ''db0''))"
    by (auto simp: asked_def)
  have known: "is_known_command HOOK_FAILOVER" by (simp add: is_known_command_def hook_names_def)
  obtain r where r: "dispatch ?ce ?argv = Some r"
    "cr_sent r = Some (default_socket, ReqFailover (ex_ref 1 ''db1'') (ex_ref 0 ''db0'') om (ex_ref 0 ''db0''))"
    by (simp add: dispatch_def iv known rpc_timeout_def ex_client_def handle_hook_known [OF known] req handle_op_def failed_def
        unwrap_or_def split: sum.split prod.split)
  have "(ex_client (\<lambda>_. Late))\<lparr>ce_op := (\<lambda>req. fst (serve_hook ex_server req (ex_orch_world, ?st)))\<rparr> = ?ce"
    by (simp add: ex_client_def)
  with r run have h: "hook_run ex_server False (ex_client (\<lambda>_. Late)) ?argv (ex_orch_world, ?st) = (Some r, (w', ?st))"
    by (simp add: hook_run_def Let_def serve_hook_def ex_server_def run_unit_def split: sum.split)
  have "(OcDropSlot ''node1'', True) \<in> set (calls_since (length (ow_events ex_orch_world)) w')"
    using c by (simp add: calls_since_def ex_orch_world_def)
  from failover_command_effects [OF h iv this] h c show ?thesis
    by (auto simp: failover_call_def ex_server_def)
qed

end
