(* ===== verification/StandbyExec.thy ===== *)
theory StandbyExec
  imports Orchestrator Timeline
begin

text \<open>
  Making a node a standby, \<open>crates/pgman/src/pgstandby.rs\<close>: the checks on connection parameters, the driver of
  \<open>pg_basebackup\<close> and \<open>pg_rewind\<close> with its reader of their output and its watch for a stall, the order of the
  steps on the data directory, and the recovery configuration. The tools themselves are parameters: what
  they print and when, how they end, and what they leave in the data directory.
\<close>

section \<open>Connection parameters\<close>

definition is_alnum :: "char \<Rightarrow> bool" where
  "is_alnum c =
     (let n = (of_char c :: nat) in 48 \<le> n \<and> n \<le> 57 \<or> 65 \<le> n \<and> n \<le> 90 \<or> 97 \<le> n \<and> n \<le> 122)"

text \<open>\<open>^[A-Za-z0-9._:-]+$\<close> and \<open>^[A-Za-z0-9_.-]+$\<close>.\<close>

definition allowed_primary_host :: "string \<Rightarrow> bool" where
  "allowed_primary_host s = (s \<noteq> [] \<and> list_all (\<lambda>c. is_alnum c \<or> c \<in> set ''._:-'') s)"

definition allowed_repl_user :: "string \<Rightarrow> bool" where
  "allowed_repl_user s = (s \<noteq> [] \<and> list_all (\<lambda>c. is_alnum c \<or> c \<in> set ''_.-'') s)"

definition allowed_slot_name :: "string \<Rightarrow> bool" where
  "allowed_slot_name s = (s \<noteq> [] \<and> list_all (\<lambda>c. is_alnum c \<or> c \<in> set ''_.-'') s)"

definition validate_connection :: "string \<Rightarrow> nat \<Rightarrow> string \<Rightarrow> (string, unit) result" where
  "validate_connection host port user =
     (if host = [] then Inl ''primary_host is required''
      else if \<not> allowed_primary_host host then Inl ''primary_host contains invalid characters''
      else if port = 0 then Inl ''primary_port must be greater than zero''
      else if user = [] then Inl ''repl_user is required''
      else if \<not> allowed_repl_user user then Inl ''repl_user contains invalid characters''
      else Inr ())"

definition validate_slot :: "string \<Rightarrow> (string, unit) result" where
  "validate_slot slot =
     (if slot = [] then Inl ''slot_name is required''
      else if \<not> allowed_slot_name slot then Inl ''slot_name contains invalid characters''
      else Inr ())"

definition validate_basebackup :: "basebackup_opts \<Rightarrow> (string, unit) result" where
  "validate_basebackup o' =
     (case validate_connection (bbo_primary_host o') (bbo_primary_port o') (bbo_repl_user o') of
        Inl e \<Rightarrow> Inl e | Inr _ \<Rightarrow> validate_slot (bbo_slot_name o'))"

definition validate_rewind :: "rewind_opts \<Rightarrow> (string, unit) result" where
  "validate_rewind o' = validate_connection (rwo_primary_host o') (rwo_primary_port o') (rwo_repl_user o')"

definition validate_recovery_conf :: "recovery_conf_opts \<Rightarrow> (string, unit) result" where
  "validate_recovery_conf o' =
     (case validate_connection (rco_primary_host o') (rco_primary_port o') (rco_repl_user o') of
        Inl e \<Rightarrow> Inl e | Inr _ \<Rightarrow> validate_slot (rco_slot_name o'))"

section \<open>The output of the tools\<close>

definition stderr_tail_max :: nat where
  "stderr_tail_max = 4096"

text \<open>The text before the first occurrence of a pattern, as \<open>s.find(pat)\<close> and \<open>s[..idx]\<close> give it.\<close>

fun before :: "string \<Rightarrow> string \<Rightarrow> string option" where
  "before pat [] = (if pat = [] then Some [] else None)"
| "before pat (c # s) = (if starts_with (c # s) pat then Some [] else map_option (\<lambda>t. c # t) (before pat s))"

definition parse_i64 :: "string \<Rightarrow> int option" where
  "parse_i64 s =
     (case s of
        [] \<Rightarrow> None
      | c # r \<Rightarrow>
          if c = CHR ''-'' then map_option (\<lambda>v. - int v) (opt_filter (\<lambda>v. v \<le> 2 ^ 63) (digits_val 10 r))
          else map_option int (opt_filter (\<lambda>v. v < 2 ^ 63) (digits_val 10 (if c = CHR ''+'' then r else s))))"

definition parse_kb_fraction :: "string \<Rightarrow> (int \<times> int) option" where
  "parse_kb_fraction s =
     (case (case before '' kB'' s of Some t \<Rightarrow> Some t | None \<Rightarrow> before '' KB'' s) of
        None \<Rightarrow> None
      | Some t \<Rightarrow>
          (case split_once CHR ''/'' (trim t) of
             None \<Rightarrow> None
           | Some (a, b) \<Rightarrow>
               (case parse_i64 (trim a) of
                  None \<Rightarrow> None
                | Some d \<Rightarrow> (case parse_i64 (trim b) of None \<Rightarrow> None | Some t \<Rightarrow> Some (d, t)))))"

definition append_tail :: "string \<Rightarrow> string \<Rightarrow> string" where
  "append_tail tail line =
     (if stderr_tail_max \<le> length tail then tail
      else if stderr_tail_max < length tail + (length line + (if tail = [] then 0 else 1)) then tail
      else (if tail = [] then [] else tail @ [CHR 0x0A]) @ line)"

text \<open>\<open>i64\<close> multiplication wraps in the release profile.\<close>

definition wrap_i64 :: "int \<Rightarrow> int" where
  "wrap_i64 x = (x + 2 ^ 63) mod 2 ^ 64 - 2 ^ 63"

text \<open>What the reader has made of the output: the pending line, the kept text, the reported progress.\<close>

record drain_state =
  ds_line :: string
  ds_tail :: string
  ds_progress :: "(int \<times> int) list"

definition drain_start :: drain_state where
  "drain_start = \<lparr>ds_line = [], ds_tail = [], ds_progress = []\<rparr>"

definition process_line :: "(string \<Rightarrow> string) \<Rightarrow> bool \<Rightarrow> string \<Rightarrow> drain_state \<Rightarrow> drain_state" where
  "process_line lossy report bytes ds =
     (let trimmed = trim (lossy bytes) in
      if trimmed = [] then ds
      else case parse_kb_fraction trimmed of
          Some (d, t) \<Rightarrow>
            if report then ds\<lparr>ds_progress := ds_progress ds @ [(wrap_i64 (d * 1024), wrap_i64 (t * 1024))]\<rparr> else ds
        | None \<Rightarrow> ds\<lparr>ds_tail := append_tail (ds_tail ds) trimmed\<rparr>)"

definition drain_byte :: "(string \<Rightarrow> string) \<Rightarrow> bool \<Rightarrow> char \<Rightarrow> drain_state \<Rightarrow> drain_state" where
  "drain_byte lossy report b ds =
     (if b = CHR 0x0D \<or> b = CHR 0x0A then
        (if ds_line ds = [] then ds else (process_line lossy report (ds_line ds) ds)\<lparr>ds_line := []\<rparr>)
      else ds\<lparr>ds_line := ds_line ds @ [b]\<rparr>)"

definition drain_chunk :: "(string \<Rightarrow> string) \<Rightarrow> bool \<Rightarrow> string \<Rightarrow> drain_state \<Rightarrow> drain_state" where
  "drain_chunk lossy report chunk = fold (drain_byte lossy report) chunk"

definition drain_eof :: "(string \<Rightarrow> string) \<Rightarrow> bool \<Rightarrow> drain_state \<Rightarrow> drain_state" where
  "drain_eof lossy report ds = (if ds_line ds = [] then ds else process_line lossy report (ds_line ds) ds)"

section \<open>Running a tool\<close>

definition stall_timeout :: duration where
  "stall_timeout = secs 300"

definition stall_check_interval :: duration where
  "stall_check_interval = secs 10"

datatype exit_status = ExitCode int | Signalled

text \<open>
  A run as the driver sees it, in order: reads of the pipe (the empty one is its end, a failed one ends the
  reader), the looks of the watchdog, and the end of the process once the reader has ended as well.
\<close>

datatype run_event =
    ReadChunk instant string
  | ReadFailed
  | StallCheck instant
  | Ended "(string, exit_status) result"

datatype spawn_error = BinaryNotFound | SpawnFailed string

definition stalled_message :: "string \<Rightarrow> nat \<Rightarrow> string \<Rightarrow> string" where
  "stalled_message bin_name silent tail =
     bin_name @ '': no output for '' @ show_nat silent @ ''s '' @ [CHR 0xE2, CHR 0x80, CHR 0x94] @ '' presumed hung; killed'' @
     (if tail = [] then [] else ''; last output: '' @ tail)"

definition exit_result :: "string \<Rightarrow> (string, exit_status) result \<Rightarrow> string \<Rightarrow> (string, unit) result" where
  "exit_result bin_name st tail =
     (case st of
        Inl e \<Rightarrow> Inl (''wait '' @ bin_name @ '': '' @ e)
      | Inr s \<Rightarrow>
          if s = ExitCode 0 then Inr ()
          else Inl (bin_name @ '': exit '' @ (case s of ExitCode c \<Rightarrow> show_int c | Signalled \<Rightarrow> ''?'') @
            (if tail = [] then [] else ''; stderr: '' @ tail)))"

fun tool_loop ::
  "(string \<Rightarrow> string) \<Rightarrow> bool \<Rightarrow> string \<Rightarrow> instant \<Rightarrow> drain_state \<Rightarrow> run_event list \<Rightarrow> ((string, unit) result \<times> drain_state) option" where
  "tool_loop lossy report bin_name since ds [] = None"
| "tool_loop lossy report bin_name since ds (ReadChunk t chunk # es) =
     tool_loop lossy report bin_name t (if chunk = [] then drain_eof lossy report ds else drain_chunk lossy report chunk ds) es"
| "tool_loop lossy report bin_name since ds (ReadFailed # es) = tool_loop lossy report bin_name since ds es"
| "tool_loop lossy report bin_name since ds (StallCheck t # es) =
     (if stall_timeout \<le> t - since
      then Some (Inl (stalled_message bin_name ((t - since) div secs 1) (ds_tail ds)), ds)
      else tool_loop lossy report bin_name since ds es)"
| "tool_loop lossy report bin_name since ds (Ended st # es) = Some (exit_result bin_name st (ds_tail ds), ds)"

text \<open>The message for a missing binary names the installation prefix, two levels above it.\<close>

record pg_binary =
  pb_path :: string
  pb_name :: string
  pb_prefix :: string

record pg_run =
  pr_spawn :: "spawn_error option"
  pr_started :: instant
  pr_events :: "run_event list"

definition run_pg_binary ::
  "(string \<Rightarrow> string) \<Rightarrow> bool \<Rightarrow> pg_binary \<Rightarrow> pg_run \<Rightarrow> ((string, unit) result \<times> drain_state) option" where
  "run_pg_binary lossy report bin pr =
     (case pr_spawn pr of
        Some BinaryNotFound \<Rightarrow>
          Some (Inl (pb_path bin @ '': binary not found (install the matching PostgreSQL client '' @
            ''package or check that pg_install_prefix='' @ pb_prefix bin @ '' is correct)''), drain_start)
      | Some (SpawnFailed e) \<Rightarrow> Some (Inl (''spawn '' @ pb_path bin @ '': '' @ e), drain_start)
      | None \<Rightarrow> tool_loop lossy report (pb_name bin) (pr_started pr) drain_start (pr_events pr))"

section \<open>The control file\<close>

fun find_field :: "string \<Rightarrow> string list \<Rightarrow> string option" where
  "find_field label [] = None"
| "find_field label (l # ls) = (case strip_prefix label l of Some r \<Rightarrow> Some (trim r) | None \<Rightarrow> find_field label ls)"

definition parse_control_point :: "string \<Rightarrow> control_point" where
  "parse_control_point out =
     \<lparr>cp_timeline_id = unwrap_or (Option.bind (find_field ''Latest checkpoint's TimeLineID:'' (lines out)) parse_i32) 0,
      cp_checkpoint_lsn = unwrap_or (Option.bind (find_field ''Latest checkpoint location:'' (lines out)) parse_lsn) 0\<rparr>"

text \<open>The run of \<open>pg_controldata\<close>: a failed spawn, or whether it succeeded, its status as text, and its two outputs.\<close>

definition exec_control_point ::
  "(string \<Rightarrow> string) \<Rightarrow> string \<Rightarrow> (string, bool \<times> string \<times> string \<times> string) result \<Rightarrow> (string, control_point) result" where
  "exec_control_point lossy bin ans =
     (case ans of
        Inl e \<Rightarrow> Inl (''control_point: spawn '' @ bin @ '': '' @ e)
      | Inr (success, st, stdout, stderr) \<Rightarrow>
          if \<not> success then Inl (''control_point: '' @ bin @ '' exited '' @ st @ ''; stderr: '' @ trim (lossy stderr))
          else Inr (parse_control_point (lossy stdout)))"

section \<open>The data directory\<close>

text \<open>Its entries in the order in which they are read; a directory is the names in it.\<close>

datatype pg_entry = PgFile string | PgLink string | PgDir "string list"

type_synonym pgdata = "(string \<times> pg_entry) list"

definition put :: "string \<Rightarrow> pg_entry \<Rightarrow> pgdata \<Rightarrow> pgdata" where
  "put n e pd = (if n \<in> fst ` set pd then map (\<lambda>(k, v). (k, if k = n then e else v)) pd else pd @ [(n, e)])"

definition del :: "string \<Rightarrow> pgdata \<Rightarrow> pgdata" where
  "del n pd = filter (\<lambda>(k, _). k \<noteq> n) pd"

datatype unlink_answer = Unlinked | Missing | UnlinkFailed string

record dir_answers =
  da_open :: "string option"
  da_entry :: "string \<Rightarrow> unlink_answer"

fun clear_entries :: "(string \<Rightarrow> unlink_answer) \<Rightarrow> pgdata \<Rightarrow> (string, unit) result \<times> pgdata" where
  "clear_entries f [] = (Inr (), [])"
| "clear_entries f (e # es) =
     (case f (fst e) of
        UnlinkFailed m \<Rightarrow> (Inl m, e # es)
      | _ \<Rightarrow> clear_entries f es)"

definition clear_pgdata_contents :: "dir_answers \<Rightarrow> pgdata \<Rightarrow> (string, unit) result \<times> pgdata" where
  "clear_pgdata_contents da pd =
     (case da_open da of Some m \<Rightarrow> (Inl m, pd) | None \<Rightarrow> clear_entries (da_entry da) pd)"

fun clean_names :: "(string \<Rightarrow> unlink_answer) \<Rightarrow> string list \<Rightarrow> (string, unit) result \<times> string list" where
  "clean_names f [] = (Inr (), [])"
| "clean_names f (n # ns) =
     (case f n of
        UnlinkFailed m \<Rightarrow> (Inl m, n # ns)
      | Missing \<Rightarrow> (Inl ''No such file or directory (os error 2)'', ns)
      | Unlinked \<Rightarrow> clean_names f ns)"

definition clean_replslots :: "dir_answers \<Rightarrow> pgdata \<Rightarrow> (string, unit) result \<times> pgdata" where
  "clean_replslots da pd =
     (case map_of pd ''pg_replslot'' of
        None \<Rightarrow> (Inr (), pd)
      | Some (PgDir names) \<Rightarrow>
          (case da_open da of
             Some m \<Rightarrow> (Inl m, pd)
           | None \<Rightarrow> (case clean_names (da_entry da) names of
               (r, left) \<Rightarrow> (r, put ''pg_replslot'' (PgDir left) pd)))
      | Some _ \<Rightarrow> (Inl ''Not a directory (os error 20)'', pd))"

section \<open>Basebackup and rewind\<close>

record standby_exec =
  se_basebackup :: pg_binary
  se_rewind :: pg_binary
  se_data_dir :: string
  se_replication :: pg_replication_config
  se_symlinks :: "(string \<times> string) list"
  se_restore_command :: "string option"

text \<open>
  What a rebuild meets: the two walks over directories, the run of the tool for its arguments, the data
  directory it leaves, and failures of \<open>symlink\<close>.
\<close>

record rebuild_answers =
  ra_lossy :: "string \<Rightarrow> string"
  ra_before :: dir_answers
  ra_after :: dir_answers
  ra_tool :: "string list \<Rightarrow> pg_run"
  ra_leaves :: "string list \<Rightarrow> pgdata \<Rightarrow> pgdata"
  ra_symlink :: "string \<Rightarrow> string option"

definition basebackup_args :: "standby_exec \<Rightarrow> bool \<Rightarrow> basebackup_opts \<Rightarrow> string list" where
  "basebackup_args se report o' =
     [''--pgdata'', se_data_dir se, ''--dbname'',
      conninfo (se_replication se) (bbo_primary_host o') (bbo_primary_port o') (bbo_repl_user o') [],
      ''--wal-method=stream'', ''--checkpoint=fast'', ''--no-password''] @
     (if bbo_slot_name o' \<noteq> [] then [''--slot'', bbo_slot_name o'] else []) @
     (if report then [''--progress''] else [])"

definition rewind_args :: "standby_exec \<Rightarrow> rewind_opts \<Rightarrow> string list" where
  "rewind_args se o' =
     [''--target-pgdata'', se_data_dir se, ''--source-server'',
      conninfo (se_replication se) (rwo_primary_host o') (rwo_primary_port o') (rwo_repl_user o') ''postgres'',
      ''--no-password'', ''--progress'']"

fun restore_links :: "(string \<Rightarrow> string option) \<Rightarrow> string \<Rightarrow> (string \<times> string) list \<Rightarrow> pgdata \<Rightarrow> (string, unit) result \<times> pgdata" where
  "restore_links f dir [] pd = (Inr (), pd)"
| "restore_links f dir ((n, target) # ls) pd =
     (case (if n \<in> fst ` set pd then Some ''File exists (os error 17)'' else f n) of
        Some m \<Rightarrow> (Inl (''basebackup: restore symlink '' @ dir @ ''/'' @ n @ '' -> '' @ target @ '': '' @ m), pd)
      | None \<Rightarrow> restore_links f dir ls (pd @ [(n, PgLink target)]))"

definition exec_basebackup ::
  "standby_exec \<Rightarrow> rebuild_answers \<Rightarrow> bool \<Rightarrow> basebackup_opts \<Rightarrow> pgdata \<Rightarrow> ((string, unit) result \<times> pgdata) option" where
  "exec_basebackup se ra report o' pd =
     (case clear_pgdata_contents (ra_before ra) pd of
        (Inl m, pd) \<Rightarrow> Some (Inl (''basebackup: clear pgdata: '' @ m), pd)
      | (Inr _, pd) \<Rightarrow>
          let args = basebackup_args se report o'; pd = ra_leaves ra args pd in
          (case run_pg_binary (ra_lossy ra) report (se_basebackup se) (ra_tool ra args) of
             None \<Rightarrow> None
           | Some (Inl m, _) \<Rightarrow> Some (Inl (''basebackup: '' @ m), pd)
           | Some (Inr _, _) \<Rightarrow> Some (restore_links (ra_symlink ra) (se_data_dir se) (se_symlinks se) pd)))"

definition exec_rewind ::
  "standby_exec \<Rightarrow> rebuild_answers \<Rightarrow> bool \<Rightarrow> rewind_opts \<Rightarrow> pgdata \<Rightarrow> ((string, unit) result \<times> pgdata) option" where
  "exec_rewind se ra report o' pd =
     (case clean_replslots (ra_before ra) pd of
        (Inl m, pd) \<Rightarrow> Some (Inl (''rewind: pre-clean replslots: '' @ m), pd)
      | (Inr _, pd) \<Rightarrow>
          let args = rewind_args se o'; pd = ra_leaves ra args pd in
          (case run_pg_binary (ra_lossy ra) report (se_rewind se) (ra_tool ra args) of
             None \<Rightarrow> None
           | Some (Inl m, _) \<Rightarrow> Some (Inl (''rewind: '' @ m), pd)
           | Some (Inr _, _) \<Rightarrow>
               Some (case clean_replslots (ra_after ra) pd of
                  (Inl m, pd) \<Rightarrow> (Inl (''rewind: post-clean replslots: '' @ m), pd)
                | (Inr _, pd) \<Rightarrow> (Inr (), pd))))"

section \<open>The recovery configuration\<close>

abbreviation nl :: string where "nl \<equiv> [CHR 0x0A]"
abbreviation quote :: char where "quote \<equiv> CHR 0x27"

definition unquotable :: "string \<Rightarrow> bool" where
  "unquotable s = (quote \<in> set s \<or> CHR 0x0D \<in> set s \<or> CHR 0x0A \<in> set s)"

definition render_recovery_conf :: "string \<Rightarrow> string \<Rightarrow> string option \<Rightarrow> (string, string) result" where
  "render_recovery_conf ci slot cmd =
     (if ci = [] then Inl ''conninfo is required''
      else if unquotable ci then Inl ''conninfo contains forbidden characters''
      else case validate_slot slot of
          Inl e \<Rightarrow> Inl e
        | Inr _ \<Rightarrow>
            let out = ''# managed by pgman'' @ nl @
              ''primary_conninfo = '' @ [quote] @ ci @ '' application_name='' @ slot @ [quote] @ nl @
              ''primary_slot_name = '' @ [quote] @ slot @ [quote] @ nl
            in case cmd of
                 None \<Rightarrow> Inr out
               | Some c \<Rightarrow>
                   if unquotable c then Inl ''restore_command contains forbidden characters''
                   else Inr (out @ ''restore_command = '' @ [quote] @ c @ [quote] @ nl))"

text \<open>A failed write leaves some of the bytes in the temporary file.\<close>

record write_faults =
  wf_open :: "string option"
  wf_write :: "(nat \<times> string) option"
  wf_rename :: "string option"
  wf_unlink :: bool

definition conf_tmp_name :: "nat \<Rightarrow> string \<Rightarrow> string" where
  "conf_tmp_name pid base = ''.'' @ base @ ''-'' @ show_nat pid @ ''.tmp''"

text \<open>The data directory after every step, the last being what is left.\<close>

definition conf_write :: "write_faults \<Rightarrow> nat \<Rightarrow> string \<Rightarrow> string \<Rightarrow> pgdata \<Rightarrow> (string, unit) result \<times> pgdata list" where
  "conf_write fl pid base contents pd =
     (let tmp = conf_tmp_name pid base in
      case wf_open fl of
        Some m \<Rightarrow> (Inl m, [pd])
      | None \<Rightarrow>
          let pd0 = put tmp (PgFile []) pd in
          (case wf_write fl of
             Some (k, m) \<Rightarrow> (Inl m, [pd, pd0, put tmp (PgFile (take k contents)) pd0])
           | None \<Rightarrow>
               let pd1 = put tmp (PgFile contents) pd0 in
               (case wf_rename fl of
                  Some m \<Rightarrow> (Inl m, [pd, pd0, pd1, if wf_unlink fl then pd1 else del tmp pd1])
                | None \<Rightarrow> (Inr (), [pd, pd0, pd1, put base (PgFile contents) (del tmp pd1)]))))"

definition write_recovery_conf ::
  "standby_exec \<Rightarrow> nat \<Rightarrow> write_faults \<Rightarrow> write_faults \<Rightarrow> recovery_conf_opts \<Rightarrow> pgdata \<Rightarrow> (string, unit) result \<times> pgdata list" where
  "write_recovery_conf se pid fl fl' o' pd =
     (case validate_recovery_conf o' of
        Inl e \<Rightarrow> (Inl (''write_recovery_conf: validate: '' @ e), [pd])
      | Inr _ \<Rightarrow>
     (case render_recovery_conf (conninfo (se_replication se) (rco_primary_host o') (rco_primary_port o') (rco_repl_user o') [])
          (rco_slot_name o') (se_restore_command se) of
        Inl e \<Rightarrow> (Inl e, [pd])
      | Inr content \<Rightarrow>
     (case conf_write fl pid ''myrecovery.conf'' content pd of
        (Inl m, states) \<Rightarrow> (Inl (''write_recovery_conf: write myrecovery.conf: '' @ m), states)
      | (Inr _, states) \<Rightarrow>
          (case conf_write fl' pid ''standby.signal'' [] (last states) of
             (Inl m, states') \<Rightarrow> (Inl (''write_recovery_conf: write standby.signal: '' @ m), states @ states')
           | (Inr _, states') \<Rightarrow> (Inr (), states @ states')))))"

definition detached_conf :: string where
  "detached_conf =
     ''# pg-agent: DETACHED '' @ [CHR 0xE2, CHR 0x80, CHR 0x94] @ '' no primary_conninfo. Written by the'' @ nl @
     ''# candidacy freeze (finding 23): a candidate must stop receiving'' @ nl @
     ''# so flush positions are frozen before they are compared. The'' @ nl @
     ''# next follow/recover rewrites this file.'' @ nl"

definition detach_recovery_conf :: "nat \<Rightarrow> write_faults \<Rightarrow> pgdata \<Rightarrow> (string, unit) result \<times> pgdata list" where
  "detach_recovery_conf pid fl pd =
     (case conf_write fl pid ''myrecovery.conf'' detached_conf pd of
        (Inl m, states) \<Rightarrow> (Inl (''detach_recovery_conf: write myrecovery.conf: '' @ m), states)
      | (Inr u, states) \<Rightarrow> (Inr u, states))"

section \<open>Output however it is cut\<close>

lemma drain_chunk_append:
  "drain_chunk lossy report (a @ b) ds = drain_chunk lossy report b (drain_chunk lossy report a ds)"
  by (simp add: drain_chunk_def)

text \<open>The lines of the output: what stands between the delimiters, without the empty ones.\<close>

fun output_lines :: "string \<Rightarrow> string \<Rightarrow> string list" where
  "output_lines acc [] = (if acc = [] then [] else [acc])"
| "output_lines acc (c # s) =
     (if c = CHR 0x0D \<or> c = CHR 0x0A then (if acc = [] then [] else [acc]) @ output_lines [] s
      else output_lines (acc @ [c]) s)"

lemma process_line_line: "ds_line (process_line lossy report l ds) = ds_line ds"
  by (simp add: process_line_def Let_def split: option.split prod.split)

lemma process_line_cut:
  "process_line lossy report l (ds\<lparr>ds_line := x\<rparr>) = (process_line lossy report l ds)\<lparr>ds_line := x\<rparr>"
  by (simp add: process_line_def Let_def split: option.split prod.split)

lemma drain_lines:
  "(drain_eof lossy report (drain_chunk lossy report s ds))\<lparr>ds_line := []\<rparr> =
     fold (process_line lossy report) (output_lines (ds_line ds) s) (ds\<lparr>ds_line := []\<rparr>)"
proof (induction s arbitrary: ds)
  case Nil
  show ?case by (simp add: drain_chunk_def drain_eof_def process_line_cut)
next
  case (Cons c s)
  have "drain_chunk lossy report (c # s) ds = drain_chunk lossy report s (drain_byte lossy report c ds)"
    by (simp add: drain_chunk_def)
  with Cons.IH [of "drain_byte lossy report c ds"] show ?case
    by (auto simp: drain_byte_def process_line_cut)
qed

fun reads :: "instant list \<Rightarrow> string list \<Rightarrow> run_event list" where
  "reads (t # ts) (c # cs) = ReadChunk t c # reads ts cs"
| "reads _ _ = []"

lemma run_reads:
  assumes "length ts = length cs" and "list_all (\<lambda>c. c \<noteq> []) cs"
  shows "\<exists>since'. tool_loop lossy report name since ds (reads ts cs @ es) =
    tool_loop lossy report name since' (drain_chunk lossy report (concat cs) ds) es"
  using assms
proof (induction ts cs arbitrary: since ds rule: list_induct2')
  case (4 t ts c cs)
  thus ?case by (auto simp: drain_chunk_append)
qed (auto simp: drain_chunk_def)

lemma append_tail_bounded: "length tail \<le> stderr_tail_max \<Longrightarrow> length (append_tail tail line) \<le> stderr_tail_max"
  by (auto simp: append_tail_def)

lemma fold_process_bounded:
  "length (ds_tail ds) \<le> stderr_tail_max \<Longrightarrow> length (ds_tail (fold (process_line lossy report) ls ds)) \<le> stderr_tail_max"
  by (induction ls arbitrary: ds) (simp_all add: process_line_def Let_def append_tail_bounded split: option.split prod.split)

text \<open>
  The reader sees lines, not reads. However the pipe cuts the tool's output into reads, the progress
  reported and the text kept for the error message are those of the whole output split at carriage
  returns and newlines, each line judged once; the kept text never exceeds 4096 bytes; and the run succeeds
  exactly when the tool exits with 0.
\<close>

theorem tool_output_read_by_lines:
  assumes "length ts = length cs" and "list_all (\<lambda>c. c \<noteq> []) cs"
  shows "case tool_loop lossy report name since drain_start (reads ts cs @ [ReadChunk t [], Ended st]) of
    Some (r, ds) \<Rightarrow>
      ds\<lparr>ds_line := []\<rparr> = fold (process_line lossy report) (output_lines [] (concat cs)) drain_start \<and>
      length (ds_tail ds) \<le> stderr_tail_max \<and> is_ok r = (st = Inr (ExitCode 0))
  | None \<Rightarrow> False"
proof -
  let ?ds = "drain_chunk lossy report (concat cs) drain_start"
  obtain since' where "tool_loop lossy report name since drain_start (reads ts cs @ [ReadChunk t [], Ended st]) =
      tool_loop lossy report name since' ?ds [ReadChunk t [], Ended st]"
    using run_reads [OF assms, of lossy report name since drain_start "[ReadChunk t [], Ended st]"] by blast
  hence run: "tool_loop lossy report name since drain_start (reads ts cs @ [ReadChunk t [], Ended st]) =
      Some (exit_result name st (ds_tail (drain_eof lossy report ?ds)), drain_eof lossy report ?ds)" by simp
  have lines: "(drain_eof lossy report ?ds)\<lparr>ds_line := []\<rparr> = fold (process_line lossy report) (output_lines [] (concat cs)) drain_start"
    using drain_lines [of lossy report "concat cs" drain_start] by (simp add: drain_start_def)
  hence "ds_tail (drain_eof lossy report ?ds) = ds_tail (fold (process_line lossy report) (output_lines [] (concat cs)) drain_start)"
    by (metis drain_state.select_convs(2) drain_state.surjective drain_state.update_convs(1))
  with fold_process_bounded [of drain_start lossy report] have "length (ds_tail (drain_eof lossy report ?ds)) \<le> stderr_tail_max"
    by (simp add: drain_start_def)
  moreover have "is_ok (exit_result name st tail) = (st = Inr (ExitCode 0))" for tail
    by (auto simp: exit_result_def is_ok_def split: sum.splits)
  ultimately show ?thesis using lines by (simp add: run)
qed

theorem tool_output_read_by_lines_witness:
  "\<exists>r ds. tool_loop id True ''pg_rewind'' 0 drain_start (reads [1, 2] [''1/2 k'', ''B'' @ [CHR 0x0D]] @ [ReadChunk 3 [], Ended (Inr (ExitCode 0))]) = Some (r, ds) \<and>
     is_ok r \<and> ds\<lparr>ds_line := []\<rparr> = fold (process_line id True) [''1/2 kB''] drain_start"
  using tool_output_read_by_lines [where ts = "[1, 2]" and cs = "[''1/2 k'', ''B'' @ [CHR 0x0D]]" and lossy = id and report = True
      and name = "''pg_rewind''" and since = 0 and t = 3 and st = "Inr (ExitCode 0)"]
  by (auto split: option.splits)

section \<open>A silent tool is killed\<close>

text \<open>With a look every ten seconds, a tool that stays silent is ended within five minutes and ten seconds.\<close>

fun looks :: "instant \<Rightarrow> nat \<Rightarrow> run_event list" where
  "looks t 0 = []"
| "looks t (Suc n) = StallCheck (t + stall_check_interval) # looks (t + stall_check_interval) n"

lemma silent_tool_is_killed:
  assumes "since \<le> t" and "since + stall_timeout \<le> t + n * stall_check_interval"
    and "t < since + stall_timeout"
  shows "\<exists>m. tool_loop lossy report name since ds (looks t n @ es) = Some (Inl m, ds)"
  using assms
proof (induction n arbitrary: t)
  case (Suc n)
  let ?t = "t + stall_check_interval"
  show ?case
  proof (cases "stall_timeout \<le> ?t - since")
    case True
    thus ?thesis by simp
  next
    case False
    with Suc.prems Suc.IH [of ?t] show ?thesis by simp
  qed
qed simp

section \<open>The rendered configuration reads back\<close>

text \<open>
  A setting as PostgreSQL reads it from a line, and the settings of a file: between the quotes a doubled
  quote stands for one, and a backslash starts an escape.
\<close>

abbreviation backslash :: char where "backslash \<equiv> CHR 0x5C"

definition is_octal :: "char \<Rightarrow> bool" where
  "is_octal c = (c \<in> set ''01234567'')"

definition escaped :: "char \<Rightarrow> char" where
  "escaped c =
     (if c = CHR ''b'' then CHR 0x08 else if c = CHR ''f'' then CHR 0x0C else if c = CHR ''n'' then CHR 0x0A
      else if c = CHR ''r'' then CHR 0x0D else if c = CHR ''t'' then CHR 0x09 else c)"

definition octal_value :: "string \<Rightarrow> char" where
  "octal_value ds = char_of (fold (\<lambda>d n. n * 8 + (of_char d - 48 :: nat)) ds 0)"

function scan_quoted :: "string \<Rightarrow> string option" where
  "scan_quoted [] = None"
| "scan_quoted (c # s) =
     (if c = quote then
        (case s of [] \<Rightarrow> Some [] | d # s' \<Rightarrow> if d = quote then map_option (Cons quote) (scan_quoted s') else None)
      else if c = backslash then
        (case s of
           [] \<Rightarrow> None
         | d # s' \<Rightarrow>
             if is_octal d then
               let ds = takeWhile is_octal (take 3 s) in map_option (Cons (octal_value ds)) (scan_quoted (drop (length ds) s))
             else map_option (Cons (escaped d)) (scan_quoted s'))
      else map_option (Cons c) (scan_quoted s))"
  by pat_completeness auto
termination by (relation "measure length") auto

definition conf_setting :: "string \<Rightarrow> (string \<times> string) option" where
  "conf_setting line =
     (case split_once CHR ''='' line of
        None \<Rightarrow> None
      | Some (k, v) \<Rightarrow>
          (case trim v of
             c # r \<Rightarrow> if c = quote then map_option (Pair (trim k)) (scan_quoted r) else None
           | [] \<Rightarrow> None))"

definition conf_settings :: "string \<Rightarrow> (string \<times> string) list" where
  "conf_settings text = List.map_filter conf_setting (filter (\<lambda>l. \<not> starts_with l ''#'') (lines text))"

text \<open>Text that stands for itself inside the quotes.\<close>

definition verbatim :: "string \<Rightarrow> bool" where
  "verbatim s = (\<not> unquotable s \<and> backslash \<notin> set s)"

lemma scan_verbatim: "verbatim v \<Longrightarrow> scan_quoted (v @ [quote]) = Some v"
  by (induction v) (auto simp: verbatim_def unquotable_def)

lemma quote_not_ws [simp]: "\<not> is_ws quote"
  by (simp add: is_ws_def)

lemma trim_quoted: "trim (CHR '' '' # quote # v @ [quote]) = quote # v @ [quote]"
  by (simp add: trim_def)

lemma conf_setting_line:
  assumes "CHR ''='' \<notin> set k" and "list_all (\<lambda>c. \<not> is_ws c) k" and "verbatim v"
  shows "conf_setting (k @ '' = '' @ [quote] @ v @ [quote]) = Some (k, v)"
proof -
  have "split_once CHR ''='' ((k @ '' '') @ CHR ''='' # (CHR '' '' # quote # v @ [quote])) = Some (k @ '' '', CHR '' '' # quote # v @ [quote])"
    by (rule split_once_append) (use assms(1) in auto)
  moreover have "trim (k @ '' '') = k"
  proof (cases k rule: rev_cases)
    case Nil
    thus ?thesis by (simp add: trim_def)
  next
    case (snoc ys y)
    moreover from snoc assms(2) have "dropWhile is_ws k = k" "\<not> is_ws y" by (simp_all add: dropWhile_none)
    moreover from snoc assms(2) have "dropWhile is_ws (k @ '' '') = k @ '' ''" by (cases ys) auto
    ultimately show ?thesis by (simp add: trim_def)
  qed
  ultimately show ?thesis using assms(3) by (simp add: conf_setting_def trim_quoted scan_verbatim)
qed

lemma allowed_chars:
  "allowed_primary_host s \<or> allowed_repl_user s \<or> allowed_slot_name s \<Longrightarrow>
     s \<noteq> [] \<and> list_all (\<lambda>c. \<not> is_ws c) s \<and> verbatim s"
  by (auto simp: verbatim_def allowed_primary_host_def allowed_repl_user_def allowed_slot_name_def list_all_iff is_alnum_def is_ws_def
      unquotable_def Let_def)

lemma sslmode_chars:
  assumes "replication_valid r"
  shows "effective_sslmode r \<noteq> [] \<and> list_all (\<lambda>c. \<not> is_ws c) (effective_sslmode r) \<and> verbatim (effective_sslmode r)"
proof -
  have "list_all (\<lambda>m. m \<noteq> [] \<and> list_all (\<lambda>c. \<not> is_ws c) m \<and> verbatim m) (''verify-full'' # allowed_sslmodes)"
    by (simp add: allowed_sslmodes_def is_ws_def unquotable_def verbatim_def)
  moreover have "effective_sslmode r \<in> set (''verify-full'' # allowed_sslmodes)"
    using assms by (auto simp: effective_sslmode_def replication_valid_def unwrap_or_def split: option.splits)
  ultimately show ?thesis by (auto simp: list_all_iff)
qed

lemma show_nat_plain: "show_nat n \<noteq> [] \<and> list_all (\<lambda>c. \<not> is_ws c) (show_nat n) \<and> verbatim (show_nat n)"
proof -
  have "list_all (\<lambda>c. \<not> is_ws c \<and> c \<noteq> quote \<and> c \<noteq> CHR 0x0D \<and> c \<noteq> CHR 0x0A \<and> c \<noteq> backslash) ''0123456789ABCDEF''"
    by (simp add: is_ws_def)
  with show_radix_chars [of 10 n] show ?thesis
    unfolding show_nat_def unquotable_def verbatim_def by (auto simp: list_all_iff)
qed

text \<open>A file of settings, one to a line, reads back.\<close>

definition conf_line :: "string \<times> string \<Rightarrow> string" where
  "conf_line kv = fst kv @ '' = '' @ [quote] @ snd kv @ [quote]"

definition conf_text :: "(string \<times> string) list \<Rightarrow> string" where
  "conf_text kvs = concat (map (\<lambda>l. l @ nl) (''# managed by pgman'' # map conf_line kvs))"

definition conf_key :: "string \<Rightarrow> bool" where
  "conf_key k = (k \<noteq> [] \<and> list_all (\<lambda>c. \<not> is_ws c \<and> c \<notin> set ''#='' \<and> c \<notin> {CHR 0x0A, CHR 0x0D}) k)"

lemma conf_text_reads_back:
  assumes "list_all (\<lambda>kv. conf_key (fst kv) \<and> verbatim (snd kv)) kvs"
  shows "conf_settings (conf_text kvs) = kvs"
proof -
  have "lines (conf_text kvs) = ''# managed by pgman'' # map conf_line kvs"
    unfolding conf_text_def using assms
    by (intro lines_concat) (auto simp: list_all_iff conf_line_def conf_key_def verbatim_def unquotable_def)
  moreover have "\<not> starts_with (conf_line kv) ''#'' \<and> conf_setting (conf_line kv) = Some kv" if "kv \<in> set kvs" for kv
  proof -
    from that assms have kv: "conf_key (fst kv)" "verbatim (snd kv)" by (auto simp: list_all_iff)
    hence "conf_setting (conf_line kv) = Some kv"
      using conf_setting_line [of "fst kv" "snd kv"] by (auto simp: conf_line_def conf_key_def list_all_iff)
    with kv show ?thesis by (cases "fst kv") (auto simp: conf_line_def conf_key_def starts_with_def)
  qed
  hence "filter (\<lambda>l. \<not> starts_with l ''#'') (map conf_line kvs) = map conf_line kvs"
    "List.map_filter conf_setting (map conf_line kvs) = kvs"
    by (auto simp: map_filter_def comp_def intro: filter_True map_idI)
  ultimately show ?thesis by (simp add: conf_settings_def starts_with_def)
qed

lemma render_is_conf_text:
  assumes "ci \<noteq> []" "\<not> unquotable ci" "allowed_slot_name slot"
  shows "render_recovery_conf ci slot cmd =
    (let kvs = [(''primary_conninfo'', ci @ '' application_name='' @ slot), (''primary_slot_name'', slot)] in
     case cmd of
       None \<Rightarrow> Inr (conf_text kvs)
     | Some c \<Rightarrow> if unquotable c then Inl ''restore_command contains forbidden characters''
         else Inr (conf_text (kvs @ [(''restore_command'', c)])))"
proof -
  from assms(3) have "slot \<noteq> []" by (simp add: allowed_slot_name_def)
  with assms show ?thesis
    by (simp add: render_recovery_conf_def validate_slot_def conf_text_def conf_line_def Let_def split: option.split)
qed


text \<open>
  The refusals leave a backslash through, although it starts an escape: a command that ends in one swallows
  its closing quote, and the line is no setting any more.
\<close>

lemma trailing_backslash_loses_the_command:
  "\<exists>c text. render_recovery_conf ''host=db0'' ''node1'' (Some c) = Inr text \<and>
     map fst (conf_settings text) = [''primary_conninfo'', ''primary_slot_name'']"
proof (intro exI conjI)
  let ?kvs = "[(''primary_conninfo'', ''host=db0 application_name=node1''), (''primary_slot_name'', ''node1'')]"
  show "render_recovery_conf ''host=db0'' ''node1'' (Some [backslash]) = Inr (conf_text (?kvs @ [(''restore_command'', [backslash])]))"
    by (simp add: render_is_conf_text allowed_slot_name_def is_alnum_def unquotable_def)
  show "map fst (conf_settings (conf_text (?kvs @ [(''restore_command'', [backslash])]))) = [''primary_conninfo'', ''primary_slot_name'']"
    by code_simp
qed

definition ex_conf_opts :: recovery_conf_opts where
  "ex_conf_opts = \<lparr>rco_primary_host = ''db0'', rco_primary_port = 5432, rco_repl_user = ''repl'', rco_slot_name = ''node1''\<rparr>"

lemma ex_conf_valid: "validate_recovery_conf ex_conf_opts = Inr ()"
  by (simp add: validate_recovery_conf_def validate_connection_def validate_slot_def ex_conf_opts_def
      allowed_primary_host_def allowed_repl_user_def allowed_slot_name_def is_alnum_def)


section \<open>The order of the files\<close>

lemma map_of_put: "map_of (put n e pd) = (map_of pd)(n \<mapsto> e)"
proof (cases "n \<in> fst ` set pd")
  case True
  have upd: "map_of (map (\<lambda>(k, v). (k, if k = n then e else v)) pd) x =
      (if x = n then map_option (\<lambda>_. e) (map_of pd n) else map_of pd x)" for x
    by (induction pd) auto
  from True obtain v where "map_of pd n = Some v" by (metis map_of_eq_None_iff not_None_eq)
  with True upd show ?thesis by (auto simp: put_def)
next
  case False
  hence "map_of pd n = None" by (simp add: map_of_eq_None_iff)
  with False show ?thesis by (auto simp: put_def map_add_def split: option.splits)
qed

lemma map_of_del: "map_of (del n pd) = (map_of pd)(n := None)"
proof
  fix x show "map_of (del n pd) x = ((map_of pd)(n := None)) x"
    by (induction pd) (auto simp: del_def)
qed

lemma conf_tmp_name_hidden: "conf_tmp_name pid base \<noteq> ''myrecovery.conf''" "conf_tmp_name pid base \<noteq> ''standby.signal''"
  by (simp_all add: conf_tmp_name_def)

lemma conf_write_states:
  assumes "conf_write f pid base contents pd = (r, states)" and "base \<noteq> conf_tmp_name pid base"
  shows "states \<noteq> []"
    and "s \<in> set states \<Longrightarrow> n \<noteq> base \<Longrightarrow> n \<noteq> conf_tmp_name pid base \<Longrightarrow> map_of s n = map_of pd n"
    and "s \<in> set states \<Longrightarrow> map_of s base = map_of pd base \<or> map_of s base = Some (PgFile contents)"
    and "r = Inr u \<Longrightarrow> map_of (last states) base = Some (PgFile contents)"
    and "r = Inl e \<Longrightarrow> s \<in> set states \<Longrightarrow> map_of s base = map_of pd base"
  using assms by (auto simp: conf_write_def Let_def map_of_put map_of_del split: option.splits prod.splits if_splits)

lemma recovery_conf_cases:
  assumes "write_recovery_conf se pid f f' o' pd = (r, states)"
  obtains (nothing) "states = [pd]" "\<not> is_ok r"
  | (conf_failed) content m where "conf_write f pid ''myrecovery.conf'' content pd = (Inl m, states)" "\<not> is_ok r"
  | (conf_written) content s1 r2 s2 where "conf_write f pid ''myrecovery.conf'' content pd = (Inr (), s1)"
    "conf_write f' pid ''standby.signal'' [] (last s1) = (r2, s2)" "states = s1 @ s2" "is_ok r = is_ok r2"
proof (cases "\<exists>content. validate_recovery_conf o' = Inr () \<and>
    render_recovery_conf (conninfo (se_replication se) (rco_primary_host o') (rco_primary_port o') (rco_repl_user o') [])
      (rco_slot_name o') (se_restore_command se) = Inr content")
  case False
  with assms have "states = [pd]" "\<not> is_ok r" by (auto simp: write_recovery_conf_def split: sum.splits)
  thus thesis by (rule nothing)
next
  case True
  then obtain content where ok: "validate_recovery_conf o' = Inr ()"
    "render_recovery_conf (conninfo (se_replication se) (rco_primary_host o') (rco_primary_port o') (rco_repl_user o') [])
      (rco_slot_name o') (se_restore_command se) = Inr content" by blast
  obtain r1 s1 where w: "conf_write f pid ''myrecovery.conf'' content pd = (r1, s1)" by fastforce
  obtain r2 s2 where w2: "conf_write f' pid ''standby.signal'' [] (last s1) = (r2, s2)" by fastforce
  show thesis
  proof (cases r1)
    case (Inl m)
    with assms ok w have "states = s1" "\<not> is_ok r" by (auto simp: write_recovery_conf_def)
    with w Inl show thesis using conf_failed by auto
  next
    case (Inr u)
    with assms ok w w2 have "states = s1 @ s2" "is_ok r = is_ok r2"
      by (cases r2; auto simp: write_recovery_conf_def)+
    with w w2 Inr show thesis using conf_written by auto
  qed
qed

text \<open>
  A node is not made a standby without its configuration. At every instant of \<open>write_recovery_conf\<close>,
  whatever fails, \<open>myrecovery.conf\<close> is as before or whole, and \<open>standby.signal\<close> is as before unless the new
  configuration stands; success means both stand; and no other file but the two hidden temporary ones
  changes. A detachment replaces the configuration alone and leaves \<open>standby.signal\<close> as it is.
\<close>

theorem standby_signal_after_conf:
  assumes "write_recovery_conf se pid f f' o' pd = (r, states)"
  shows "\<exists>content. list_all (\<lambda>s.
      (map_of s ''myrecovery.conf'' = map_of pd ''myrecovery.conf'' \<or> map_of s ''myrecovery.conf'' = Some (PgFile content)) \<and>
      (map_of s ''standby.signal'' = map_of pd ''standby.signal'' \<or>
         map_of s ''standby.signal'' = Some (PgFile []) \<and> map_of s ''myrecovery.conf'' = Some (PgFile content)) \<and>
      (\<forall>n. n \<notin> {''myrecovery.conf'', ''standby.signal'', conf_tmp_name pid ''myrecovery.conf'', conf_tmp_name pid ''standby.signal''} \<longrightarrow>
         map_of s n = map_of pd n)) states \<and>
    (is_ok r \<longrightarrow> map_of (last states) ''myrecovery.conf'' = Some (PgFile content) \<and>
       map_of (last states) ''standby.signal'' = Some (PgFile [])) \<and>
    (case detach_recovery_conf pid f pd of
       (_, ds) \<Rightarrow> list_all (\<lambda>s. map_of s ''standby.signal'' = map_of pd ''standby.signal'' \<and>
         (map_of s ''myrecovery.conf'' = map_of pd ''myrecovery.conf'' \<or> map_of s ''myrecovery.conf'' = Some (PgFile detached_conf))) ds)"
proof -
  have detach: "case detach_recovery_conf pid f pd of
       (_, ds) \<Rightarrow> list_all (\<lambda>s. map_of s ''standby.signal'' = map_of pd ''standby.signal'' \<and>
         (map_of s ''myrecovery.conf'' = map_of pd ''myrecovery.conf'' \<or> map_of s ''myrecovery.conf'' = Some (PgFile detached_conf))) ds"
  proof -
    obtain r' ds where d: "conf_write f pid ''myrecovery.conf'' detached_conf pd = (r', ds)" by fastforce
    have ne: "''myrecovery.conf'' \<noteq> conf_tmp_name pid ''myrecovery.conf''" "''standby.signal'' \<noteq> conf_tmp_name pid ''myrecovery.conf''"
      using conf_tmp_name_hidden by metis+
    note st = conf_write_states [OF d ne(1)]
    show ?thesis using st(2) [of _ "''standby.signal''"] st(3) ne(2) d
      by (auto simp: detach_recovery_conf_def list_all_iff split: sum.splits)
  qed
  let ?conf = "''myrecovery.conf''" and ?sig = "''standby.signal''"
  have ne: "?conf \<noteq> conf_tmp_name pid ?conf" "?sig \<noteq> conf_tmp_name pid ?sig" "?sig \<noteq> conf_tmp_name pid ?conf" "?conf \<noteq> conf_tmp_name pid ?sig"
    using conf_tmp_name_hidden by metis+
  from assms show ?thesis
  proof (cases rule: recovery_conf_cases)
    case nothing
    with detach show ?thesis by auto
  next
    case (conf_failed content m)
    note st = conf_write_states [OF conf_failed(1) ne(1)]
    from st(2,3) ne(3) detach conf_failed(2) show ?thesis by (intro exI [of _ content]) (auto simp: list_all_iff)
  next
    case (conf_written content s1 r2 s2)
    note st = conf_write_states [OF conf_written(1) ne(1)] and st2 = conf_write_states [OF conf_written(2) ne(2)]
    have l: "map_of (last s1) ?conf = Some (PgFile content)" "map_of (last s1) ?sig = map_of pd ?sig"
      using st(4) [OF refl] st(2) [of "last s1" ?sig] st(1) ne(3) by auto
    have two: "map_of s ?conf = Some (PgFile content)" if "s \<in> set s2" for s
      using st2(2) [OF that, of ?conf] ne(4) l by simp
    have other: "map_of s n = map_of pd n" if "s \<in> set s2" "n \<notin> {?conf, ?sig, conf_tmp_name pid ?conf, conf_tmp_name pid ?sig}" for s n
      using st2(2) [OF that(1), of n] st(2) [of "last s1" n] st(1) that(2) by auto
    have ok: "is_ok r \<Longrightarrow> map_of (last states) ?conf = Some (PgFile content) \<and> map_of (last states) ?sig = Some (PgFile [])"
      using conf_written(3,4) st2(1) st2(4) two [of "last s2"] by (cases r2) auto
    have one: "map_of s ?sig = map_of pd ?sig" if "s \<in> set s1" for s using st(2) [OF that, of ?sig] ne(3) by simp
    have sig: "map_of s ?sig = map_of pd ?sig \<or> map_of s ?sig = Some (PgFile [])" if "s \<in> set s2" for s
      using st2(3) [OF that] l(2) by simp
    show ?thesis
      using st(2,3) one sig two other ok detach unfolding conf_written(3) list_all_iff set_append
      by (intro exI [of _ content]) (auto dest: sig)
  qed
qed

definition ex_standby_exec :: standby_exec where
  "ex_standby_exec = \<lparr>se_basebackup = \<lparr>pb_path = ''/pg/bin/pg_basebackup'', pb_name = ''pg_basebackup'', pb_prefix = ''/pg''\<rparr>,
     se_rewind = \<lparr>pb_path = ''/pg/bin/pg_rewind'', pb_name = ''pg_rewind'', pb_prefix = ''/pg''\<rparr>, se_data_dir = ''/data'',
     se_replication = \<lparr>repl_sslmode = None\<rparr>, se_symlinks = [], se_restore_command = None\<rparr>"

abbreviation no_write_faults :: write_faults where
  "no_write_faults \<equiv> \<lparr>wf_open = None, wf_write = None, wf_rename = None, wf_unlink = False\<rparr>"

theorem standby_signal_after_conf_witness:
  "\<exists>states. write_recovery_conf ex_standby_exec 7 no_write_faults no_write_faults ex_conf_opts [] = (Inr (), states) \<and>
     map_of (last states) ''standby.signal'' = Some (PgFile [])"
proof -
  have r: "replication_valid (se_replication ex_standby_exec)" by (simp add: ex_standby_exec_def replication_valid_def)
  have "\<not> unquotable (conninfo (se_replication ex_standby_exec) ''db0'' 5432 ''repl'' [])"
    using sslmode_chars [OF r] show_nat_plain [of 5432] by (simp add: conninfo_def unquotable_def verbatim_def)
  moreover have "validate_slot ''node1'' = Inr ()" using ex_conf_valid
    by (simp add: validate_recovery_conf_def ex_conf_opts_def split: sum.splits)
  ultimately obtain body where t: "render_recovery_conf (conninfo (se_replication ex_standby_exec) (rco_primary_host ex_conf_opts)
      (rco_primary_port ex_conf_opts) (rco_repl_user ex_conf_opts) []) (rco_slot_name ex_conf_opts) (se_restore_command ex_standby_exec) = Inr body"
    by (simp add: render_recovery_conf_def ex_conf_opts_def ex_standby_exec_def conninfo_def)
  obtain states where w: "write_recovery_conf ex_standby_exec 7 no_write_faults no_write_faults ex_conf_opts [] = (Inr (), states)"
    by (simp add: write_recovery_conf_def ex_conf_valid t conf_write_def Let_def)
  from standby_signal_after_conf [OF w] w show ?thesis by (auto simp: is_ok_def)
qed

section \<open>Nothing of the old cluster survives a rebuild\<close>

lemma clear_entries_ok: "clear_entries f pd = (Inr u, pd') \<Longrightarrow> pd' = []"
  by (induction pd) (auto split: unlink_answer.splits)

lemma restore_links_ok:
  "restore_links f dir ls pd = (Inr u, pd') \<Longrightarrow> pd' = pd @ map (\<lambda>(n, t). (n, PgLink t)) ls"
  by (induction f dir ls pd rule: restore_links.induct) (auto split: option.splits if_splits)

text \<open>A finished basebackup holds what the tool made of an empty directory, and the configured links.\<close>

lemma basebackup_leaves_nothing_old:
  assumes "exec_basebackup se ra report o' pd = Some (Inr u, pd')"
  shows "is_ok (fst (the (run_pg_binary (ra_lossy ra) report (se_basebackup se) (ra_tool ra (basebackup_args se report o'))))) \<and>
    pd' = ra_leaves ra (basebackup_args se report o') [] @ map (\<lambda>(n, t). (n, PgLink t)) (se_symlinks se)"
  using assms
  by (auto simp: exec_basebackup_def clear_pgdata_contents_def Let_def dest!: restore_links_ok clear_entries_ok
      split: prod.splits sum.splits option.splits)

lemma clean_names_ok: "clean_names f ns = (Inr u, left) \<Longrightarrow> left = []"
  by (induction ns) (auto split: unlink_answer.splits)

lemma clean_replslots_ok:
  "clean_replslots da pd = (Inr u, pd') \<Longrightarrow> map_of pd' ''pg_replslot'' \<in> {None, Some (PgDir [])}"
  by (auto simp: clean_replslots_def map_of_put dest!: clean_names_ok split: option.splits pg_entry.splits prod.splits)

text \<open>A finished rewind has no slot directory left, neither its own nor the source's.\<close>

lemma rewind_leaves_no_slots:
  assumes "exec_rewind se ra report o' pd = Some (Inr u, pd')"
  shows "map_of pd' ''pg_replslot'' \<in> {None, Some (PgDir [])}"
  using assms clean_replslots_ok [of "ra_after ra"]
  by (auto simp: exec_rewind_def Let_def split: prod.splits sum.splits option.splits)

end
