(* ===== verification/PeerServer.thy ===== *)
theory PeerServer
  imports StandbyExec WalStore Pcp
begin

text \<open>
  The service a node offers its peers, \<open>crates/pg-agent-core/src/peerserver.rs\<close>: every handler, as a function
  of the answers of the local mechanisms, with the calls it makes on them recorded in order. Streams are
  the lists of their frames. The certificate check on top of the TLS library is included; the library,
  the listener and compression are not.
\<close>

section \<open>The certificate check\<close>

text \<open>\<open>inner\<close>: what the TLS library says of the chain; \<open>sans\<close>: the DNS names of the certificate.\<close>

definition verify_client_cert :: "(string, 'v) result \<Rightarrow> (string, string list) result \<Rightarrow> string list \<Rightarrow> (string, 'v) result" where
  "verify_client_cert inner sans allowed =
     (case inner of
        Inl e \<Rightarrow> Inl e
      | Inr v \<Rightarrow>
          (case sans of
             Inl e \<Rightarrow> Inl (''parse client cert SANs: '' @ e)
           | Inr dns \<Rightarrow>
               if list_ex (\<lambda>s. s \<in> set allowed) dns then Inr v
               else Inl (''peer cert DNS SANs ['' @ join '', '' (map debug_str dns) @ ''] not in allowlist'')))"

section \<open>The mechanisms\<close>

datatype peer_call =
    PcStartPostgres
  | PcStopPostgres
  | PcStartPgpool
  | PcPromote
  | PcAttach i32
  | PcCreateSlot string
  | PcDropSlot string
  | PcWriteConf recovery_conf_opts
  | PcBasebackup basebackup_opts
  | PcRewind rewind_opts

record peer_world =
  pw_journal :: inflight_store
  pw_calls :: "(peer_call \<times> bool) list"

text \<open>
  The answer to call number \<open>n\<close>; the journal's faults, the clock and the state of a slot at a consultation;
  the backends of the local pgpool; what systemd says of the unit, look by look with its time, and at the
  end; and what the tools report while they run.
\<close>

record peer_env =
  pe_call :: "nat \<Rightarrow> peer_call \<Rightarrow> (string, unit) result"
  pe_io :: io_faults
  pe_now :: datetime
  pe_slot_active :: "string \<Rightarrow> (string, bool) result"
  pe_backends :: "(string, string node_info list) result"
  pe_settling :: "(duration \<times> (string, bool) result) list"
  pe_running :: "(string, bool) result"
  pe_progress :: "(int \<times> int) list"

definition peer_do :: "peer_env \<Rightarrow> peer_call \<Rightarrow> peer_world \<Rightarrow> (string, unit) result \<times> peer_world" where
  "peer_do e c w =
     (let r = pe_call e (length (pw_calls w)) c in (r, w\<lparr>pw_calls := pw_calls w @ [(c, is_ok r)]\<rparr>))"

text \<open>\<open>self.x.call().await.map_err(internal)?; Ok(ok())\<close>.\<close>

definition peer_simple :: "peer_env \<Rightarrow> peer_call \<Rightarrow> peer_world \<Rightarrow> reply \<times> peer_world" where
  "peer_simple e c w = (case peer_do e c w of (Inl m, w) \<Rightarrow> (internal m, w) | (Inr _, w) \<Rightarrow> (succeeded [], w))"

section \<open>Handlers\<close>

definition peer_start :: "peer_env \<Rightarrow> peer_world \<Rightarrow> reply \<times> peer_world" where
  "peer_start e = peer_simple e PcStartPostgres"

definition peer_stop :: "peer_env \<Rightarrow> peer_world \<Rightarrow> reply \<times> peer_world" where
  "peer_stop e = peer_simple e PcStopPostgres"

definition peer_start_pgpool :: "peer_env \<Rightarrow> peer_world \<Rightarrow> reply \<times> peer_world" where
  "peer_start_pgpool e = peer_simple e PcStartPgpool"

definition peer_promote :: "peer_env \<Rightarrow> peer_world \<Rightarrow> reply \<times> peer_world" where
  "peer_promote e = peer_simple e PcPromote"

definition backend_down :: "'f node_info list \<Rightarrow> i32 \<Rightarrow> bool" where
  "backend_down infos i = list_ex (\<lambda>n. ni_id n = i \<and> \<not> is_up n) infos"

definition peer_attach_node :: "peer_env \<Rightarrow> i32 \<Rightarrow> i32 \<Rightarrow> peer_world \<Rightarrow> reply \<times> peer_world" where
  "peer_attach_node e node primary w =
     (case pe_backends e of
        Inl m \<Rightarrow> (refused (''attach_node: local pgpool map unavailable: '' @ m), w)
      | Inr infos \<Rightarrow>
          let attach = (\<lambda>w.
            if \<not> backend_down infos node then
              (succeeded (''attach_node: backend '' @ show_int node @ '' already up (or absent) on this instance; no action''), w)
            else case peer_do e (PcAttach node) w of
                (Inr _, w) \<Rightarrow> (succeeded (''attach_node: backend '' @ show_int node @ '' attached''), w)
              | (Inl m, w) \<Rightarrow> (refused (''attach_node: pcp_attach_node('' @ show_int node @ ''): '' @ m), w))
          in if primary \<noteq> node \<and> backend_down infos primary then
               (case peer_do e (PcAttach primary) w of
                  (Inl m, w) \<Rightarrow>
                    (refused (''attach_node: refusing to attach node '' @ show_int node @ '' into a primary-less map '' @
                       [CHR 0xE2, CHR 0x80, CHR 0x94] @ '' attaching primary backend '' @ show_int primary @ '' first failed: '' @ m), w)
                | (Inr _, w) \<Rightarrow> attach w)
             else attach w)"

definition validate_slot_name :: "string \<Rightarrow> (status, unit) result" where
  "validate_slot_name name =
     (if name = [] then Inl (InvalidArgument ''slot_name is required'')
      else if \<not> allowed_slot_name name then Inl (InvalidArgument ''slot_name contains invalid characters'')
      else Inr ())"

definition peer_create_slot :: "peer_env \<Rightarrow> string \<Rightarrow> peer_world \<Rightarrow> reply \<times> peer_world" where
  "peer_create_slot e slot w =
     (case validate_slot_name slot of Inl s \<Rightarrow> (Inl s, w) | Inr _ \<Rightarrow> peer_simple e (PcCreateSlot slot) w)"

definition slot_owner :: "peer_env \<Rightarrow> string \<Rightarrow> peer_world \<Rightarrow> inflight_op option \<times> peer_world" where
  "slot_owner e slot w =
     (case owner_of_slot_observing (pe_io e) (pe_now e) slot cross_op_grace (pe_slot_active e slot) (pw_journal w) of
        (own, j) \<Rightarrow> (own, w\<lparr>pw_journal := j\<rparr>))"

definition peer_drop_slot :: "peer_env \<Rightarrow> string \<Rightarrow> peer_world \<Rightarrow> reply \<times> peer_world" where
  "peer_drop_slot e slot w =
     (case validate_slot_name slot of
        Inl s \<Rightarrow> (Inl s, w)
      | Inr _ \<Rightarrow>
          (case slot_owner e slot w of
             (Some own, w) \<Rightarrow>
               (succeeded (''slot '' @ slot @ '' retained: in-flight '' @ op_name (op_payload own) @ '' (id='' @ op_id own @
                  '', phase='' @ op_phase own @ '') owns it''), w)
           | (None, w) \<Rightarrow> peer_simple e (PcDropSlot slot) w))"

text \<open>\<open>u16::try_from\<close> on the port of a request.\<close>

definition port_u16 :: "i32 \<Rightarrow> (status, nat) result" where
  "port_u16 p =
     (if 0 \<le> p \<and> p < 2 ^ 16 then Inr (nat p) else Inl (InvalidArgument ''primary_port must fit in u16 and be > 0''))"

record standby_request =
  sr_primary_host :: string
  sr_primary_port :: i32
  sr_repl_user :: string
  sr_slot_name :: string

definition peer_configure_standby :: "peer_env \<Rightarrow> standby_request \<Rightarrow> peer_world \<Rightarrow> reply \<times> peer_world" where
  "peer_configure_standby e req w =
     (case port_u16 (sr_primary_port req) of
        Inl s \<Rightarrow> (Inl s, w)
      | Inr port \<Rightarrow>
          let o' = \<lparr>rco_primary_host = sr_primary_host req, rco_primary_port = port, rco_repl_user = sr_repl_user req,
            rco_slot_name = sr_slot_name req\<rparr> in
          (case validate_recovery_conf o' of
             Inl m \<Rightarrow> (Inl (InvalidArgument (''invalid configure_standby: '' @ m)), w)
           | Inr _ \<Rightarrow> peer_simple e (PcWriteConf o') w))"

section \<open>Streams\<close>

record op_progress =
  op_phase_name :: string
  op_bytes_done :: int
  op_bytes_total :: int

type_synonym 'a frame = "(status, 'a) result"

definition progress_cb :: "(int \<times> int) \<Rightarrow> op_progress frame" where
  "progress_cb p = Inr \<lparr>op_phase_name = ''streaming'', op_bytes_done = fst p, op_bytes_total = snd p\<rparr>"

text \<open>\<open>delivered\<close>: the progress reports that found room in the buffer.\<close>

definition progress_stream :: "string \<Rightarrow> (int \<times> int) list \<Rightarrow> (string, unit) result \<Rightarrow> op_progress frame list" where
  "progress_stream intermediate_phase delivered r =
     map progress_cb delivered @
     [case r of
        Inr _ \<Rightarrow> Inr \<lparr>op_phase_name = ''done'', op_bytes_done = 0, op_bytes_total = 0\<rparr>
      | Inl m \<Rightarrow> Inl (Internal (intermediate_phase @ '': '' @ m))]"

text \<open>Wait for the unit to settle, thirty seconds at most, looking every 250 milliseconds.\<close>

fun settle :: "(duration \<times> (string, bool) result) list \<Rightarrow> (status, unit) result option" where
  "settle [] = None"
| "settle ((elapsed, ans) # more_looks) =
     (case ans of
        Inl m \<Rightarrow> Some (Inl (Internal m))
      | Inr False \<Rightarrow> Some (Inr ())
      | Inr True \<Rightarrow>
          if secs 30 \<le> elapsed then
            Some (Inl (FailedPrecondition (''refusing to basebackup: postgres unit stuck in a transitional '' @
              ''state for 30s (mid-start or mid-shutdown owns $PGDATA)'')))
          else settle more_looks)"

definition peer_basebackup ::
  "peer_env \<Rightarrow> standby_request \<Rightarrow> peer_world \<Rightarrow> ((status, op_progress frame list) result \<times> peer_world) option" where
  "peer_basebackup e req w =
     (case port_u16 (sr_primary_port req) of
        Inl s \<Rightarrow> Some (Inl s, w)
      | Inr port \<Rightarrow>
          let o' = \<lparr>bbo_primary_host = sr_primary_host req, bbo_primary_port = port, bbo_repl_user = sr_repl_user req,
            bbo_slot_name = sr_slot_name req\<rparr> in
          (case validate_basebackup o' of
             Inl m \<Rightarrow> Some (Inl (InvalidArgument (''invalid basebackup: '' @ m)), w)
           | Inr _ \<Rightarrow>
               (case settle (pe_settling e) of
                  None \<Rightarrow> None
                | Some (Inl s) \<Rightarrow> Some (Inl s, w)
                | Some (Inr _) \<Rightarrow>
                    (case pe_running e of
                       Inl m \<Rightarrow> Some (Inl (Internal m), w)
                     | Inr True \<Rightarrow> Some (Inl (FailedPrecondition ''refusing to basebackup while postgres is running''), w)
                     | Inr False \<Rightarrow>
                         (case peer_do e (PcBasebackup o') w of
                            (r, w) \<Rightarrow> Some (Inr (progress_stream ''streaming'' (pe_progress e) r), w))))))"

definition peer_rewind :: "peer_env \<Rightarrow> standby_request \<Rightarrow> peer_world \<Rightarrow> (status, op_progress frame list) result \<times> peer_world" where
  "peer_rewind e req w =
     (case port_u16 (sr_primary_port req) of
        Inl s \<Rightarrow> (Inl s, w)
      | Inr port \<Rightarrow>
          let o' = \<lparr>rwo_primary_host = sr_primary_host req, rwo_primary_port = port, rwo_repl_user = sr_repl_user req\<rparr> in
          (case validate_rewind o' of
             Inl m \<Rightarrow> (Inl (InvalidArgument (''invalid rewind: '' @ m)), w)
           | Inr _ \<Rightarrow>
               (case peer_do e (PcRewind o') w of
                  (r, w) \<Rightarrow> (Inr (progress_stream ''rewinding'' (pe_progress e) r), w))))"

definition wal_chunk_size :: nat where
  "wal_chunk_size = 1024 * 1024"

definition show_wal_store_error :: "wal_store_error \<Rightarrow> string" where
  "show_wal_store_error e =
     (case e of
        DestOutsidePgData \<Rightarrow> ''dest_path is outside pgdata root''
      | WalNotFound n \<Rightarrow> ''WAL segment not found: '' @ n
      | WalInvalid n r \<Rightarrow> ''invalid wal_file '' @ debug_str n @ '': '' @ r
      | WalIo m \<Rightarrow> m
      | WalOther m \<Rightarrow> m)"

definition wal_open_status :: "string \<Rightarrow> wal_store_error \<Rightarrow> status" where
  "wal_open_status wal_file e =
     (case e of
        WalNotFound name \<Rightarrow> NotFoundStatus (''WAL segment not found: '' @ name)
      | WalInvalid name reason \<Rightarrow> InvalidArgument (''invalid wal_file '' @ debug_str name @ '': '' @ reason)
      | other \<Rightarrow> Internal (''open '' @ wal_file @ '': '' @ show_wal_store_error other))"

text \<open>
  The file, read piece by piece: the first reads give as many bytes as \<open>cuts\<close> says, at most a chunk each;
  after them a read fails, or the rest comes in whole chunks.
\<close>

function wal_frames :: "nat list \<Rightarrow> string option \<Rightarrow> string \<Rightarrow> string frame list" where
  "wal_frames [] (Some m) bytes = [Inl (Internal (''read: '' @ m))]"
| "wal_frames [] None bytes =
     (if bytes = [] then [] else Inr (take wal_chunk_size bytes) # wal_frames [] None (drop wal_chunk_size bytes))"
| "wal_frames (n # ns) fault bytes =
     (if bytes = [] then []
      else Inr (take (max 1 (min n wal_chunk_size)) bytes) # wal_frames ns fault (drop (max 1 (min n wal_chunk_size)) bytes))"
  by pat_completeness auto
termination by (relation "measure (\<lambda>(_, _, bytes). length bytes)") (auto simp: wal_chunk_size_def)

definition peer_fetch_wal ::
  "file_wal_store \<Rightarrow> string option \<Rightarrow> nat list \<Rightarrow> string option \<Rightarrow> string \<Rightarrow> wal_fs \<Rightarrow> (status, string frame list) result" where
  "peer_fetch_wal ws open_fault cuts read_fault wal_file fs =
     (if wal_file = [] then Inl (InvalidArgument ''wal_file is required'')
      else case open_archive ws open_fault wal_file fs of
          Inl e \<Rightarrow> Inl (wal_open_status wal_file e)
        | Inr bytes \<Rightarrow> Inr (wal_frames cuts read_fault bytes))"

section \<open>Guards\<close>

lemma peer_do_calls: "peer_do e c w = (r, w') \<Longrightarrow> pw_calls w' = pw_calls w @ [(c, is_ok r)] \<and> pw_journal w' = pw_journal w"
  by (auto simp: peer_do_def Let_def)

lemma peer_simple_calls:
  "peer_simple e c w = (r, w') \<Longrightarrow>
     pw_calls w' = pw_calls w @ [(c, is_ok r)] \<and> pw_journal w' = pw_journal w"
  by (auto simp: peer_simple_def dest!: peer_do_calls split: prod.splits sum.splits)

text \<open>
  A peer's request to drop a slot is honoured exactly when no orchestration of this node owns it. For
  a well-formed name the slot is dropped if and only if the journal names no owner for it (an entry in
  progress, or a finished one whose node has not been seen alive and whose protection has not run out);
  with an owner nothing is called and the answer is still success, so that the sender's queued clean-up
  ends; a malformed name calls nothing. The journal changes by the discharge of an owner only.
\<close>

theorem peer_drop_respects_owner:
  "case peer_drop_slot e slot w of (r, w') \<Rightarrow>
     (case owner_of_slot_observing (pe_io e) (pe_now e) slot cross_op_grace (pe_slot_active e slot) (pw_journal w) of
        (own, j) \<Rightarrow>
          if \<not> allowed_slot_name slot then w' = w \<and> (\<exists>m. r = Inl (InvalidArgument m))
          else pw_journal w' = j \<and>
            (case own of
               Some _ \<Rightarrow> pw_calls w' = pw_calls w \<and> (\<exists>m. r = succeeded m)
             | None \<Rightarrow> pw_calls w' = pw_calls w @ [(PcDropSlot slot, is_ok r)]))"
proof (cases "allowed_slot_name slot")
  case True
  hence "slot \<noteq> []" by (auto simp: allowed_slot_name_def)
  with True show ?thesis
    by (auto simp: peer_drop_slot_def validate_slot_name_def slot_owner_def dest!: peer_simple_calls
        split: prod.splits option.splits)
next
  case False
  thus ?thesis by (auto simp: peer_drop_slot_def validate_slot_name_def split: prod.splits)
qed

text \<open>A primary's backend that is down is attached before any other, and only backends that are down are attached.\<close>

lemma attach_only_down:
  assumes "peer_attach_node e node primary w = (r, w')"
  shows "\<exists>cs. pw_calls w' = pw_calls w @ cs \<and> (\<forall>(c, b) \<in> set cs. \<exists>i infos. c = PcAttach i \<and> i \<in> {node, primary} \<and>
      pe_backends e = Inr infos \<and> backend_down infos i) \<and>
    (\<forall>infos. pe_backends e = Inr infos \<and> backend_down infos primary \<and> cs \<noteq> [] \<longrightarrow> fst (hd cs) = PcAttach primary)"
  using assms
  by (auto simp: peer_attach_node_def Let_def dest!: peer_do_calls split: sum.splits if_splits prod.splits)

lemma settle_returns:
  assumes "list_ex (\<lambda>(elapsed, ans). secs 30 \<le> elapsed \<or> ans \<noteq> Inr True) looked"
  shows "settle looked \<noteq> None"
  using assms by (induction looked rule: settle.induct) (auto split: sum.splits bool.splits)

lemma settle_ok:
  "settle looked = Some (Inr ()) \<Longrightarrow>
     \<exists>before t after. looked = before @ (t, Inr False) # after \<and> list_all (\<lambda>(elapsed, ans). elapsed < secs 30 \<and> ans = Inr True) before"
proof (induction looked rule: settle.induct)
  case (2 elapsed ans more_looks)
  show ?case
  proof (cases "ans = Inr True")
    case True
    with 2(2) have short: "elapsed < secs 30" "settle more_looks = Some (Inr ())" by (auto split: if_splits)
    with 2(1) [of True] True obtain before t after where "more_looks = before @ (t, Inr False) # after"
      "list_all (\<lambda>(elapsed, ans). elapsed < secs 30 \<and> ans = Inr True) before"
      by auto
    with True short(1) show ?thesis by (intro exI [of _ "(elapsed, ans) # before"] exI) auto
  next
    case False
    with 2(2) have "ans = Inr False" by (auto split: sum.splits bool.splits)
    thus ?thesis by (intro exI [of _ "[]"]) auto
  qed
qed simp

lemma basebackup_guarded:
  assumes "peer_basebackup e req w = Some (r, w')"
  obtains (refused) s where "r = Inl s" "w' = w"
  | (run) o' res where "validate_basebackup o' = Inr ()" "settle (pe_settling e) = Some (Inr ())" "pe_running e = Inr False"
    "bbo_primary_host o' = sr_primary_host req" "int (bbo_primary_port o') = sr_primary_port req"
    "bbo_slot_name o' = sr_slot_name req" "bbo_repl_user o' = sr_repl_user req"
    "peer_do e (PcBasebackup o') w = (res, w')" "r = Inr (progress_stream ''streaming'' (pe_progress e) res)"
proof (cases r)
  case (Inl s)
  with assms have "w' = w" by (auto simp: peer_basebackup_def Let_def split: sum.splits option.splits bool.splits prod.splits)
  with Inl show thesis by (rule refused)
next
  case (Inr frames)
  with assms obtain port o' res where port: "port_u16 (sr_primary_port req) = Inr port"
    and o': "o' = \<lparr>bbo_primary_host = sr_primary_host req, bbo_primary_port = port, bbo_repl_user = sr_repl_user req,
            bbo_slot_name = sr_slot_name req\<rparr>"
    and v: "validate_basebackup o' = Inr ()" "settle (pe_settling e) = Some (Inr ())" "pe_running e = Inr False"
      "peer_do e (PcBasebackup o') w = (res, w')" "frames = progress_stream ''streaming'' (pe_progress e) res"
    by (auto simp: peer_basebackup_def Let_def split: sum.splits option.splits bool.splits prod.splits)
  from port have "int port = sr_primary_port req" by (auto simp: port_u16_def split: if_splits)
  with run [of o' res] v o' Inr show thesis by simp
qed

end
