(* ===== verification/PeerClient.thy ===== *)
theory PeerClient
  imports PeerServer
begin

text \<open>
  The outbound side, \<open>crates/pg-agent-core/src/peers.rs\<close>: the pool of channels with its age cap and its flag for
  broken ones, and what the client makes of the answers and streams of a peer. Dialing and the channels
  of tonic are answers; the flag of a channel, shared with its entry in the pool, is kept in the entry.
\<close>

section \<open>Answers\<close>

datatype grpc_code = GUnavailable | GNotFound | GInvalidArgument | GFailedPrecondition | GInternal | GOther

record grpc_status =
  gs_code :: grpc_code
  gs_message :: string

text \<open>A status of a handler as it arrives.\<close>

definition wire_status :: "status \<Rightarrow> grpc_status" where
  "wire_status s =
     (case s of
        InvalidArgument m \<Rightarrow> \<lparr>gs_code = GInvalidArgument, gs_message = m\<rparr>
      | NotFoundStatus m \<Rightarrow> \<lparr>gs_code = GNotFound, gs_message = m\<rparr>
      | FailedPrecondition m \<Rightarrow> \<lparr>gs_code = GFailedPrecondition, gs_message = m\<rparr>
      | Internal m \<Rightarrow> \<lparr>gs_code = GInternal, gs_message = m\<rparr>)"

fun contains :: "string \<Rightarrow> string \<Rightarrow> bool" where
  "contains [] p = (p = [])"
| "contains (c # s) p = (starts_with (c # s) p \<or> contains s p)"

definition is_transport_error :: "grpc_status \<Rightarrow> bool" where
  "is_transport_error s =
     (gs_code s = GUnavailable \<or>
      list_ex (contains (gs_message s))
        [''h2 protocol error'', ''http2 error'', ''transport error'', ''connection reset'', ''broken pipe'',
         ''error trying to connect'', ''operation was canceled''])"

text \<open>The error for the caller, and whether the channel is poisoned.\<close>

definition peer_err :: "string \<Rightarrow> grpc_status \<Rightarrow> string \<times> bool" where
  "peer_err what s = (''peer '' @ what @ '': '' @ gs_message s, is_transport_error s)"

text \<open>The answer of a unary operation; \<open>short_rpc\<close> gives up after thirty seconds, which does not poison.\<close>

definition op_reply :: "string \<Rightarrow> (grpc_status, op_result) result \<Rightarrow> (string, unit) result \<times> bool" where
  "op_reply what ans =
     (case ans of
        Inl s \<Rightarrow> (case peer_err what s of (m, p) \<Rightarrow> (Inl m, p))
      | Inr r \<Rightarrow> (if or_ok r then Inr () else Inl (''peer '' @ what @ '': '' @ or_message r), False))"

definition read_reply :: "string \<Rightarrow> (grpc_status, 'a) result \<Rightarrow> (string, 'a) result \<times> bool" where
  "read_reply what ans =
     (case ans of Inl s \<Rightarrow> (case peer_err what s of (m, p) \<Rightarrow> (Inl m, p)) | Inr a \<Rightarrow> (Inr a, False))"

definition short_rpc :: "string \<Rightarrow> ('r \<Rightarrow> (string, 'a) result \<times> bool) \<Rightarrow> 'r option \<Rightarrow> (string, 'a) result \<times> bool" where
  "short_rpc what f ans =
     (case ans of None \<Rightarrow> (Inl (''peer '' @ what @ '': timed out after 30s''), False) | Some r \<Rightarrow> f r)"

definition client_create_slot :: "(grpc_status, op_result) result option \<Rightarrow> (string, unit) result \<times> bool" where
  "client_create_slot = short_rpc ''create_slot'' (op_reply ''create_slot'')"

definition client_drop_slot :: "(grpc_status, op_result) result option \<Rightarrow> (string, unit) result \<times> bool" where
  "client_drop_slot = short_rpc ''drop_slot'' (op_reply ''drop_slot'')"

definition client_get_node_config :: "(grpc_status, 'c) result option \<Rightarrow> (string, 'c) result \<times> bool" where
  "client_get_node_config = short_rpc ''get_node_config'' (read_reply ''get_node_config'')"

definition client_get_status :: "(grpc_status, 's) result option \<Rightarrow> (string, 's) result \<times> bool" where
  "client_get_status = short_rpc ''get_status'' (read_reply ''get_status'')"

definition client_start :: "(grpc_status, op_result) result \<Rightarrow> (string, unit) result \<times> bool" where
  "client_start = op_reply ''start''"

definition client_start_pgpool :: "(grpc_status, op_result) result \<Rightarrow> (string, unit) result \<times> bool" where
  "client_start_pgpool = op_reply ''start_pgpool''"

definition client_attach_node :: "(grpc_status, op_result) result \<Rightarrow> (string, unit) result \<times> bool" where
  "client_attach_node = op_reply ''attach_node''"

definition client_stop :: "(grpc_status, op_result) result \<Rightarrow> (string, unit) result \<times> bool" where
  "client_stop = op_reply ''stop''"

definition client_configure_standby :: "(grpc_status, op_result) result \<Rightarrow> (string, unit) result \<times> bool" where
  "client_configure_standby = op_reply ''configure_standby''"

definition client_promote :: "(grpc_status, op_result) result \<Rightarrow> (string, unit) result \<times> bool" where
  "client_promote = op_reply ''promote''"

definition basebackup_request :: "basebackup_opts \<Rightarrow> standby_request" where
  "basebackup_request o' = \<lparr>sr_primary_host = bbo_primary_host o', sr_primary_port = int (bbo_primary_port o'),
     sr_repl_user = bbo_repl_user o', sr_slot_name = bbo_slot_name o'\<rparr>"

definition configure_request :: "recovery_conf_opts \<Rightarrow> standby_request" where
  "configure_request o' = \<lparr>sr_primary_host = rco_primary_host o', sr_primary_port = int (rco_primary_port o'),
     sr_repl_user = rco_repl_user o', sr_slot_name = rco_slot_name o'\<rparr>"

fun drain_progress_stream :: "string \<Rightarrow> (grpc_status, op_progress) result list \<Rightarrow> (string, unit) result \<times> bool" where
  "drain_progress_stream operation [] = (Inl (operation @ '': stream ended without 'done' phase''), False)"
| "drain_progress_stream operation (f # fs) =
     (case f of
        Inr p \<Rightarrow> if op_phase_name p = ''done'' then (Inr (), False) else drain_progress_stream operation fs
      | Inl s \<Rightarrow> (Inl (operation @ '': stream error: '' @ gs_message s), is_transport_error s))"

text \<open>A streaming operation: the call, then its stream.\<close>

definition stream_rpc :: "string \<Rightarrow> (grpc_status, (grpc_status, op_progress) result list) result \<Rightarrow> (string, unit) result \<times> bool" where
  "stream_rpc what ans =
     (case ans of
        Inl s \<Rightarrow> (case peer_err what s of (m, p) \<Rightarrow> (Inl m, p))
      | Inr frames \<Rightarrow> drain_progress_stream (''peer '' @ what) frames)"

definition client_rewind :: "(grpc_status, (grpc_status, op_progress) result list) result \<Rightarrow> (string, unit) result \<times> bool" where
  "client_rewind = stream_rpc ''rewind''"

definition client_basebackup :: "(grpc_status, (grpc_status, op_progress) result list) result \<Rightarrow> (string, unit) result \<times> bool" where
  "client_basebackup = stream_rpc ''basebackup''"

text \<open>A fetched file: absent, or the frames to be read; reading gives the bytes or an error.\<close>

definition client_fetch_wal ::
  "(grpc_status, (grpc_status, string) result list) result option \<Rightarrow> (string, (grpc_status, string) result list option) result \<times> bool" where
  "client_fetch_wal ans =
     (case ans of
        None \<Rightarrow> (Inl ''peer fetch_wal: no response within 5s (peer unreachable?)'', False)
      | Some (Inr frames) \<Rightarrow> (Inr (Some frames), False)
      | Some (Inl s) \<Rightarrow>
          if gs_code s = GNotFound then (Inr None, False)
          else (case peer_err ''fetch_wal'' s of (m, p) \<Rightarrow> (Inl m, p)))"

fun read_frames :: "(grpc_status, string) result list \<Rightarrow> (grpc_status, string) result" where
  "read_frames [] = Inr []"
| "read_frames (f # fs) =
     (case f of
        Inl s \<Rightarrow> Inl s
      | Inr bytes \<Rightarrow> (case read_frames fs of Inl e \<Rightarrow> Inl e | Inr rest \<Rightarrow> Inr (bytes @ rest)))"

section \<open>The pool of channels\<close>

definition max_connection_age :: duration where
  "max_connection_age = secs (12 * 60 * 60)"

record channel_entry =
  ch_channel :: nat
  ch_created_at :: instant
  ch_poisoned :: bool

record peer_pool =
  pp_channels :: "i32 \<rightharpoonup> channel_entry"
  pp_next :: nat

definition pool_client :: "instant \<Rightarrow> (string, instant) result \<Rightarrow> i32 \<Rightarrow> peer_pool \<Rightarrow> (string, nat) result \<times> peer_pool" where
  "pool_client now dial node p =
     (let fresh = (case dial of
          Inl m \<Rightarrow> (Inl m, p)
        | Inr dialed \<Rightarrow>
            (Inr (pp_next p), p\<lparr>pp_channels := (pp_channels p)(node \<mapsto>
               \<lparr>ch_channel = pp_next p, ch_created_at = dialed, ch_poisoned = False\<rparr>), pp_next := Suc (pp_next p)\<rparr>))
      in case pp_channels p node of
           Some en \<Rightarrow> if now - ch_created_at en < max_connection_age \<and> \<not> ch_poisoned en then (Inr (ch_channel en), p) else fresh
         | None \<Rightarrow> fresh)"

definition pool_poison :: "nat \<Rightarrow> peer_pool \<Rightarrow> peer_pool" where
  "pool_poison c p = p\<lparr>pp_channels := (\<lambda>i. map_option (\<lambda>en. if ch_channel en = c then en\<lparr>ch_poisoned := True\<rparr> else en) (pp_channels p i))\<rparr>"

definition pool_close :: "peer_pool \<Rightarrow> peer_pool" where
  "pool_close p = p\<lparr>pp_channels := Map.empty\<rparr>"

definition pool_new :: peer_pool where
  "pool_new = \<lparr>pp_channels = Map.empty, pp_next = 0\<rparr>"

section \<open>Success means done\<close>

definition to_wire :: "(status, 'a) result \<Rightarrow> (grpc_status, 'a) result" where
  "to_wire f = (case f of Inl s \<Rightarrow> Inl (wire_status s) | Inr a \<Rightarrow> Inr a)"

text \<open>A stream as it arrives: all of it, or a part that ends early or in an error of the transport.\<close>

definition arrives :: "(status, 'a) result list \<Rightarrow> nat \<Rightarrow> grpc_status option \<Rightarrow> (grpc_status, 'a) result list" where
  "arrives frames k broken = map to_wire (take k frames) @ (case broken of Some s \<Rightarrow> [Inl s] | None \<Rightarrow> [])"

lemma drain_ok: "fst (drain_progress_stream operation fs) = Inr () \<Longrightarrow> \<exists>p. Inr p \<in> set fs \<and> op_phase_name p = ''done''"
  by (induction fs) (auto split: sum.splits if_splits)

lemma drain_done:
  assumes "list_all (\<lambda>f. \<exists>p. f = Inr p \<and> op_phase_name p \<noteq> ''done'') fs"
  shows "drain_progress_stream operation (fs @ gs) = drain_progress_stream operation gs"
  using assms by (induction fs) auto

lemma progress_frames:
  "list_all (\<lambda>f. \<exists>p. f = Inr p \<and> op_phase_name p \<noteq> ''done'') (map (to_wire \<circ> progress_cb) ps)"
  by (induction ps) (auto simp: to_wire_def progress_cb_def)

lemmas drain_progress = drain_done [OF progress_frames] drain_done [OF progress_frames, where gs = "[]", simplified]

lemma stream_ok_iff:
  "fst (stream_rpc what (Inr (arrives (progress_stream phase ps r) k broken))) = Inr () \<longleftrightarrow> is_ok r \<and> length ps < k"
proof (cases "length ps < k")
  case True
  hence "take k (progress_stream phase ps r) = progress_stream phase ps r" by (simp add: progress_stream_def)
  with True show ?thesis
    by (simp add: arrives_def stream_rpc_def progress_stream_def drain_progress to_wire_def split: sum.split)
next
  case False
  hence "take k (progress_stream phase ps r) = map progress_cb (take k ps)" by (simp add: progress_stream_def take_map)
  with False show ?thesis
    by (simp add: arrives_def stream_rpc_def drain_progress split: option.split)
qed

text \<open>
  (C13) A remote basebackup overwrites only a stopped node, and is reported done only when it is. Whatever
  the unit does while it is watched, whatever the request says and wherever the stream of the answer is
  cut, the tool is run only with checked parameters, after the unit was seen settled and then not
  running; and the caller is told success exactly when the tool succeeded and its last frame arrived.
\<close>

theorem remote_basebackup_safe_and_honest:
  assumes "peer_basebackup e req w = Some (ans, w')"
  shows "(case drop (length (pw_calls w)) (pw_calls w') of
      [] \<Rightarrow> \<not> is_ok ans
    | c # cs \<Rightarrow> cs = [] \<and> pe_running e = Inr False \<and>
        (\<exists>before t after. pe_settling e = before @ (t, Inr False) # after \<and>
           list_all (\<lambda>(elapsed, ans). elapsed < secs 30 \<and> ans = Inr True) before) \<and>
        (\<exists>o' ok. c = (PcBasebackup o', ok) \<and> validate_basebackup o' = Inr () \<and> bbo_primary_host o' = sr_primary_host req \<and>
           int (bbo_primary_port o') = sr_primary_port req \<and> bbo_slot_name o' = sr_slot_name req \<and>
           bbo_repl_user o' = sr_repl_user req \<and>
           (fst (client_basebackup (case ans of Inl s \<Rightarrow> Inl (wire_status s) | Inr frames \<Rightarrow> Inr (arrives frames k broken))) = Inr ()
              \<longleftrightarrow> ok \<and> length (pe_progress e) < k)))"
  using assms
proof (cases rule: basebackup_guarded)
  case (refused s)
  thus ?thesis by simp
next
  case (run o' res)
  from peer_do_calls [OF run(8)] have "drop (length (pw_calls w)) (pw_calls w') = [(PcBasebackup o', is_ok res)]" by simp
  with run stream_ok_iff [of "''basebackup''" "''streaming''" "pe_progress e" res k broken] show ?thesis
    using settle_ok [OF run(2)] by (simp add: client_basebackup_def)
qed

definition ex_peer_env :: peer_env where
  "ex_peer_env = \<lparr>pe_call = (\<lambda>_ _. Inr ()), pe_io = no_faults, pe_now = 0, pe_slot_active = (\<lambda>_. Inr False),
     pe_backends = Inr [], pe_settling = [(0, Inr True), (1, Inr False)], pe_running = Inr False, pe_progress = [(10, 20)]\<rparr>"

definition ex_basebackup :: basebackup_opts where
  "ex_basebackup = \<lparr>bbo_primary_host = ''n0'', bbo_primary_port = 5432, bbo_repl_user = ''repl'', bbo_slot_name = ''pg_1''\<rparr>"

lemma ex_basebackup_valid: "validate_basebackup ex_basebackup = Inr ()"
  by code_simp

lemma ex_basebackup_run:
  "peer_basebackup ex_peer_env (basebackup_request ex_basebackup) \<lparr>pw_journal = inflight_store_new [] 0, pw_calls = []\<rparr> =
     Some (Inr [Inr \<lparr>op_phase_name = ''streaming'', op_bytes_done = 10, op_bytes_total = 20\<rparr>,
              Inr \<lparr>op_phase_name = ''done'', op_bytes_done = 0, op_bytes_total = 0\<rparr>],
           \<lparr>pw_journal = inflight_store_new [] 0, pw_calls = [(PcBasebackup ex_basebackup, True)]\<rparr>)"
  using ex_basebackup_valid
  by (simp add: peer_basebackup_def port_u16_def basebackup_request_def ex_peer_env_def peer_do_def is_ok_def secs_def
      ex_basebackup_def progress_stream_def progress_cb_def)

theorem remote_basebackup_safe_and_honest_witness:
  "fst (client_basebackup (Inr (arrives [Inr \<lparr>op_phase_name = ''streaming'', op_bytes_done = 10, op_bytes_total = 20\<rparr>,
      Inr \<lparr>op_phase_name = ''done'', op_bytes_done = 0, op_bytes_total = 0\<rparr>] 2 None))) = Inr () \<and>
   fst (client_basebackup (Inr (arrives [Inr \<lparr>op_phase_name = ''streaming'', op_bytes_done = 10, op_bytes_total = 20\<rparr>,
      Inr \<lparr>op_phase_name = ''done'', op_bytes_done = 0, op_bytes_total = 0\<rparr>] 1 None))) \<noteq> Inr () \<and>
   pe_settling ex_peer_env = [(0, Inr True), (1, Inr False)]"
  using remote_basebackup_safe_and_honest [OF ex_basebackup_run, of 2 None]
    remote_basebackup_safe_and_honest [OF ex_basebackup_run, of 1 None]
  by (auto simp: ex_peer_env_def)

section \<open>A fetched file is the archived one\<close>

lemma read_frames_append:
  "read_frames (fs @ gs) = (case read_frames fs of Inl e \<Rightarrow> Inl e | Inr a \<Rightarrow> (case read_frames gs of Inl e \<Rightarrow> Inl e | Inr b \<Rightarrow> Inr (a @ b)))"
  by (induction fs) (auto split: sum.splits)

lemma wal_frames_read:
  "(\<forall>b. read_frames (map to_wire (wal_frames ns fault bytes)) = Inr b \<longrightarrow> b = bytes) \<and>
   (fault = None \<longrightarrow> read_frames (map to_wire (wal_frames ns fault bytes)) = Inr bytes) \<and>
   list_all (\<lambda>f. case f of Inr c \<Rightarrow> c \<noteq> [] \<and> length c \<le> wal_chunk_size | Inl _ \<Rightarrow> True) (wal_frames ns fault bytes)"
proof (induction ns fault bytes rule: wal_frames.induct)
  case (1 m bytes)
  show ?case by (simp add: to_wire_def)
next
  case (2 bytes)
  thus ?case by (auto simp: to_wire_def wal_chunk_size_def split: sum.splits)
next
  case (3 n ns fault bytes)
  have "max 1 (min n wal_chunk_size) \<le> wal_chunk_size" by (simp add: wal_chunk_size_def)
  with 3 show ?case by (auto simp: to_wire_def split: sum.splits)
qed

text \<open>
  (C14) A WAL file fetched from a peer is the archived file. However the server cuts its reads, a reader that
  sees the stream end has exactly the bytes of the file of that name in the peer's archive, and sees it
  unless a read failed or the connection broke, which it sees as an error; frames stay within a chunk. The
  peer serves only well-formed names from its archive directory, and a missing file is told apart from
  every error.
\<close>

theorem fetched_wal_is_archived:
  "case peer_fetch_wal ws open_fault cuts read_fault wal_file fs of
     Inr frames \<Rightarrow>
       (\<exists>bytes synced. validate_wal_filename wal_file = Inr () \<and>
          fs (components (path_join (fw_archive_dir ws) wal_file)) = Some (bytes, synced) \<and>
          (case read_frames (map to_wire frames) of Inr b \<Rightarrow> b = bytes | Inl _ \<Rightarrow> read_fault \<noteq> None) \<and>
          \<not> is_ok (read_frames (arrives frames k (Some broken)))) \<and>
       list_all (\<lambda>f. case f of Inr c \<Rightarrow> c \<noteq> [] \<and> length c \<le> wal_chunk_size | Inl _ \<Rightarrow> True) frames \<and>
       client_fetch_wal (Some (Inr (map to_wire frames))) = (Inr (Some (map to_wire frames)), False)
   | Inl s \<Rightarrow>
       (fst (client_fetch_wal (Some (Inl (wire_status s)))) = Inr None) =
         (wal_file \<noteq> [] \<and> open_archive ws open_fault wal_file fs = Inl (WalNotFound wal_file))"
proof (cases "peer_fetch_wal ws open_fault cuts read_fault wal_file fs")
  case (Inr frames)
  then obtain bytes synced where b: "validate_wal_filename wal_file = Inr ()"
    "fs (components (path_join (fw_archive_dir ws) wal_file)) = Some (bytes, synced)" "frames = wal_frames cuts read_fault bytes"
    by (auto simp: peer_fetch_wal_def open_archive_def split: if_splits sum.splits option.splits)
  note f = wal_frames_read [of cuts read_fault bytes, folded b(3)]
  have "\<not> is_ok (read_frames (arrives frames k (Some broken)))"
    by (auto simp: arrives_def read_frames_append split: sum.splits)
  moreover have "case read_frames (map to_wire frames) of Inr b \<Rightarrow> b = bytes | Inl _ \<Rightarrow> read_fault \<noteq> None"
    using f by (auto split: sum.split)
  ultimately show ?thesis using Inr b f by (auto simp: client_fetch_wal_def)
next
  case (Inl s)
  have "open_archive ws open_fault wal_file fs = Inl (WalNotFound n) \<Longrightarrow> n = wal_file" for n
    by (auto simp: open_archive_def validate_wal_filename_def split: if_splits sum.splits option.splits)
  with Inl show ?thesis
    by (auto simp: peer_fetch_wal_def wal_open_status_def wire_status_def client_fetch_wal_def peer_err_def
        split: if_splits sum.splits wal_store_error.splits)
qed

section \<open>Channels\<close>

text \<open>
  A history of the pool: calls that ask for the channel of a node at a time, with the outcome of a dial and
  its length should one be needed; channels found broken; the pool closed. Kept of it: which node got which
  channel, and the age of the channel then.
\<close>

datatype pool_op = PoolClient instant "(string, duration) result" i32 | PoolPoison nat | PoolClose

fun pool_run :: "pool_op list \<Rightarrow> peer_pool \<Rightarrow> (i32 \<times> nat \<times> duration) list \<times> peer_pool" where
  "pool_run [] p = ([], p)"
| "pool_run (PoolClient now dial node # ops) p =
     (case pool_client now (map_sum id (\<lambda>d. now + d) dial) node p of
        (Inl _, p) \<Rightarrow> pool_run ops p
      | (Inr c, p) \<Rightarrow>
          (case pool_run ops p of
             (served, q) \<Rightarrow>
               ((node, c, case pp_channels p node of Some en \<Rightarrow> now - ch_created_at en | None \<Rightarrow> 0) # served, q)))"
| "pool_run (PoolPoison c # ops) p = pool_run ops (pool_poison c p)"
| "pool_run (PoolClose # ops) p = pool_run ops (pool_close p)"

lemma pool_client_cases:
  assumes "pool_client now dial node p = (r, p')"
  obtains (failed) m where "r = Inl m" "p' = p"
  | (cached) en where "pp_channels p node = Some en" "now - ch_created_at en < max_connection_age" "\<not> ch_poisoned en"
      "r = Inr (ch_channel en)" "p' = p"
  | (dialed) t where "dial = Inr t" "r = Inr (pp_next p)" "pp_next p' = Suc (pp_next p)"
      "pp_channels p' = (pp_channels p)(node \<mapsto> \<lparr>ch_channel = pp_next p, ch_created_at = t, ch_poisoned = False\<rparr>)"
proof (cases "\<exists>en. pp_channels p node = Some en \<and> now - ch_created_at en < max_connection_age \<and> \<not> ch_poisoned en")
  case True
  then obtain en where en: "pp_channels p node = Some en" "now - ch_created_at en < max_connection_age" "\<not> ch_poisoned en" by blast
  with assms have "r = Inr (ch_channel en)" "p' = p" by (simp_all add: pool_client_def)
  with en show thesis by (rule cached)
next
  case False
  hence fresh: "pool_client now dial node p = (case dial of
          Inl m \<Rightarrow> (Inl m, p)
        | Inr dialed \<Rightarrow>
            (Inr (pp_next p), p\<lparr>pp_channels := (pp_channels p)(node \<mapsto>
               \<lparr>ch_channel = pp_next p, ch_created_at = dialed, ch_poisoned = False\<rparr>), pp_next := Suc (pp_next p)\<rparr>))"
    by (auto simp: pool_client_def Let_def split: option.split)
  show thesis
  proof (cases dial)
    case (Inl m)
    with fresh assms show thesis by (intro failed) auto
  next
    case (Inr t)
    with fresh assms show thesis by (intro dialed [of t]) auto
  qed
qed

text \<open>A broken channel: one that was dialed and that no entry offers unpoisoned.\<close>

definition broken :: "nat \<Rightarrow> peer_pool \<Rightarrow> bool" where
  "broken c p \<longleftrightarrow> c < pp_next p \<and> (\<forall>node en. pp_channels p node = Some en \<and> ch_channel en = c \<longrightarrow> ch_poisoned en)"

lemma poison_channels:
  assumes "pp_channels (pool_poison k p) node = Some en"
  obtains en' where "pp_channels p node = Some en'" "ch_channel en = ch_channel en'" "ch_poisoned en \<longleftrightarrow> ch_channel en' = k \<or> ch_poisoned en'"
  using assms by (cases "pp_channels p node") (auto simp: pool_poison_def split: if_splits)

lemma poison_next [simp]: "pp_next (pool_poison k p) = pp_next p"
  by (simp add: pool_poison_def)

lemma broken_poison: "c < pp_next p \<Longrightarrow> broken c (pool_poison c p)"
  by (auto simp: broken_def elim!: poison_channels)

lemma broken_kept:
  "broken c p \<Longrightarrow> broken c (pool_poison k p)"
  "broken c p \<Longrightarrow> broken c (pool_close p)"
  by (auto simp: broken_def elim!: poison_channels) (simp add: pool_close_def)+

lemma broken_not_offered:
  assumes "pool_client now dial node p = (r, p')" and "broken c p"
  shows "broken c p' \<and> r \<noteq> Inr c"
  using assms
proof (cases rule: pool_client_cases)
  case (dialed t)
  with assms(2) show ?thesis by (auto simp: broken_def less_Suc_eq)
qed (auto simp: broken_def)

lemma broken_never_served:
  "pool_run ops p = (served, q) \<Longrightarrow> broken c p \<Longrightarrow> (i, c, a) \<notin> set served"
proof (induction ops p arbitrary: served q rule: pool_run.induct)
  case (2 now dial node ops p)
  then show ?case by (auto split: prod.splits sum.splits dest: broken_not_offered)
qed (auto intro: broken_kept)

text \<open>The node each channel was dialed for.\<close>

definition pool_owned :: "(nat \<Rightarrow> i32) \<Rightarrow> peer_pool \<Rightarrow> bool" where
  "pool_owned own p \<longleftrightarrow> (\<forall>node en. pp_channels p node = Some en \<longrightarrow> ch_channel en < pp_next p \<and> own (ch_channel en) = node)"

definition pool_served_well :: "(nat \<Rightarrow> i32) \<Rightarrow> (i32 \<times> nat \<times> duration) list \<Rightarrow> peer_pool \<Rightarrow> bool" where
  "pool_served_well own served q \<longleftrightarrow> pool_owned own q \<and>
     (\<forall>(i, c, a) \<in> set served. own c = i \<and> a < max_connection_age \<and> c < pp_next q)"

lemma pool_run_owned:
  "pool_run ops p = (served, q) \<Longrightarrow> pool_owned own p \<Longrightarrow>
     \<exists>own'. (\<forall>c < pp_next p. own' c = own c) \<and> pp_next p \<le> pp_next q \<and> pool_served_well own' served q"
proof (induction ops p arbitrary: served q own rule: pool_run.induct)
  case (1 p)
  thus ?case by (auto simp: pool_served_well_def)
next
  case (2 now dial node ops p)
  obtain r p' where c: "pool_client now (map_sum id (\<lambda>d. now + d) dial) node p = (r, p')" by fastforce
  thus ?case
  proof (cases rule: pool_client_cases)
    case (failed m)
    with 2(1) [OF c [symmetric] failed(1)] 2(3,4) c show ?thesis by simp
  next
    case (cached en)
    with 2(3) c obtain served' where run: "pool_run ops p = (served', q)"
      and s: "served = (node, ch_channel en, now - ch_created_at en) # served'"
      by (auto split: prod.splits)
    with 2(2) [OF c [symmetric] cached(4)] cached(5) 2(4) obtain own' where o: "\<forall>c < pp_next p. own' c = own c"
      "pp_next p \<le> pp_next q" "pool_served_well own' served' q" by metis
    from 2(4) cached(1) have "ch_channel en < pp_next p" "own (ch_channel en) = node" by (auto simp: pool_owned_def)
    with o cached(2) have "pool_served_well own' served q" by (auto simp: s pool_served_well_def)
    with o show ?thesis by blast
  next
    case (dialed t)
    with 2(3) c obtain served' where run: "pool_run ops p' = (served', q)"
      and s: "served = (node, pp_next p, now - t) # served'"
      by (auto split: prod.splits)
    have "pool_owned (own(pp_next p := node)) p'"
      using 2(4) dialed(3,4) by (fastforce simp: pool_owned_def)
    with 2(2) [OF c [symmetric] dialed(2)] run obtain own' where o: "\<forall>c < pp_next p'. own' c = (own(pp_next p := node)) c"
      "pp_next p' \<le> pp_next q" "pool_served_well own' served' q" by blast
    from dialed(1) have "now - t < max_connection_age" by (cases dial) (auto simp: max_connection_age_def secs_def)
    with o dialed(3) have "pool_served_well own' served q" by (auto simp: s pool_served_well_def)
    with o dialed(3) show ?thesis by (intro exI [of _ own']) auto
  qed
next
  case (3 c ops p)
  from 3(3) have "pool_owned own (pool_poison c p)" by (auto simp: pool_owned_def pool_poison_def)
  with 3(1) [of served q own] 3(2) show ?case by (simp add: pool_poison_def)
next
  case (4 ops p)
  have "pool_owned own (pool_close p)" by (auto simp: pool_owned_def pool_close_def)
  with 4(1) [of served q own] 4(2) show ?case by (simp add: pool_close_def)
qed

text \<open>
  (C15) The pool of channels never serves a channel known to be broken. In every history of calls, failures
  and closings: a channel once poisoned by an error of the transport is not handed out again; no channel
  is handed out at twelve hours of age or more; and a channel handed out for a node was dialed for it, so
  that no two nodes ever share one.
\<close>

theorem poisoned_channel_never_served:
  assumes "pool_run ops pool_new = (served, p)" and "c < pp_next p"
    and "pool_run ops' (pool_poison c p) = (served', q)"
  shows "(\<forall>i a. (i, c, a) \<notin> set served') \<and>
    (\<forall>i k a. (i, k, a) \<in> set (served @ served') \<longrightarrow> a < max_connection_age \<and>
       (\<forall>j b. (j, k, b) \<in> set (served @ served') \<longrightarrow> i = j))"
proof -
  have new: "pool_owned (\<lambda>_. 0) pool_new" by (simp add: pool_owned_def pool_new_def)
  from pool_run_owned [OF assms(1) new] obtain own where o: "pool_served_well own served p" by blast
  hence "pool_owned own (pool_poison c p)" by (auto simp: pool_served_well_def pool_owned_def pool_poison_def)
  from pool_run_owned [OF assms(3) this] obtain own' where o': "\<forall>k < pp_next p. own' k = own k" "pool_served_well own' served' q"
    by (auto simp: pool_poison_def)
  have "own' k = i \<and> a < max_connection_age" if "(i, k, a) \<in> set (served @ served')" for i k a
    using that o o' by (fastforce simp: pool_served_well_def)
  moreover have "(i, c, a) \<notin> set served'" for i a
    by (rule broken_never_served [OF assms(3) broken_poison [OF assms(2)]])
  ultimately show ?thesis by blast
qed

theorem poisoned_channel_never_served_witness:
  "pool_run [PoolClient 5 (Inr 1) 2] pool_new = ([(2, 0, 0)], snd (pool_run [PoolClient 5 (Inr 1) 2] pool_new)) \<and>
   (\<forall>i a. (i, 0, a) \<notin> set (fst (pool_run [PoolClient 9 (Inr 1) 2, PoolClient 11 (Inr 1) 2]
      (pool_poison 0 (snd (pool_run [PoolClient 5 (Inr 1) 2] pool_new))))))"
proof -
  have run: "pool_run [PoolClient 5 (Inr 1) 2] pool_new = ([(2, 0, 0)], snd (pool_run [PoolClient 5 (Inr 1) 2] pool_new))"
    "0 < pp_next (snd (pool_run [PoolClient 5 (Inr 1) 2] pool_new))"
    by (simp_all add: pool_client_def pool_new_def)
  from poisoned_channel_never_served [OF run surjective_pairing, of "[PoolClient 9 (Inr 1) 2, PoolClient 11 (Inr 1) 2]"] run(1)
  show ?thesis by blast
qed

end
