(* ===== verification/Preflight.thy ===== *)
theory Preflight
  imports Config WalStore StandbyExec HookClient
begin

text \<open>
  The checks of the local host, \<open>crates/pg-agent-core/src/preflight.rs\<close>: TLS material, identity, recovery
  tools, the include of the recovery configuration, the restart policy of the unit, the prerequisites of
  Raft, and the settings, extension and roles of the database. The file system, \<open>systemctl\<close> and the
  database are answers. A path is its components, as in \<open>WalStore\<close>, and is shown as their text.
\<close>

section \<open>Reports\<close>

datatype check_status = CsOk | CsWarn | CsErr

definition status_tag :: "check_status \<Rightarrow> string" where
  "status_tag s = (case s of CsOk \<Rightarrow> ''OK  '' | CsWarn \<Rightarrow> ''WARN'' | CsErr \<Rightarrow> ''ERR '')"

record check =
  ck_name :: string
  ck_status :: check_status
  ck_detail :: string

definition check_ok :: "string \<Rightarrow> string \<Rightarrow> check" where
  "check_ok n d = \<lparr>ck_name = n, ck_status = CsOk, ck_detail = d\<rparr>"

definition check_warn :: "string \<Rightarrow> string \<Rightarrow> check" where
  "check_warn n d = \<lparr>ck_name = n, ck_status = CsWarn, ck_detail = d\<rparr>"

definition check_err :: "string \<Rightarrow> string \<Rightarrow> check" where
  "check_err n d = \<lparr>ck_name = n, ck_status = CsErr, ck_detail = d\<rparr>"

definition has_errors :: "check list \<Rightarrow> bool" where
  "has_errors r = list_ex (\<lambda>c. ck_status c = CsErr) r"

abbreviation em_dash :: string where "em_dash \<equiv> [CHR 0xE2, CHR 0x80, CHR 0x94]"
abbreviation at_least :: string where "at_least \<equiv> [CHR 0xE2, CHR 0x89, CHR 0xA5]"

definition count_status :: "check_status \<Rightarrow> check list \<Rightarrow> nat" where
  "count_status s r = length (filter (\<lambda>c. ck_status c = s) r)"

text \<open>The lines \<open>print\<close> writes.\<close>

definition print_report :: "check list \<Rightarrow> string list" where
  "print_report r =
     (let width = fold (\<lambda>c n. max (length (ck_name c)) n) r 0;
          errs = count_status CsErr r; warns = count_status CsWarn r
      in map (\<lambda>c. status_tag (ck_status c) @ ''  '' @ ck_name c @ replicate (width - length (ck_name c)) CHR '' '' @
               (if ck_detail c = [] then [] else ''  '' @ ck_detail c)) r @
         [[],
          if errs = 0 \<and> warns = 0 then ''validate-env: all checks passed''
          else if errs = 0 then ''validate-env: '' @ show_nat warns @ '' warning(s) '' @ em_dash @ '' OK with warnings''
          else ''validate-env: '' @ show_nat errs @ '' error(s), '' @ show_nat warns @ '' warning(s) '' @ em_dash @ '' FAIL''])"

text \<open>The document of \<open>to_json\<close>: its rows and its verdict.\<close>

definition report_json :: "check list \<Rightarrow> (string \<times> string \<times> string) list \<times> bool" where
  "report_json r = (map (\<lambda>c. (ck_name c, trim (status_tag (ck_status c)), ck_detail c)) r, has_errors r)"

section \<open>The host\<close>

datatype read_answer = ReadText string | ReadMissing | ReadError string

text \<open>
  Modes of files, their text, which are plain files, the names in a directory, \<open>canonicalize\<close>,
  \<open>create_dir_all\<close>, and the run of \<open>systemctl show\<close>: whether it succeeded, its status and its two outputs.
\<close>

record pf_world =
  pf_mode :: "string \<Rightarrow> (string, 32 word) result"
  pf_read :: "wpath \<Rightarrow> read_answer"
  pf_is_file :: "wpath \<Rightarrow> bool"
  pf_list :: "wpath \<Rightarrow> string list option"
  pf_canon :: "wpath \<Rightarrow> wpath option"
  pf_mkdir :: "string \<Rightarrow> string option"
  pf_systemctl :: "string \<Rightarrow> (string, bool \<times> string \<times> string \<times> string) result"

record pf_db =
  pd_setting :: "string \<Rightarrow> (string, string) result"
  pd_extension :: "(string, bool) result"
  pd_role :: "string \<Rightarrow> (string, bool) result"

unbundle bit_operations_syntax

definition show_octal :: "32 word \<Rightarrow> string" where
  "show_octal m = show_radix 8 (unat m)"

definition check_readable :: "pf_world \<Rightarrow> string \<Rightarrow> string \<Rightarrow> check" where
  "check_readable w name path =
     (case pf_mode w path of Inr _ \<Rightarrow> check_ok name path | Inl e \<Rightarrow> check_err name (path @ '': '' @ e))"

definition check_executable :: "pf_world \<Rightarrow> string \<Rightarrow> string \<Rightarrow> check" where
  "check_executable w name path =
     (case pf_mode w path of
        Inr mode \<Rightarrow>
          if mode AND 0x49 = 0 then check_err name (path @ '' not executable (mode '' @ show_octal (mode AND 0x1FF) @ '')'')
          else check_ok name path
      | Inl e \<Rightarrow> check_err name (path @ '': '' @ e))"

definition check_mode_at_most :: "pf_world \<Rightarrow> string \<Rightarrow> string \<Rightarrow> 32 word \<Rightarrow> check" where
  "check_mode_at_most w name path m =
     (case pf_mode w path of
        Inr full \<Rightarrow>
          let mode = full AND 0x1FF in
          if mode AND NOT m \<noteq> 0 then check_err name (''mode '' @ show_octal mode @ '' exceeds '' @ show_octal m)
          else check_ok name (''mode '' @ show_octal mode)
      | Inl e \<Rightarrow> check_err name (path @ '': '' @ e))"

section \<open>Files\<close>

definition fs_tls_material :: "pf_world \<Rightarrow> config \<Rightarrow> check list" where
  "fs_tls_material w cfg =
     (case (tls_ca_cert (c_tls cfg), tls_cert (c_tls cfg), tls_key (c_tls cfg)) of
        (Some ca, Some cert, Some key) \<Rightarrow>
          [check_readable w ''tls material: ca_cert'' ca, check_readable w ''tls material: cert'' cert,
           check_readable w ''tls material: key'' key, check_mode_at_most w ''tls material: key mode'' key 0x180]
      | _ \<Rightarrow> [check_warn ''tls material'' ''no [tls] block configured (single-node / --dev only)''])"

definition fs_pgpool_node_id :: "pf_world \<Rightarrow> config \<Rightarrow> check" where
  "fs_pgpool_node_id w cfg =
     (let path = (case find (\<lambda>p. is_ok (pf_mode w p)) default_pgpool_node_id_files of
            Some p \<Rightarrow> p | None \<Rightarrow> hd default_pgpool_node_id_files);
          name = ''pgpool_node_id: '' @ path
      in case pf_read w (components path) of
           ReadText raw \<Rightarrow>
             (case parse_i32 (trim raw) of
                Some i \<Rightarrow>
                  if i = c_local_node_id cfg then check_ok name (''matches resolved local_node_id='' @ show_int i)
                  else check_err name (''file says '' @ show_int i @ '', config resolved '' @ show_int (c_local_node_id cfg))
              | None \<Rightarrow> check_err name (''parse: '' @ parse_int_error (trim raw)))
         | ReadMissing \<Rightarrow> check_warn name ''file absent (relying on explicit node_id / node_id_file / hostname)''
         | ReadError e \<Rightarrow> check_err name (''read: '' @ e))"

definition home_file :: "pf_world \<Rightarrow> string \<Rightarrow> string \<Rightarrow> check list" where
  "home_file w dotpg f =
     (let path = path_join dotpg f in
      if is_ok (pf_mode w path) then
        check_ok f path # (if f = ''postgresql.key'' then [check_mode_at_most w ''postgresql.key mode'' path 0x180] else [])
      else [check_warn f (path @ '' absent (replication uses libpq defaults; required for cert-auth)'')])"

definition fs_postgres_home_defaults :: "pf_world \<Rightarrow> config \<Rightarrow> check list" where
  "fs_postgres_home_defaults w cfg =
     (case pg_user_home (c_postgres cfg) of
        None \<Rightarrow> [check_warn ''postgres user_home'' ''unset; skipping .pcppass / .postgresql checks'']
      | Some home \<Rightarrow>
          let pcppass = path_join home ''.pcppass''; dotpg = path_join home ''.postgresql'' in
          (if is_ok (pf_mode w pcppass) then check_mode_at_most w ''.pcppass mode'' pcppass 0x180
           else check_warn ''.pcppass'' (pcppass @ '' absent (pcp_attach_node will prompt)'')) #
          concat (map (home_file w dotpg) [''postgresql.crt'', ''postgresql.key'', ''root.crt'']))"

definition fs_recovery_tools :: "pf_world \<Rightarrow> config \<Rightarrow> check list" where
  "fs_recovery_tools w cfg =
     (case pg_install_prefix (c_postgres cfg) of
        None \<Rightarrow> [check_err ''pg_install_prefix'' ''unset; can't locate pg_basebackup / pg_rewind'']
      | Some pre \<Rightarrow>
          map (\<lambda>tool. check_executable w (''recovery tool: '' @ tool) (path_join (path_join pre ''bin'') tool))
            [''pg_basebackup'', ''pg_rewind''])"

section \<open>The include of the recovery configuration\<close>

text \<open>The text before the first \<open>#\<close> outside quotes.\<close>

fun strip_comment_from :: "bool \<Rightarrow> string \<Rightarrow> string" where
  "strip_comment_from in_quote [] = []"
| "strip_comment_from in_quote (c # s) =
     (if c = CHR 0x27 then c # strip_comment_from (\<not> in_quote) s
      else if c = CHR ''#'' \<and> \<not> in_quote then []
      else c # strip_comment_from in_quote s)"

definition strip_comment :: "string \<Rightarrow> string" where
  "strip_comment line = strip_comment_from False line"

definition is_word_char :: "char \<Rightarrow> bool" where
  "is_word_char c = (is_alnum c \<or> c = CHR ''_'')"

definition ascii_lower :: "char \<Rightarrow> char" where
  "ascii_lower c = (let n = (of_char c :: nat) in if 65 \<le> n \<and> n \<le> 90 then char_of (n + 32) else c)"

definition parse_include_directive :: "string \<Rightarrow> (string \<times> string) option" where
  "parse_include_directive raw =
     (let line = trim (strip_comment raw);
          key = map ascii_lower (takeWhile is_word_char line);
          rest = dropWhile is_word_char line
      in if rest = [] then None
         else if key \<notin> {''include'', ''include_if_exists'', ''include_dir''} then None
         else
           let rest = trim_start rest;
               rest = trim_start (case rest of c # r \<Rightarrow> if c = CHR ''='' then r else rest | [] \<Rightarrow> []);
               val = (case rest of
                   c # r \<Rightarrow> if c = CHR 0x27 then map_option fst (split_once CHR 0x27 r)
                     else (case split_whitespace rest of v # _ \<Rightarrow> Some v | [] \<Rightarrow> None)
                 | [] \<Rightarrow> None)
           in case val of None \<Rightarrow> None | Some v \<Rightarrow> if v = [] then None else Some (key, v))"

definition show_path :: "wpath \<Rightarrow> string" where
  "show_path p = (if fst p then ''/'' else []) @ join ''/'' (snd p)"

definition recovery_conf_file :: string where
  "recovery_conf_file = ''myrecovery.conf''"

definition include_scan_max_files :: nat where
  "include_scan_max_files = 128"

definition norm_target :: "pf_world \<Rightarrow> wpath \<Rightarrow> wpath" where
  "norm_target w p =
     (let par = (case parent p of Some q \<Rightarrow> q | None \<Rightarrow> (True, []));
          par = (case pf_canon w par of Some q \<Rightarrow> q | None \<Rightarrow> par)
      in case file_name p of Some n \<Rightarrow> child par n | None \<Rightarrow> par)"

definition same_target :: "pf_world \<Rightarrow> wpath \<Rightarrow> wpath \<Rightarrow> bool" where
  "same_target w a b = (a = b \<or> norm_target w a = norm_target w b)"

datatype include_hit =
    HitOptional wpath
  | HitRequired wpath
  | HitElsewhere wpath string wpath

fun hit_rank :: "include_hit \<Rightarrow> nat" where
  "hit_rank (HitOptional _) = 3"
| "hit_rank (HitRequired _) = 2"
| "hit_rank (HitElsewhere _ _ _) = 1"

definition better :: "include_hit \<Rightarrow> include_hit option \<Rightarrow> include_hit option" where
  "better h best = (case best of None \<Rightarrow> Some h | Some b \<Rightarrow> if hit_rank b < hit_rank h then Some h else best)"

definition is_conf_name :: "string \<Rightarrow> bool" where
  "is_conf_name n = (ends_with n ''.conf'' \<and> n \<noteq> ''.conf'')"

definition include_target :: "wpath \<Rightarrow> string \<Rightarrow> wpath" where
  "include_target file val =
     components (path_join (show_path (case parent file of Some d \<Rightarrow> d | None \<Rightarrow> (False, [''.'']))) val)"

text \<open>One line of a file: what it adds to the best hit and to the stack of files to read, its top first.\<close>

definition scan_line ::
  "pf_world \<Rightarrow> wpath \<Rightarrow> wpath \<Rightarrow> string \<Rightarrow> include_hit option \<times> wpath list \<Rightarrow> include_hit option \<times> wpath list" where
  "scan_line w want file line acc =
     (case acc of (best, stack) \<Rightarrow>
      (case parse_include_directive line of
         None \<Rightarrow> (best, stack)
       | Some (key, val) \<Rightarrow>
           let target = include_target file val
           in if key = ''include_dir'' then
                (case pf_list w target of
                   None \<Rightarrow> (best, stack)
                 | Some names \<Rightarrow> (best, rev (map (child target) (sort (filter is_conf_name names))) @ stack))
              else if file_name target = Some recovery_conf_file then
                (better (if same_target w target want then
                           (if key = ''include_if_exists'' then HitOptional file else HitRequired file)
                         else HitElsewhere file val target) best, stack)
              else (best, target # stack)))"

definition scan_file ::
  "pf_world \<Rightarrow> wpath \<Rightarrow> wpath \<Rightarrow> include_hit option \<times> wpath list \<Rightarrow> include_hit option \<times> wpath list" where
  "scan_file w want file acc =
     (case pf_read w file of ReadText content \<Rightarrow> fold (scan_line w want file) (lines content) acc | _ \<Rightarrow> acc)"

function scan_loop ::
  "pf_world \<Rightarrow> wpath \<Rightarrow> include_hit option \<Rightarrow> wpath list \<Rightarrow> wpath list \<Rightarrow> nat \<Rightarrow> include_hit option" where
  "scan_loop w want best [] seen budget = best"
| "scan_loop w want best (file # stack) seen budget =
     (if file \<in> set seen then scan_loop w want best stack seen budget
      else if budget = 0 then best
      else case scan_file w want file (best, stack) of
          (best', stack') \<Rightarrow> scan_loop w want best' stack' (file # seen) (budget - 1))"
  by pat_completeness auto
termination
  by (relation "measures [\<lambda>(_, _, _, _, _, budget). budget, \<lambda>(_, _, _, stack, _, _). length stack]") auto

definition scan_for_recovery_include :: "pf_world \<Rightarrow> wpath \<Rightarrow> wpath \<Rightarrow> include_hit option" where
  "scan_for_recovery_include w root want = scan_loop w want None [root] [] include_scan_max_files"

definition config_file_candidates :: "wpath \<Rightarrow> wpath list" where
  "config_file_candidates data_dir =
     child data_dir ''postgresql.conf'' #
     (case (file_name data_dir, Option.bind (parent data_dir) file_name) of
        (Some cluster, Some ver) \<Rightarrow> [(True, [''etc'', ''postgresql'', ver, cluster, ''postgresql.conf''])]
      | _ \<Rightarrow> [])"

text \<open>A setting of the running server that is there and not blank.\<close>

definition server_path :: "pf_db option \<Rightarrow> string \<Rightarrow> string option" where
  "server_path db name =
     (case db of
        None \<Rightarrow> None
      | Some d \<Rightarrow> (case pd_setting d name of Inr v \<Rightarrow> if trim v = [] then None else Some (trim v) | Inl _ \<Rightarrow> None))"

definition include_name :: string where
  "include_name = ''recovery conf include''"

definition include_verdict :: "pf_world \<Rightarrow> wpath \<Rightarrow> wpath \<Rightarrow> check" where
  "include_verdict w config_file want =
     (case scan_for_recovery_include w config_file want of
        Some (HitOptional f) \<Rightarrow> check_ok include_name (show_path f @ '' includes '' @ show_path want)
      | Some (HitRequired f) \<Rightarrow> check_warn include_name (show_path f @ '' includes '' @ show_path want @
          '' with `include` rather than `include_if_exists` '' @ em_dash @ '' PostgreSQL refuses to start whenever '' @
          ''that file is absent, which is a primary's normal state'')
      | Some (HitElsewhere f raw resolved) \<Rightarrow> check_err include_name (show_path f @ '' includes '' @ [CHR 0x27] @ raw @ [CHR 0x27] @
          '', which resolves to '' @ show_path resolved @ '' '' @ em_dash @ '' but the agent writes '' @ show_path want @
          ''. A relative include resolves against the directory of the file that references it, not the data directory; spell it absolutely'')
      | None \<Rightarrow> check_err include_name (''no include in '' @ show_path config_file @ '' names '' @ show_path want @ '' '' @ em_dash @
          '' a standby configured on this node would start with no primary_conninfo and silently never stream. Add `include_if_exists = '' @
          [CHR 0x27] @ show_path want @ [CHR 0x27] @ ''`''))"

definition fs_recovery_conf_include :: "pf_world \<Rightarrow> config \<Rightarrow> pf_db option \<Rightarrow> check" where
  "fs_recovery_conf_include w cfg db =
     (case (case server_path db ''data_directory'' of Some p \<Rightarrow> Some p | None \<Rightarrow> pg_data_dir (c_postgres cfg)) of
        None \<Rightarrow> check_warn include_name (''postgres.data_dir unset; cannot locate '' @ recovery_conf_file)
      | Some dir \<Rightarrow>
          let want = components (path_join dir recovery_conf_file) in
          (case server_path db ''config_file'' of
             Some p \<Rightarrow> include_verdict w (components p) want
           | None \<Rightarrow>
               let candidates = config_file_candidates (components dir) in
               (case find (pf_is_file w) candidates of
                  Some p \<Rightarrow> include_verdict w p want
                | None \<Rightarrow> check_warn include_name (''could not locate postgresql.conf (tried '' @ join '', '' (map show_path candidates) @
                    ''); cannot confirm '' @ show_path want @ '' is included''))))"

section \<open>The database\<close>

datatype setting_ord = OrdEqual string | OrdAtLeast "string list"

definition setting_check :: "pf_db \<Rightarrow> string \<times> string \<times> setting_ord \<Rightarrow> check" where
  "setting_check db row =
     (case row of (name, want, ord) \<Rightarrow>
      let title = ''setting: '' @ name in
      (case pd_setting db name of
         Inl e \<Rightarrow> check_err title (''query failed: '' @ e)
       | Inr got \<Rightarrow>
           (case ord of
              OrdEqual target \<Rightarrow>
                if got = target then check_ok title got
                else check_err title (''got '' @ debug_str got @ '', want '' @ debug_str want)
            | OrdAtLeast allowed \<Rightarrow>
                if got \<in> set allowed then check_ok title got
                else check_err title (''got '' @ debug_str got @ '', want one of ['' @ join '', '' (map debug_str allowed) @ '']''))))"

definition parse_size_mb :: "string \<Rightarrow> int option" where
  "parse_size_mb raw =
     (let s = trim raw;
          is_digit = (\<lambda>c. 48 \<le> (of_char c :: nat) \<and> (of_char c :: nat) \<le> 57);
          unit = trim (dropWhile is_digit s)
      in case parse_i64 (takeWhile is_digit s) of
           None \<Rightarrow> None
         | Some n \<Rightarrow>
             if unit = [] \<or> unit = ''MB'' then Some n
             else if unit = ''B'' then Some (n div (1024 * 1024))
             else if unit = ''kB'' then Some (n div 1024)
             else if unit = ''GB'' then Some (wrap_i64 (n * 1024))
             else if unit = ''TB'' then Some (wrap_i64 (wrap_i64 (n * 1024) * 1024))
             else None)"

definition wal_keep_size_floor_mb :: int where
  "wal_keep_size_floor_mb = 512"

definition wal_keep_check :: "pf_db \<Rightarrow> check" where
  "wal_keep_check db =
     (case pd_setting db ''wal_keep_size'' of
        Inl e \<Rightarrow> check_warn ''setting: wal_keep_size'' (''query failed: '' @ e)
      | Inr got \<Rightarrow>
          let mb = unwrap_or (parse_size_mb got) 0;
              shown = show_int mb @ ''MB (want '' @ at_least @ show_int wal_keep_size_floor_mb @ ''MB)''
          in if wal_keep_size_floor_mb \<le> mb then check_ok ''setting: wal_keep_size'' shown
             else check_warn ''setting: wal_keep_size'' (shown @ '' '' @ em_dash @ '' a standby whose replay trails through a failover can '' @
               ''lose its WAL window to the new primary's first checkpoint and need a full reclone (finding 22)''))"

definition slots_check :: "pf_db \<Rightarrow> nat \<Rightarrow> string \<Rightarrow> check" where
  "slots_check db pool_size name =
     (let want = max (int pool_size + 2) 3; title = ''setting: '' @ name;
          shown = (\<lambda>n. show_int n @ '' (pool='' @ show_nat pool_size @ '', want '' @ at_least @ show_int want @ '')'')
      in case pd_setting db name of
           Inl e \<Rightarrow> check_err title (''query failed: '' @ e)
         | Inr got \<Rightarrow>
             (case parse_i32 got of
                None \<Rightarrow> check_err title (''parse '' @ debug_str got @ '': '' @ parse_int_error got)
              | Some n \<Rightarrow> if want \<le> n then check_ok title (shown n) else check_err title (shown n)))"

definition db_settings :: "pf_db \<Rightarrow> config \<Rightarrow> check list" where
  "db_settings db cfg =
     map (setting_check db) [(''wal_level'', ''replica'', OrdAtLeast [''replica'', ''logical'']), (''hot_standby'', ''on'', OrdEqual ''on'')] @
     [wal_keep_check db] @
     map (slots_check db (length (c_pool cfg))) [''max_replication_slots'', ''max_wal_senders'']"

definition db_extension :: "pf_db \<Rightarrow> check" where
  "db_extension db =
     (case pd_extension db of
        Inr True \<Rightarrow> check_ok ''extension: pgpool_recovery'' ''installed''
      | Inr False \<Rightarrow> check_err ''extension: pgpool_recovery''
          (''missing '' @ em_dash @ '' CREATE EXTENSION pgpool_recovery (recovery_1st_stage needs it)'')
      | Inl e \<Rightarrow> check_err ''extension: pgpool_recovery'' (''query failed: '' @ e))"

definition role_check :: "pf_db \<Rightarrow> string \<Rightarrow> check" where
  "role_check db role =
     (case pd_role db role of
        Inr True \<Rightarrow> check_ok (''role: '' @ role) ''exists''
      | Inr False \<Rightarrow> check_err (''role: '' @ role)
          (if role = ''pgpool'' then ''missing '' @ em_dash @ '' needed for PCP + health-check user''
           else ''missing '' @ em_dash @ '' needed for replication (ClusterInit creates it)'')
      | Inl e \<Rightarrow> check_err (''role: '' @ role) (''query failed: '' @ e))"

definition db_roles :: "pf_db \<Rightarrow> config \<Rightarrow> check list" where
  "db_roles db cfg = map (role_check db) [unwrap_or (pg_repl_user (c_postgres cfg)) ''repl'', ''pgpool'']"

section \<open>The unit and Raft\<close>

definition restart_name :: string where
  "restart_name = ''postgres unit: restart policy''"

definition restart_dropin :: string where
  "restart_dropin = ''10-agent-managed.conf''"

text \<open>The last value given for a property.\<close>

definition property_of :: "string \<Rightarrow> string \<Rightarrow> string option" where
  "property_of key out =
     fold (\<lambda>line v. case split_once CHR ''='' line of Some (k, x) \<Rightarrow> if k = key then Some (trim x) else v | None \<Rightarrow> v) (lines out) None"

definition restart_policy_verdict :: "string \<Rightarrow> string \<Rightarrow> check" where
  "restart_policy_verdict unit out =
     (case property_of ''LoadState'' out of
        None \<Rightarrow> check_warn restart_name (''systemctl said nothing about '' @ unit)
      | Some st \<Rightarrow>
          if st \<noteq> ''loaded'' then
            check_warn restart_name (unit @ '' is '' @ st @ '', not loaded '' @ em_dash @ '' cannot assess its restart policy '' @
              ''(and the agent will not be able to manage it either)'')
          else (case property_of ''Restart'' out of
              None \<Rightarrow> check_warn restart_name (''systemctl reported no Restart= for '' @ unit)
            | Some policy \<Rightarrow>
                if policy = ''no'' then check_ok restart_name (unit @ '': Restart=no'')
                else check_err restart_name (unit @ '': Restart='' @ policy @ '' '' @ em_dash @
                  '' systemd will restart a postmaster that dies badly, with no agent involvement, on a node the lease may have already '' @
                  ''moved past. Fix: printf '' @ [CHR 0x27] @ ''[Service]'' @ [CHR 0x5C] @ ''nRestart=no'' @ [CHR 0x5C] @ ''n'' @ [CHR 0x27] @
                  '' > /etc/systemd/system/'' @ unit @ ''.d/'' @ restart_dropin @ '' (mkdir -p first), then systemctl daemon-reload'')))"

definition unit_restart_policy :: "pf_world \<Rightarrow> config \<Rightarrow> check" where
  "unit_restart_policy w cfg =
     (case pg_service (c_postgres cfg) of
        None \<Rightarrow> check_warn restart_name (''no [postgres] service configured '' @ em_dash @ '' cannot ask systemd about it'')
      | Some unit \<Rightarrow>
          (case pf_systemctl w unit of
             Inl e \<Rightarrow> check_warn restart_name (''could not run systemctl: '' @ e)
           | Inr (success, st, out, err) \<Rightarrow>
               if success then restart_policy_verdict unit out
               else check_warn restart_name (''systemctl show '' @ unit @ '' exited '' @ st @ '': '' @ trim err)))"

definition shape_check :: "config \<Rightarrow> string \<Rightarrow> string \<Rightarrow> check" where
  "shape_check cfg name detail = (if c_dev_mode cfg then check_warn name detail else check_err name detail)"

definition raft_prerequisites :: "pf_world \<Rightarrow> config \<Rightarrow> check list" where
  "raft_prerequisites w cfg =
     (case obsolete_enabled_warning (c_raft cfg) of Some msg \<Rightarrow> [check_warn ''raft: obsolete config key'' msg] | None \<Rightarrow> []) @
     [if length (c_pool cfg) < 3 then
        shape_check cfg ''raft: pool size'' (show_nat (length (c_pool cfg)) @ '' node(s); Raft needs at least 3 '' @ em_dash @
          '' a 2-node Raft cluster tolerates zero failures, and the survivor demotes itself rather than serving without quorum'')
      else check_ok ''raft: pool size'' (show_nat (length (c_pool cfg)) @ '' nodes''),
      if 0 \<le> np_local_node_id (to_node_pool cfg) then
        check_ok ''raft: local node id'' (''node '' @ show_int (np_local_node_id (to_node_pool cfg)))
      else check_err ''raft: local node id'' (''unresolved '' @ em_dash @
        '' local hostname matches no [[pool]] entry, so this node cannot know which Raft member it is''),
      if tls_is_configured (c_tls cfg) then check_ok ''raft: transport auth'' ''mTLS (peer listener)''
      else shape_check cfg ''raft: transport auth'' (''no TLS configured '' @ em_dash @ '' the consensus plane shares the peer listener, '' @
        ''so this would expose lease takeover to anyone who can reach the port''),
      case c_state_dir cfg of
        Some dir \<Rightarrow>
          (case pf_mkdir w (path_join dir ''raft'') of
             None \<Rightarrow> check_ok ''raft: state dir'' (path_join dir ''raft'')
           | Some e \<Rightarrow> check_err ''raft: state dir'' (path_join dir ''raft'' @ '': '' @ e))
      | None \<Rightarrow> check_err ''raft: state dir''
          (''state_dir is unset '' @ em_dash @ '' Raft needs somewhere durable for its log and vote'')]"

definition preflight :: "pf_world \<Rightarrow> config \<Rightarrow> pf_db option \<Rightarrow> check list" where
  "preflight w cfg db =
     fs_tls_material w cfg @ [fs_pgpool_node_id w cfg] @ fs_postgres_home_defaults w cfg @ fs_recovery_tools w cfg @
     [fs_recovery_conf_include w cfg db, unit_restart_policy w cfg] @ raft_prerequisites w cfg @
     (case db of
        Some d \<Rightarrow> db_settings d cfg @ [db_extension d] @ db_roles d cfg
      | None \<Rightarrow> [check_warn ''db connection''
          (''skipped (no local DB connection '' @ em_dash @ '' pass without --skip-db when PG is up)'')])"

section \<open>The scan is reachability\<close>

text \<open>
  What a file says, apart from any order of reading: the files it includes, and how it names the recovery
  configuration. A file is part of the configuration when includes lead to it.
\<close>

definition line_next :: "pf_world \<Rightarrow> wpath \<Rightarrow> string \<Rightarrow> wpath set" where
  "line_next w f line =
     (case parse_include_directive line of
        None \<Rightarrow> {}
      | Some (key, val) \<Rightarrow>
          if key = ''include_dir'' then
            (case pf_list w (include_target f val) of
               None \<Rightarrow> {} | Some names \<Rightarrow> {child (include_target f val) n | n. n \<in> set names \<and> is_conf_name n})
          else if file_name (include_target f val) = Some recovery_conf_file then {} else {include_target f val})"

definition line_hits :: "pf_world \<Rightarrow> wpath \<Rightarrow> wpath \<Rightarrow> string \<Rightarrow> include_hit set" where
  "line_hits w want f line =
     (case parse_include_directive line of
        None \<Rightarrow> {}
      | Some (key, val) \<Rightarrow>
          if key = ''include_dir'' \<or> file_name (include_target f val) \<noteq> Some recovery_conf_file then {}
          else if \<not> same_target w (include_target f val) want then {HitElsewhere f val (include_target f val)}
          else if key = ''include_if_exists'' then {HitOptional f} else {HitRequired f})"

definition file_lines :: "pf_world \<Rightarrow> wpath \<Rightarrow> string list" where
  "file_lines w f = (case pf_read w f of ReadText content \<Rightarrow> lines content | _ \<Rightarrow> [])"

definition file_next :: "pf_world \<Rightarrow> wpath \<Rightarrow> wpath set" where
  "file_next w f = (\<Union>line \<in> set (file_lines w f). line_next w f line)"

definition file_hits :: "pf_world \<Rightarrow> wpath \<Rightarrow> wpath \<Rightarrow> include_hit set" where
  "file_hits w want f = (\<Union>line \<in> set (file_lines w f). line_hits w want f line)"

inductive included :: "pf_world \<Rightarrow> wpath \<Rightarrow> wpath \<Rightarrow> bool" for w root where
  included_root: "included w root root"
| included_next: "included w root f \<Longrightarrow> g \<in> file_next w f \<Longrightarrow> included w root g"

text \<open>The best of a set of hits.\<close>

definition best_of :: "include_hit option \<Rightarrow> include_hit set \<Rightarrow> bool" where
  "best_of b H = (case b of None \<Rightarrow> H = {} | Some h \<Rightarrow> h \<in> H \<and> (\<forall>h' \<in> H. hit_rank h' \<le> hit_rank h))"

lemma best_of_better: "best_of b H \<Longrightarrow> best_of (better h b) (insert h H)"
  by (auto simp: best_of_def better_def split: option.splits dest: order_trans)

lemma scan_line_step:
  "scan_line w want f line (b, stack) = (b', stack') \<Longrightarrow>
     set stack' = line_next w f line \<union> set stack \<and> (best_of b H \<longrightarrow> best_of b' (H \<union> line_hits w want f line))"
proof (cases "parse_include_directive line")
  case (Some kv)
  assume r: "scan_line w want f line (b, stack) = (b', stack')"
  obtain key val where kv: "kv = (key, val)" by (cases kv)
  show ?thesis
  proof (cases "key = ''include_dir''")
    case True
    with Some kv r show ?thesis
      by (cases "pf_list w (include_target f val)") (auto simp: scan_line_def line_next_def line_hits_def)
  next
    case dir: False
    show ?thesis
    proof (cases "file_name (include_target f val) = Some recovery_conf_file")
      case True
      let ?h = "if same_target w (include_target f val) want then (if key = ''include_if_exists'' then HitOptional f else HitRequired f)
        else HitElsewhere f val (include_target f val)"
      from True dir Some kv r have "stack' = stack" "b' = better ?h b" "line_next w f line = {}" "line_hits w want f line = {?h}"
        by (simp_all add: scan_line_def line_next_def line_hits_def Let_def)
      with best_of_better [of b H ?h] show ?thesis by simp
    next
      case False
      with dir Some kv r show ?thesis by (auto simp: scan_line_def line_next_def line_hits_def Let_def)
    qed
  qed
qed (simp add: scan_line_def line_next_def line_hits_def)

lemma scan_lines_step:
  "fold (scan_line w want f) ls (b, stack) = (b', stack') \<Longrightarrow>
     set stack' = (\<Union>l \<in> set ls. line_next w f l) \<union> set stack \<and>
     (best_of b H \<longrightarrow> best_of b' (H \<union> (\<Union>l \<in> set ls. line_hits w want f l)))"
proof (induction ls arbitrary: b stack H)
  case (Cons l ls)
  obtain b1 stack1 where l: "scan_line w want f l (b, stack) = (b1, stack1)" by fastforce
  from Cons.prems l have "fold (scan_line w want f) ls (b1, stack1) = (b', stack')" by simp
  from Cons.IH [OF this, of "H \<union> line_hits w want f l"] scan_line_step [OF l, of H] show ?case
    by (auto simp: Un_assoc)
qed simp

lemma scan_file_step:
  assumes "scan_file w want f (b, stack) = (b', stack')"
  shows "set stack' = file_next w f \<union> set stack \<and> (best_of b H \<longrightarrow> best_of b' (H \<union> file_hits w want f))"
proof -
  from assms have "fold (scan_line w want f) (file_lines w f) (b, stack) = (b', stack')"
    by (auto simp: scan_file_def file_lines_def split: read_answer.splits)
  from scan_lines_step [OF this] show ?thesis by (simp add: file_next_def file_hits_def)
qed

lemma closed_is_all:
  assumes "root \<in> S" and "\<forall>f \<in> S. file_next w f \<subseteq> S"
  shows "included w root f \<Longrightarrow> f \<in> S"
  by (induction rule: included.induct) (use assms in auto)

text \<open>What the loop has read, and what it still has to read.\<close>

definition scan_state :: "pf_world \<Rightarrow> wpath \<Rightarrow> wpath \<Rightarrow> include_hit option \<Rightarrow> wpath list \<Rightarrow> wpath list \<Rightarrow> bool" where
  "scan_state w root want b stack seen \<longleftrightarrow>
     (\<forall>f \<in> set seen \<union> set stack. included w root f) \<and> root \<in> set seen \<union> set stack \<and>
     (\<forall>f \<in> set seen. file_next w f \<subseteq> set seen \<union> set stack) \<and>
     best_of b (\<Union>f \<in> set seen. file_hits w want f) \<and> distinct seen"

lemma scan_state_skip:
  "scan_state w root want b (f # stack) seen \<Longrightarrow> f \<in> set seen \<Longrightarrow> scan_state w root want b stack seen"
  by (auto simp: scan_state_def)

lemma scan_state_read:
  assumes st: "scan_state w root want b (f # stack) seen" and f: "f \<notin> set seen"
    and sc: "scan_file w want f (b, stack) = (b', stack')"
  shows "scan_state w root want b' stack' (f # seen)"
proof -
  from scan_file_step [OF sc] st have s: "set stack' = file_next w f \<union> set stack"
    "best_of b' ((\<Union>f \<in> set seen. file_hits w want f) \<union> file_hits w want f)"
    by (auto simp: scan_state_def)
  moreover from st have "included w root f" by (simp add: scan_state_def)
  ultimately show ?thesis using st f by (auto simp: scan_state_def Un_commute intro: included_next)
qed

lemma scan_loop_best:
  assumes "scan_state w root want b stack seen" and "length seen + budget = n"
  shows "\<exists>S \<subseteq> {f. included w root f}. best_of (scan_loop w want b stack seen budget) (\<Union>f \<in> S. file_hits w want f) \<and>
    (finite {f. included w root f} \<and> card {f. included w root f} \<le> n \<longrightarrow> S = {f. included w root f})"
  using assms
proof (induction w want b stack seen budget rule: scan_loop.induct)
  case (1 w want b seen budget)
  hence "set seen = {f. included w root f}"
    using closed_is_all [of root "set seen" w] by (auto simp: scan_state_def)
  with 1 show ?case by (intro exI [of _ "set seen"]) (auto simp: scan_state_def)
next
  case (2 w want b f stack seen budget)
  let ?R = "{f. included w root f}"
  consider (seen) "f \<in> set seen" | (spent) "f \<notin> set seen" "budget = 0" | (read) "f \<notin> set seen" "budget \<noteq> 0" by blast
  thus ?case
  proof cases
    case seen
    with 2 show ?thesis by (simp add: scan_state_skip)
  next
    case spent
    from 2(3) have sub: "insert f (set seen) \<subseteq> ?R" and d: "distinct seen" by (auto simp: scan_state_def)
    have "\<not> (finite ?R \<and> card ?R \<le> n)"
    proof
      assume R: "finite ?R \<and> card ?R \<le> n"
      hence "card (insert f (set seen)) \<le> card ?R" using sub by (intro card_mono) auto
      with R d spent 2(4) show False by (simp add: distinct_card)
    qed
    with spent sub 2(3) show ?thesis by (intro exI [of _ "set seen"]) (auto simp: scan_state_def)
  next
    case read
    obtain b' stack' where sc: "scan_file w want f (b, stack) = (b', stack')" by fastforce
    with 2(2) [OF read sc [symmetric]] scan_state_read [OF 2(3) read(1) sc] 2(4) read show ?thesis by simp
  qed
qed

lemma scan_finds_best:
  "\<exists>S \<subseteq> {f. included w root f}. best_of (scan_for_recovery_include w root want) (\<Union>f \<in> S. file_hits w want f) \<and>
    (finite {f. included w root f} \<and> card {f. included w root f} \<le> include_scan_max_files \<longrightarrow> S = {f. included w root f})"
  unfolding scan_for_recovery_include_def
  by (rule scan_loop_best) (auto simp: scan_state_def best_of_def intro: included_root)

text \<open>
  (C17) The scan for the include sees exactly what PostgreSQL would read. Whatever the files include, in
  circles or not, the scan ends; a hit it reports stands in a file that includes lead to from the root; and
  when these are at most 128, it reports the best hit there is in any of them, and none only if none of
  them names the recovery configuration.
\<close>

theorem include_scan_exact:
  assumes "finite {f. included w root f}" and "card {f. included w root f} \<le> include_scan_max_files"
  shows "case scan_for_recovery_include w root want of
      Some h \<Rightarrow> (\<exists>f. included w root f \<and> h \<in> file_hits w want f) \<and>
        (\<forall>f h'. included w root f \<and> h' \<in> file_hits w want f \<longrightarrow> hit_rank h' \<le> hit_rank h)
    | None \<Rightarrow> \<forall>f. included w root f \<longrightarrow> file_hits w want f = {}"
proof -
  from scan_finds_best [of w root want] assms
  have "best_of (scan_for_recovery_include w root want) (\<Union>f \<in> {f. included w root f}. file_hits w want f)" by auto
  thus ?thesis by (auto simp: best_of_def split: option.splits)
qed

definition ex_conf_world :: pf_world where
  "ex_conf_world = \<lparr>pf_mode = (\<lambda>_. Inr 0x1C0),
     pf_read = (\<lambda>p. if p = (True, [''d'', ''a.conf'']) then ReadText ''include 'b.conf' # more''
       else if p = (True, [''d'', ''b.conf'']) then ReadText (''include_if_exists = '' @ [CHR 0x27] @ ''myrecovery.conf'' @ [CHR 0x27, CHR 0x0A] @
         ''include = /d/a.conf'')
       else ReadMissing),
     pf_is_file = (\<lambda>_. True), pf_list = (\<lambda>_. None), pf_canon = Some, pf_mkdir = (\<lambda>_. None),
     pf_systemctl = (\<lambda>_. Inr (True, [], ''Restart=no'' @ [CHR 0x0A] @ ''LoadState=loaded'', []))\<rparr>"

lemma ex_conf_lines:
  "file_lines ex_conf_world (True, [''d'', ''a.conf'']) = [''include 'b.conf' # more'']"
  "file_lines ex_conf_world (True, [''d'', ''b.conf'']) = [''include_if_exists = '' @ [CHR 0x27] @ ''myrecovery.conf'' @ [CHR 0x27], ''include = /d/a.conf'']"
  by (simp_all add: file_lines_def ex_conf_world_def) code_simp+

lemma ex_conf_directives:
  "parse_include_directive ''include 'b.conf' # more'' = Some (''include'', ''b.conf'')"
  "parse_include_directive (''include_if_exists = '' @ [CHR 0x27] @ ''myrecovery.conf'' @ [CHR 0x27]) = Some (''include_if_exists'', ''myrecovery.conf'')"
  "parse_include_directive ''include = /d/a.conf'' = Some (''include'', ''/d/a.conf'')"
  by code_simp+

lemma ex_conf_targets:
  "include_target (True, [''d'', ''a.conf'']) ''b.conf'' = (True, [''d'', ''b.conf''])"
  "include_target (True, [''d'', ''b.conf'']) ''myrecovery.conf'' = (True, [''d'', ''myrecovery.conf''])"
  "include_target (True, [''d'', ''b.conf'']) ''/d/a.conf'' = (True, [''d'', ''a.conf''])"
  by code_simp+

lemma ex_conf_included:
  "{f. included ex_conf_world (True, [''d'', ''a.conf'']) f} \<subseteq> {(True, [''d'', ''a.conf'']), (True, [''d'', ''b.conf''])}"
proof -
  have "file_next ex_conf_world (True, [''d'', ''a.conf'']) \<subseteq> {(True, [''d'', ''b.conf''])}"
    "file_next ex_conf_world (True, [''d'', ''b.conf'']) \<subseteq> {(True, [''d'', ''a.conf''])}"
    unfolding file_next_def ex_conf_lines
    by (simp_all add: line_next_def ex_conf_directives [simplified] ex_conf_targets recovery_conf_file_def file_name_def)
  hence closed: "\<forall>f \<in> {(True, [''d'', ''a.conf'']), (True, [''d'', ''b.conf''])}.
      file_next ex_conf_world f \<subseteq> {(True, [''d'', ''a.conf'']), (True, [''d'', ''b.conf''])}"
    by blast
  show ?thesis
  proof
    fix f assume "f \<in> {f. included ex_conf_world (True, [''d'', ''a.conf'']) f}"
    hence "included ex_conf_world (True, [''d'', ''a.conf'']) f" by simp
    thus "f \<in> {(True, [''d'', ''a.conf'']), (True, [''d'', ''b.conf''])}" by (rule closed_is_all [OF insertI1 closed])
  qed
qed

theorem include_scan_exact_witness:
  "included ex_conf_world (True, [''d'', ''a.conf'']) (True, [''d'', ''b.conf'']) \<and>
   scan_for_recovery_include ex_conf_world (True, [''d'', ''a.conf'']) (True, [''d'', ''myrecovery.conf'']) = Some (HitOptional (True, [''d'', ''b.conf'']))"
proof -
  let ?a = "(True, [''d'', ''a.conf''])" and ?b = "(True, [''d'', ''b.conf''])" and ?want = "(True, [''d'', ''myrecovery.conf''])"
  have fin: "finite {f. included ex_conf_world ?a f}"
    using ex_conf_included by (rule finite_subset) simp
  have card: "card {f. included ex_conf_world ?a f} \<le> include_scan_max_files"
    using card_mono [OF _ ex_conf_included] by (simp add: include_scan_max_files_def)
  have "?b \<in> file_next ex_conf_world ?a"
    unfolding file_next_def ex_conf_lines
    by (simp add: line_next_def ex_conf_directives [simplified] ex_conf_targets recovery_conf_file_def file_name_def)
  hence b: "included ex_conf_world ?a ?b" by (rule included_next [OF included_root])
  have hb: "file_hits ex_conf_world ?want ?b = {HitOptional ?b}" and ha: "file_hits ex_conf_world ?want ?a = {}"
    unfolding file_hits_def ex_conf_lines
    by (simp_all add: line_hits_def ex_conf_directives [simplified] ex_conf_targets recovery_conf_file_def file_name_def same_target_def)
  have only: "h = HitOptional ?b" if "included ex_conf_world ?a f" "h \<in> file_hits ex_conf_world ?want f" for f h
  proof -
    from that(1) ex_conf_included have "f = ?a \<or> f = ?b" by blast
    with that(2) ha hb show ?thesis by blast
  qed
  show ?thesis
  proof (cases "scan_for_recovery_include ex_conf_world ?a ?want")
    case None
    with include_scan_exact [OF fin card, of ?want] b hb show ?thesis by simp
  next
    case (Some h)
    with include_scan_exact [OF fin card, of ?want] obtain f where "included ex_conf_world ?a f" "h \<in> file_hits ex_conf_world ?want f" by auto
    with only Some b show ?thesis by simp
  qed
qed

section \<open>The gate\<close>

text \<open>What the checks ask of the host, of the include, and of the database.\<close>

definition mode_within :: "pf_world \<Rightarrow> string \<Rightarrow> 32 word \<Rightarrow> bool" where
  "mode_within w path m = (case pf_mode w path of Inr full \<Rightarrow> (full AND 0x1FF) AND NOT m = 0 | Inl _ \<Rightarrow> False)"

definition runnable :: "pf_world \<Rightarrow> string \<Rightarrow> bool" where
  "runnable w path = (case pf_mode w path of Inr mode \<Rightarrow> mode AND 0x49 \<noteq> 0 | Inl _ \<Rightarrow> False)"

definition files_fit :: "pf_world \<Rightarrow> config \<Rightarrow> bool" where
  "files_fit w cfg \<longleftrightarrow>
     (\<forall>ca cert key. (tls_ca_cert (c_tls cfg), tls_cert (c_tls cfg), tls_key (c_tls cfg)) = (Some ca, Some cert, Some key) \<longrightarrow>
        is_ok (pf_mode w ca) \<and> is_ok (pf_mode w cert) \<and> mode_within w key 0x180) \<and>
     (\<forall>home. pg_user_home (c_postgres cfg) = Some home \<longrightarrow>
        (\<forall>f \<in> {path_join home ''.pcppass'', path_join (path_join home ''.postgresql'') ''postgresql.key''}.
           is_ok (pf_mode w f) \<longrightarrow> mode_within w f 0x180)) \<and>
     (\<exists>pre. pg_install_prefix (c_postgres cfg) = Some pre \<and>
        (\<forall>tool \<in> {''pg_basebackup'', ''pg_rewind''}. runnable w (path_join (path_join pre ''bin'') tool)))"

definition unit_fits :: "pf_world \<Rightarrow> config \<Rightarrow> bool" where
  "unit_fits w cfg \<longleftrightarrow>
     (\<forall>unit st out err p. pg_service (c_postgres cfg) = Some unit \<and> pf_systemctl w unit = Inr (True, st, out, err) \<and>
        property_of ''LoadState'' out = Some ''loaded'' \<and> property_of ''Restart'' out = Some p \<longrightarrow> p = ''no'')"

definition raft_fits :: "pf_world \<Rightarrow> config \<Rightarrow> bool" where
  "raft_fits w cfg \<longleftrightarrow>
     (c_dev_mode cfg \<or> 3 \<le> length (c_pool cfg) \<and> tls_is_configured (c_tls cfg)) \<and> 0 \<le> c_local_node_id cfg \<and>
     (\<exists>dir. c_state_dir cfg = Some dir \<and> pf_mkdir w (path_join dir ''raft'') = None)"

definition db_fits :: "pf_db \<Rightarrow> config \<Rightarrow> bool" where
  "db_fits db cfg \<longleftrightarrow>
     pd_setting db ''wal_level'' \<in> {Inr ''replica'', Inr ''logical''} \<and> pd_setting db ''hot_standby'' = Inr ''on'' \<and>
     (\<forall>name \<in> {''max_replication_slots'', ''max_wal_senders''}. \<exists>got n.
        pd_setting db name = Inr got \<and> parse_i32 got = Some n \<and> int (length (c_pool cfg)) + 2 \<le> n \<and> 3 \<le> n) \<and>
     pd_extension db = Inr True \<and> (\<forall>role \<in> {unwrap_or (pg_repl_user (c_postgres cfg)) ''repl'', ''pgpool''}. pd_role db role = Inr True)"

lemma has_errors_simps [simp]:
  "has_errors [] = False" "has_errors (c # cs) = (ck_status c = CsErr \<or> has_errors cs)" "has_errors (xs @ ys) = (has_errors xs \<or> has_errors ys)"
  by (simp_all add: has_errors_def)

lemma check_status_simps [simp]:
  "ck_status (check_ok n d) = CsOk" "ck_status (check_warn n d) = CsWarn" "ck_status (check_err n d) = CsErr"
  by (simp_all add: check_ok_def check_warn_def check_err_def)

lemma check_file_errs [simp]:
  "ck_status (check_readable w n path) = CsErr \<longleftrightarrow> \<not> is_ok (pf_mode w path)"
  "ck_status (check_executable w n path) = CsErr \<longleftrightarrow> \<not> runnable w path"
  "ck_status (check_mode_at_most w n path m) = CsErr \<longleftrightarrow> \<not> mode_within w path m"
  by (auto simp: check_readable_def check_executable_def check_mode_at_most_def runnable_def mode_within_def Let_def split: sum.splits)

lemma mode_within_ok: "mode_within w path m \<Longrightarrow> is_ok (pf_mode w path)"
  by (auto simp: mode_within_def split: sum.splits)

lemma files_errs:
  "has_errors (fs_tls_material w cfg @ fs_postgres_home_defaults w cfg @ fs_recovery_tools w cfg) \<longleftrightarrow> \<not> files_fit w cfg"
  by (auto simp: fs_tls_material_def fs_postgres_home_defaults_def fs_recovery_tools_def home_file_def files_fit_def Let_def
      dest: mode_within_ok split: option.splits)

lemma unit_errs: "ck_status (unit_restart_policy w cfg) = CsErr \<longleftrightarrow> \<not> unit_fits w cfg"
  by (auto simp: unit_restart_policy_def restart_policy_verdict_def unit_fits_def split: option.splits sum.splits)

lemma raft_errs: "has_errors (raft_prerequisites w cfg) \<longleftrightarrow> \<not> raft_fits w cfg"
  by (auto simp: raft_prerequisites_def raft_fits_def shape_check_def to_node_pool_def split: option.splits)

lemma db_errs: "has_errors (db_settings db cfg @ [db_extension db] @ db_roles db cfg) \<longleftrightarrow> \<not> db_fits db cfg"
  by (auto simp: db_settings_def setting_check_def wal_keep_check_def slots_check_def db_extension_def db_roles_def role_check_def
      db_fits_def Let_def split: option.splits sum.splits bool.splits)

definition node_id_fits :: "pf_world \<Rightarrow> config \<Rightarrow> bool" where
  "node_id_fits w cfg \<longleftrightarrow>
     (let path = (case find (\<lambda>p. is_ok (pf_mode w p)) default_pgpool_node_id_files of
          Some p \<Rightarrow> p | None \<Rightarrow> hd default_pgpool_node_id_files)
      in case pf_read w (components path) of
           ReadText raw \<Rightarrow> parse_i32 (trim raw) = Some (c_local_node_id cfg) | ReadMissing \<Rightarrow> True | ReadError _ \<Rightarrow> False)"

text \<open>The configuration file that is scanned, if one is known, and the file the agent writes.\<close>

definition scanned :: "pf_world \<Rightarrow> config \<Rightarrow> pf_db option \<Rightarrow> (wpath \<times> wpath) option" where
  "scanned w cfg db =
     (case (case server_path db ''data_directory'' of Some p \<Rightarrow> Some p | None \<Rightarrow> pg_data_dir (c_postgres cfg)) of
        None \<Rightarrow> None
      | Some dir \<Rightarrow>
          map_option (\<lambda>p. (p, components (path_join dir recovery_conf_file)))
            (case server_path db ''config_file'' of
               Some p \<Rightarrow> Some (components p) | None \<Rightarrow> find (pf_is_file w) (config_file_candidates (components dir))))"

definition include_fits :: "pf_world \<Rightarrow> config \<Rightarrow> pf_db option \<Rightarrow> bool" where
  "include_fits w cfg db \<longleftrightarrow>
     (\<forall>p want. scanned w cfg db = Some (p, want) \<longrightarrow>
        (\<exists>f. scan_for_recovery_include w p want \<in> {Some (HitOptional f), Some (HitRequired f)}))"

lemma node_id_errs: "ck_status (fs_pgpool_node_id w cfg) = CsErr \<longleftrightarrow> \<not> node_id_fits w cfg"
  by (auto simp: fs_pgpool_node_id_def node_id_fits_def Let_def split: read_answer.splits option.splits)

lemma include_verdict_errs:
  "ck_status (include_verdict w p want) = CsErr \<longleftrightarrow> (\<nexists>f. scan_for_recovery_include w p want \<in> {Some (HitOptional f), Some (HitRequired f)})"
  by (auto simp: include_verdict_def split: option.splits include_hit.splits)

lemma include_is_verdict:
  "ck_status (fs_recovery_conf_include w cfg db) = CsErr \<longleftrightarrow>
     (case scanned w cfg db of Some pw \<Rightarrow> ck_status (include_verdict w (fst pw) (snd pw)) = CsErr | None \<Rightarrow> False)"
  by (simp add: fs_recovery_conf_include_def scanned_def Let_def split: option.split)

lemma include_errs: "ck_status (fs_recovery_conf_include w cfg db) = CsErr \<longleftrightarrow> \<not> include_fits w cfg db"
  unfolding include_is_verdict include_fits_def include_verdict_errs
  by (cases "scanned w cfg db") (simp_all add: prod_eq_iff)


end
