(* ===== verification/PgpoolConf.thy ===== *)
theory PgpoolConf
  imports ClusterView HookSpec HookClient
begin

text \<open>
  The configuration of pgpool: the addresses the local server collects from the pool
  (\<open>get_pgpool_backends\<close> of \<open>localserver.rs\<close>), the fragment \<open>gen-pgpool\<close> renders from them, and the check of a
  file against the canonical hooks, \<open>print-hooks\<close> and \<open>check-hooks\<close> (\<open>crates/pg-agentctl/src/main.rs\<close>).
\<close>

section \<open>Collecting the addresses\<close>

record node_config_response =
  ncr_pg_port :: i32
  ncr_pg_data_dir :: string

record backend_entry =
  be_node_id :: i32
  be_hostname :: string
  be_reachable :: bool
  be_error :: string
  be_pg_port :: i32
  be_pg_data :: string

text \<open>The answer of the local node, and of the dial and the call for a peer.\<close>

definition backend_entry_of ::
  "node_pool \<Rightarrow> (string, node_config_response) result \<Rightarrow> (i32 \<Rightarrow> (string, (string, node_config_response) result) result) \<Rightarrow>
   node_config \<Rightarrow> backend_entry" where
  "backend_entry_of pool local_cfg peer_cfg n =
     (let r = (if is_local pool n then
                 (case local_cfg of Inl e \<Rightarrow> Inl (''local get_node_config: '' @ e) | Inr c \<Rightarrow> Inr c)
               else (case peer_cfg (nc_id n) of
                   Inl e \<Rightarrow> Inl (''dial peer: '' @ e)
                 | Inr (Inl e) \<Rightarrow> Inl (''get_node_config: '' @ e)
                 | Inr (Inr c) \<Rightarrow> Inr c))
      in case r of
           Inr c \<Rightarrow> \<lparr>be_node_id = nc_id n, be_hostname = nc_hostname n, be_reachable = True, be_error = [],
             be_pg_port = ncr_pg_port c, be_pg_data = ncr_pg_data_dir c\<rparr>
         | Inl e \<Rightarrow> \<lparr>be_node_id = nc_id n, be_hostname = nc_hostname n, be_reachable = False, be_error = e,
             be_pg_port = 0, be_pg_data = []\<rparr>)"

definition get_pgpool_backends ::
  "node_pool \<Rightarrow> (string, node_config_response) result \<Rightarrow> (i32 \<Rightarrow> (string, (string, node_config_response) result) result) \<Rightarrow>
   bool \<times> backend_entry list" where
  "get_pgpool_backends pool local_cfg peer_cfg =
     (let es = map (backend_entry_of pool local_cfg peer_cfg) (np_members pool)
      in (list_all be_reachable es, sort_key be_node_id es))"

section \<open>Rendering\<close>

record backend_row =
  br_id :: i32
  br_hostname :: string
  br_port :: i32
  br_data_dir :: string

definition pad_to :: "nat \<Rightarrow> string \<Rightarrow> string" where
  "pad_to n s = s @ replicate (n - length s) CHR '' ''"

definition key_width :: nat where
  "key_width = 26"

definition unlines :: "string list \<Rightarrow> string" where
  "unlines ls = concat (map (\<lambda>l. l @ [CHR 0x0A]) ls)"

definition quoted :: "string \<Rightarrow> string" where
  "quoted s = [CHR 0x27] @ s @ [CHR 0x27]"

definition backend_block :: "backend_row \<Rightarrow> string list" where
  "backend_block r =
     [''backend_hostname'' @ show_int (br_id r) @ '' = '' @ quoted (br_hostname r),
      ''backend_port'' @ show_int (br_id r) @ '' = '' @ show_int (br_port r),
      ''backend_data_directory'' @ show_int (br_id r) @ '' = '' @ quoted (br_data_dir r),
      ''backend_flag'' @ show_int (br_id r) @ '' = '' @ quoted ''ALLOW_TO_FAILOVER'',
      []]"

definition fragment_head :: "string list" where
  "fragment_head =
     [''# Generated by `pg_agentctl gen-pgpool`. Do not edit by hand.'',
      ''# Pool size and per-backend addressing are owned by this file;'',
      ''# the hook block below is the canonical pg_agent wiring.'',
      []]"

definition fragment_tail :: "string list" where
  "fragment_tail =
     [''# --- canonical hook block (agent-led failover) ---'',
      ''# failover_command is a notify-only poke: the HA loop decides.'',
      ''# follow_primary_command MUST stay empty (hook-contract '' @ [CHR 0xC2, CHR 0xA7] @ ''2).''] @
     map (\<lambda>h. pad_to key_width (phe_key h) @ '' = '' @ quoted (phe_value h)) pgpool_hooks @
     [[], ''# --- contract settings (decision-critical, not tuning) ---''] @
     map (\<lambda>h. pad_to key_width (phe_key h) @ '' = '' @ phe_value h) pgpool_settings"

definition render_pgpool_fragment :: "backend_row list \<Rightarrow> string" where
  "render_pgpool_fragment rows =
     unlines fragment_head @ concat (map (\<lambda>r. unlines (backend_block r)) rows) @ unlines fragment_tail"

definition row_of :: "backend_entry \<Rightarrow> backend_row" where
  "row_of b = \<lparr>br_id = be_node_id b, br_hostname = be_hostname b, br_port = be_pg_port b, br_data_dir = be_pg_data b\<rparr>"

text \<open>A pool that cannot be asked whole is not rendered.\<close>

definition gen_pgpool :: "bool \<times> backend_entry list \<Rightarrow> (string, backend_row list \<times> string) result" where
  "gen_pgpool resp =
     (case resp of (all_reachable, backends) \<Rightarrow>
      if \<not> all_reachable then
        let bad = map (\<lambda>b. show_int (be_node_id b) @ '' ('' @ be_hostname b @ ''): '' @ be_error b) (filter (\<lambda>b. \<not> be_reachable b) backends)
        in Inl (''refusing to render: '' @ show_nat (length bad) @ '' unreachable node(s):'' @ [CHR 0x0A] @ ''  '' @
             join ([CHR 0x0A] @ ''  '') bad)
      else
        let rows = map row_of backends in Inr (rows, render_pgpool_fragment rows))"

section \<open>Checking\<close>

definition unquote :: "string \<Rightarrow> string" where
  "unquote v = (if starts_with v [CHR 0x27] \<and> ends_with v [CHR 0x27] \<and> 2 \<le> length v then butlast (tl v) else v)"

definition parse_conf_line :: "string \<Rightarrow> (string \<times> string) option" where
  "parse_conf_line raw =
     (let line = trim_start raw in
      if line = [] \<or> starts_with line ''#'' then None
      else case split_once CHR ''='' (takeWhile (\<lambda>c. c \<noteq> CHR ''#'') line) of
          None \<Rightarrow> None
        | Some (k, v) \<Rightarrow> Some (trim k, unquote (trim v)))"

definition conf_insert :: "string \<Rightarrow> (string \<rightharpoonup> string) \<Rightarrow> (string \<rightharpoonup> string)" where
  "conf_insert raw m = (case parse_conf_line raw of None \<Rightarrow> m | Some (k, v) \<Rightarrow> m(k \<mapsto> v))"

definition parse_pgpool_conf :: "string \<Rightarrow> (string \<rightharpoonup> string)" where
  "parse_pgpool_conf content = fold conf_insert (lines content) Map.empty"

record hook_row =
  hr_key :: string
  hr_want :: string
  hr_got :: "string option"
  hr_ok :: bool

definition hook_rows :: "string \<Rightarrow> hook_row list" where
  "hook_rows content =
     (let parsed = parse_pgpool_conf content in
      map (\<lambda>h. \<lparr>hr_key = phe_key h, hr_want = phe_value h, hr_got = parsed (phe_key h),
          hr_ok = (parsed (phe_key h) = Some (phe_value h))\<rparr>) (pgpool_hooks @ pgpool_settings))"

text \<open>The table for people, and the exit code; the JSON document holds the rows.\<close>

definition hook_row_line :: "nat \<Rightarrow> hook_row \<Rightarrow> string" where
  "hook_row_line width r =
     (if hr_ok r then ''OK '' else ''ERR'') @ ''  '' @ pad_to width (hr_key r) @
     (case hr_got r of
        Some got \<Rightarrow> if hr_ok r then [] else ''  got '' @ debug_str got @ '', want '' @ debug_str (hr_want r)
      | None \<Rightarrow> ''  missing (want '' @ debug_str (hr_want r) @ '')'')"

definition check_hooks :: "string \<Rightarrow> (string, string) result \<Rightarrow> (string, string list \<times> nat) result" where
  "check_hooks path content =
     (case content of
        Inl e \<Rightarrow> Inl (''read '' @ path @ '': '' @ e)
      | Inr c \<Rightarrow>
          let rows = hook_rows c; all_ok = list_all hr_ok rows; width = fold (\<lambda>r n. max (length (hr_key r)) n) rows 0
          in Inr (map (hook_row_line width) rows @ [[], if all_ok then ''check-hooks: all directives match'' else ''check-hooks: drift detected''],
               if all_ok then 0 else 1))"

definition print_hooks :: "string list" where
  "print_hooks =
     [''# pgpool.conf''] @ map (\<lambda>h. pad_to key_width (phe_key h) @ '' = '' @ quoted (phe_value h)) pgpool_hooks @
     [[], ''# postgresql.conf'', pad_to key_width ''restore_command'' @ '' = '' @ quoted restore_command]"

section \<open>What is generated passes the check\<close>

lemma lines_append_nl: "lines (a @ CHR 0x0A # b) = lines (a @ [CHR 0x0A]) @ lines b"
proof -
  have "lines_from acc (a @ CHR 0x0A # b) = lines_from acc (a @ [CHR 0x0A]) @ lines_from [] b" for acc
    by (induction a arbitrary: acc) auto
  thus ?thesis by (simp add: lines_def)
qed

definition ends_line :: "string \<Rightarrow> bool" where
  "ends_line a = (a = [] \<or> last a = CHR 0x0A)"

lemma lines_append: "ends_line a \<Longrightarrow> lines (a @ b) = lines a @ lines b"
proof (cases a rule: rev_cases)
  case Nil
  thus ?thesis by (simp add: lines_def)
next
  case (snoc ys y)
  assume "ends_line a"
  with snoc lines_append_nl [of ys b] show ?thesis by (simp add: ends_line_def)
qed

lemma ends_line_append: "ends_line a \<Longrightarrow> ends_line b \<Longrightarrow> ends_line (a @ b)"
  by (cases "b = []") (auto simp: ends_line_def)

lemma ends_line_unlines: "ends_line (unlines ls)"
  by (induction ls rule: rev_induct) (auto simp: ends_line_def unlines_def)

lemma ends_line_concat: "list_all ends_line xs \<Longrightarrow> ends_line (concat xs)"
  by (induction xs) (simp_all add: ends_line_append, simp add: ends_line_def)

text \<open>The hook block, read back.\<close>

lemma tail_read:
  "map parse_conf_line (lines (unlines fragment_tail)) =
     [None, None, None] @ map (\<lambda>h. Some (phe_key h, phe_value h)) pgpool_hooks @ [None, None] @
     map (\<lambda>h. Some (phe_key h, phe_value h)) pgpool_settings"
  by code_simp

text \<open>The assignments of a file, in order; the last one of a key counts.\<close>

definition assignments :: "string \<Rightarrow> (string \<times> string) list" where
  "assignments content = List.map_filter parse_conf_line (lines content)"

lemma fold_conf_insert: "fold conf_insert ls m = m ++ map_of (rev (List.map_filter parse_conf_line ls))"
  by (induction ls arbitrary: m) (auto simp: conf_insert_def List.map_filter_simps split: option.splits)

lemma parse_is_last_assignment: "parse_pgpool_conf content = map_of (rev (assignments content))"
  by (simp add: parse_pgpool_conf_def assignments_def fold_conf_insert)

lemma map_filter_append: "List.map_filter f (xs @ ys) = List.map_filter f xs @ List.map_filter f ys"
  by (simp add: List.map_filter_def)

lemma assignments_append: "ends_line a \<Longrightarrow> assignments (a @ b) = assignments a @ assignments b"
  by (simp add: assignments_def lines_append map_filter_append)

lemma assignments_concat: "list_all ends_line xs \<Longrightarrow> assignments (concat xs) = concat (map assignments xs)"
  by (induction xs) (simp_all add: assignments_append, simp add: assignments_def lines_def List.map_filter_def)

lemma assignments_tail: "assignments (unlines fragment_tail) = map (\<lambda>h. (phe_key h, phe_value h)) (pgpool_hooks @ pgpool_settings)"
proof -
  have "assignments c = map the (filter (\<lambda>x. x \<noteq> None) (map parse_conf_line (lines c)))" for c
    by (induction "lines c") (simp_all add: assignments_def List.map_filter_def comp_def filter_map)
  thus ?thesis by (simp add: tail_read pgpool_hooks_def pgpool_settings_def)
qed

lemma assignments_head: "assignments (unlines fragment_head) = []"
  by code_simp

lemma render_assignments:
  "assignments (render_pgpool_fragment rows) =
     concat (map (\<lambda>r. assignments (unlines (backend_block r))) rows) @
     map (\<lambda>h. (phe_key h, phe_value h)) (pgpool_hooks @ pgpool_settings)"
  by (simp add: render_pgpool_fragment_def assignments_append ends_line_unlines assignments_head assignments_tail
      assignments_concat ends_line_concat list_all_iff comp_def)

lemma hook_keys: "distinct (map phe_key (pgpool_hooks @ pgpool_settings))"
  by (simp add: pgpool_hooks_def pgpool_settings_def)

lemma rendered_hooks:
  assumes "h \<in> set (pgpool_hooks @ pgpool_settings)"
  shows "parse_pgpool_conf (render_pgpool_fragment rows) (phe_key h) = Some (phe_value h)"
proof -
  let ?t = "map (\<lambda>h. (phe_key h, phe_value h)) (pgpool_hooks @ pgpool_settings)"
  have "map fst (rev ?t) = rev (map phe_key (pgpool_hooks @ pgpool_settings))" by (simp add: rev_map)
  hence "distinct (map fst (rev ?t))" using hook_keys by (simp only: distinct_rev)
  moreover from assms have "(phe_key h, phe_value h) \<in> set (rev ?t)" by auto
  ultimately have "map_of (rev ?t) (phe_key h) = Some (phe_value h)" by (rule map_of_is_SomeI)
  thus ?thesis by (simp only: parse_is_last_assignment render_assignments rev_append map_of_append map_add_find_right)
qed

lemma rendered_passes: "\<exists>shown. check_hooks path (Inr (render_pgpool_fragment rows)) = Inr (shown, 0)"
proof -
  have "list_all hr_ok (hook_rows (render_pgpool_fragment rows))"
    unfolding hook_rows_def Let_def list_all_iff using rendered_hooks [of _ rows] by auto
  thus ?thesis by (simp add: check_hooks_def Let_def)
qed

text \<open>A row whose texts hold no line break and no comment sign reads back.\<close>

definition clean :: "string \<Rightarrow> bool" where
  "clean s = (CHR 0x0A \<notin> set s \<and> CHR 0x0D \<notin> set s \<and> CHR ''#'' \<notin> set s)"

definition plain_key :: "string \<Rightarrow> bool" where
  "plain_key k = (k \<noteq> [] \<and> list_all (\<lambda>c. \<not> is_ws c \<and> c \<noteq> CHR ''='' \<and> c \<noteq> CHR ''#'') k)"

lemma trim_ends:
  assumes "s \<noteq> []" "\<not> is_ws (hd s)" "\<not> is_ws (last s)"
  shows "trim s = s" "trim (CHR '' '' # s) = s" "trim (s @ '' '') = s" "trim_start s = s"
proof -
  have sp: "is_ws CHR '' ''" by (simp add: is_ws_def)
  from assms obtain x xs where x: "s = x # xs" "\<not> is_ws x" by (cases s) auto
  from assms obtain ys y where y: "s = ys @ [y]" "\<not> is_ws y" by (cases s rule: rev_cases) auto
  have l: "dropWhile is_ws s = s" "dropWhile is_ws (CHR '' '' # s) = s" "dropWhile is_ws (s @ '' '') = s @ '' ''" using x sp by auto
  moreover have "dropWhile is_ws (rev s) = rev s" "dropWhile is_ws (rev (s @ '' '')) = rev s" using y sp by auto
  ultimately show "trim s = s" "trim (CHR '' '' # s) = s" "trim (s @ '' '') = s" "trim_start s = s"
    by (simp_all only: trim_def trim_start_def rev_rev_ident)
qed

lemma parse_assignment:
  assumes k: "plain_key k" and v: "v \<noteq> []" "\<not> is_ws (hd v)" "\<not> is_ws (last v)" "CHR ''#'' \<notin> set v"
  shows "parse_conf_line (k @ '' = '' @ v) = Some (k, unquote v)"
proof -
  from k have kk: "k \<noteq> []" "\<not> is_ws (hd k)" "\<not> is_ws (last k)" by (auto simp: plain_key_def list_all_iff)
  have line: "trim_start (k @ '' = '' @ v) = k @ '' = '' @ v"
    using kk by (cases k) (auto simp: trim_start_def)
  have tw: "takeWhile (\<lambda>c. c \<noteq> CHR ''#'') (k @ '' = '' @ v) = k @ '' = '' @ v"
    using k v(4) by (subst takeWhile_eq_all_conv) (auto simp: plain_key_def list_all_iff)
  have "split_once CHR ''='' ((k @ '' '') @ CHR ''='' # (CHR '' '' # v)) = Some (k @ '' '', CHR '' '' # v)"
    by (rule split_once_append) (use k in \<open>auto simp: plain_key_def list_all_iff\<close>)
  hence sp: "split_once CHR ''='' (k @ '' = '' @ v) = Some (k @ '' '', CHR '' '' # v)" by simp
  have nc: "\<not> starts_with (k @ '' = '' @ v) ''#''" using k by (cases k) (auto simp: plain_key_def starts_with_def)
  show ?thesis
    unfolding parse_conf_line_def Let_def line tw sp using nc kk(1) trim_ends(3) [OF kk] trim_ends(2) [OF v(1-3)]
    by simp
qed

lemma unquote_quoted [simp]: "unquote (quoted s) = s"
  by (simp add: unquote_def quoted_def starts_with_def ends_with_def)

lemma show_int_shape: "show_int i \<noteq> []" "\<not> is_ws (hd (show_int i))" "\<not> is_ws (last (show_int i))" "CHR ''#'' \<notin> set (show_int i)"
  "unquote (show_int i) = show_int i" "CHR 0x0A \<notin> set (show_int i)" "CHR 0x0D \<notin> set (show_int i)"
proof -
  have ne: "show_int i \<noteq> []" by (simp add: show_int_def show_nat_def)
  have ok: "list_all (\<lambda>c. \<not> is_ws c \<and> c \<noteq> CHR ''#'' \<and> c \<noteq> CHR 0x27 \<and> c \<noteq> CHR 0x0A \<and> c \<noteq> CHR 0x0D \<and> c \<noteq> CHR ''='') ''-0123456789ABCDEF''"
    by (simp add: is_ws_def)
  hence all: "c \<in> set (show_int i) \<Longrightarrow> \<not> is_ws c \<and> c \<noteq> CHR ''#'' \<and> c \<noteq> CHR 0x27 \<and> c \<noteq> CHR 0x0A \<and> c \<noteq> CHR 0x0D" for c
    using show_int_chars [of i] by (auto simp: list_all_iff)
  from ne all [of "hd (show_int i)"] have "\<not> starts_with (show_int i) [CHR 0x27]"
    by (cases "show_int i") (auto simp: starts_with_def)
  with ne all show "show_int i \<noteq> []" "\<not> is_ws (hd (show_int i))" "\<not> is_ws (last (show_int i))" "CHR ''#'' \<notin> set (show_int i)"
    "unquote (show_int i) = show_int i" "CHR 0x0A \<notin> set (show_int i)" "CHR 0x0D \<notin> set (show_int i)"
    by (auto simp: unquote_def)
qed

lemma key_of_id: "plain_key k \<Longrightarrow> plain_key (k @ show_int i)"
proof -
  have "list_all (\<lambda>c. \<not> is_ws c \<and> c \<noteq> CHR ''='' \<and> c \<noteq> CHR ''#'') ''-0123456789ABCDEF''" by (simp add: is_ws_def)
  with show_int_chars [of i] have "list_all (\<lambda>c. \<not> is_ws c \<and> c \<noteq> CHR ''='' \<and> c \<noteq> CHR ''#'') (show_int i)"
    by (auto simp: list_all_iff)
  thus "plain_key k \<Longrightarrow> plain_key (k @ show_int i)" by (simp add: plain_key_def)
qed

definition backend_settings :: "backend_row \<Rightarrow> (string \<times> string) list" where
  "backend_settings r =
     [(''backend_hostname'' @ show_int (br_id r), br_hostname r), (''backend_port'' @ show_int (br_id r), show_int (br_port r)),
      (''backend_data_directory'' @ show_int (br_id r), br_data_dir r), (''backend_flag'' @ show_int (br_id r), ''ALLOW_TO_FAILOVER'')]"

lemma quoted_shape: "quoted s \<noteq> []" "\<not> is_ws (hd (quoted s))" "\<not> is_ws (last (quoted s))" "clean s \<Longrightarrow> CHR ''#'' \<notin> set (quoted s)"
  by (auto simp: quoted_def is_ws_def clean_def)

lemma block_assignments:
  assumes "clean (br_hostname r)" and "clean (br_data_dir r)"
  shows "assignments (unlines (backend_block r)) = backend_settings r"
proof -
  have keys: "plain_key ''backend_hostname''" "plain_key ''backend_port''" "plain_key ''backend_data_directory''" "plain_key ''backend_flag''"
    by (simp_all add: plain_key_def is_ws_def)
  have flag: "clean ''ALLOW_TO_FAILOVER''" by (simp add: clean_def)
  have "lines (unlines (backend_block r)) = backend_block r"
    unfolding unlines_def using assms show_int_shape(6,7)
    by (intro lines_concat) (auto simp: backend_block_def quoted_def clean_def)
  moreover note parse_assignment [OF key_of_id [OF keys(1)] quoted_shape(1-3) quoted_shape(4) [OF assms(1)], of "br_id r"]
    parse_assignment [OF key_of_id [OF keys(2)] show_int_shape(1-4), of "br_id r" "br_port r"]
    parse_assignment [OF key_of_id [OF keys(3)] quoted_shape(1-3) quoted_shape(4) [OF assms(2)], of "br_id r"]
    parse_assignment [OF key_of_id [OF keys(4)] quoted_shape(1-3) quoted_shape(4) [OF flag], of "br_id r"]
  moreover have "parse_conf_line [] = None" by (simp add: parse_conf_line_def trim_start_def)
  ultimately show ?thesis
    by (simp add: assignments_def backend_block_def backend_settings_def List.map_filter_def show_int_shape(5))
qed

lemma backend_keys_differ:
  "br_id r \<noteq> br_id r' \<Longrightarrow> set (map fst (backend_settings r)) \<inter> set (map fst (backend_settings r')) = {}"
  "set (map fst (backend_settings r)) \<inter> set (map phe_key (pgpool_hooks @ pgpool_settings)) = {}"
  "distinct (map fst (backend_settings r))"
  by (auto simp: backend_settings_def pgpool_hooks_def pgpool_settings_def)

lemma backend_keys_distinct:
  "distinct (map br_id rows) \<Longrightarrow> distinct (map fst (concat (map backend_settings rows)))"
proof (induction rows)
  case (Cons r rows)
  have "set (map fst (concat (map backend_settings rows))) = (\<Union>r' \<in> set rows. set (map fst (backend_settings r')))"
    by (induction rows) auto
  moreover from Cons.prems have "r' \<in> set rows \<Longrightarrow> br_id r \<noteq> br_id r'" for r' by auto
  ultimately have "set (map fst (backend_settings r)) \<inter> set (map fst (concat (map backend_settings rows))) = {}"
    using backend_keys_differ(1) [of r] by blast
  with Cons show ?case by (simp only: list.map concat.simps map_append distinct_append backend_keys_differ(3)) simp
qed simp

lemma rendered_rows:
  assumes d: "distinct (map br_id rows)" and c: "\<forall>r \<in> set rows. clean (br_hostname r) \<and> clean (br_data_dir r)"
    and kv: "r \<in> set rows" "(k, v) \<in> set (backend_settings r)"
  shows "parse_pgpool_conf (render_pgpool_fragment rows) k = Some v"
proof -
  let ?t = "map (\<lambda>h. (phe_key h, phe_value h)) (pgpool_hooks @ pgpool_settings)"
  let ?b = "concat (map backend_settings rows)"
  have "map (\<lambda>r. assignments (unlines (backend_block r))) rows = map backend_settings rows"
    using c by (auto intro: block_assignments)
  hence a: "assignments (render_pgpool_fragment rows) = ?b @ ?t" by (simp only: render_assignments)
  have "distinct (map fst ?b)" using d by (rule backend_keys_distinct)
  moreover have "distinct (map fst ?t)" using hook_keys by (simp add: comp_def)
  moreover have "set (map fst ?b) \<inter> set (map fst ?t) = {}" using backend_keys_differ(2) by fastforce
  ultimately have "distinct (map fst (rev (?b @ ?t)))" by (simp only: rev_map [symmetric] distinct_rev map_append distinct_append)
  moreover have "(k, v) \<in> set (rev (?b @ ?t))" using kv by auto
  ultimately show ?thesis unfolding parse_is_last_assignment a by (rule map_of_is_SomeI)
qed

lemma map_sort_key: "map f (sort_key f xs) = sort (map f xs)"
  by (rule properties_for_sort [symmetric]) (simp_all only: mset_map mset_sort sorted_sort_key)

lemma entry_reachable:
  assumes "be_reachable (backend_entry_of pool local_cfg peer_cfg n)"
  obtains c where "if is_local pool n then local_cfg = Inr c else peer_cfg (nc_id n) = Inr (Inr c)"
    "row_of (backend_entry_of pool local_cfg peer_cfg n) =
       \<lparr>br_id = nc_id n, br_hostname = nc_hostname n, br_port = ncr_pg_port c, br_data_dir = ncr_pg_data_dir c\<rparr>"
  using assms by (auto simp: backend_entry_of_def row_of_def Let_def split: if_splits sum.splits)

lemma entry_id: "be_node_id (backend_entry_of pool local_cfg peer_cfg n) = nc_id n"
  by (simp add: backend_entry_of_def Let_def split: sum.split)

text \<open>
  (C19) A generated configuration is complete and passes its own check. What \<open>gen-pgpool\<close> renders from the
  pool's answers has one block for every member, in the order of their identifiers, with the port and
  directory that member gave; \<open>check-hooks\<close> accepts it, whatever the names and directories hold; and, when
  they hold no line break or comment sign and identifiers are distinct, every setting of a block reads
  back. With a member that cannot be asked nothing is rendered.
\<close>

theorem generated_conf_passes_check:
  "case gen_pgpool (get_pgpool_backends pool local_cfg peer_cfg) of
     Inl _ \<Rightarrow> \<exists>n \<in> set (np_members pool). \<not> be_reachable (backend_entry_of pool local_cfg peer_cfg n)
   | Inr (rows, content) \<Rightarrow>
       (\<exists>shown. check_hooks path (Inr content) = Inr (shown, 0)) \<and>
       map br_id rows = sort (map nc_id (np_members pool)) \<and>
       (\<forall>n \<in> set (np_members pool). \<exists>c. \<lparr>br_id = nc_id n, br_hostname = nc_hostname n, br_port = ncr_pg_port c, br_data_dir = ncr_pg_data_dir c\<rparr> \<in> set rows \<and>
          (if is_local pool n then local_cfg = Inr c else peer_cfg (nc_id n) = Inr (Inr c))) \<and>
       (distinct (map nc_id (np_members pool)) \<and> (\<forall>r \<in> set rows. clean (br_hostname r) \<and> clean (br_data_dir r)) \<longrightarrow>
          (\<forall>r \<in> set rows. \<forall>(k, v) \<in> set (backend_settings r). parse_pgpool_conf content k = Some v))"
proof (cases "list_all be_reachable (map (backend_entry_of pool local_cfg peer_cfg) (np_members pool))")
  case False
  thus ?thesis by (auto simp: gen_pgpool_def get_pgpool_backends_def Let_def list_all_iff)
next
  case True
  let ?es = "map (backend_entry_of pool local_cfg peer_cfg) (np_members pool)"
  define rows where "rows = map row_of (sort_key be_node_id ?es)"
  have gen: "gen_pgpool (get_pgpool_backends pool local_cfg peer_cfg) = Inr (rows, render_pgpool_fragment rows)"
    using True by (simp add: gen_pgpool_def get_pgpool_backends_def Let_def rows_def)
  have "map br_id rows = map be_node_id (sort_key be_node_id ?es)" by (simp add: rows_def row_of_def)
  hence ids: "map br_id rows = sort (map nc_id (np_members pool))" by (simp only: map_sort_key) (simp add: comp_def entry_id)
  have each: "\<exists>c. \<lparr>br_id = nc_id n, br_hostname = nc_hostname n, br_port = ncr_pg_port c, br_data_dir = ncr_pg_data_dir c\<rparr> \<in> set rows \<and>
      (if is_local pool n then local_cfg = Inr c else peer_cfg (nc_id n) = Inr (Inr c))" if n: "n \<in> set (np_members pool)" for n
  proof -
    from True n have "be_reachable (backend_entry_of pool local_cfg peer_cfg n)" by (simp add: list_all_iff)
    moreover from n have "row_of (backend_entry_of pool local_cfg peer_cfg n) \<in> set rows" by (simp add: rows_def)
    ultimately show ?thesis by (metis entry_reachable)
  qed
  have "\<forall>(k, v) \<in> set (backend_settings r). parse_pgpool_conf (render_pgpool_fragment rows) k = Some v"
    if "distinct (map nc_id (np_members pool))" "\<forall>r \<in> set rows. clean (br_hostname r) \<and> clean (br_data_dir r)" "r \<in> set rows" for r
  proof -
    from that(1) have "distinct (map br_id rows)" by (simp add: ids)
    with that rendered_rows [of rows r] show ?thesis by blast
  qed
  with gen ids each rendered_passes [of path rows] show ?thesis by (simp only: sum.case prod.case) blast
qed

definition ex_pgpool_pool :: node_pool where
  "ex_pgpool_pool = \<lparr>np_members = [\<lparr>nc_id = 1, nc_hostname = ''n1''\<rparr>, \<lparr>nc_id = 0, nc_hostname = ''n0''\<rparr>], np_local_node_id = 0\<rparr>"

definition ex_node_cfg :: node_config_response where
  "ex_node_cfg = \<lparr>ncr_pg_port = 5432, ncr_pg_data_dir = ''/pg''\<rparr>"

theorem generated_conf_passes_check_witness:
  "\<exists>rows content shown. gen_pgpool (get_pgpool_backends ex_pgpool_pool (Inr ex_node_cfg) (\<lambda>_. Inr (Inr ex_node_cfg))) = Inr (rows, content) \<and>
     map br_id rows = [0, 1] \<and> check_hooks ''pgpool.conf'' (Inr content) = Inr (shown, 0) \<and>
     parse_pgpool_conf content ''backend_hostname1'' = Some ''n1''"
proof -
  let ?rows = "[\<lparr>br_id = 0, br_hostname = ''n0'', br_port = 5432, br_data_dir = ''/pg''\<rparr>,
      \<lparr>br_id = 1, br_hostname = ''n1'', br_port = 5432, br_data_dir = ''/pg''\<rparr>] :: backend_row list"
  have gen: "gen_pgpool (get_pgpool_backends ex_pgpool_pool (Inr ex_node_cfg) (\<lambda>_. Inr (Inr ex_node_cfg))) = Inr (?rows, render_pgpool_fragment ?rows)"
    by (simp add: gen_pgpool_def get_pgpool_backends_def backend_entry_of_def ex_pgpool_pool_def ex_node_cfg_def is_local_def row_of_def sort_key_def Let_def)
  have "show_int 1 = ''1''" by code_simp
  hence k: "(''backend_hostname1'', ''n1'') \<in> set (backend_settings (?rows ! 1))" by (simp add: backend_settings_def)
  have hyp: "distinct (map nc_id (np_members ex_pgpool_pool))" "\<forall>r \<in> set ?rows. clean (br_hostname r) \<and> clean (br_data_dir r)"
    by (simp_all add: ex_pgpool_pool_def clean_def)
  have "?rows ! 1 \<in> set ?rows" by simp
  with generated_conf_passes_check [of ex_pgpool_pool "Inr ex_node_cfg" "\<lambda>_. Inr (Inr ex_node_cfg)" "''pgpool.conf''", unfolded gen sum.case prod.case] hyp k
  have "parse_pgpool_conf (render_pgpool_fragment ?rows) ''backend_hostname1'' = Some ''n1''"
    "\<exists>shown. check_hooks ''pgpool.conf'' (Inr (render_pgpool_fragment ?rows)) = Inr (shown, 0)"
    by blast+
  with gen show ?thesis by (intro exI [of _ ?rows]) auto
qed

end
