(* ===== verification/AgentCtl.thy ===== *)
theory AgentCtl
  imports ClusterOps Timeline PgpoolConf
begin

text \<open>
  The operator's command line, \<open>crates/pg-agentctl/src/main.rs\<close>: the exit codes and texts of the commands
  that relay an answer of the daemon, the consensus header, and the status table with the node it marks.
  Argument parsing is clap's; the JSON documents hold the same values as the texts and are left out; the
  formatting of a quotient of floats is a parameter.
\<close>

section \<open>Relaying an answer\<close>

definition rpc_failed :: "string \<Rightarrow> string \<Rightarrow> string" where
  "rpc_failed rpc m = rpc @ '' RPC failed: '' @ m"

text \<open>\<open>main\<close>: an error is printed, and the code is 1.\<close>

definition ctl_exit :: "(string, cli_output list \<times> nat) result \<Rightarrow> cli_output list \<times> nat" where
  "ctl_exit r = (case r of Inr x \<Rightarrow> x | Inl e \<Rightarrow> ([Err (''pg_agentctl: '' @ e)], 1))"

text \<open>The socket: the flag, else the one of a configuration that loads, else the default.\<close>

definition resolve_socket_path :: "string option \<Rightarrow> (string, string option) result option \<Rightarrow> string \<Rightarrow> (string, string) result" where
  "resolve_socket_path flag cfg config_path =
     (case flag of
        Some p \<Rightarrow> Inr p
      | None \<Rightarrow>
          (case cfg of
             None \<Rightarrow> Inr default_socket
           | Some (Inl e) \<Rightarrow> Inl (''load config '' @ config_path @ '': '' @ e)
           | Some (Inr (Some s)) \<Rightarrow> Inr s
           | Some (Inr None) \<Rightarrow> Inr default_socket))"

definition relay :: "string \<Rightarrow> string \<Rightarrow> string \<Rightarrow> (string, op_result) result \<Rightarrow> (string, cli_output list \<times> nat) result" where
  "relay rpc command empty_text ans =
     (case ans of
        Inl m \<Rightarrow> Inl (rpc_failed rpc m)
      | Inr r \<Rightarrow>
          Inr ([if or_ok r then Out (if or_message r = [] \<and> empty_text \<noteq> [] then empty_text else ''OK: '' @ or_message r)
                else Err (command @ '': '' @ or_message r)],
               if or_ok r then 0 else 1))"

definition ctl_start_primary :: "(string, op_result) result \<Rightarrow> (string, cli_output list \<times> nat) result" where
  "ctl_start_primary = relay ''ClusterStartPrimary'' ''cluster start-primary'' []"

definition ctl_recover :: "i32 \<Rightarrow> (string, op_result) result \<Rightarrow> (string, cli_output list \<times> nat) result" where
  "ctl_recover target = relay ''ClusterRecover'' ''cluster recover'' (''OK (node '' @ show_int target @ '')'')"

definition ctl_handoff :: "i32 \<Rightarrow> (string, op_result) result \<Rightarrow> (string, cli_output list \<times> nat) result" where
  "ctl_handoff target = relay ''ClusterHandoff'' ''cluster handoff'' (''OK (handed off to node '' @ show_int target @ '')'')"

definition ctl_set_pause :: "bool \<Rightarrow> (string, op_result) result \<Rightarrow> (string, cli_output list \<times> nat) result" where
  "ctl_set_pause pause = relay ''SetPause'' (''cluster '' @ (if pause then ''pause'' else ''resume'')) []"

text \<open>Disarming quorum commit asks for a confirmation before anything is sent.\<close>

definition ctl_allow_async :: "bool \<Rightarrow> (string, op_result) result \<Rightarrow> (string, cli_output list \<times> nat) result" where
  "ctl_allow_async confirm ans =
     (if \<not> confirm then
        Inr ([Err (''allow-async disarms quorum commit: until a standby attaches, every acknowledged write exists on ONE node '' @
               ''only and dies with it. Re-run with --confirm to proceed.'')], 1)
      else relay ''AllowAsync'' ''cluster allow-async'' [] ans)"

text \<open>\<open>maintenance retry\<close>, \<open>ops resume\<close> and \<open>ops abandon\<close>.\<close>

definition relay_message :: "string \<Rightarrow> string \<Rightarrow> (string, op_result) result \<Rightarrow> (string, cli_output list \<times> nat) result" where
  "relay_message rpc i ans =
     (case ans of
        Inl m \<Rightarrow> Inl (rpc_failed (rpc @ ''('' @ i @ '')'') m)
      | Inr r \<Rightarrow> Inr (if or_message r = [] then [] else [Out (or_message r)], if or_ok r then 0 else 1))"

section \<open>The consensus header\<close>

definition print_consensus :: "consensus_status \<Rightarrow> string list" where
  "print_consensus c =
     (if \<not> cn_membership_formed c then
        [''consensus: MEMBERSHIP NOT FORMED '' @ [CHR 0xE2, CHR 0x80, CHR 0x94] @ '' this pool has no voters, so no leader can be elected and '' @
           ''no lease can be read or granted. Restart pg_agentd to form it from the configured [[pool]].'', []]
      else
        [''consensus: raft leader '' @ (case cn_raft_leader c of Some i \<Rightarrow> ''node '' @ show_int i | None \<Rightarrow> ''none (election in flight)''),
         ''lease:     '' @
           (if cn_error c \<noteq> [] then ''UNKNOWN '' @ [CHR 0xE2, CHR 0x80, CHR 0x94] @ '' '' @ cn_error c
            else case cn_lease c of
                Some l \<Rightarrow> ''node '' @ show_int (pl_holder l) @ '' (term '' @ show_nat (unat (pl_term l)) @ '', since '' @ pl_since l @ '')''
              | None \<Rightarrow> ''vacant (no node holds it)''),
         []])"

section \<open>The status table\<close>

record status_row =
  sr_id :: i32
  sr_hostname :: string
  sr_result :: "(string, node_status) result"

definition status_row_from :: "status_entry \<Rightarrow> status_row" where
  "status_row_from e =
     \<lparr>sr_id = se_node_id e, sr_hostname = se_hostname e,
      sr_result = (if se_reachable e then
          (case se_status e of Some s \<Rightarrow> Inr s | None \<Rightarrow> Inl ''daemon: reachable=true but status missing'')
        else Inl (se_error e))\<rparr>"

datatype lead_basis = RunningPrimaries | ColdTimelines

definition runs_as_primary :: "status_row \<Rightarrow> bool" where
  "runs_as_primary r =
     (case sr_result r of Inr s \<Rightarrow> is_postgres_status_ok s \<and> is_postgres_running s \<and> \<not> is_in_recovery s | Inl _ \<Rightarrow> False)"

definition ranked_primary :: "status_row \<Rightarrow> (i32 \<times> u64 \<times> i32) option" where
  "ranked_primary r =
     (case sr_result r of
        Inr s \<Rightarrow> if timeline_id s = 0 \<and> current_wal_lsn s = 0 then None else Some (timeline_id s, current_wal_lsn s, sr_id r)
      | Inl _ \<Rightarrow> None)"

definition known_timeline :: "status_row \<Rightarrow> (i32 \<times> i32) option" where
  "known_timeline r = (case sr_result r of Inr s \<Rightarrow> if 0 < timeline_id s then Some (timeline_id s, sr_id r) else None | Inl _ \<Rightarrow> None)"

definition status_lead :: "status_row list \<Rightarrow> (i32 \<times> lead_basis) option" where
  "status_lead rows =
     (let primaries = filter runs_as_primary rows in
      if 2 \<le> length primaries then
        map_option (\<lambda>(tl, lsn, i). (i, RunningPrimaries)) (max_by_key (\<lambda>(tl, lsn, i). (tl, lsn)) (List.map_filter ranked_primary primaries))
      else if primaries = [] then
        let known = List.map_filter known_timeline rows in
        (case max_by_key id (map fst known) of
           Some highest \<Rightarrow>
             if length (filter (\<lambda>(tl, _). tl = highest) known) = 1 then
               map_option (\<lambda>(_, i). (i, ColdTimelines)) (find (\<lambda>(tl, _). tl = highest) known)
             else None
         | None \<Rightarrow> None)
      else None)"

text \<open>\<open>fmt d n k\<close>: the quotient of \<open>n\<close> by \<open>k\<close> with \<open>d\<close> decimals.\<close>

definition format_lag_bytes :: "(nat \<Rightarrow> int \<Rightarrow> int \<Rightarrow> string) \<Rightarrow> int \<Rightarrow> string" where
  "format_lag_bytes fmt n =
     (if n \<le> 0 then ''0''
      else if n < 1024 then fmt 0 n 1 @ '' B''
      else if n < 1024 * 1024 then fmt 1 n 1024 @ '' KiB''
      else if n < 1024 * 1024 * 1024 then fmt 1 n (1024 * 1024) @ '' MiB''
      else fmt 2 n (1024 * 1024 * 1024) @ '' GiB'')"

definition format_status_cells :: "(nat \<Rightarrow> int \<Rightarrow> int \<Rightarrow> string) \<Rightarrow> i32 \<Rightarrow> string \<Rightarrow> node_status \<Rightarrow> string list" where
  "format_status_cells fmt i hostname s =
     (let pg_known = is_postgres_status_ok s \<and> is_postgres_running s in
      [show_int i, hostname,
       if \<not> pg_known then ''unknown'' else if is_in_recovery s then ''standby'' else ''primary'',
       service_state (is_postgres_running s) (is_postgres_status_ok s),
       service_state (is_pgpool_running s) (is_pgpool_status_ok s),
       if is_ready s then ''yes'' else ''no'',
       if pg_known \<and> is_in_recovery s then format_lag_bytes fmt (replication_lag_bytes s) else ''-'',
       if pg_known \<and> is_in_recovery s then (if replication_state s = [] then ''unknown'' else replication_state s) else ''-''])"

abbreviation dash :: string where "dash \<equiv> [CHR 0xE2, CHR 0x80, CHR 0x94]"

definition format_unreachable_cells :: "i32 \<Rightarrow> string \<Rightarrow> string list" where
  "format_unreachable_cells i hostname = [show_int i, hostname, dash, dash, dash, dash, dash, dash]"

definition row_cells :: "(nat \<Rightarrow> int \<Rightarrow> int \<Rightarrow> string) \<Rightarrow> i32 option \<Rightarrow> bool \<Rightarrow> bool \<Rightarrow> status_row \<Rightarrow> string list" where
  "row_cells fmt lead_id show_tl show_lsn r =
     (let cells = (case sr_result r of
            Inr s \<Rightarrow> format_status_cells fmt (sr_id r) (sr_hostname r) s
          | Inl _ \<Rightarrow> format_unreachable_cells (sr_id r) (sr_hostname r));
          cells = (if Some (sr_id r) = lead_id then cells[2 := cells ! 2 @ ''*''] else cells)
      in cells @
         (if show_tl then [case sr_result r of
              Inr s \<Rightarrow> if 0 < timeline_id s then show_int (timeline_id s) else ''-'' | Inl _ \<Rightarrow> dash] else []) @
         (if show_lsn then [case sr_result r of
              Inr s \<Rightarrow> if is_postgres_status_ok s \<and> is_postgres_running s \<and> current_wal_lsn s \<noteq> 0 then format_lsn (current_wal_lsn s) else ''-''
            | Inl _ \<Rightarrow> dash] else []))"

text \<open>Cells are padded by their characters: a dash is one character of three bytes.\<close>

definition char_count :: "string \<Rightarrow> nat" where
  "char_count s = length (filter (\<lambda>c. \<not> (128 \<le> (of_char c :: nat) \<and> (of_char c :: nat) < 192)) s)"

definition pad_cell :: "nat \<Rightarrow> nat \<Rightarrow> string \<Rightarrow> string" where
  "pad_cell i width c =
     (let fill = replicate (width - char_count c) CHR '' '' in if i = 0 \<or> i = 6 then fill @ c else c @ fill)"

definition write_row :: "nat list \<Rightarrow> string list \<Rightarrow> string" where
  "write_row widths row = join ''  '' (map (\<lambda>(i, c). pad_cell i (widths ! i) c) (zip [0..<length row] row))"

definition widen :: "nat list \<Rightarrow> string list \<Rightarrow> nat list" where
  "widen widths row = map (\<lambda>(w, c). max w (length c)) (zip widths row)"

definition print_status_table :: "(nat \<Rightarrow> int \<Rightarrow> int \<Rightarrow> string) \<Rightarrow> status_row list \<Rightarrow> string list" where
  "print_status_table fmt rows =
     (let show_lsn = list_ex runs_as_primary rows;
          show_tl = list_ex (\<lambda>r. known_timeline r \<noteq> None) rows;
          lead = status_lead rows;
          headers = [''ID'', ''HOSTNAME'', ''ROLE'', ''PG'', ''PGPOOL'', ''READY'', ''LAG'', ''REPL_STATE''] @
            (if show_tl then [''TL''] else []) @ (if show_lsn then [''LSN''] else []);
          cells = map (row_cells fmt (map_option fst lead) show_tl show_lsn) rows;
          widths = fold (\<lambda>row w. widen w row) cells (map length headers);
          lost = filter (\<lambda>r. \<not> is_ok (sr_result r)) rows
      in map (write_row widths) (headers # cells) @
         (if lost = [] then [] else [[], ''unreachable nodes:''] @
            map (\<lambda>r. ''  '' @ show_int (sr_id r) @ '' '' @ sr_hostname r @ '': '' @ (case sr_result r of Inl e \<Rightarrow> e | Inr _ \<Rightarrow> [])) lost) @
         (case map_option snd lead of
            Some RunningPrimaries \<Rightarrow> [[], ''* lead primary by (timeline, LSN) '' @ dash @ '' recover other primaries to this one'']
          | Some ColdTimelines \<Rightarrow> [[], ''* furthest-ahead data directory by timeline (nothing is running) '' @ dash @
              '' `cluster start-primary` there, then recover the others to it'']
          | None \<Rightarrow> []))"

definition ctl_status :: "(nat \<Rightarrow> int \<Rightarrow> int \<Rightarrow> string) \<Rightarrow> (string, status_response) result \<Rightarrow> (string, cli_output list \<times> nat) result" where
  "ctl_status fmt ans =
     (case ans of
        Inl m \<Rightarrow> Inl (rpc_failed ''ClusterStatus'' m)
      | Inr r \<Rightarrow>
          Inr (map Out ((if cr_pause_status r = [] then [] else [''maintenance mode: '' @ cr_pause_status r]) @
                 (case cr_consensus r of Some c \<Rightarrow> print_consensus c | None \<Rightarrow> []) @
                 print_status_table fmt (map status_row_from (cr_nodes r))),
               if cr_all_reachable r then 0 else 1))"

section \<open>The marked node is the furthest ahead\<close>

lemma running_lead:
  assumes "status_lead rows = Some (i, RunningPrimaries)"
  shows "2 \<le> length (filter runs_as_primary rows) \<and>
    (\<exists>r s. r \<in> set rows \<and> runs_as_primary r \<and> sr_id r = i \<and> sr_result r = Inr s \<and>
       (\<forall>r' s'. r' \<in> set rows \<and> runs_as_primary r' \<and> sr_result r' = Inr s' \<and> ranked_primary r' \<noteq> None \<longrightarrow>
          (timeline_id s', current_wal_lsn s') \<le> (timeline_id s, current_wal_lsn s)))"
proof -
  let ?ps = "filter runs_as_primary rows" and ?f = "\<lambda>(tl, lsn, i). (tl, lsn)"
  from assms have two: "2 \<le> length ?ps" by (auto simp: status_lead_def Let_def split: if_splits option.splits)
  with assms obtain t l where m: "max_by_key ?f (List.map_filter ranked_primary ?ps) = Some (t, l, i)"
    by (auto simp: status_lead_def Let_def)
  from max_by_key_in [OF m] obtain r where r: "r \<in> set ?ps" "ranked_primary r = Some (t, l, i)"
    by (auto simp: List.map_filter_def)
  then obtain s where s: "sr_result r = Inr s" "t = timeline_id s" "l = current_wal_lsn s" "sr_id r = i"
    by (auto simp: ranked_primary_def split: sum.splits if_splits)
  have "(timeline_id s', current_wal_lsn s') \<le> (t, l)"
    if "r' \<in> set rows" "runs_as_primary r'" "sr_result r' = Inr s'" "ranked_primary r' \<noteq> None" for r' s'
  proof -
    from that(3,4) have "ranked_primary r' = Some (timeline_id s', current_wal_lsn s', sr_id r')"
      by (auto simp: ranked_primary_def split: if_splits)
    with that(1,2) have "(timeline_id s', current_wal_lsn s', sr_id r') \<in> set (List.map_filter ranked_primary ?ps)"
      by (force simp: List.map_filter_def)
    from max_by_key_max [OF m this] show ?thesis by simp
  qed
  moreover from r(1) have "r \<in> set rows" "runs_as_primary r" by simp_all
  ultimately show ?thesis using two s by blast
qed

lemma filter_single: "length (filter P xs) = 1 \<Longrightarrow> x \<in> set xs \<Longrightarrow> y \<in> set xs \<Longrightarrow> P x \<Longrightarrow> P y \<Longrightarrow> x = y"
proof -
  assume one: "length (filter P xs) = 1" and "x \<in> set xs" "y \<in> set xs" "P x" "P y"
  hence "x \<in> set (filter P xs)" "y \<in> set (filter P xs)" by simp_all
  with one show "x = y" by (cases "filter P xs") auto
qed

lemma known_in: "(t, i) \<in> set (List.map_filter known_timeline rows) \<longleftrightarrow>
    (\<exists>r \<in> set rows. known_timeline r = Some (t, i))"
  by (force simp: List.map_filter_def)

lemma known_iff: "known_timeline r = Some (t, i) \<longleftrightarrow> sr_id r = i \<and> 0 < t \<and> (\<exists>s. sr_result r = Inr s \<and> timeline_id s = t)"
  by (auto simp: known_timeline_def split: sum.splits if_splits)

lemma cold_lead:
  assumes "status_lead rows = Some (i, ColdTimelines)"
  shows "filter runs_as_primary rows = [] \<and>
    (\<exists>r s. r \<in> set rows \<and> sr_id r = i \<and> sr_result r = Inr s \<and> 0 < timeline_id s \<and>
       (\<forall>r' s'. r' \<in> set rows \<and> sr_id r' \<noteq> i \<and> sr_result r' = Inr s' \<longrightarrow> timeline_id s' < timeline_id s))"
proof -
  let ?known = "List.map_filter known_timeline rows"
  from assms have none: "filter runs_as_primary rows = []"
    by (auto simp: status_lead_def Let_def split: if_splits option.splits)
  with assms obtain t where m: "max_by_key id (map fst ?known) = Some t" and one: "length (filter (\<lambda>(tl, _). tl = t) ?known) = 1"
    and f: "\<exists>t'. find (\<lambda>(tl, _). tl = t) ?known = Some (t', i)"
    by (auto simp: status_lead_def Let_def split: if_splits option.splits)
  from f have "(t, i) \<in> set ?known" by (auto simp: find_Some_iff) (metis nth_mem)
  then obtain r s where r: "r \<in> set rows" "sr_id r = i" "sr_result r = Inr s" "timeline_id s = t" "0 < t"
    by (auto simp: known_in known_iff)
  have "timeline_id s' < t" if "r' \<in> set rows" "sr_id r' \<noteq> i" "sr_result r' = Inr s'" for r' s'
  proof (cases "0 < timeline_id s'")
    case True
    with that have k: "(timeline_id s', sr_id r') \<in> set ?known" by (auto simp: known_in known_iff)
    hence "timeline_id s' \<in> set (map fst ?known)" by force
    from max_by_key_max [OF m this] have "timeline_id s' \<le> t" by simp
    moreover have "timeline_id s' \<noteq> t"
      using filter_single [OF one k \<open>(t, i) \<in> set ?known\<close>] that(2) by auto
    ultimately show ?thesis by simp
  qed (use r(5) in simp)
  with none r show ?thesis by auto
qed

text \<open>The rows of a status answer, and the views behind them.\<close>

lemma status_row_of_view:
  "v \<in> set views \<Longrightarrow> \<lparr>sr_id = nc_id (psv_node v), sr_hostname = nc_hostname (psv_node v),
      sr_result = (case psv_status v of Inr s \<Rightarrow> Inr s | Inl m \<Rightarrow> Inl (''get_status: '' @ m))\<rparr> \<in>
    set (map status_row_from (status_rows pool local_status views))"
  by (force simp: status_rows_def status_row_from_def status_entry_of_def image_image split: sum.splits)

lemma status_row_local:
  assumes "r \<in> set (map status_row_from (status_rows pool (Inr s) views))" and "sr_id r = np_local_node_id pool"
    and "\<forall>v \<in> set views. nc_id (psv_node v) \<noteq> np_local_node_id pool"
  shows "sr_result r = Inr s"
  using assms by (auto simp: status_rows_def status_row_from_def status_entry_of_def split: option.splits sum.splits)

text \<open>
  (C20) The node the status table marks is the furthest ahead, and the daemon agrees. With several running
  primaries the marked one runs, and none with a known position is ahead of it by timeline and WAL; with
  none running it is the one node with the highest timeline of all that answered; with one running
  primary none is marked. And a local node marked in the second way is not refused by \<open>cluster start-primary\<close>
  for a timeline of its peers, on the same answers.
\<close>

theorem marked_node_is_furthest_ahead:
  assumes "rows = map status_row_from (cr_nodes (cluster_status fmt pool local_status views raft))"
    and "status_lead rows = Some (i, basis)"
  shows "length (filter runs_as_primary rows) \<noteq> 1 \<and>
    (\<exists>r s. r \<in> set rows \<and> sr_id r = i \<and> sr_result r = Inr s \<and>
       (case basis of
          RunningPrimaries \<Rightarrow> runs_as_primary r \<and>
            (\<forall>r' s'. r' \<in> set rows \<and> runs_as_primary r' \<and> sr_result r' = Inr s' \<and> ranked_primary r' \<noteq> None \<longrightarrow>
               (timeline_id s', current_wal_lsn s') \<le> (timeline_id s, current_wal_lsn s))
        | ColdTimelines \<Rightarrow> filter runs_as_primary rows = [] \<and> 0 < timeline_id s \<and>
            (\<forall>r' s'. r' \<in> set rows \<and> sr_id r' \<noteq> i \<and> sr_result r' = Inr s' \<longrightarrow> timeline_id s' < timeline_id s) \<and>
            (\<forall>sl. local_status = Inr sl \<and> i = np_local_node_id pool \<and> (\<forall>v \<in> set views. nc_id (psv_node v) \<noteq> i) \<longrightarrow>
               timelines_ahead (timeline_id sl) views = [])))"
proof (cases basis)
  case RunningPrimaries
  with running_lead [of rows i] assms(2) show ?thesis by (simp, blast)
next
  case ColdTimelines
  with cold_lead [of rows i] assms(2) obtain r s where r: "filter runs_as_primary rows = []" "r \<in> set rows" "sr_id r = i" "sr_result r = Inr s"
    "0 < timeline_id s" "\<forall>r' s'. r' \<in> set rows \<and> sr_id r' \<noteq> i \<and> sr_result r' = Inr s' \<longrightarrow> timeline_id s' < timeline_id s" by blast
  have rows: "rows = map status_row_from (status_rows pool local_status views)"
    using assms(1) by (simp add: cluster_status_def Let_def split: prod.split)
  have "timelines_ahead (timeline_id sl) views = []"
    if "local_status = Inr sl" "i = np_local_node_id pool" "\<forall>v \<in> set views. nc_id (psv_node v) \<noteq> i" for sl
  proof -
    from status_row_local [of r pool sl views] r(2,3) that rows have "sr_result r = Inr sl" by simp
    with r(4) have "sl = s" by simp
    have "timeline_id s' \<le> timeline_id s" if v: "v \<in> set views" "psv_status v = Inr s'" for v s'
      using status_row_of_view [OF v(1), of pool local_status] r(6) v \<open>\<forall>v \<in> set views. nc_id (psv_node v) \<noteq> i\<close>
      unfolding rows by fastforce
    thus ?thesis using \<open>sl = s\<close> by (auto simp: timelines_ahead_none list_all_iff split: sum.splits)
  qed
  with ColdTimelines r show ?thesis by (intro conjI exI [of _ r] exI [of _ s]) auto
qed

definition ex_cold_status :: "i32 \<Rightarrow> node_status" where
  "ex_cold_status t = \<lparr>is_running = True, is_in_recovery = False, is_ready = False, replication_lag_bytes = 0, replication_state = [],
     is_postgres_running = False, is_pgpool_running = False, is_postgres_status_ok = True, is_pgpool_status_ok = True,
     timeline_id = t, current_wal_lsn = 0, last_flush_lsn = 0, peer_primary_seen_age_ms = []\<rparr>"

definition ex_cold_views :: "peer_status_view list" where
  "ex_cold_views = [\<lparr>psv_node = \<lparr>nc_id = 1, nc_hostname = ''n1''\<rparr>, psv_status = Inr (ex_cold_status 4)\<rparr>,
     \<lparr>psv_node = \<lparr>nc_id = 2, nc_hostname = ''n2''\<rparr>, psv_status = Inl ''down''\<rparr>]"

theorem marked_node_is_furthest_ahead_witness:
  "status_lead (map status_row_from (cr_nodes (cluster_status (\<lambda>_. []) ex_pgpool_pool (Inr (ex_cold_status 5)) ex_cold_views None))) =
     Some (0, ColdTimelines) \<and>
   timelines_ahead 5 ex_cold_views = []"
proof -
  let ?rows = "map status_row_from (cr_nodes (cluster_status (\<lambda>_. []) ex_pgpool_pool (Inr (ex_cold_status 5)) ex_cold_views None))"
  have lead: "status_lead ?rows = Some (0, ColdTimelines)" by code_simp
  have "np_local_node_id ex_pgpool_pool = 0" "\<forall>v \<in> set ex_cold_views. nc_id (psv_node v) \<noteq> 0" "timeline_id (ex_cold_status 5) = 5"
    by (simp_all add: ex_pgpool_pool_def ex_cold_views_def ex_cold_status_def)
  with marked_node_is_furthest_ahead [OF refl lead] lead show ?thesis by auto
qed

end
