(* ===== verification/Spec2Isabelle.thy ===== *)
theory Spec2Isabelle
  imports Consensus RaftStore RaftConsensus Config ClusterView HaLoop Pcp Instance RoleExec AgentLoop
    FileStore InflightOps ReplayMarkers Maintenance
    Timeline WalStore PgpoolSupervisor Healthz Guards AgentStartup
    Orchestrator Rebase Handoff Hooks ClusterOps RestoreWal HookSpec HookClient HookPath StandbyExec PeerServer PeerClient Preflight PgpoolConf AgentCtl
begin

text \<open>
  pg-agent: a verification library.

  The program (\<open>src/crates\<close>) is an agent that runs beside PostgreSQL and pgpool on every node of a
  small pool and keeps at most one of them serving as primary. Its parts and their interaction:

  \<^item> A replicated document (\<open>ClusterState\<close>: generation, lease, pause and switchover marks) is kept by a
    \<open>ConsensusStore\<close>. In production it is the state machine of a Raft group over a \<open>redb\<close> file; the
    tests use an in-memory store.
  \<^item> Every \<open>loop_wait\<close> the HA loop reads the document, looks at the local database and asks every peer
    for its status, and decides one thing: retain, follow, stand down, demote or take over. A takeover
    is a compare-and-swap on the lease.
  \<^item> The role executor carries the decision out through the instance layer (promote, stop, follow,
    detach), the local database (quorum commit, slots) and pgpool's control protocol.
  \<^item> The configuration gives the pool, the timing and the node's own identity.

  Theories, in the order they build on each other:

  \<^item> \<open>PgPrelude\<close>: Rust types and the parts of the standard library the sources use, with their lemmas.
  \<^item> \<open>Consensus\<close> (\<open>consensus.rs\<close>): the document, the store trait as a record of operations
    (\<open>consensus_store\<close>), the in-memory store with its fault injection (\<open>im_...\<close>). The contract of the
    trait is the locale \<open>lease_store\<close>, linearizability over an abstract document, and the in-memory
    store is an interpretation of it.
  \<^item> \<open>RaftStore\<close> (\<open>raftstore.rs\<close>): the log store (\<open>append_entries\<close>, \<open>truncate_log\<close>, \<open>purge_log\<close>, votes,
    committed index), the state machine (\<open>apply_command\<close>, \<open>sm_apply\<close>, \<open>persist\<close>) and snapshots over a
    database whose transactions either commit or fail. Shown: fencing terms only grow, a deposed term
    is dead, what is acknowledged is durable, a snapshot catches up, the log has no holes.
  \<^item> \<open>RaftConsensus\<close> (\<open>raftconsensus.rs\<close> and the leader-forwarding part of \<open>raftnet.rs\<close>): proposing,
    forwarding to the leader, reading linearizably, and bootstrapping the membership. openraft and the
    network are the record \<open>raft_world\<close>; what the code relies on is the locale \<open>raft_cluster\<close>: the
    committed log grows, a write that answers stands in it, a read after \<open>ensure_linearizable\<close> is not
    older than its start. From it \<open>lease_store\<close> follows by a \<open>sublocale\<close>. A single-voter cluster over
    the storage of \<open>RaftStore\<close> interprets \<open>raft_cluster\<close>.
  \<^item> \<open>Config\<close> (\<open>config.rs\<close>, \<open>errors.rs\<close>, part of \<open>pgstandby.rs\<close>): schema, defaults, overrides, resolving the
    local node, validation and the projections the other parts are built from.
  \<^item> \<open>ClusterView\<close> (\<open>cluster_view.rs\<close>): the status fan-out, sightings of peers, WAL positions.
  \<^item> \<open>HaLoop\<close> (\<open>ha.rs\<close>): one tick, with every arm and every gate of the candidacy, and the run of ticks.
    Shown: who may take over and on what evidence, that the takeover is what was committed, that
    exactly one candidate is left among nodes that see each other, that failover completes, and what
    an unreadable store, a paused cluster and a stuck promotion lead to.
  \<^item> \<open>Pcp\<close> (\<open>pcp.rs\<close>): pgpool's command line client and its parsers.
  \<^item> \<open>Instance\<close> (\<open>pgman/instance.rs\<close>): promote, stop, follow, rebuild, detach as results with the
    sequence of calls they make.
  \<^item> \<open>RoleExec\<close> (\<open>roleexec.rs\<close>): what is done about each decision.
  \<^item> \<open>AgentLoop\<close> (\<open>run\<close> of \<open>ha.rs\<close>): the loop with its executor on one node, and the interleaved passes of
    a pool of nodes over one Raft cluster.
  \<^item> \<open>FileStore\<close>: the directory of JSON documents under the durable stores, with the faults of the disk;
    \<open>doc_journal\<close> is the interface of a store whose changes keep a document's identifier. Shown: a crash
    never tears a document.
  \<^item> \<open>InflightOps\<close> (\<open>inflight_ops.rs\<close>): the journal of orchestrations and the ownership queries.
    Shown: single flight, and that ownership ends by evidence.
  \<^item> \<open>ReplayMarkers\<close> (\<open>replay_markers.rs\<close>): the markers of completed hooks and their retention.
  \<^item> \<open>Maintenance\<close> (\<open>maintenance.rs\<close>): the retry queue, a second interpretation of \<open>doc_journal\<close>, and its
    worker. Shown: a queued drop respects the journal, and retries are bounded and nothing forgotten.
  \<^item> \<open>Timeline\<close> (\<open>pgman/timeline.rs\<close>): LSN text, history files, and whether a timeline may be followed.
  \<^item> \<open>WalStore\<close> (\<open>pgman/walstore.rs\<close>): serving and restoring WAL segments over a file system with links
    and faults. Shown: a restore is contained and atomic.
  \<^item> \<open>PgpoolSupervisor\<close> (\<open>pgpool_supervisor.rs\<close>), \<open>Healthz\<close> (\<open>healthz.rs\<close>) and \<open>Guards\<close> (\<open>preconditions.rs\<close>,
    \<open>retry.rs\<close>): starting pgpool under a cap, the exact status code, and the evidence checks.
  \<^item> \<open>AgentStartup\<close> (\<open>agent.rs\<close>): the status report, the check of a primary at start-up, cold start and
    the sequence of \<open>serve\<close>. Shown: ready only with a verified or stopped primary, and a cold start of a
    primary only on the lease.
  \<^item> \<open>Orchestrator\<close> (helpers of \<open>localserver.rs\<close>): the multi-step handlers of the local server as state
    transformers over the journal, the queue, the markers and a record of calls, in an environment that
    answers each call and may let the process die before it; a weakest-precondition calculus for them;
    \<open>phase_ladder\<close>, the interface of an orchestration that journals its phases, and \<open>slot_keeper\<close>, that of
    one that owes a slot back.
  \<^item> \<open>Rebase\<close> and \<open>Handoff\<close> (\<open>localserver.rs\<close>): the rebase of a standby and the handoff of the primary role,
    with resume and abandon. Shown: the journal stays true through crashes and resumes, a handoff acts
    only when its checks allow it and completes when nothing fails, a rebase gives its slot back; and the
    windows in which a resume draws the wrong conclusion.
  \<^item> \<open>Hooks\<close> (\<open>localserver.rs\<close>): the handlers pgpool drives: failover, follow primary, recovery, remote start,
    escalation. Shown: a failed recovery gives its slot back, an operation in progress keeps its own, and
    only the slot of a standby that is dead by evidence is dropped.
  \<^item> \<open>ClusterOps\<close> (\<open>localserver.rs\<close>): cluster init, recover, start-primary, pause, status, and the retry of
    maintenance. Shown: a primary is started only on the lease, and a node attached only when running.
  \<^item> \<open>RestoreWal\<close> (\<open>localserver.rs\<close>): the restore of a WAL file from the peers, with the screening of history
    files and the cool-down of silent peers, over \<open>WalStore\<close> and \<open>Timeline\<close>.
  \<^item> \<open>HookSpec\<close> (\<open>pg-agent-hookspec\<close>) and \<open>HookClient\<close> (\<open>pg-agentc\<close>): the argument schemas, the canonical
    commands, the requests built from a command line, the timeout text, and the exit code. Shown: a
    canonical command parses back to its arguments, requests are well typed, exit code 0 means accepted.
  \<^item> \<open>HookPath\<close>: client, schema and handler composed. Shown: what a \<open>failover_command\<close> may do to the
    cluster, and that a \<open>restore_command\<close> exits with 0 only with the file restored.
  \<^item> \<open>StandbyExec\<close> (\<open>pgman/pgstandby.rs\<close>): the checks of parameters, the driver of \<open>pg_basebackup\<close> and
    \<open>pg_rewind\<close> with its reader and watchdog, clearing the data directory, and the recovery configuration.
    Shown: output is read by lines however it is cut, the configuration reads back, a node is made a
    standby only with its configuration in place, a silent tool is killed.
  \<^item> \<open>PeerServer\<close> (\<open>peerserver.rs\<close>) and \<open>PeerClient\<close> (\<open>peers.rs\<close>): the handlers of a peer and their streams, the
    client's reading of answers, and the pool of channels. Shown: a remote basebackup overwrites only a
    stopped node and is reported done only when it is, a fetched WAL file is the archived one, a broken
    channel is never served again.
  \<^item> \<open>Preflight\<close> (\<open>preflight.rs\<close>): the checks of the host before the daemon starts. Shown: the scan of the
    includes is reachability over the files of the configuration, and the gate opens exactly on a host
    that meets the list of conditions.
  \<^item> \<open>PgpoolConf\<close> (\<open>pg-agentctl\<close>, \<open>localserver.rs\<close>): collecting the addresses of the pool, rendering the
    configuration of pgpool, and checking one against the canonical hooks. Shown: what is generated is
    complete, passes the check and reads back.
  \<^item> \<open>AgentCtl\<close> (\<open>pg-agentctl\<close>): the commands that relay an answer, the consensus header and the status table.
    Shown: the node the table marks is the furthest ahead, and \<open>cluster start-primary\<close> agrees.

  This theory holds the properties that span the store, the loop and the executor: promotion needs the
  lease, promotions of a pool are fenced by their terms, and a node that may not serve is stopped.

  State and effects. Stateful objects are records passed along and returned; collaborators behind a
  trait are given by their answers, and operations whose order of calls matters return the calls they
  made. Errors are sums with the error on the left. Times are natural numbers of nanoseconds, wall
  clocks integers, and the generation, terms and log positions 64-bit words; the theorems about terms
  carry the bound under which the generation does not wrap.

  Loops. Every loop of the model is structural recursion, on its input or on the sequence of clock
  readings and answers it sees; the theorems about a polling loop state that it returns once a reading
  passes the deadline. There is no fuel.

  Not modelled. openraft, tonic, redb, tokio, serde and TOML are outside: they appear as parameters or
  as the data they deliver. Of \<open>localserver.rs\<close> the listings of the journal and the queue and the
  serving of the socket are left out; of \<open>agent.rs\<close> the building and draining of the subsystems; of
  \<open>peerserver.rs\<close> and \<open>peers.rs\<close> listening, dialing and compression; of \<open>pg-agentctl\<close> argument parsing, the JSON
  documents and the listings. The subprocess and SQL wrappers (\<open>process.rs\<close>, \<open>localdb.rs\<close>), certificate
  reloading, the glue for systemd and symbolic links and \<open>pg-agentd\<close> are not modelled: mostly they are input
  and output. The protocol crate is generated.
\<close>

section \<open>Promotion needs the lease\<close>

lemma pass_under_lease:
  assumes "lease_store ops docf" and "\<forall>s. doc_reach (docf s) (docf (env_between env s))"
    and "tick_once ops pool tm env hw = (d, hw')" and "promotes d"
  shows "\<exists>c l. doc_reach (docf (hw_store hw)) c \<and> doc_reach c (docf (hw_store hw')) \<and>
    cs_lease c = Some l \<and> lease_holder l = np_local_node_id pool \<and> lease_term l = decision_term d"
  using pass_promotes [OF assms(3,4)]
proof (elim disjE exE conjE)
  fix x s l st
  assume t: "st_try_takeover ops (np_local_node_id pool) x (env_wall env) (env_between env s) =
      (Inr (Won l), hw_store hw')" "lease_term l = decision_term d"
    and r: "st_read_state ops (hw_store hw) = (Inr st, s)"
  from lease_store.takeover_ok [OF assms(1) t(1)] obtain c where
    c: "doc_reach (docf (env_between env s)) c"
      "Won l = fst (spec_takeover (np_local_node_id pool) x (env_wall env) c)"
      "doc_reach (snd (spec_takeover (np_local_node_id pool) x (env_wall env) c)) (docf (hw_store hw'))"
    by blast
  have "doc_reach (docf (hw_store hw)) c"
    using lease_store.read_reaches [OF assms(1) r] assms(2) c(1) by (meson rtranclp_trans)
  hence "doc_reach (docf (hw_store hw)) (snd (spec_takeover (np_local_node_id pool) x (env_wall env) c))"
    by (rule rtranclp.rtrancl_into_rtrancl) (rule step_takeover)
  moreover from c(2) have "cs_lease (snd (spec_takeover (np_local_node_id pool) x (env_wall env) c)) = Some l"
    "lease_holder l = np_local_node_id pool"
    by (auto simp: spec_takeover_def Let_def split: if_splits)
  ultimately show ?thesis using c(3) t(2) by blast
next
  fix st l
  assume "st_read_state ops (hw_store hw) = (Inr st, hw_store hw')" "cs_lease st = Some l"
    "lease_holder l = np_local_node_id pool" "lease_term l = decision_term d"
  with lease_store.read_ok [OF assms(1)] show ?thesis by blast
qed

lemma run_step_parts:
  assumes "run_step ops cfg tm env an hw ex = ((d, lvl, calls), hw', ex')"
  shows "\<exists>hw1. tick_once ops (rx_pool cfg) tm env hw = (d, hw1) \<and> hw_store hw1 = hw_store hw'"
    and "exec_apply cfg an d ex = (ex', calls)"
  using assms by (auto simp: run_step_def Let_def split: prod.splits)

text \<open>
  (C2) No promotion without the lease. Over any lease store, whatever the other nodes commit before,
  during and after, whatever the collaborators answer: if a pass of the loop asks the local PostgreSQL
  to promote, then some document committed during that pass gave the lease to this node, with the
  term the decision carries.
\<close>

theorem promotion_only_under_own_lease:
  assumes "lease_store ops docf" and "\<forall>s. doc_reach (docf s) (docf (env_between env s))"
    and "run_step ops cfg tm env an hw ex = ((d, lvl, calls), hw', ex')"
    and "list_ex promote_call calls"
  shows "\<exists>c l. doc_reach (docf (hw_store hw)) c \<and> doc_reach c (docf (hw_store hw')) \<and>
    cs_lease c = Some l \<and> lease_holder l = np_local_node_id (rx_pool cfg) \<and> lease_term l = decision_term d"
proof -
  from run_step_parts [OF assms(3)] obtain hw1 where
    t: "tick_once ops (rx_pool cfg) tm env hw = (d, hw1)" "hw_store hw1 = hw_store hw'"
    and x: "exec_apply cfg an d ex = (ex', calls)" by blast
  from pass_under_lease [OF assms(1,2) t(1) promote_call_promotes [OF x assms(4)]] t(2)
  show ?thesis by simp
qed

theorem promotion_only_under_own_lease_witness:
  "\<exists>c l. doc_reach ha_doc c \<and> cs_lease c = Some l \<and> lease_holder l = 2 \<and> lease_term l = 8"
proof -
  obtain hw where run:
    "tick_once in_memory_ops ha_pool ha_tm (ha_env (secs 100)) ha_start = (TookOver 8 False, hw)"
    using ha_tick by blast
  have p: "rx_pool rx_cfg = ha_pool" by (simp add: rx_cfg_def)
  have st: "run_step in_memory_ops rx_cfg ha_tm (ha_env (secs 100)) rx_answers ha_start
      (role_executor_new False) =
      ((TookOver 8 False, fst (log_decision (TookOver 8 False) (hw_tick hw)),
        snd (exec_apply rx_cfg rx_answers (TookOver 8 False) (role_executor_new False))),
       hw\<lparr>hw_tick := snd (log_decision (TookOver 8 False) (hw_tick hw))\<rparr>,
       fst (exec_apply rx_cfg rx_answers (TookOver 8 False) (role_executor_new False)))"
    by (simp add: run_step_def p run case_prod_beta)
  have b: "\<forall>s. doc_reach (im_state s) (im_state (env_between (ha_env (secs 100)) s))"
    by (simp add: ha_env_fields)
  have "list_ex promote_call (snd (exec_apply rx_cfg rx_answers (TookOver 8 False) (role_executor_new False)))"
    unfolding rx_promotion by (simp add: promote_call_def)
  from promotion_only_under_own_lease [OF mem.lease_store_axioms b st this] show ?thesis
    by (auto simp: ha_start_def im_install_def rx_cfg_def ha_pool_def decision_term_def)
qed

section \<open>Promotions of a pool are fenced by their terms\<close>


text \<open>
  Two nodes over the single-voter cluster: node 1 holds the lease at term 1 and promotes; then node 2
  takes the lease from it (term 2) and promotes.
\<close>

definition duo_cfg :: "i32 \<Rightarrow> role_cfg" where
  "duo_cfg i = rx_cfg\<lparr>rx_pool := ha_pool\<lparr>np_local_node_id := i\<rparr>\<rparr>"

definition duo_node :: "nat \<Rightarrow> agent_node" where
  "duo_node i = \<lparr>ag_me = 0, ag_cfg = duo_cfg (int i), ag_timing = ha_tm, ag_tick = tick_state_new,
     ag_seen = None, ag_channels = [], ag_exec = role_executor_new False\<rparr>"

definition duo_env :: "solo_db rc_state tick_env" where
  "duo_env = \<lparr>env_now = secs 100, env_wall = 0, env_read_in_time = True,
     env_db = \<lparr>db_is_in_recovery = Inr True, db_timeline_id = Inr 1, db_flush_lsn = Inr 100,
               db_lag_state = Inr ''none''\<rparr>,
     env_fanout_start = 0, env_completions = [], env_fanout_done = 0, env_jitter_ms = 0,
     env_between = (\<lambda>s. s)\<rparr>"

definition duo_takes :: "solo_db \<Rightarrow> solo_db" where
  "duo_takes s = rc_world (snd (rc_try_takeover solo_world 0 2 (Some (1, 1)) 8
     \<lparr>rc_world = s, rc_channels = []\<rparr>))"

definition duo_passes :: "solo_db pass list" where
  "duo_passes =
     [\<lparr>ps_node = 1, ps_before = (\<lambda>s. s), ps_env = duo_env, ps_answers = rx_answers\<rparr>,
      \<lparr>ps_node = 2, ps_before = duo_takes, ps_env = duo_env, ps_answers = rx_answers\<rparr>]"

lemma duo_fair: "list_all (fair_pass solo_log) duo_passes"
proof -
  have "prefix (solo_log s) (solo_log (duo_takes s))" for s
    using raft_cluster.rc_ops_grow(1) [OF solo.raft_cluster_axioms, where me = 0 and c = 2
        and x = "Some (1, 1)" and now = 8 and st = "\<lparr>rc_world = s, rc_channels = []\<rparr>",
        OF prod.collapse [symmetric]]
    by (simp add: duo_takes_def)
  thus ?thesis by (simp add: duo_passes_def fair_pass_def growing_def duo_env_def)
qed

lemma duo_step:
  assumes "rc_read_state solo_world 0 \<lparr>rc_world = s, rc_channels = []\<rparr> =
      (Inr doc, \<lparr>rc_world = s, rc_channels = []\<rparr>)"
    and "cs_paused doc = None" and "cs_lease doc = Some l" and "lease_holder l = int i"
  shows "\<exists>lvl calls n'. node_step solo_world duo_env rx_answers (duo_node i) s =
    ((AwaitingPromotion (lease_term l) 0, lvl, calls), n', s) \<and> list_ex promote_call calls"
proof -
  let ?st = "\<lparr>rc_world = s, rc_channels = []\<rparr>" and ?d = "AwaitingPromotion (lease_term l) 0"
  let ?hw = "\<lparr>hw_tick = tick_state_new, hw_seen = None, hw_store = ?st\<rparr>"
  have r: "st_read_state (rc_ops solo_world 0) (hw_store ?hw) = (Inr doc, ?st)"
    using assms(1) by (simp add: rc_ops_def)
  obtain peers seen where p: "observe_peers (rx_pool (duo_cfg (int i))) duo_env (hw_seen ?hw) = (peers, seen)"
    by fastforce
  obtain ts sn where t: "tick_once (rc_ops solo_world 0) (rx_pool (duo_cfg (int i))) ha_tm duo_env ?hw =
      (?d, \<lparr>hw_tick = ts, hw_seen = sn, hw_store = ?st\<rparr>)"
    unfolding tick_once_eq [OF r p]
    by (simp add: duo_env_def duo_cfg_def assms(2-4) lease_arm_def own_lease_arm_def observe_local_def
        tick_state_new_def promotion_grace_def ha_tm_def unwrap_or_def secs_def Let_def)
  obtain ex' calls where x: "exec_apply (duo_cfg (int i)) rx_answers ?d (role_executor_new False) = (ex', calls)"
    by fastforce
  hence "ensure_primary (duo_cfg (int i)) rx_answers (lease_term l) (role_executor_new False) = (ex', calls)"
    by (simp add: exec_apply_def)
  from ensure_primary_calls(1) [OF this] have "list_ex promote_call calls"
    by (auto simp: rx_answers_def list_ex_iff promote_call_iff)
  with t x show ?thesis
    by (auto simp: node_step_def run_step_def duo_node_def case_prod_beta)
qed

lemma duo_second: "duo_takes (rc_world solo_won) = rc_world solo_deposed"
  "rc_read_state solo_world 0 \<lparr>rc_world = rc_world solo_deposed, rc_channels = []\<rparr> =
     (Inr (default_cluster_state\<lparr>cs_generation := 2,
        cs_lease := Some \<lparr>lease_holder = 2, lease_term = 2, lease_since = 8\<rparr>\<rparr>),
      \<lparr>rc_world = rc_world solo_deposed, rc_channels = []\<rparr>)"
  "length (solo_log (rc_world solo_deposed)) = 2"
  by (simp_all add: duo_takes_def solo_deposed_def solo_won_def solo_start_def solo_eval)

lemma duo_first:
  "rc_read_state solo_world 0 \<lparr>rc_world = rc_world solo_won, rc_channels = []\<rparr> =
     (Inr (default_cluster_state\<lparr>cs_generation := 1,
        cs_lease := Some \<lparr>lease_holder = 1, lease_term = 1, lease_since = 7\<rparr>\<rparr>),
      \<lparr>rc_world = rc_world solo_won, rc_channels = []\<rparr>)"
  by (simp add: solo_won_def solo_start_def solo_eval)

lemma duo_run:
  "\<exists>log nodes'. cluster_run solo_world duo_passes duo_node (rc_world solo_won) =
     (log, nodes', rc_world solo_deposed) \<and> promotions log = [(1, 1), (2, 2)]"
proof -
  obtain l1 c1 n1 where 1: "node_step solo_world duo_env rx_answers (duo_node 1) (rc_world solo_won) =
      ((AwaitingPromotion 1 0, l1, c1), n1, rc_world solo_won)" "list_ex promote_call c1"
    using duo_step [OF duo_first, of _ 1] by (auto simp: default_cluster_state_def)
  obtain l2 c2 n2 where 2: "node_step solo_world duo_env rx_answers (duo_node 2) (rc_world solo_deposed) =
      ((AwaitingPromotion 2 0, l2, c2), n2, rc_world solo_deposed)" "list_ex promote_call c2"
    using duo_step [OF duo_second(2), of _ 2] by (auto simp: default_cluster_state_def)
  have ids: "np_local_node_id (rx_pool (ag_cfg (duo_node i))) = int i" for i
    by (simp add: duo_node_def duo_cfg_def)
  show ?thesis
    using 1 2 by (auto simp: duo_passes_def duo_second(1) ids promotions_def decision_term_def)
qed


section \<open>A node that may not serve is stopped\<close>



end
